(* ===== verification/Prelude.thy ===== *)
theory Prelude
  imports Main
begin

text \<open>
  The vocabulary every theory of this development shares.

  \<^item> \<open>err\<close>: the exceptions of the backend. The first constructors are the Nest exceptions the
    services throw, with their message (a dash of the message is written \<open>-\<close>); \<open>Prisma\<close> is an
    error the database client raises and nobody maps, \<open>StripeError\<close> and \<open>RedisError\<close> the same for
    the other two services.
  \<^item> \<open>('s, 'a) act\<close>: an async method over the state \<open>'s\<close>. It returns a value or throws, and in both
    cases leaves a state: a statement that ran before a \<open>throw\<close> keeps its effect, as it does in the
    code. \<open>await\<close> is the sequencing of the source's \<open>await\<close>, \<open>catch_err\<close> its \<open>catch\<close> and
    \<open>finally_do\<close> its \<open>finally\<close>.
  \<^item> \<open>keeps I m\<close>: the method \<open>m\<close> preserves \<open>I\<close> on every path, errors included. The collection
    \<open>keeps_rules\<close> holds one rule per combinator, so that the preservation proof of a handler is
    the preservation of its primitive statements.
  \<^item> decimal printing (\<open>String(n)\<close>) and reading (\<open>Number(s)\<close>) of integers.
\<close>

named_theorems act_simps "equations that run a method on a state"
named_theorems keeps_rules "preservation rules of the method combinators"
named_theorems handler_defs "definitions of the handlers"

type_synonym ms = int

subsection \<open>Errors\<close>

datatype prisma_error =
    P2002               \<comment> \<open>unique constraint failed\<close>
  | P2003               \<comment> \<open>foreign key constraint failed\<close>
  | P2025               \<comment> \<open>record to update or delete not found\<close>
  | PUnknown string     \<comment> \<open>PrismaClientUnknownRequestError with its message\<close>
  | PValidation         \<comment> \<open>PrismaClientValidationError: an argument of the wrong type\<close>
  | POther              \<comment> \<open>any other error of the client\<close>

datatype err =
    BadRequestException string
  | UnauthorizedException string
  | ForbiddenException string
  | NotFoundException string
  | ConflictException string
  | TooManyRequestsException string
  | InternalServerErrorException string
  | ServiceUnavailableException string
  | Prisma prisma_error
  | StripeError string
  | RedisError
  | BreakerError

fun is_http_exception :: "err \<Rightarrow> bool" where
  "is_http_exception (Prisma _) = False"
| "is_http_exception (StripeError _) = False"
| "is_http_exception RedisError = False"
| "is_http_exception BreakerError = False"
| "is_http_exception _ = True"

text \<open>The status an exception is answered with; what is no \<open>HttpException\<close> is a 500.\<close>

fun status_of :: "err \<Rightarrow> int" where
  "status_of (BadRequestException _) = 400"
| "status_of (UnauthorizedException _) = 401"
| "status_of (ForbiddenException _) = 403"
| "status_of (NotFoundException _) = 404"
| "status_of (ConflictException _) = 409"
| "status_of (TooManyRequestsException _) = 429"
| "status_of (ServiceUnavailableException _) = 503"
| "status_of _ = 500"

subsection \<open>Methods: state and exceptions\<close>

type_synonym ('s, 'a) act = "'s \<Rightarrow> (err + 'a) \<times> 's"

definition ret :: "'a \<Rightarrow> ('s, 'a) act" where
  "ret x s = (Inr x, s)"

definition throw :: "err \<Rightarrow> ('s, 'a) act" where
  "throw e s = (Inl e, s)"

definition await :: "('s, 'a) act \<Rightarrow> ('a \<Rightarrow> ('s, 'b) act) \<Rightarrow> ('s, 'b) act" where
  "await m f s = (case m s of (Inl e, s') \<Rightarrow> (Inl e, s') | (Inr x, s') \<Rightarrow> f x s')"

definition catch_err :: "('s, 'a) act \<Rightarrow> (err \<Rightarrow> ('s, 'a) act) \<Rightarrow> ('s, 'a) act" where
  "catch_err m h s = (case m s of (Inl e, s') \<Rightarrow> h e s' | (Inr x, s') \<Rightarrow> (Inr x, s'))"

definition finally_do :: "('s, 'a) act \<Rightarrow> ('s \<Rightarrow> 's) \<Rightarrow> ('s, 'a) act" where
  "finally_do m f s = (case m s of (r, s') \<Rightarrow> (r, f s'))"

definition gets :: "('s \<Rightarrow> 'a) \<Rightarrow> ('s, 'a) act" where
  "gets f s = (Inr (f s), s)"

definition modify :: "('s \<Rightarrow> 's) \<Rightarrow> ('s, unit) act" where
  "modify f s = (Inr (), f s)"

lemmas act_defs = ret_def throw_def await_def catch_err_def finally_do_def gets_def modify_def

lemma ret_run [act_simps]: "ret x s = (Inr x, s)"
  by (simp add: ret_def)

lemma throw_run [act_simps]: "throw e s = (Inl e, s)"
  by (simp add: throw_def)

lemma gets_run [act_simps]: "gets f s = (Inr (f s), s)"
  by (simp add: gets_def)

lemma modify_run [act_simps]: "modify f s = (Inr (), f s)"
  by (simp add: modify_def)

lemma await_gets [act_simps]: "await (gets f) k s = k (f s) s"
  by (simp add: await_def gets_def)

lemma await_modify [act_simps]: "await (modify f) k s = k () (f s)"
  by (simp add: await_def modify_def)

lemma await_ret [act_simps]: "await (ret x) k s = k x s"
  by (simp add: await_def ret_def)

lemma await_throw [act_simps]: "await (throw e) k s = (Inl e, s)"
  by (simp add: await_def throw_def)

lemma await_Inr: "m s = (Inr x, s') \<Longrightarrow> await m k s = k x s'"
  by (simp add: await_def)

lemma await_Inl: "m s = (Inl e, s') \<Longrightarrow> await m k s = (Inl e, s')"
  by (simp add: await_def)

text \<open>Awaiting a method that awaited another one is awaiting both in turn.\<close>

lemma await_assoc: "await (await m f) g = await m (\<lambda>x. await (f x) g)"
  by (rule ext) (simp add: await_def split: prod.split sum.split)

lemma await_returnsE:
  assumes "await m k s = (Inr y, s'')"
  obtains x s' where "m s = (Inr x, s')" and "k x s' = (Inr y, s'')"
  using assms by (auto simp: await_def split: prod.splits sum.splits)

subsection \<open>Preservation\<close>

definition keeps :: "('s \<Rightarrow> bool) \<Rightarrow> ('s, 'a) act \<Rightarrow> bool" where
  "keeps I m \<longleftrightarrow> (\<forall>s. I s \<longrightarrow> I (snd (m s)))"

lemma keepsI: "(\<And>s. I s \<Longrightarrow> I (snd (m s))) \<Longrightarrow> keeps I m"
  by (simp add: keeps_def)

lemma keepsD: "keeps I m \<Longrightarrow> I s \<Longrightarrow> I (snd (m s))"
  by (simp add: keeps_def)

lemma keeps_run: "keeps I m \<Longrightarrow> I s \<Longrightarrow> m s = (r, s') \<Longrightarrow> I s'"
  by (metis keepsD snd_conv)

lemma keeps_ret [keeps_rules]: "keeps I (ret x)"
  by (simp add: keeps_def ret_def)

lemma keeps_throw [keeps_rules]: "keeps I (throw e)"
  by (simp add: keeps_def throw_def)

lemma keeps_gets [keeps_rules]: "keeps I (gets f)"
  by (simp add: keeps_def gets_def)

lemma keeps_modify: "(\<And>s. I s \<Longrightarrow> I (f s)) \<Longrightarrow> keeps I (modify f)"
  by (simp add: keeps_def modify_def)

lemma keeps_await [keeps_rules]:
  "keeps I m \<Longrightarrow> (\<And>x. keeps I (k x)) \<Longrightarrow> keeps I (await m k)"
  unfolding keeps_def await_def by (fastforce split: prod.split sum.split)

lemma keeps_catch [keeps_rules]:
  "keeps I m \<Longrightarrow> (\<And>e. keeps I (h e)) \<Longrightarrow> keeps I (catch_err m h)"
  unfolding keeps_def catch_err_def by (fastforce split: prod.split sum.split)

lemma keeps_finally:
  "keeps I m \<Longrightarrow> (\<And>s. I s \<Longrightarrow> I (f s)) \<Longrightarrow> keeps I (finally_do m f)"
  unfolding keeps_def finally_do_def by (fastforce split: prod.split)

lemma keeps_if [keeps_rules]:
  "keeps I m \<Longrightarrow> keeps I n \<Longrightarrow> keeps I (if b then m else n)"
  by simp

lemma keeps_case_option [keeps_rules]:
  "keeps I m \<Longrightarrow> (\<And>x. keeps I (k x)) \<Longrightarrow> keeps I (case v of None \<Rightarrow> m | Some x \<Rightarrow> k x)"
  by (simp split: option.split)

lemma keeps_case_prod [keeps_rules]:
  "(\<And>a b. keeps I (k a b)) \<Longrightarrow> keeps I (case v of (a, b) \<Rightarrow> k a b)"
  by (simp split: prod.split)

lemma keeps_case_sum [keeps_rules]:
  "(\<And>e. keeps I (m e)) \<Longrightarrow> (\<And>x. keeps I (k x)) \<Longrightarrow> keeps I (case v of Inl e \<Rightarrow> m e | Inr x \<Rightarrow> k x)"
  by (simp split: sum.split)

subsection \<open>Decimal printing\<close>

fun string_of_nat :: "nat \<Rightarrow> string" where
  "string_of_nat n =
     (if n < 10 then [char_of (48 + n)] else string_of_nat (n div 10) @ [char_of (48 + n mod 10)])"

declare string_of_nat.simps [simp del]

definition string_of_int :: "int \<Rightarrow> string" where
  "string_of_int i = (if i < 0 then CHR ''-'' # string_of_nat (nat (- i)) else string_of_nat (nat i))"

definition digit_value :: "char \<Rightarrow> nat option" where
  "digit_value c = (let d = of_char c in if 48 \<le> d \<and> d \<le> 57 then Some (d - 48) else None)"

fun read_digits :: "nat \<Rightarrow> string \<Rightarrow> nat option" where
  "read_digits acc [] = Some acc"
| "read_digits acc (c # cs) =
     (case digit_value c of None \<Rightarrow> None | Some d \<Rightarrow> read_digits (acc * 10 + d) cs)"

lemma digit_value_char_of: "d < 10 \<Longrightarrow> digit_value (char_of (48 + d)) = Some d"
  by (simp add: digit_value_def)

lemma read_digits_append:
  "read_digits acc (xs @ ys) =
     (case read_digits acc xs of None \<Rightarrow> None | Some a \<Rightarrow> read_digits a ys)"
  by (induction xs arbitrary: acc) (auto split: option.split)

lemma read_string_of_nat: "read_digits 0 (string_of_nat n) = Some n"
proof (induction n rule: string_of_nat.induct)
  case (1 n)
  show ?case
  proof (cases "n < 10")
    case True
    then show ?thesis
      by (subst string_of_nat.simps) (simp add: digit_value_char_of)
  next
    case False
    with 1 have "read_digits 0 (string_of_nat (n div 10)) = Some (n div 10)" by simp
    with False show ?thesis
      by (subst string_of_nat.simps) (simp add: read_digits_append digit_value_char_of)
  qed
qed

lemma string_of_nat_nonempty: "string_of_nat n \<noteq> []"
  by (subst string_of_nat.simps) simp

lemma string_of_nat_inj: "string_of_nat m = string_of_nat n \<Longrightarrow> m = n"
  by (metis read_string_of_nat option.inject)

lemma digits_of_string_of_nat: "c \<in> set (string_of_nat n) \<Longrightarrow> digit_value c \<noteq> None"
proof (induction n rule: string_of_nat.induct)
  case (1 n)
  then show ?case
    by (subst (asm) (2) string_of_nat.simps) (auto simp: digit_value_char_of split: if_splits)
qed

lemma string_of_int_inj:
  assumes "string_of_int i = string_of_int j"
  shows "i = j"
proof -
  have minus: "CHR ''-'' \<notin> set (string_of_nat n)" for n
  proof
    assume "CHR ''-'' \<in> set (string_of_nat n)"
    then have "digit_value (CHR ''-'') \<noteq> None" by (rule digits_of_string_of_nat)
    then show False by (simp add: digit_value_def)
  qed
  have neq: "string_of_nat n \<noteq> CHR ''-'' # xs" for n xs
    using minus [of n] by (metis list.set_intros(1))
  consider "i < 0" "j < 0" | "i < 0" "0 \<le> j" | "0 \<le> i" "j < 0" | "0 \<le> i" "0 \<le> j"
    by linarith
  then show ?thesis
  proof cases
    case 1
    with assms have "nat (- i) = nat (- j)"
      by (simp add: string_of_int_def string_of_nat_inj)
    with 1 show ?thesis by simp
  next
    case 2
    with assms have "string_of_nat (nat j) = CHR ''-'' # string_of_nat (nat (- i))"
      by (simp add: string_of_int_def)
    with neq show ?thesis by blast
  next
    case 3
    with assms neq [of "nat i"] show ?thesis by (simp add: string_of_int_def)
  next
    case 4
    with assms have "nat i = nat j"
      by (simp add: string_of_int_def string_of_nat_inj)
    with 4 show ?thesis by simp
  qed
qed

subsection \<open>Reading numbers\<close>

text \<open>
  \<open>Number(s)\<close>: white space around the text is dropped and the empty text is 0; then a decimal number with sign,
  fraction and exponent, or digits after \<open>0x\<close>, \<open>0o\<close> or \<open>0b\<close>. The value is \<open>None\<close> here for \<open>NaN\<close>, the infinities
  and what is not an integer; the rounding of a double is left out.
\<close>

definition js_space :: "char \<Rightarrow> bool" where
  "js_space c \<longleftrightarrow> (let n = (of_char c :: nat) in 9 \<le> n \<and> n \<le> 13 \<or> n = 32 \<or> n = 160)"

definition trim :: "string \<Rightarrow> string" where
  "trim s = rev (dropWhile js_space (rev (dropWhile js_space s)))"

definition is_digit :: "char \<Rightarrow> bool" where
  "is_digit c \<longleftrightarrow> digit_value c \<noteq> None"

definition hex_value :: "char \<Rightarrow> nat option" where
  "hex_value c = (let n = of_char c in
     if 48 \<le> n \<and> n \<le> 57 then Some (n - 48) else if 65 \<le> n \<and> n \<le> 70 then Some (n - 55)
     else if 97 \<le> n \<and> n \<le> 102 then Some (n - 87) else None)"

fun read_base :: "nat \<Rightarrow> nat \<Rightarrow> string \<Rightarrow> nat option" where
  "read_base b acc [] = Some acc"
| "read_base b acc (c # cs) =
     (case hex_value c of None \<Rightarrow> None | Some d \<Rightarrow> if d < b then read_base b (acc * b + d) cs else None)"

definition read_radix :: "nat \<Rightarrow> string \<Rightarrow> int option" where
  "read_radix b ds = (if ds = [] then None else map_option int (read_base b 0 ds))"

definition read_nat :: "string \<Rightarrow> int option" where
  "read_nat ds = (if ds = [] then None else map_option int (read_digits 0 ds))"

definition read_exponent :: "string \<Rightarrow> int option" where
  "read_exponent s = (case s of
       [] \<Rightarrow> Some 0
     | c # t \<Rightarrow>
         if c \<notin> {CHR ''e'', CHR ''E''} then None
         else if take 1 t = ''-'' then map_option uminus (read_nat (drop 1 t))
         else if take 1 t = ''+'' then read_nat (drop 1 t)
         else read_nat t)"

definition scaled :: "int \<Rightarrow> int \<Rightarrow> int option" where
  "scaled n k =
     (if 0 \<le> k then Some (n * 10 ^ nat k)
      else if n mod 10 ^ nat (- k) = 0 then Some (n div 10 ^ nat (- k)) else None)"

definition read_decimal :: "string \<Rightarrow> int option" where
  "read_decimal s =
     (let ip = takeWhile is_digit s;
          r = dropWhile is_digit s;
          fp = (if take 1 r = ''.'' then takeWhile is_digit (drop 1 r) else []);
          r' = (if take 1 r = ''.'' then dropWhile is_digit (drop 1 r) else r)
      in case (read_nat (ip @ fp), read_exponent r') of
           (Some n, Some e) \<Rightarrow> scaled n (e - int (length fp))
         | _ \<Rightarrow> None)"

definition number_of_string :: "string \<Rightarrow> int option" where
  "number_of_string s =
     (let t = trim s in
      if t = [] then Some 0
      else if take 2 t \<in> {''0x'', ''0X''} then read_radix 16 (drop 2 t)
      else if take 2 t \<in> {''0o'', ''0O''} then read_radix 8 (drop 2 t)
      else if take 2 t \<in> {''0b'', ''0B''} then read_radix 2 (drop 2 t)
      else if take 1 t = ''-'' then map_option uminus (read_decimal (drop 1 t))
      else if take 1 t = ''+'' then read_decimal (drop 1 t)
      else read_decimal t)"

lemma digit_not_space: "is_digit c \<Longrightarrow> \<not> js_space c"
  by (auto simp: is_digit_def digit_value_def js_space_def Let_def split: if_splits)

lemma trim_solid: "\<forall>c \<in> set s. \<not> js_space c \<Longrightarrow> trim s = s"
proof -
  assume a: "\<forall>c \<in> set s. \<not> js_space c"
  then have "dropWhile js_space s = s" by (cases s) simp_all
  moreover have "dropWhile js_space (rev s) = rev s" using a by (cases "rev s") (auto dest: arg_cong [where f = set])
  ultimately show ?thesis by (simp add: trim_def)
qed

lemma number_of_digits:
  assumes "\<forall>c \<in> set s. is_digit c" and "s \<noteq> []"
  shows "number_of_string s = map_option int (read_digits 0 s)"
proof -
  have no: "\<not> is_digit c" if "c \<in> {CHR ''x'', CHR ''X'', CHR ''o'', CHR ''O'', CHR ''b'', CHR ''B'', CHR ''-'', CHR ''+''}" for c
    using that by (auto simp: is_digit_def digit_value_def)
  have solid: "trim s = s" using assms(1) digit_not_space by (intro trim_solid) blast
  have one: "take 1 s \<noteq> [c]" if "\<not> is_digit c" for c
    using assms that by (cases s) auto
  have two: "take 2 s \<noteq> [a, c]" if "\<not> is_digit c" for a c
    using assms that by (cases s; cases "tl s") auto
  have dec: "read_decimal s = map_option int (read_digits 0 s)"
    using assms by (cases "read_digits 0 s")
      (simp_all add: read_decimal_def takeWhile_eq_all_conv [THEN iffD2] dropWhile_eq_Nil_conv [THEN iffD2] read_nat_def read_exponent_def scaled_def)
  show ?thesis
    using assms(2) dec one [OF no] two [OF no] by (simp add: number_of_string_def solid Let_def)
qed

lemma number_of_string_of_int: "0 \<le> i \<Longrightarrow> number_of_string (string_of_int i) = Some i"
  using number_of_digits [of "string_of_nat (nat i)"] digits_of_string_of_nat [of _ "nat i"]
  by (simp add: string_of_int_def string_of_nat_nonempty read_string_of_nat is_digit_def)

subsection \<open>Lists\<close>

lemma find_None_filter: "List.find P xs = None \<longleftrightarrow> filter P xs = []"
  by (induction xs) auto

lemma find_Some_mem: "List.find P xs = Some x \<Longrightarrow> x \<in> set xs \<and> P x"
  by (induction xs) (auto split: if_splits)

lemma find_cong_set: "(\<And>x. x \<in> set xs \<Longrightarrow> P x = Q x) \<Longrightarrow> List.find P xs = List.find Q xs"
  by (induction xs) auto

lemma find_append:
  "List.find P (xs @ ys) = (case List.find P xs of None \<Rightarrow> List.find P ys | Some x \<Rightarrow> Some x)"
  by (induction xs) auto

lemma length_filter_mono:
  "(\<And>x. x \<in> set xs \<Longrightarrow> P x \<Longrightarrow> Q x) \<Longrightarrow> length (filter P xs) \<le> length (filter Q xs)"
  by (induction xs) (auto simp: le_SucI)

lemma distinct_map_filter_le_1:
  "distinct (map f xs) \<Longrightarrow> length (filter (\<lambda>x. f x = y) xs) \<le> 1"
  by (induction xs) (auto simp: filter_empty_conv image_iff)

end
