(* ===== verification/RowStore.thy ===== *)
theory RowStore
  imports Prelude
begin

text \<open>
  Tables of rows with a \<open>SERIAL\<close> primary key, as the migrations under \<open>backend/prisma\<close> declare
  them: the rows in insertion order and the next value of the key's sequence. Every row type of
  \<open>Schema\<close> extends the record \<open>row\<close>, so one set of operations serves all the tables.

  The locale \<open>id_store\<close> is the interface the components use (look a row up by its key, insert with
  a fresh key, update and delete by key) with the laws they rely on; the tables interpret it.
\<close>

named_theorems table_simps "equations of the table operations"

record row =
  rid :: int

record 'r table =
  rows :: "'r list"
  next_id :: int

definition empty_table :: "'r table" where
  "empty_table = \<lparr>rows = [], next_id = 1\<rparr>"

definition find_row :: "int \<Rightarrow> 'a row_scheme table \<Rightarrow> 'a row_scheme option" where
  "find_row i t = List.find (\<lambda>r. rid r = i) (rows t)"

definition insert_row ::
  "(int \<Rightarrow> 'a row_scheme) \<Rightarrow> 'a row_scheme table \<Rightarrow> 'a row_scheme \<times> 'a row_scheme table" where
  "insert_row mk t =
     (let r = mk (next_id t)
      in (r, t\<lparr>rows := rows t @ [r], next_id := next_id t + 1\<rparr>))"

definition update_row ::
  "int \<Rightarrow> ('a row_scheme \<Rightarrow> 'a row_scheme) \<Rightarrow> 'a row_scheme table \<Rightarrow> 'a row_scheme table" where
  "update_row i f t = t\<lparr>rows := map (\<lambda>r. if rid r = i then f r else r) (rows t)\<rparr>"

definition delete_row :: "int \<Rightarrow> 'a row_scheme table \<Rightarrow> 'a row_scheme table" where
  "delete_row i t = t\<lparr>rows := filter (\<lambda>r. rid r \<noteq> i) (rows t)\<rparr>"

definition filter_rows :: "('r \<Rightarrow> bool) \<Rightarrow> 'r table \<Rightarrow> 'r table" where
  "filter_rows P t = t\<lparr>rows := filter P (rows t)\<rparr>"

definition ids :: "'a row_scheme table \<Rightarrow> int list" where
  "ids t = map rid (rows t)"

text \<open>The primary key is unique and the sequence is ahead of every key.\<close>

definition wf_table :: "'a row_scheme table \<Rightarrow> bool" where
  "wf_table t \<longleftrightarrow> distinct (ids t) \<and> (\<forall>r \<in> set (rows t). rid r < next_id t)"

subsection \<open>The interface\<close>

locale id_store =
  fixes key :: "'r \<Rightarrow> int"
    and look :: "int \<Rightarrow> 't \<Rightarrow> 'r option"
    and ins :: "(int \<Rightarrow> 'r) \<Rightarrow> 't \<Rightarrow> 'r \<times> 't"
    and upd :: "int \<Rightarrow> ('r \<Rightarrow> 'r) \<Rightarrow> 't \<Rightarrow> 't"
    and del :: "int \<Rightarrow> 't \<Rightarrow> 't"
    and wf :: "'t \<Rightarrow> bool"
  assumes look_key: "look i t = Some r \<Longrightarrow> key r = i"
    and look_ins: "wf t \<Longrightarrow> (\<And>n. key (mk n) = n) \<Longrightarrow> ins mk t = (r, t') \<Longrightarrow>
      look i t' = (if i = key r then Some r else look i t)"
    and ins_fresh: "wf t \<Longrightarrow> (\<And>n. key (mk n) = n) \<Longrightarrow> ins mk t = (r, t') \<Longrightarrow> look (key r) t = None"
    and look_upd: "(\<And>r. key (f r) = key r) \<Longrightarrow>
      look i (upd j f t) = (if i = j then map_option f (look i t) else look i t)"
    and look_del: "look i (del j t) = (if i = j then None else look i t)"
    and wf_ins: "wf t \<Longrightarrow> (\<And>n. key (mk n) = n) \<Longrightarrow> ins mk t = (r, t') \<Longrightarrow> wf t'"
    and wf_upd: "wf t \<Longrightarrow> (\<And>r. key (f r) = key r) \<Longrightarrow> wf (upd j f t)"
    and wf_del: "wf t \<Longrightarrow> wf (del j t)"
begin

text \<open>A new row is the one read back under its key, and no other row changes.\<close>

lemma read_your_insert:
  assumes "wf t" and "\<And>n. key (mk n) = n" and "ins mk t = (r, t')"
  shows "look (key r) t' = Some r" and "i \<noteq> key r \<Longrightarrow> look i t' = look i t"
  using look_ins [OF assms] by simp_all

text \<open>Deleting the row just inserted restores every lookup.\<close>

lemma insert_delete:
  assumes "wf t" and "\<And>n. key (mk n) = n" and "ins mk t = (r, t')"
  shows "look i (del (key r) t') = look i t"
  using look_ins [OF assms] ins_fresh [OF assms] by (simp add: look_del)

text \<open>Two updates of the same row compose; an update of a missing row changes no lookup.\<close>

lemma update_update:
  assumes "\<And>r. key (f r) = key r" and "\<And>r. key (g r) = key r"
  shows "look i (upd j g (upd j f t)) = look i (upd j (\<lambda>r. g (f r)) t)"
  using assms by (simp add: look_upd option.map_comp comp_def)

lemma update_missing:
  assumes "\<And>r. key (f r) = key r" and "look j t = None"
  shows "look i (upd j f t) = look i t"
  using assms by (simp add: look_upd)

end

subsection \<open>Lookup and membership\<close>

lemma find_row_key: "find_row i t = Some r \<Longrightarrow> rid r = i"
  unfolding find_row_def by (drule find_Some_mem) simp

lemma find_row_mem: "find_row i t = Some r \<Longrightarrow> r \<in> set (rows t)"
  unfolding find_row_def by (drule find_Some_mem) simp

lemma find_row_None: "find_row i t = None \<longleftrightarrow> i \<notin> set (ids t)"
  by (auto simp: find_row_def find_None_iff ids_def)

lemma find_row_ids: "find_row i t \<noteq> None \<longleftrightarrow> i \<in> set (ids t)"
  by (simp add: find_row_None)

lemma find_unique:
  "distinct (map rid xs) \<Longrightarrow> r \<in> set xs \<Longrightarrow> List.find (\<lambda>x. rid x = rid r) xs = Some r"
  by (induction xs) (auto simp: image_iff)

lemma mem_find_row: "wf_table t \<Longrightarrow> r \<in> set (rows t) \<Longrightarrow> find_row (rid r) t = Some r"
  by (simp add: wf_table_def ids_def find_row_def find_unique)

lemma find_row_iff: "wf_table t \<Longrightarrow> find_row i t = Some r \<longleftrightarrow> r \<in> set (rows t) \<and> rid r = i"
  using find_row_key find_row_mem mem_find_row by blast

lemma wf_table_eq: "wf_table t \<Longrightarrow> r \<in> set (rows t) \<Longrightarrow> r' \<in> set (rows t) \<Longrightarrow> rid r = rid r' \<Longrightarrow> r = r'"
  by (metis mem_find_row option.inject)

subsection \<open>Laws of the operations\<close>

lemma rows_update_row [table_simps]:
  "rows (update_row i f t) = map (\<lambda>r. if rid r = i then f r else r) (rows t)"
  by (simp add: update_row_def)

lemma rows_delete_row [table_simps]: "rows (delete_row i t) = filter (\<lambda>r. rid r \<noteq> i) (rows t)"
  by (simp add: delete_row_def)

lemma rows_filter_rows [table_simps]: "rows (filter_rows P t) = filter P (rows t)"
  by (simp add: filter_rows_def)

lemma rows_insert_row [table_simps]: "insert_row mk t = (r, t') \<Longrightarrow> rows t' = rows t @ [r]"
  by (auto simp: insert_row_def Let_def)

lemma insert_row_val [table_simps]: "insert_row mk t = (r, t') \<Longrightarrow> r = mk (next_id t)"
  by (auto simp: insert_row_def Let_def)

lemma ids_update_row [table_simps]:
  assumes "\<And>r. rid (f r) = rid r"
  shows "ids (update_row i f t) = ids t"
  by (simp add: ids_def table_simps comp_def if_distrib assms cong: if_cong)

lemma updated_rowE:
  assumes "x \<in> set (rows (update_row i f t))" and "rid x = i" and f: "\<And>r. rid (f r) = rid r"
  obtains y where "y \<in> set (rows t)" and "rid y = i" and "x = f y"
proof -
  from assms(1) obtain y where y: "y \<in> set (rows t)" "x = (if rid y = i then f y else y)"
    unfolding rows_update_row set_map by (rule imageE)
  with assms(2) f have "rid y = i" by (auto split: if_splits)
  with y that show ?thesis by simp
qed

lemma update_row_id: "find_row i t = None \<Longrightarrow> update_row i f t = t"
proof -
  assume "find_row i t = None"
  then have "map (\<lambda>r. if rid r = i then f r else r) (rows t) = rows t"
    by (intro map_idI) (auto simp: find_row_None ids_def)
  then show ?thesis by (simp add: update_row_def)
qed

lemma wf_insert_row:
  assumes "wf_table t" and "\<And>n. rid (mk n) = n" and "insert_row mk t = (r, t')"
  shows "wf_table t'"
  using assms by (fastforce simp: wf_table_def ids_def insert_row_def Let_def)

lemma wf_inserted:
  "insert_row mk t = (r, t') \<Longrightarrow> wf_table t \<Longrightarrow> (\<And>n. rid (mk n) = n) \<Longrightarrow> wf_table t'"
  by (rule wf_insert_row)

lemma wf_update_row:
  assumes "wf_table t" and f: "\<And>r. rid (f r) = rid r"
  shows "wf_table (update_row i f t)"
proof -
  have "next_id (update_row i f t) = next_id t" by (simp add: update_row_def)
  with assms(1) show ?thesis
    by (auto simp: wf_table_def ids_update_row [OF f] rows_update_row f)
qed

lemma wf_filter_rows: "wf_table t \<Longrightarrow> wf_table (filter_rows P t)"
  by (auto simp: wf_table_def ids_def filter_rows_def intro: distinct_map_filter)

lemma delete_row_filter: "delete_row i t = filter_rows (\<lambda>r. rid r \<noteq> i) t"
  by (simp add: delete_row_def filter_rows_def)

lemma wf_delete_row: "wf_table t \<Longrightarrow> wf_table (delete_row i t)"
  by (simp add: delete_row_filter wf_filter_rows)

lemma wf_empty_table: "wf_table empty_table"
  by (simp add: wf_table_def empty_table_def ids_def)

lemma find_insert_row:
  assumes "wf_table t" and "\<And>n. rid (mk n) = n" and "insert_row mk t = (r, t')"
  shows "find_row i t' = (if i = rid r then Some r else find_row i t)"
proof -
  have fresh: "find_row (rid r) t = None"
    using assms by (auto simp: find_row_None ids_def wf_table_def insert_row_def Let_def)
  show ?thesis
    using assms(3) fresh
    by (auto simp: find_row_def rows_insert_row find_append split: option.splits)
qed

lemma find_update_row:
  assumes "\<And>r. rid (f r) = rid r"
  shows "find_row i (update_row j f t) = (if i = j then map_option f (find_row i t) else find_row i t)"
proof -
  have "List.find (\<lambda>r. rid r = i) (map (\<lambda>r. if rid r = j then f r else r) xs) =
    (if i = j then map_option f (List.find (\<lambda>r. rid r = i) xs) else List.find (\<lambda>r. rid r = i) xs)" for xs
    by (induction xs) (auto simp: assms)
  then show ?thesis by (simp add: find_row_def table_simps)
qed

lemma find_delete_row: "find_row i (delete_row j t) = (if i = j then None else find_row i t)"
proof -
  have "List.find (\<lambda>r. rid r = i) (filter (\<lambda>r. rid r \<noteq> j) xs) =
    (if i = j then None else List.find (\<lambda>r. rid r = i) xs)" for xs :: "'a row_scheme list"
    by (induction xs) auto
  then show ?thesis by (simp add: find_row_def table_simps)
qed

subsection \<open>Statements that check constraints\<close>

text \<open>
  A statement aborts with the client's error code when the resulting table breaks one of the
  table's unique indexes (\<open>uniq\<close>, \<open>P2002\<close>) or the written row a foreign key (\<open>fk\<close>, \<open>P2003\<close>), and an
  update or delete of a missing row with \<open>P2025\<close>. The table is unchanged when it aborts.
\<close>

definition try_insert ::
  "('a row_scheme table \<Rightarrow> bool) \<Rightarrow> ('a row_scheme \<Rightarrow> bool) \<Rightarrow> (int \<Rightarrow> 'a row_scheme) \<Rightarrow>
     'a row_scheme table \<Rightarrow> prisma_error + 'a row_scheme \<times> 'a row_scheme table" where
  "try_insert uniq fk mk t =
     (case insert_row mk t of (r, t') \<Rightarrow>
        if \<not> uniq t' then Inl P2002 else if \<not> fk r then Inl P2003 else Inr (r, t'))"

definition try_update ::
  "('a row_scheme table \<Rightarrow> bool) \<Rightarrow> ('a row_scheme \<Rightarrow> bool) \<Rightarrow> int \<Rightarrow> ('a row_scheme \<Rightarrow> 'a row_scheme) \<Rightarrow>
     'a row_scheme table \<Rightarrow> prisma_error + 'a row_scheme \<times> 'a row_scheme table" where
  "try_update uniq fk i f t =
     (case find_row i t of
        None \<Rightarrow> Inl P2025
      | Some r \<Rightarrow>
          let t' = update_row i f t
          in if \<not> uniq t' then Inl P2002 else if \<not> fk (f r) then Inl P2003 else Inr (f r, t'))"

definition try_delete ::
  "int \<Rightarrow> 'a row_scheme table \<Rightarrow> prisma_error + 'a row_scheme \<times> 'a row_scheme table" where
  "try_delete i t =
     (case find_row i t of None \<Rightarrow> Inl P2025 | Some r \<Rightarrow> Inr (r, delete_row i t))"

lemma try_insert_InrD:
  "try_insert uniq fk mk t = Inr (r, t') \<Longrightarrow> insert_row mk t = (r, t') \<and> uniq t' \<and> fk r"
  by (auto simp: try_insert_def split: prod.splits if_splits)

lemma try_update_InrD:
  "try_update uniq fk i f t = Inr (r, t') \<Longrightarrow>
     \<exists>r0. find_row i t = Some r0 \<and> r = f r0 \<and> t' = update_row i f t \<and> uniq t' \<and> fk r"
  by (auto simp: try_update_def Let_def split: option.splits if_splits)

lemma try_delete_InrD:
  "try_delete i t = Inr (r, t') \<Longrightarrow> find_row i t = Some r \<and> t' = delete_row i t"
  by (auto simp: try_delete_def split: option.splits)

lemma insert_row_all:
  "insert_row mk t = (r, t') \<Longrightarrow> (\<forall>x \<in> set (rows t'). P x) \<longleftrightarrow> (\<forall>x \<in> set (rows t). P x) \<and> P r"
  by (auto simp: rows_insert_row)

lemma update_row_all:
  assumes "wf_table t" and "find_row i t = Some r" and "P (f r)" and "\<forall>x \<in> set (rows t). P x"
  shows "\<forall>x \<in> set (rows (update_row i f t)). P x"
  using assms by (auto simp: rows_update_row) (metis mem_find_row option.inject)

interpretation rs: id_store rid find_row insert_row update_row delete_row wf_table
proof unfold_locales
  fix i and t :: "'a row_scheme table" and r
  show "find_row i t = Some r \<Longrightarrow> rid r = i" by (rule find_row_key)
next
  fix t t' :: "'a row_scheme table" and mk r i
  assume wf: "wf_table t" and mk: "\<And>n. rid (mk n) = n" and ins: "insert_row mk t = (r, t')"
  show "find_row i t' = (if i = rid r then Some r else find_row i t)"
    using wf mk ins by (rule find_insert_row)
  show "find_row (rid r) t = None"
    using wf mk ins by (auto simp: find_row_None ids_def wf_table_def insert_row_def Let_def)
  show "wf_table t'" using wf mk ins by (rule wf_insert_row)
qed (simp_all add: find_update_row find_delete_row wf_update_row wf_delete_row)

end
