(* ===== verification/Schema.thy ===== *)
theory Schema
  imports RowStore Complex_Main
begin

text \<open>
  The data of the backend: the enums and models of \<open>backend/prisma/schema.prisma\<close>, the unique
  indexes and foreign keys of the migrations (the partial index on active reservations is raw SQL
  in \<open>20260702000000_reservation_active_seat_screening_index\<close>), and one constraint-checking
  statement per kind of write the repositories issue.

  \<open>db_ok\<close> is the well-formedness of a database: primary keys, unique indexes and foreign keys.
  Every statement keeps it (the collection \<open>db_ok_intros\<close>), so the handlers do.

  The bookkeeping column \<open>updatedAt\<close> is left out (no code reads it), and so is \<open>createdAt\<close> where
  no query uses it. Times are milliseconds since the epoch.
\<close>

named_theorems db_ok_intros "every statement keeps the database well-formed"

subsection \<open>Enums\<close>

datatype user_role = ADMIN | USER

datatype reservation_status = HELD | CONFIRMED | CANCELLED

datatype seat_status = SeatAVAILABLE | SeatHELD | SeatBOOKED

datatype screen_status = SCHEDULED | COMPLETED | ScreenCANCELLED

datatype payment_status =
  PENDING | IN_PROGRESS | SUCCEEDED | DECLINED | TIMED_OUT | FAILED | REFUNDED

datatype movie_status = DRAFT | PUBLISHED

subsection \<open>Models\<close>

text \<open>
  An \<open>Int\<close> of the schema is an INT4 column, and the client answers a value that does not fit with an error. The model checks
  this where a request brings the value of a column (\<open>duration\<close>, \<open>capacity\<close>, \<open>price\<close>, \<open>amount\<close>, the parents of a screening);
  the keys themselves come from the tables' sequences.
\<close>

definition fits_int32 :: "int \<Rightarrow> bool" where
  "fits_int32 n \<longleftrightarrow> - (2 ^ 31) \<le> n \<and> n < 2 ^ 31"

record user = row +
  user_name :: string
  email :: string
  password :: "string option"
  emailVerified :: bool
  googleId :: "string option"
  role :: user_role

record movie = row +
  movie_name :: string
  description :: string
  duration :: int
  posterImgUrl :: string
  movieType :: string
  rating :: rat
  language :: string
  genre :: string
  movie_status :: movie_status
  movie_createdAt :: ms

record hall = row +
  hall_name :: string
  capacity :: int

record screening = row +
  scr_hallId :: int
  scr_movieId :: int
  startTime :: ms
  scr_status :: screen_status
  price :: int

record seat = row +
  seat_hallId :: int
  seat_row :: string
  seat_number :: string

record reservation = row +
  res_screeningId :: int
  res_seatId :: int
  res_userId :: int
  res_status :: reservation_status
  heldUntil :: "ms option"
  res_createdAt :: ms

record payment = row +
  pay_reservationId :: int
  amount :: int
  currency :: string
  pay_status :: payment_status
  stripePaymentId :: "string option"
  stripeSessionId :: string
  stripeEventId :: "string option"
  refundId :: "string option"
  refundedAt :: "ms option"
  disputed :: "bool option"
  disputeReason :: "string option"
  disputedAt :: "ms option"
  pay_createdAt :: ms

record refund_policy = row +
  hoursFrom :: int
  hoursTo :: int
  refundPercent :: rat

record db =
  users :: "user table"
  movies :: "movie table"
  halls :: "hall table"
  seats :: "seat table"
  screenings :: "screening table"
  reservations :: "reservation table"
  payments :: "payment table"
  policies :: "refund_policy table"

definition empty_db :: db where
  "empty_db = \<lparr>users = empty_table, movies = empty_table, halls = empty_table, seats = empty_table,
     screenings = empty_table, reservations = empty_table, payments = empty_table,
     policies = empty_table\<rparr>"

subsection \<open>Unique indexes\<close>

text \<open>A unique index on a nullable column does not compare nulls.\<close>

definition unique_nullable :: "('r \<Rightarrow> 'k option) \<Rightarrow> 'r list \<Rightarrow> bool" where
  "unique_nullable f xs \<longleftrightarrow> distinct (List.map_filter f xs)"

definition user_unique :: "user table \<Rightarrow> bool" where
  "user_unique t \<longleftrightarrow> distinct (map email (rows t)) \<and> unique_nullable googleId (rows t)"

definition seat_unique :: "seat table \<Rightarrow> bool" where
  "seat_unique t \<longleftrightarrow> distinct (map (\<lambda>s. (seat_hallId s, seat_row s, seat_number s)) (rows t))"

definition active_res :: "reservation \<Rightarrow> bool" where
  "active_res r \<longleftrightarrow> res_status r = HELD \<or> res_status r = CONFIRMED"

definition reservation_unique :: "reservation table \<Rightarrow> bool" where
  "reservation_unique t \<longleftrightarrow>
     distinct (map (\<lambda>r. (res_seatId r, res_screeningId r)) (filter active_res (rows t)))"

definition payment_unique :: "payment table \<Rightarrow> bool" where
  "payment_unique t \<longleftrightarrow>
     distinct (map pay_reservationId (rows t)) \<and>
     unique_nullable stripePaymentId (rows t) \<and>
     unique_nullable stripeEventId (rows t)"

definition policy_unique :: "refund_policy table \<Rightarrow> bool" where
  "policy_unique t \<longleftrightarrow> distinct (map (\<lambda>p. (hoursFrom p, hoursTo p)) (rows t))"

subsection \<open>Foreign keys\<close>

definition seat_fk :: "db \<Rightarrow> seat \<Rightarrow> bool" where
  "seat_fk d s \<longleftrightarrow> seat_hallId s \<in> set (ids (halls d))"

definition screening_fk :: "db \<Rightarrow> screening \<Rightarrow> bool" where
  "screening_fk d s \<longleftrightarrow> scr_hallId s \<in> set (ids (halls d)) \<and> scr_movieId s \<in> set (ids (movies d))"

definition reservation_fk :: "db \<Rightarrow> reservation \<Rightarrow> bool" where
  "reservation_fk d r \<longleftrightarrow> res_userId r \<in> set (ids (users d)) \<and>
     res_screeningId r \<in> set (ids (screenings d)) \<and> res_seatId r \<in> set (ids (seats d))"

definition payment_fk :: "db \<Rightarrow> payment \<Rightarrow> bool" where
  "payment_fk d p \<longleftrightarrow> pay_reservationId p \<in> set (ids (reservations d))"

definition tables_ok :: "db \<Rightarrow> bool" where
  "tables_ok d \<longleftrightarrow> wf_table (users d) \<and> wf_table (movies d) \<and> wf_table (halls d) \<and> wf_table (seats d) \<and>
     wf_table (screenings d) \<and> wf_table (reservations d) \<and> wf_table (payments d) \<and>
     wf_table (policies d)"

definition unique_ok :: "db \<Rightarrow> bool" where
  "unique_ok d \<longleftrightarrow> user_unique (users d) \<and> seat_unique (seats d) \<and>
     reservation_unique (reservations d) \<and> payment_unique (payments d) \<and> policy_unique (policies d)"

definition fk_ok :: "db \<Rightarrow> bool" where
  "fk_ok d \<longleftrightarrow> (\<forall>s \<in> set (rows (seats d)). seat_fk d s) \<and>
     (\<forall>s \<in> set (rows (screenings d)). screening_fk d s) \<and>
     (\<forall>r \<in> set (rows (reservations d)). reservation_fk d r) \<and>
     (\<forall>p \<in> set (rows (payments d)). payment_fk d p)"

definition db_ok :: "db \<Rightarrow> bool" where
  "db_ok d \<longleftrightarrow> tables_ok d \<and> unique_ok d \<and> fk_ok d"

lemmas db_ok_defs = db_ok_def tables_ok_def unique_ok_def fk_ok_def
lemmas fk_defs = seat_fk_def screening_fk_def reservation_fk_def payment_fk_def

subsection \<open>Statements\<close>

type_synonym 'a stmt = "db \<Rightarrow> prisma_error + 'a \<times> db"

definition on_table :: "('t \<Rightarrow> db) \<Rightarrow> prisma_error + 'a \<times> 't \<Rightarrow> prisma_error + 'a \<times> db" where
  "on_table put res = (case res of Inl e \<Rightarrow> Inl e | Inr (r, t) \<Rightarrow> Inr (r, put t))"

definition insert_user :: "(int \<Rightarrow> user) \<Rightarrow> user stmt" where
  "insert_user mk d =
     on_table (\<lambda>t. d\<lparr>users := t\<rparr>) (try_insert user_unique (\<lambda>_. True) mk (users d))"

definition update_user :: "int \<Rightarrow> (user \<Rightarrow> user) \<Rightarrow> user stmt" where
  "update_user i f d =
     on_table (\<lambda>t. d\<lparr>users := t\<rparr>) (try_update user_unique (\<lambda>_. True) i f (users d))"

definition insert_movie :: "(int \<Rightarrow> movie) \<Rightarrow> movie stmt" where
  "insert_movie mk d =
     on_table (\<lambda>t. d\<lparr>movies := t\<rparr>) (try_insert (\<lambda>_. True) (\<lambda>_. True) mk (movies d))"

definition update_movie :: "int \<Rightarrow> (movie \<Rightarrow> movie) \<Rightarrow> movie stmt" where
  "update_movie i f d =
     on_table (\<lambda>t. d\<lparr>movies := t\<rparr>) (try_update (\<lambda>_. True) (\<lambda>_. True) i f (movies d))"

definition insert_hall :: "(int \<Rightarrow> hall) \<Rightarrow> hall stmt" where
  "insert_hall mk d =
     on_table (\<lambda>t. d\<lparr>halls := t\<rparr>) (try_insert (\<lambda>_. True) (\<lambda>_. True) mk (halls d))"

definition insert_seat :: "(int \<Rightarrow> seat) \<Rightarrow> seat stmt" where
  "insert_seat mk d =
     on_table (\<lambda>t. d\<lparr>seats := t\<rparr>) (try_insert seat_unique (seat_fk d) mk (seats d))"

definition insert_screening :: "(int \<Rightarrow> screening) \<Rightarrow> screening stmt" where
  "insert_screening mk d =
     on_table (\<lambda>t. d\<lparr>screenings := t\<rparr>) (try_insert (\<lambda>_. True) (screening_fk d) mk (screenings d))"

definition update_screening :: "int \<Rightarrow> (screening \<Rightarrow> screening) \<Rightarrow> screening stmt" where
  "update_screening i f d =
     on_table (\<lambda>t. d\<lparr>screenings := t\<rparr>) (try_update (\<lambda>_. True) (screening_fk d) i f (screenings d))"

definition insert_reservation :: "(int \<Rightarrow> reservation) \<Rightarrow> reservation stmt" where
  "insert_reservation mk d =
     on_table (\<lambda>t. d\<lparr>reservations := t\<rparr>)
       (try_insert reservation_unique (reservation_fk d) mk (reservations d))"

definition update_reservation :: "int \<Rightarrow> (reservation \<Rightarrow> reservation) \<Rightarrow> reservation stmt" where
  "update_reservation i f d =
     on_table (\<lambda>t. d\<lparr>reservations := t\<rparr>)
       (try_update reservation_unique (reservation_fk d) i f (reservations d))"

definition insert_payment :: "(int \<Rightarrow> payment) \<Rightarrow> payment stmt" where
  "insert_payment mk d =
     on_table (\<lambda>t. d\<lparr>payments := t\<rparr>) (try_insert payment_unique (payment_fk d) mk (payments d))"

definition update_payment :: "int \<Rightarrow> (payment \<Rightarrow> payment) \<Rightarrow> payment stmt" where
  "update_payment i f d =
     on_table (\<lambda>t. d\<lparr>payments := t\<rparr>) (try_update payment_unique (payment_fk d) i f (payments d))"

definition delete_payment :: "int \<Rightarrow> payment stmt" where
  "delete_payment i d = on_table (\<lambda>t. d\<lparr>payments := t\<rparr>) (try_delete i (payments d))"

definition insert_policy :: "(int \<Rightarrow> refund_policy) \<Rightarrow> refund_policy stmt" where
  "insert_policy mk d =
     on_table (\<lambda>t. d\<lparr>policies := t\<rparr>) (try_insert policy_unique (\<lambda>_. True) mk (policies d))"

text \<open>
  \<open>ON DELETE CASCADE\<close>: after the deletion of a parent row, the rows whose foreign key dangles go,
  children before grandchildren.
\<close>

definition cascade_seats :: "db \<Rightarrow> db" where
  "cascade_seats d = d\<lparr>seats := filter_rows (seat_fk d) (seats d)\<rparr>"

definition cascade_screenings :: "db \<Rightarrow> db" where
  "cascade_screenings d = d\<lparr>screenings := filter_rows (screening_fk d) (screenings d)\<rparr>"

definition cascade_reservations :: "db \<Rightarrow> db" where
  "cascade_reservations d = d\<lparr>reservations := filter_rows (reservation_fk d) (reservations d)\<rparr>"

definition cascade_payments :: "db \<Rightarrow> db" where
  "cascade_payments d = d\<lparr>payments := filter_rows (payment_fk d) (payments d)\<rparr>"

definition cascade :: "db \<Rightarrow> db" where
  "cascade d = cascade_payments (cascade_reservations (cascade_screenings (cascade_seats d)))"

definition delete_movie :: "int \<Rightarrow> movie stmt" where
  "delete_movie i d = on_table (\<lambda>t. cascade (d\<lparr>movies := t\<rparr>)) (try_delete i (movies d))"

definition delete_hall :: "int \<Rightarrow> hall stmt" where
  "delete_hall i d = on_table (\<lambda>t. cascade (d\<lparr>halls := t\<rparr>)) (try_delete i (halls d))"

definition delete_screening :: "int \<Rightarrow> screening stmt" where
  "delete_screening i d = on_table (\<lambda>t. cascade (d\<lparr>screenings := t\<rparr>)) (try_delete i (screenings d))"

subsection \<open>Unique indexes under filtering\<close>

lemma map_filter_simps2:
  "List.map_filter f [] = []"
  "List.map_filter f (x # xs) = (case f x of None \<Rightarrow> List.map_filter f xs | Some y \<Rightarrow> y # List.map_filter f xs)"
  by (simp_all add: List.map_filter_def split: option.split)

lemma map_filter_append: "List.map_filter g (xs @ ys) = List.map_filter g xs @ List.map_filter g ys"
  by (simp add: List.map_filter_def)

lemma set_map_filter2: "set (List.map_filter f xs) = {y. \<exists>x \<in> set xs. f x = Some y}"
  by (induction xs) (auto simp: map_filter_simps2 split: option.splits)

lemma unique_nullable_filter: "unique_nullable f xs \<Longrightarrow> unique_nullable f (filter P xs)"
  unfolding unique_nullable_def
  by (induction xs) (auto simp: map_filter_simps2 set_map_filter2 split: option.splits)

lemma unique_nullable_eq:
  assumes "unique_nullable f xs" and "x \<in> set xs" and "y \<in> set xs" and "f x = Some v" and "f y = Some v"
  shows "x = y"
  using assms unfolding unique_nullable_def
  by (induction xs) (force simp: map_filter_simps2 set_map_filter2 split: option.splits)+

lemma unique_filters:
  "user_unique t \<Longrightarrow> user_unique (filter_rows PU t)"
  "seat_unique u \<Longrightarrow> seat_unique (filter_rows PS u)"
  "reservation_unique v \<Longrightarrow> reservation_unique (filter_rows PR v)"
  "payment_unique w \<Longrightarrow> payment_unique (filter_rows PP w)"
proof -
  have "filter active_res (filter PR xs) = filter PR (filter active_res xs)" for xs
    by (induction xs) auto
  then show "reservation_unique v \<Longrightarrow> reservation_unique (filter_rows PR v)"
    by (simp add: reservation_unique_def table_simps distinct_map_filter del: filter_filter)
qed (simp_all add: user_unique_def seat_unique_def payment_unique_def table_simps
      distinct_map_filter unique_nullable_filter)

subsection \<open>Every statement keeps the database well-formed\<close>

lemma on_table_InrD: "on_table put x = Inr (r, d') \<Longrightarrow> \<exists>t. x = Inr (r, t) \<and> d' = put t"
  by (auto simp: on_table_def split: sum.splits)

lemma ids_insert_row: "insert_row mk t = (r, t') \<Longrightarrow> ids t' = ids t @ [rid r]"
  by (simp add: ids_def rows_insert_row)

lemma fk_mono:
  "set (ids (halls d)) \<subseteq> set (ids (halls d')) \<Longrightarrow> seat_fk d s \<Longrightarrow> seat_fk d' s"
  by (auto simp: seat_fk_def)

text \<open>What an aborted or completed statement on a table leaves, in one elimination rule each.\<close>

lemma insert_stmtE:
  assumes "on_table put (try_insert uniq fk mk t) = Inr (r, d')"
  obtains t' where "insert_row mk t = (r, t')" "uniq t'" "fk r" "d' = put t'"
  using assms by (auto dest!: on_table_InrD try_insert_InrD)

lemma update_stmtE:
  assumes "on_table put (try_update uniq fk i f t) = Inr (r, d')"
  obtains r0 where "find_row i t = Some r0" "r = f r0" "uniq (update_row i f t)" "fk (f r0)"
    "d' = put (update_row i f t)"
  using assms by (auto dest!: on_table_InrD try_update_InrD)

lemma db_ok_insert_user [db_ok_intros]:
  assumes "db_ok d" and "\<And>n. rid (mk n) = n" and "insert_user mk d = Inr (r, d')"
  shows "db_ok d'"
  using assms(3) unfolding insert_user_def
  by (rule insert_stmtE) (use assms(1,2) in
    \<open>auto simp: db_ok_defs fk_defs ids_insert_row intro: wf_inserted\<close>)

lemma db_ok_update_user [db_ok_intros]:
  assumes "db_ok d" and "\<And>r. rid (f r) = rid r" and "update_user i f d = Inr (r, d')"
  shows "db_ok d'"
  using assms(3) unfolding update_user_def
  by (rule update_stmtE) (use assms(1,2) in
    \<open>auto simp: db_ok_defs fk_defs ids_update_row wf_update_row\<close>)

lemma db_ok_insert_movie [db_ok_intros]:
  assumes "db_ok d" and "\<And>n. rid (mk n) = n" and "insert_movie mk d = Inr (r, d')"
  shows "db_ok d'"
  using assms(3) unfolding insert_movie_def
  by (rule insert_stmtE) (use assms(1,2) in
    \<open>auto simp: db_ok_defs fk_defs ids_insert_row intro: wf_inserted\<close>)

lemma db_ok_update_movie [db_ok_intros]:
  assumes "db_ok d" and "\<And>r. rid (f r) = rid r" and "update_movie i f d = Inr (r, d')"
  shows "db_ok d'"
  using assms(3) unfolding update_movie_def
  by (rule update_stmtE) (use assms(1,2) in
    \<open>auto simp: db_ok_defs fk_defs ids_update_row wf_update_row\<close>)

lemma db_ok_insert_hall [db_ok_intros]:
  assumes "db_ok d" and "\<And>n. rid (mk n) = n" and "insert_hall mk d = Inr (r, d')"
  shows "db_ok d'"
  using assms(3) unfolding insert_hall_def
  by (rule insert_stmtE) (use assms(1,2) in
    \<open>auto simp: db_ok_defs fk_defs ids_insert_row intro: wf_inserted\<close>)

lemma db_ok_insert_seat [db_ok_intros]:
  assumes "db_ok d" and "\<And>n. rid (mk n) = n" and "insert_seat mk d = Inr (r, d')"
  shows "db_ok d'"
  using assms(3) unfolding insert_seat_def
  by (rule insert_stmtE) (use assms(1,2) in
    \<open>auto simp: db_ok_defs fk_defs ids_insert_row rows_insert_row intro: wf_inserted\<close>)

lemma db_ok_insert_screening [db_ok_intros]:
  assumes "db_ok d" and "\<And>n. rid (mk n) = n" and "insert_screening mk d = Inr (r, d')"
  shows "db_ok d'"
  using assms(3) unfolding insert_screening_def
  by (rule insert_stmtE) (use assms(1,2) in
    \<open>auto simp: db_ok_defs fk_defs ids_insert_row rows_insert_row intro: wf_inserted\<close>)

lemma db_ok_update_screening [db_ok_intros]:
  assumes ok: "db_ok d" and f: "\<And>r. rid (f r) = rid r" and "update_screening i f d = Inr (r, d')"
  shows "db_ok d'"
  using assms(3) unfolding update_screening_def
proof (rule update_stmtE)
  fix r0
  assume r0: "find_row i (screenings d) = Some r0" "screening_fk d (f r0)"
    and d': "d' = d\<lparr>screenings := update_row i f (screenings d)\<rparr>"
  from ok r0 have "\<forall>s \<in> set (rows (update_row i f (screenings d))). screening_fk d s"
    by (intro update_row_all) (auto simp: db_ok_defs)
  with ok d' f show "db_ok d'"
    by (auto simp: db_ok_defs fk_defs ids_update_row wf_update_row)
qed

lemma db_ok_insert_reservation [db_ok_intros]:
  assumes "db_ok d" and "\<And>n. rid (mk n) = n" and "insert_reservation mk d = Inr (r, d')"
  shows "db_ok d'"
  using assms(3) unfolding insert_reservation_def
  by (rule insert_stmtE) (use assms(1,2) in
    \<open>auto simp: db_ok_defs fk_defs ids_insert_row rows_insert_row intro: wf_inserted\<close>)

lemma db_ok_update_reservation [db_ok_intros]:
  assumes ok: "db_ok d" and f: "\<And>r. rid (f r) = rid r" and "update_reservation i f d = Inr (r, d')"
  shows "db_ok d'"
  using assms(3) unfolding update_reservation_def
proof (rule update_stmtE)
  fix r0
  assume r0: "find_row i (reservations d) = Some r0" "reservation_fk d (f r0)"
    and u: "reservation_unique (update_row i f (reservations d))"
    and d': "d' = d\<lparr>reservations := update_row i f (reservations d)\<rparr>"
  from ok r0 have "\<forall>s \<in> set (rows (update_row i f (reservations d))). reservation_fk d s"
    by (intro update_row_all) (auto simp: db_ok_defs)
  with ok d' f u show "db_ok d'"
    by (auto simp: db_ok_defs fk_defs ids_update_row wf_update_row)
qed

lemma db_ok_insert_payment [db_ok_intros]:
  assumes "db_ok d" and "\<And>n. rid (mk n) = n" and "insert_payment mk d = Inr (r, d')"
  shows "db_ok d'"
  using assms(3) unfolding insert_payment_def
  by (rule insert_stmtE) (use assms(1,2) in
    \<open>auto simp: db_ok_defs fk_defs ids_insert_row rows_insert_row intro: wf_inserted\<close>)

lemma db_ok_update_payment [db_ok_intros]:
  assumes ok: "db_ok d" and f: "\<And>r. rid (f r) = rid r" and "update_payment i f d = Inr (r, d')"
  shows "db_ok d'"
  using assms(3) unfolding update_payment_def
proof (rule update_stmtE)
  fix r0
  assume r0: "find_row i (payments d) = Some r0" "payment_fk d (f r0)"
    and u: "payment_unique (update_row i f (payments d))"
    and d': "d' = d\<lparr>payments := update_row i f (payments d)\<rparr>"
  from ok r0 have "\<forall>s \<in> set (rows (update_row i f (payments d))). payment_fk d s"
    by (intro update_row_all) (auto simp: db_ok_defs)
  with ok d' f u show "db_ok d'"
    by (auto simp: db_ok_defs fk_defs ids_update_row wf_update_row)
qed

lemma db_ok_insert_policy [db_ok_intros]:
  assumes "db_ok d" and "\<And>n. rid (mk n) = n" and "insert_policy mk d = Inr (r, d')"
  shows "db_ok d'"
  using assms(3) unfolding insert_policy_def
  by (rule insert_stmtE) (use assms(1,2) in
    \<open>auto simp: db_ok_defs fk_defs intro: wf_inserted\<close>)

lemma db_ok_filter_payments:
  "db_ok d \<Longrightarrow> db_ok (d\<lparr>payments := filter_rows P (payments d)\<rparr>)"
  by (auto simp: db_ok_defs fk_defs wf_filter_rows unique_filters rows_filter_rows)

lemma db_ok_delete_payment [db_ok_intros]:
  assumes "db_ok d" and "delete_payment i d = Inr (r, d')"
  shows "db_ok d'"
  using assms db_ok_filter_payments
  by (auto simp: delete_payment_def delete_row_filter dest!: on_table_InrD try_delete_InrD)

lemma cascade_simps [table_simps]:
  "users (cascade d) = users d" "movies (cascade d) = movies d" "halls (cascade d) = halls d"
  "policies (cascade d) = policies d"
  "seats (cascade d) = filter_rows (seat_fk d) (seats d)"
  "screenings (cascade d) = filter_rows (screening_fk d) (screenings d)"
  by (simp_all add: cascade_def cascade_seats_def cascade_screenings_def cascade_reservations_def
      cascade_payments_def screening_fk_def [abs_def])

lemma db_ok_cascade: "tables_ok d \<Longrightarrow> unique_ok d \<Longrightarrow> db_ok (cascade d)"
  by (auto simp: db_ok_defs fk_defs cascade_def cascade_seats_def cascade_screenings_def
      cascade_reservations_def cascade_payments_def wf_filter_rows unique_filters rows_filter_rows)

lemma db_ok_deletes [db_ok_intros]:
  "db_ok d \<Longrightarrow> delete_movie i d = Inr (m, d') \<Longrightarrow> db_ok d'"
  "db_ok d \<Longrightarrow> delete_hall i d = Inr (h, d') \<Longrightarrow> db_ok d'"
  "db_ok d \<Longrightarrow> delete_screening i d = Inr (s, d') \<Longrightarrow> db_ok d'"
  by (auto simp: delete_movie_def delete_hall_def delete_screening_def db_ok_def
      dest!: on_table_InrD try_delete_InrD intro!: db_ok_cascade [unfolded db_ok_def])
    (auto simp: tables_ok_def unique_ok_def wf_delete_row)

lemma db_ok_empty: "db_ok empty_db"
  by (simp add: db_ok_defs empty_db_def wf_empty_table user_unique_def seat_unique_def
      reservation_unique_def payment_unique_def policy_unique_def unique_nullable_def
      empty_table_def List.map_filter_def ids_def wf_table_def)

subsection \<open>What the constraints give\<close>

text \<open>Two active reservations of the same seat and screening are the same row.\<close>

lemma active_unique_eq:
  assumes "reservation_unique t" and "r \<in> set (rows t)" and "r' \<in> set (rows t)"
    and "active_res r" and "active_res r'"
    and "res_seatId r = res_seatId r'" and "res_screeningId r = res_screeningId r'"
  shows "r = r'"
proof -
  have "inj_on (\<lambda>r. (res_seatId r, res_screeningId r)) (set (filter active_res (rows t)))"
    using assms(1) by (simp add: reservation_unique_def distinct_map)
  then show ?thesis
    by (rule inj_onD) (use assms in simp_all)
qed

end
