(* ===== verification/Sample.thy ===== *)
theory Sample
  imports Schema
begin

text \<open>
  A small database on which the properties are exercised: a hall of two seats, a published movie and
  a draft, one screening, a held seat, and the three refund tiers of \<open>backend/prisma/seed.ts\<close>. Every witness of
  the development starts from it or from an update of it.
\<close>

definition sample_user :: "int \<Rightarrow> user" where
  "sample_user i = \<lparr>rid = i, user_name = ''u'', email = [char_of (96 + nat i)], password = None,
     emailVerified = True, googleId = None, role = USER\<rparr>"

definition sample_movie :: "int \<Rightarrow> int \<Rightarrow> movie_status \<Rightarrow> movie" where
  "sample_movie i dur st = \<lparr>rid = i, movie_name = ''m'', description = ''d'', duration = dur,
     posterImgUrl = ''p'', movieType = ''t'', rating = 7, language = ''en'', genre = ''g'',
     movie_status = st, movie_createdAt = i\<rparr>"

definition sample_seat :: "int \<Rightarrow> string \<Rightarrow> seat" where
  "sample_seat i n = \<lparr>rid = i, seat_hallId = 1, seat_row = ''A'', seat_number = n\<rparr>"

definition sample_screening :: screening where
  "sample_screening = \<lparr>rid = 1, scr_hallId = 1, scr_movieId = 1, startTime = 360000000,
     scr_status = SCHEDULED, price = 500\<rparr>"

definition sample_reservation :: reservation where
  "sample_reservation = \<lparr>rid = 1, res_screeningId = 1, res_seatId = 1, res_userId = 1,
     res_status = HELD, heldUntil = Some 600000, res_createdAt = 0\<rparr>"

definition sample_policy :: "int \<Rightarrow> int \<Rightarrow> int \<Rightarrow> rat \<Rightarrow> refund_policy" where
  "sample_policy i a b p = \<lparr>rid = i, hoursFrom = a, hoursTo = b, refundPercent = p\<rparr>"

definition sample_db :: db where
  "sample_db = \<lparr>
     users = \<lparr>rows = [sample_user 1, sample_user 2, sample_user 3], next_id = 4\<rparr>,
     movies = \<lparr>rows = [sample_movie 1 120 PUBLISHED, sample_movie 2 90 DRAFT], next_id = 3\<rparr>,
     halls = \<lparr>rows = [\<lparr>rid = 1, hall_name = ''h'', capacity = 2\<rparr>,
                      \<lparr>rid = 2, hall_name = ''k'', capacity = 0\<rparr>], next_id = 3\<rparr>,
     seats = \<lparr>rows = [sample_seat 1 ''1'', sample_seat 2 ''2''], next_id = 3\<rparr>,
     screenings = \<lparr>rows = [sample_screening], next_id = 2\<rparr>,
     reservations = \<lparr>rows = [sample_reservation], next_id = 2\<rparr>,
     payments = empty_table,
     policies = \<lparr>rows = [sample_policy 1 48 100000 100, sample_policy 2 24 48 50,
                         sample_policy 3 0 24 0], next_id = 4\<rparr>\<rparr>"

lemmas sample_defs = sample_user_def sample_movie_def sample_seat_def sample_screening_def
  sample_reservation_def sample_policy_def sample_db_def

lemma sample_db_ok: "db_ok sample_db"
  by (simp add: db_ok_defs fk_defs sample_defs wf_table_def ids_def user_unique_def seat_unique_def
      reservation_unique_def active_res_def payment_unique_def policy_unique_def unique_nullable_def
      map_filter_simps2 empty_table_def)

end
