(* ===== verification/KeyStore.thy ===== *)
theory KeyStore
  imports Prelude
begin

text \<open>
  The Redis values the backend uses, as far as its commands go: string-like values with an expiry
  (\<open>SET .. EX\<close>, \<open>GET\<close>, \<open>DEL\<close>, \<open>EXISTS\<close>, \<open>INCR\<close>, \<open>EXPIRE\<close>), and sorted sets (\<open>ZADD\<close>, \<open>ZCARD\<close>,
  \<open>ZREMRANGEBYSCORE\<close>, \<open>ZRANGE 0 0\<close>, \<open>PEXPIRE\<close>). A key is a value with an absolute expiry time, in
  milliseconds, and is gone once the clock has passed it.

  \<open>ttl_store\<close> is the interface the caches and the token store rely on; the commands interpret it.
\<close>

named_theorems key_simps "equations of the key commands"

subsection \<open>Keys with an expiry\<close>

type_synonym 'v entry = "'v \<times> ms option"

type_synonym ('k, 'v) keys = "'k \<Rightarrow> 'v entry option"

definition expired :: "ms \<Rightarrow> 'v entry \<Rightarrow> bool" where
  "expired now e \<longleftrightarrow> (case snd e of None \<Rightarrow> False | Some t \<Rightarrow> t < now)"

definition key_get :: "ms \<Rightarrow> 'k \<Rightarrow> ('k, 'v) keys \<Rightarrow> 'v option" where
  "key_get now k m =
     (case m k of None \<Rightarrow> None | Some e \<Rightarrow> if expired now e then None else Some (fst e))"

definition key_set_px :: "ms \<Rightarrow> 'k \<Rightarrow> 'v \<Rightarrow> ms \<Rightarrow> ('k, 'v) keys \<Rightarrow> ('k, 'v) keys" where
  "key_set_px now k v px m = m(k \<mapsto> (v, Some (now + px)))"

definition key_set_ex :: "ms \<Rightarrow> 'k \<Rightarrow> 'v \<Rightarrow> int \<Rightarrow> ('k, 'v) keys \<Rightarrow> ('k, 'v) keys" where
  "key_set_ex now k v ex m = key_set_px now k v (ex * 1000) m"

definition key_del :: "'k \<Rightarrow> ('k, 'v) keys \<Rightarrow> ('k, 'v) keys" where
  "key_del k m = m(k := None)"

definition key_exists :: "ms \<Rightarrow> 'k \<Rightarrow> ('k, 'v) keys \<Rightarrow> bool" where
  "key_exists now k m \<longleftrightarrow> key_get now k m \<noteq> None"

locale ttl_store =
  fixes get :: "ms \<Rightarrow> 'k \<Rightarrow> 's \<Rightarrow> 'v option"
    and set_ex :: "ms \<Rightarrow> 'k \<Rightarrow> 'v \<Rightarrow> int \<Rightarrow> 's \<Rightarrow> 's"
    and del :: "'k \<Rightarrow> 's \<Rightarrow> 's"
  assumes get_set: "get t' k' (set_ex t k v ex s) =
      (if k' = k then (if t + ex * 1000 < t' then None else Some v) else get t' k' s)"
    and get_del: "get t' k' (del k s) = (if k' = k then None else get t' k' s)"
begin

text \<open>A value is read back until its expiry, and never after it.\<close>

lemma get_fresh: "t' \<le> t + ex * 1000 \<Longrightarrow> get t' k (set_ex t k v ex s) = Some v"
  by (simp add: get_set)

lemma get_stale: "t + ex * 1000 < t' \<Longrightarrow> get t' k (set_ex t k v ex s) = None"
  by (simp add: get_set)

lemma get_deleted: "get t' k (del k s) = None"
  by (simp add: get_del)

text \<open>A key never serves a value other than the last one written.\<close>

lemma get_only_last: "get t' k (set_ex t k v ex s) = Some w \<Longrightarrow> w = v"
  by (simp add: get_set split: if_splits)

lemma get_other: "k' \<noteq> k \<Longrightarrow> get t' k' (set_ex t k v ex s) = get t' k' s"
  by (simp add: get_set)

end

text \<open>
  Cache-aside over such a store. \<open>coherent\<close> says that every value a read may serve from \<open>now\<close> on is
  acceptable for its key: filling with an acceptable value keeps it, time passing keeps it, and a
  change of what is acceptable is covered by deleting the keys it concerns.
\<close>

definition coherent :: "(ms \<Rightarrow> 'k \<Rightarrow> 's \<Rightarrow> 'v option) \<Rightarrow> ('k \<Rightarrow> 'v \<Rightarrow> bool) \<Rightarrow> ms \<Rightarrow> 's \<Rightarrow> bool" where
  "coherent get good now s \<longleftrightarrow> (\<forall>k v. get now k s = Some v \<longrightarrow> good k v)"

locale cache_aside = ttl_store +
  assumes get_earlier: "t \<le> t' \<Longrightarrow> get t' k s = Some v \<Longrightarrow> get t k s = Some v"
begin

lemma coherent_later: "coherent get good t s \<Longrightarrow> t \<le> t' \<Longrightarrow> coherent get good t' s"
  unfolding coherent_def using get_earlier by blast

lemma coherent_fill: "coherent get good t s \<Longrightarrow> good k v \<Longrightarrow> coherent get good t (set_ex t k v ex s)"
  unfolding coherent_def by (auto simp: get_set split: if_splits)

lemma coherent_delete:
  "coherent get good t s \<Longrightarrow> (\<And>k' v. k' \<noteq> k \<Longrightarrow> good k' v \<Longrightarrow> good' k' v) \<Longrightarrow> coherent get good' t (del k s)"
  unfolding coherent_def by (auto simp: get_del split: if_splits)

lemma coherent_served: "coherent get good t s \<Longrightarrow> get t k s = Some v \<Longrightarrow> good k v"
  unfolding coherent_def by blast

end

lemma key_get_set_px [key_simps]:
  "key_get t' k' (key_set_px t k v px m) =
     (if k' = k then (if t + px < t' then None else Some v) else key_get t' k' m)"
  by (simp add: key_get_def key_set_px_def expired_def)

lemma key_get_set_ex [key_simps]:
  "key_get t' k' (key_set_ex t k v ex m) =
     (if k' = k then (if t + ex * 1000 < t' then None else Some v) else key_get t' k' m)"
  by (simp add: key_set_ex_def key_get_set_px)

lemma key_get_del [key_simps]:
  "key_get t' k' (key_del k m) = (if k' = k then None else key_get t' k' m)"
  by (simp add: key_get_def key_del_def)

lemma key_get_empty [key_simps]: "key_get t k Map.empty = None"
  by (simp add: key_get_def)

interpretation ks: ttl_store key_get key_set_ex key_del
  by unfold_locales (simp_all add: key_simps)

interpretation kc: cache_aside key_get key_set_ex key_del
  by unfold_locales (auto simp: key_get_def expired_def split: option.splits if_splits)

subsection \<open>Sorted sets\<close>

text \<open>
  A sorted set is the list of its members with their scores, every member once. The code's members
  are fresh UUIDs; adding a member that is there updates its score, as \<open>ZADD\<close> does.
\<close>

type_synonym zset = "(string \<times> int) list"

definition zadd :: "int \<Rightarrow> string \<Rightarrow> zset \<Rightarrow> zset" where
  "zadd score mem z = filter (\<lambda>e. fst e \<noteq> mem) z @ [(mem, score)]"

definition zremrangebyscore :: "int \<Rightarrow> int \<Rightarrow> zset \<Rightarrow> zset" where
  "zremrangebyscore lo hi z = filter (\<lambda>e. \<not> (lo \<le> snd e \<and> snd e \<le> hi)) z"

definition zcard :: "zset \<Rightarrow> int" where
  "zcard z = int (length z)"

text \<open>\<open>ZRANGE key 0 0 WITHSCORES\<close>: the score of the first element, none for a missing key.\<close>

definition zoldest :: "zset \<Rightarrow> int option" where
  "zoldest z = (case z of [] \<Rightarrow> None | e # es \<Rightarrow> Some (foldl min (snd e) (map snd es)))"

lemma foldl_min_le: "foldl min (a::int) xs \<le> a \<and> (\<forall>x \<in> set xs. foldl min a xs \<le> x)"
proof (induction xs arbitrary: a)
  case (Cons x xs)
  from Cons [of "min a x"] show ?case by auto
qed simp

lemma foldl_min_mem: "foldl min (a::int) xs \<in> insert a (set xs)"
proof (induction xs arbitrary: a)
  case (Cons x xs)
  from Cons [of "min a x"] show ?case by (auto simp: min_def split: if_splits)
qed simp

lemma zoldest_Some:
  assumes "zoldest z = Some s"
  shows "s \<in> set (map snd z)" and "\<forall>x \<in> set (map snd z). s \<le> x"
proof -
  from assms obtain e es where z: "z = e # es" and s: "s = foldl min (snd e) (map snd es)"
    by (auto simp: zoldest_def split: list.splits)
  show "s \<in> set (map snd z)"
    using foldl_min_mem [of "snd e" "map snd es"] by (simp add: z s)
  show "\<forall>x \<in> set (map snd z). s \<le> x"
    using foldl_min_le [of "snd e" "map snd es"] by (simp add: z s)
qed

lemma zoldest_None: "zoldest z = None \<longleftrightarrow> z = []"
  by (simp add: zoldest_def split: list.split)

lemma map_snd_zadd_fresh: "m \<notin> fst ` set z \<Longrightarrow> map snd (zadd s m z) = map snd z @ [s]"
  by (auto simp: zadd_def) (metis (mono_tags, lifting) filter_True image_eqI)

lemma fst_zadd: "fst ` set (zadd s m z) = insert m (fst ` set z)"
  by (auto simp: zadd_def)

lemma distinct_zadd: "distinct (map fst z) \<Longrightarrow> distinct (map fst (zadd s m z))"
  by (auto simp: zadd_def distinct_map_filter)

lemma map_snd_zrem:
  "map snd (zremrangebyscore lo hi z) = filter (\<lambda>s. \<not> (lo \<le> s \<and> s \<le> hi)) (map snd z)"
  by (simp add: zremrangebyscore_def filter_map comp_def)

lemma fst_zrem: "fst ` set (zremrangebyscore lo hi z) \<subseteq> fst ` set z"
  by (auto simp: zremrangebyscore_def)

end
