(* ===== verification/World.thy ===== *)
theory World
  imports Sample KeyStore
begin

text \<open>
  The state the services share, and how a service reaches it: the database, the Redis keys of the
  caches, of the tokens and codes and of the payment lockout, the permits of the concurrency guard, the domain events emitted
  so far (\<open>reservations/events/reservation.events.ts\<close>) and the Prometheus counters of
  \<open>metrics/metrics.module.ts\<close> that the modelled code moves.

  A cache read or write is best effort (\<open>screenings.cache.ts\<close>, \<open>movies.cache.ts\<close>: every Redis error
  is caught and logged), so with \<open>redis_up\<close> false a read misses and a write does nothing. A cached
  value is the value written: \<open>JSON.parse\<close> undoes \<open>JSON.stringify\<close> on these shapes (a date comes back
  as its ISO text, which the handlers only forward).
\<close>

subsection \<open>Domain events\<close>

datatype event =
    ReservationCreated int "int list"     \<comment> \<open>screening, seats\<close>
  | ReservationCancelled int "int list"
  | ReservationConfirmed int "int list"
  | HoldExpired int int int               \<comment> \<open>user, screening, seat\<close>

subsection \<open>Views the services build\<close>

record seat_map_entry =
  sm_seatId :: int
  sm_row :: string
  sm_number :: string
  sm_status :: seat_status

record future_screening =
  fs_id :: int
  fs_startTime :: ms
  fs_price :: int
  fs_hall :: "int \<times> string \<times> int"

type_synonym screening_full = "screening \<times> movie \<times> hall"

subsection \<open>State\<close>

record auth_keys =
  refresh_keys :: "(int \<times> string, string) keys"        \<comment> \<open>\<open>refresh:user:jti\<close>\<close>
  refresh_sessions :: "(int, string list) keys"        \<comment> \<open>\<open>refresh_sessions:user\<close>, a set\<close>
  access_versions :: "(int, int) keys"                 \<comment> \<open>\<open>access_version:user\<close>\<close>
  otp_codes :: "(string, string) keys"                 \<comment> \<open>\<open>otp:email\<close>\<close>
  otp_attempts :: "(string, int) keys"
  otp_cooldowns :: "(string, string) keys"
  pending_emails :: "(int, string) keys"

record redis =
  redis_up :: bool
  auth :: auth_keys
  seat_maps :: "(int, seat_map_entry list) keys"
  screening_details :: "(int, screening_full) keys"
  movie_screenings :: "(int, future_screening list) keys"
  hall_list :: "(unit, hall list) keys"
  movie_cache :: "(int, movie) keys"
  now_showing :: "(unit, movie list) keys"
  coming_soon :: "(unit, movie list) keys"
  payment_failures :: "(int, zset) keys"
  payment_lockout :: "(int, string) keys"

record metrics =
  reservations_created_total :: int
  reservations_cancelled_total :: int
  reservations_confirmed_total :: int
  reservations_held_current :: int
  payments_succeeded_total :: int
  payments_failed_total :: int
  payments_declined_total :: int
  payments_timed_out_total :: int
  payments_refunded_total :: int
  payment_abuse_lockouts_total :: int

text \<open>\<open>common/services/audit.service.ts\<close>: an event of the audit log. A value of \<open>metadata\<close> may be \<open>undefined\<close>;
  nothing sets the address of the caller (\<open>ip\<close>).\<close>

record audit_event =
  ae_action :: string
  ae_actorId :: "int option"
  ae_target :: "(string \<times> int) option"                \<comment> \<open>\<open>targetType\<close> and \<open>targetId\<close>, always given together\<close>
  ae_metadata :: "(string \<times> string option) list"

record world =
  db :: db
  redis :: redis
  active :: int
  emitted :: "event list"
  metrics :: metrics
  audit_log :: "audit_event list"

definition empty_auth :: auth_keys where
  "empty_auth = \<lparr>refresh_keys = Map.empty, refresh_sessions = Map.empty, access_versions = Map.empty,
     otp_codes = Map.empty, otp_attempts = Map.empty, otp_cooldowns = Map.empty, pending_emails = Map.empty\<rparr>"

definition empty_redis :: redis where
  "empty_redis = \<lparr>redis_up = True, auth = empty_auth, seat_maps = Map.empty, screening_details = Map.empty,
     movie_screenings = Map.empty, hall_list = Map.empty, movie_cache = Map.empty,
     now_showing = Map.empty, coming_soon = Map.empty, payment_failures = Map.empty,
     payment_lockout = Map.empty\<rparr>"

definition zero_metrics :: metrics where
  "zero_metrics = \<lparr>reservations_created_total = 0, reservations_cancelled_total = 0,
     reservations_confirmed_total = 0, reservations_held_current = 0, payments_succeeded_total = 0,
     payments_failed_total = 0, payments_declined_total = 0, payments_timed_out_total = 0,
     payments_refunded_total = 0, payment_abuse_lockouts_total = 0\<rparr>"

definition world_of :: "db \<Rightarrow> world" where
  "world_of d = \<lparr>db = d, redis = empty_redis, active = 0, emitted = [], metrics = zero_metrics, audit_log = []\<rparr>"

type_synonym 'a service = "(world, 'a) act"

subsection \<open>Statements, events, caches\<close>

text \<open>A database call: an error of the client is thrown, \<open>fault\<close> is one the environment injects.\<close>

definition run_stmt :: "prisma_error option \<Rightarrow> 'a stmt \<Rightarrow> 'a service" where
  "run_stmt fault st w =
     (case fault of
        Some e \<Rightarrow> (Inl (Prisma e), w)
      | None \<Rightarrow>
          (case st (db w) of
             Inl e \<Rightarrow> (Inl (Prisma e), w)
           | Inr (x, d) \<Rightarrow> (Inr x, w\<lparr>db := d\<rparr>)))"

definition query :: "(db \<Rightarrow> 'a) \<Rightarrow> 'a service" where
  "query f = gets (\<lambda>w. f (db w))"

definition emit :: "event \<Rightarrow> unit service" where
  "emit e = modify (\<lambda>w. w\<lparr>emitted := emitted w @ [e]\<rparr>)"

definition record_audit :: "audit_event \<Rightarrow> unit service" where
  "record_audit e = modify (\<lambda>w. w\<lparr>audit_log := audit_log w @ [e]\<rparr>)"

text \<open>The events the code records: by an actor, about a target, or both.\<close>

definition by_actor :: "string \<Rightarrow> int \<Rightarrow> audit_event" where
  "by_actor action i = \<lparr>ae_action = action, ae_actorId = Some i, ae_target = None, ae_metadata = []\<rparr>"

definition on_target :: "string \<Rightarrow> string \<Rightarrow> int \<Rightarrow> audit_event" where
  "on_target action target i = \<lparr>ae_action = action, ae_actorId = None, ae_target = Some (target, i), ae_metadata = []\<rparr>"

definition by_actor_on :: "string \<Rightarrow> int \<Rightarrow> string \<Rightarrow> int \<Rightarrow> audit_event" where
  "by_actor_on action i target j = \<lparr>ae_action = action, ae_actorId = Some i, ae_target = Some (target, j), ae_metadata = []\<rparr>"

definition cache_get :: "(redis \<Rightarrow> ('k, 'v) keys) \<Rightarrow> ms \<Rightarrow> 'k \<Rightarrow> 'v option service" where
  "cache_get fam now k =
     gets (\<lambda>w. if redis_up (redis w) then key_get now k (fam (redis w)) else None)"

definition cache_write :: "(redis \<Rightarrow> redis) \<Rightarrow> unit service" where
  "cache_write f = modify (\<lambda>w. if redis_up (redis w) then w\<lparr>redis := f (redis w)\<rparr> else w)"

text \<open>A field of an update DTO: absent, JSON \<open>null\<close> (which \<open>@IsOptional\<close> lets through), or given.\<close>

datatype 'a field = Undefined | Null | Given 'a

definition assign :: "'a field \<Rightarrow> 'a \<Rightarrow> 'a" where
  "assign f old = (case f of Given v \<Rightarrow> v | _ \<Rightarrow> old)"

subsection \<open>Running the primitives\<close>

lemma run_stmt_None: "run_stmt None st w =
  (case st (db w) of Inl e \<Rightarrow> (Inl (Prisma e), w) | Inr (x, d) \<Rightarrow> (Inr x, w\<lparr>db := d\<rparr>))"
  by (simp add: run_stmt_def)

lemma run_stmt_Some [act_simps]: "run_stmt (Some e) st w = (Inl (Prisma e), w)"
  by (simp add: run_stmt_def)

lemma run_stmt_Inr: "st (db w) = Inr (x, d) \<Longrightarrow> run_stmt None st w = (Inr x, w\<lparr>db := d\<rparr>)"
  by (simp add: run_stmt_def)

lemma run_stmt_Inl: "st (db w) = Inl e \<Longrightarrow> run_stmt None st w = (Inl (Prisma e), w)"
  by (simp add: run_stmt_def)

lemma query_run [act_simps]: "query f w = (Inr (f (db w)), w)"
  by (simp add: query_def gets_def)

lemma await_query [act_simps]: "await (query f) k w = k (f (db w)) w"
  by (simp add: query_def act_simps)

lemma emit_run [act_simps]: "emit e w = (Inr (), w\<lparr>emitted := emitted w @ [e]\<rparr>)"
  by (simp add: emit_def modify_def)

lemma await_emit [act_simps]: "await (emit e) k w = k () (w\<lparr>emitted := emitted w @ [e]\<rparr>)"
  by (simp add: emit_def act_simps)

lemma record_audit_run [act_simps]: "record_audit e w = (Inr (), w\<lparr>audit_log := audit_log w @ [e]\<rparr>)"
  by (simp add: record_audit_def modify_def)

lemma await_record_audit [act_simps]: "await (record_audit e) k w = k () (w\<lparr>audit_log := audit_log w @ [e]\<rparr>)"
  by (simp add: record_audit_def act_simps)

lemma await_cache_get [act_simps]:
  "await (cache_get fam now k) f w =
     f (if redis_up (redis w) then key_get now k (fam (redis w)) else None) w"
  by (simp add: cache_get_def act_simps)

lemma await_cache_write [act_simps]:
  "await (cache_write g) f w = f () (if redis_up (redis w) then w\<lparr>redis := g (redis w)\<rparr> else w)"
  by (simp add: cache_write_def act_simps)

lemma cache_write_run [act_simps]:
  "cache_write g w = (Inr (), if redis_up (redis w) then w\<lparr>redis := g (redis w)\<rparr> else w)"
  by (simp add: cache_write_def modify_def)

subsection \<open>Invariants of the database along a service\<close>

definition db_inv :: "(db \<Rightarrow> bool) \<Rightarrow> world \<Rightarrow> bool" where
  "db_inv P w \<longleftrightarrow> P (db w)"

abbreviation keeps_db :: "(db \<Rightarrow> bool) \<Rightarrow> 'a service \<Rightarrow> bool" where
  "keeps_db P \<equiv> keeps (db_inv P)"

lemma keeps_case_field [keeps_rules]:
  "keeps I u \<Longrightarrow> keeps I n \<Longrightarrow> (\<And>v. keeps I (g v)) \<Longrightarrow>
     keeps I (case f of Undefined \<Rightarrow> u | Null \<Rightarrow> n | Given v \<Rightarrow> g v)"
  by (simp split: field.split)

lemma keeps_db_query [keeps_rules]: "keeps_db P (query f)"
  by (simp add: query_def keeps_gets)

lemma keeps_db_emit [keeps_rules]: "keeps_db P (emit e)"
  unfolding emit_def by (rule keeps_modify) (simp add: db_inv_def)

lemma keeps_db_audit [keeps_rules]: "keeps_db P (record_audit e)"
  unfolding record_audit_def by (rule keeps_modify) (simp add: db_inv_def)

lemma keeps_db_cache_get [keeps_rules]: "keeps_db P (cache_get fam now k)"
  by (simp add: cache_get_def keeps_gets)

lemma keeps_db_cache_write [keeps_rules]: "keeps_db P (cache_write f)"
  unfolding cache_write_def by (rule keeps_modify) (simp add: db_inv_def)

lemma keeps_db_metrics: "keeps_db P (modify (\<lambda>w. w\<lparr>metrics := f (metrics w)\<rparr>))"
  by (rule keeps_modify) (simp add: db_inv_def)

lemma keeps_db_stmt:
  assumes "\<And>d x d'. P d \<Longrightarrow> st d = Inr (x, d') \<Longrightarrow> P d'"
  shows "keeps_db P (run_stmt fault st)"
  using assms by (auto simp: keeps_def db_inv_def run_stmt_def split: option.split sum.split)

lemma keeps_dbD: "keeps_db P m \<Longrightarrow> P (db w) \<Longrightarrow> P (db (snd (m w)))"
  by (simp add: keeps_def db_inv_def)

end
