(* ===== verification/Movies.thy ===== *)
theory Movies
  imports World
begin

text \<open>
  The movie catalogue: \<open>movies/movies.repository.ts\<close>, \<open>movies/movies.cache.ts\<close>,
  \<open>movies/movies.service.ts\<close> and the validation of \<open>movies/dto\<close>.

  The admin controller only forwards to these methods and logs; its role check is \<open>Access\<close>. Equal
  \<open>createdAt\<close> values leave the order of a listing open in SQL; here they keep insertion order.
\<close>

subsection \<open>DTOs\<close>

record movie_dto =
  d_name :: string
  d_description :: string
  d_duration :: int
  d_posterImgUrl :: string
  d_movieType :: string
  d_rating :: rat
  d_language :: string
  d_genre :: string

definition valid_movie_dto :: "movie_dto \<Rightarrow> bool" where
  "valid_movie_dto d \<longleftrightarrow> d_name d \<noteq> [] \<and> d_description d \<noteq> [] \<and> 1 \<le> d_duration d \<and>
     d_posterImgUrl d \<noteq> [] \<and> d_movieType d \<noteq> [] \<and> 0 \<le> d_rating d \<and> d_rating d \<le> 10 \<and>
     d_language d \<noteq> [] \<and> d_genre d \<noteq> []"

record movie_patch =
  p_name :: "string field"
  p_description :: "string field"
  p_duration :: "int field"
  p_posterImgUrl :: "string field"
  p_movieType :: "string field"
  p_rating :: "rat field"
  p_language :: "string field"
  p_genre :: "string field"

fun field_ok :: "('a \<Rightarrow> bool) \<Rightarrow> 'a field \<Rightarrow> bool" where
  "field_ok P (Given v) = P v"
| "field_ok P _ = True"

definition valid_movie_patch :: "movie_patch \<Rightarrow> bool" where
  "valid_movie_patch p \<longleftrightarrow> field_ok (\<lambda>s. s \<noteq> []) (p_name p) \<and> field_ok (\<lambda>s. s \<noteq> []) (p_description p) \<and>
     field_ok (\<lambda>n. 1 \<le> n) (p_duration p) \<and> field_ok (\<lambda>s. s \<noteq> []) (p_posterImgUrl p) \<and>
     field_ok (\<lambda>s. s \<noteq> []) (p_movieType p) \<and> field_ok (\<lambda>x. 0 \<le> x \<and> x \<le> 10) (p_rating p) \<and>
     field_ok (\<lambda>s. s \<noteq> []) (p_language p) \<and> field_ok (\<lambda>s. s \<noteq> []) (p_genre p)"

text \<open>No column of the model is nullable, so the client refuses a \<open>null\<close>.\<close>

definition movie_patch_null :: "movie_patch \<Rightarrow> bool" where
  "movie_patch_null p \<longleftrightarrow> p_name p = Null \<or> p_description p = Null \<or> p_duration p = Null \<or>
     p_posterImgUrl p = Null \<or> p_movieType p = Null \<or> p_rating p = Null \<or> p_language p = Null \<or>
     p_genre p = Null"

definition patch_movie :: "movie_patch \<Rightarrow> movie \<Rightarrow> movie" where
  "patch_movie p m = m\<lparr>movie_name := assign (p_name p) (movie_name m),
     description := assign (p_description p) (description m),
     duration := assign (p_duration p) (duration m),
     posterImgUrl := assign (p_posterImgUrl p) (posterImgUrl m),
     movieType := assign (p_movieType p) (movieType m),
     rating := assign (p_rating p) (rating m),
     language := assign (p_language p) (language m),
     genre := assign (p_genre p) (genre m)\<rparr>"

subsection \<open>MoviesRepository\<close>

definition movies_create :: "ms \<Rightarrow> movie_dto \<Rightarrow> movie service" where
  "movies_create now dto =
     (if fits_int32 (d_duration dto)
      then run_stmt None (insert_movie (\<lambda>i.
        \<lparr>rid = i, movie_name = d_name dto, description = d_description dto, duration = d_duration dto,
         posterImgUrl = d_posterImgUrl dto, movieType = d_movieType dto, rating = d_rating dto,
         language = d_language dto, genre = d_genre dto, movie_status = DRAFT, movie_createdAt = now\<rparr>))
      else throw (Prisma POther))"

definition movies_updateById :: "int \<Rightarrow> movie_patch \<Rightarrow> movie service" where
  "movies_updateById i p =
     (if movie_patch_null p then throw (Prisma PValidation)
      else if \<not> field_ok fits_int32 (p_duration p) then throw (Prisma POther)
      else run_stmt None (update_movie i (patch_movie p)))"

definition movies_findById :: "int \<Rightarrow> movie option service" where
  "movies_findById i = query (\<lambda>d. find_row i (movies d))"

definition movies_setStatus :: "int \<Rightarrow> movie_status \<Rightarrow> movie service" where
  "movies_setStatus i st = run_stmt None (update_movie i (\<lambda>m. m\<lparr>movie_status := st\<rparr>))"

definition movies_delete :: "int \<Rightarrow> movie service" where
  "movies_delete i = run_stmt None (delete_movie i)"

definition newest_first :: "movie list \<Rightarrow> movie list" where
  "newest_first ms = sort_key (\<lambda>m. - movie_createdAt m) ms"

definition movies_listAll :: "movie list service" where
  "movies_listAll = query (\<lambda>d. newest_first (rows (movies d)))"

definition movies_findPublishedById :: "int \<Rightarrow> movie option service" where
  "movies_findPublishedById i =
     query (\<lambda>d. List.find (\<lambda>m. rid m = i \<and> movie_status m = PUBLISHED) (rows (movies d)))"

definition future_screens :: "ms \<Rightarrow> int \<Rightarrow> db \<Rightarrow> int list" where
  "future_screens now mid d = map rid (filter (\<lambda>s. scr_movieId s = mid \<and>
     scr_status s = SCHEDULED \<and> now < startTime s) (rows (screenings d)))"

definition movies_findPublishedForBrowse :: "ms \<Rightarrow> (movie \<times> int list) list service" where
  "movies_findPublishedForBrowse now =
     query (\<lambda>d. map (\<lambda>m. (m, take 1 (future_screens now (rid m) d)))
       (newest_first (filter (\<lambda>m. movie_status m = PUBLISHED) (rows (movies d)))))"

definition movie_reserved :: "int \<Rightarrow> db \<Rightarrow> bool" where
  "movie_reserved mid d = list_ex (\<lambda>r.
     case find_row (res_screeningId r) (screenings d) of None \<Rightarrow> False | Some s \<Rightarrow> scr_movieId s = mid)
     (rows (reservations d))"

definition movies_hasReservations :: "int \<Rightarrow> bool service" where
  "movies_hasReservations mid = query (movie_reserved mid)"

subsection \<open>MoviesCache\<close>

definition MOVIE_TTL_SECONDS :: int where "MOVIE_TTL_SECONDS = 3600"

definition LIST_TTL_SECONDS :: int where "LIST_TTL_SECONDS = 60"

definition cache_getMovie :: "ms \<Rightarrow> int \<Rightarrow> movie option service" where
  "cache_getMovie now i = cache_get movie_cache now i"

definition cache_setMovie :: "ms \<Rightarrow> movie \<Rightarrow> unit service" where
  "cache_setMovie now m = cache_write (\<lambda>r.
     r\<lparr>movie_cache := key_set_ex now (rid m) m MOVIE_TTL_SECONDS (movie_cache r)\<rparr>)"

definition cache_delMovie :: "int \<Rightarrow> unit service" where
  "cache_delMovie i = cache_write (\<lambda>r. r\<lparr>movie_cache := key_del i (movie_cache r)\<rparr>)"

definition cache_getLists :: "ms \<Rightarrow> (movie list \<times> movie list) option service" where
  "cache_getLists now =
     await (cache_get now_showing now ()) (\<lambda>nowRaw.
     await (cache_get coming_soon now ()) (\<lambda>soonRaw.
     ret (case (nowRaw, soonRaw) of (Some a, Some b) \<Rightarrow> Some (a, b) | _ \<Rightarrow> None)))"

definition cache_setLists :: "ms \<Rightarrow> movie list \<times> movie list \<Rightarrow> unit service" where
  "cache_setLists now ls = cache_write (\<lambda>r.
     r\<lparr>now_showing := key_set_ex now () (fst ls) LIST_TTL_SECONDS (now_showing r),
       coming_soon := key_set_ex now () (snd ls) LIST_TTL_SECONDS (coming_soon r)\<rparr>)"

definition cache_delLists :: "unit service" where
  "cache_delLists = cache_write (\<lambda>r.
     r\<lparr>now_showing := key_del () (now_showing r), coming_soon := key_del () (coming_soon r)\<rparr>)"

subsection \<open>MoviesService\<close>

definition movie_not_found :: "int \<Rightarrow> err" where
  "movie_not_found i = NotFoundException (''Movie '' @ string_of_int i @ '' not found'')"

definition getExistingMovie :: "int \<Rightarrow> movie service" where
  "getExistingMovie i =
     await (movies_findById i) (\<lambda>m. case m of None \<Rightarrow> throw (movie_not_found i) | Some m \<Rightarrow> ret m)"

definition createMovie :: "ms \<Rightarrow> movie_dto \<Rightarrow> movie service" where
  "createMovie now dto = movies_create now dto"

definition updateMovie :: "int \<Rightarrow> movie_patch \<Rightarrow> movie service" where
  "updateMovie i p =
     await (getExistingMovie i) (\<lambda>_.
     await (movies_updateById i p) (\<lambda>movie.
     await (cache_delMovie i) (\<lambda>_.
     ret movie)))"

definition publish :: "int \<Rightarrow> movie service" where
  "publish i =
     await (getExistingMovie i) (\<lambda>movie.
     if movie_status movie = PUBLISHED then throw (BadRequestException ''Movie is already published'')
     else await (movies_setStatus i PUBLISHED) (\<lambda>published.
          await cache_delLists (\<lambda>_.
          ret published)))"

definition unpublish :: "int \<Rightarrow> movie service" where
  "unpublish i =
     await (getExistingMovie i) (\<lambda>movie.
     if movie_status movie = DRAFT then throw (BadRequestException ''Movie is already a draft'')
     else await (movies_setStatus i DRAFT) (\<lambda>draft.
          await (cache_delMovie i) (\<lambda>_.
          await cache_delLists (\<lambda>_.
          ret draft))))"

definition deleteMovie :: "int \<Rightarrow> movie service" where
  "deleteMovie i =
     await (getExistingMovie i) (\<lambda>_.
     await (movies_hasReservations i) (\<lambda>reserved.
     if reserved then throw (ConflictException
         ''Cannot delete a movie with existing reservations; unpublish it instead'')
     else await (movies_delete i) (\<lambda>deleted.
          await (cache_delMovie i) (\<lambda>_.
          await cache_delLists (\<lambda>_.
          ret deleted)))))"

definition listAllForAdmin :: "movie list service" where
  "listAllForAdmin = movies_listAll"

definition split_browse :: "(movie \<times> int list) list \<Rightarrow> movie list \<times> movie list" where
  "split_browse ms =
     (map fst (filter (\<lambda>m. snd m \<noteq> []) ms), map fst (filter (\<lambda>m. snd m = []) ms))"

definition browseMovies :: "ms \<Rightarrow> (movie list \<times> movie list) service" where
  "browseMovies now =
     await (cache_getLists now) (\<lambda>cached. case cached of
       Some ls \<Rightarrow> ret ls
     | None \<Rightarrow>
         await (movies_findPublishedForBrowse now) (\<lambda>ms.
         let ls = split_browse ms in
         await (cache_setLists now ls) (\<lambda>_.
         ret ls)))"

definition getPublishedMovie :: "ms \<Rightarrow> int \<Rightarrow> movie service" where
  "getPublishedMovie now i =
     await (cache_getMovie now i) (\<lambda>cached. case cached of
       Some m \<Rightarrow> ret m
     | None \<Rightarrow>
         await (movies_findPublishedById i) (\<lambda>m. case m of
           None \<Rightarrow> throw (movie_not_found i)
         | Some m \<Rightarrow> await (cache_setMovie now m) (\<lambda>_. ret m)))"

lemmas movies_repo_defs = movies_create_def movies_updateById_def movies_findById_def
  movies_setStatus_def movies_delete_def movies_listAll_def movies_findPublishedById_def
  movies_findPublishedForBrowse_def movies_hasReservations_def

lemmas movies_cache_defs = cache_getMovie_def cache_setMovie_def cache_delMovie_def
  cache_getLists_def cache_setLists_def cache_delLists_def

lemmas movies_service_defs [handler_defs] = getExistingMovie_def createMovie_def updateMovie_def
  publish_def unpublish_def deleteMovie_def listAllForAdmin_def browseMovies_def getPublishedMovie_def

subsection \<open>Well-formedness\<close>

lemma keeps_movie_stmts [keeps_rules]:
  "keeps_db db_ok (movies_create now dto)"
  "keeps_db db_ok (movies_updateById i p)"
  "keeps_db db_ok (movies_setStatus i st)"
  "keeps_db db_ok (movies_delete i)"
  unfolding movies_create_def movies_updateById_def movies_setStatus_def movies_delete_def
  by (intro keeps_rules keeps_db_stmt; erule (1) db_ok_intros [rotated -1]; simp add: patch_movie_def)+

lemma keeps_movie_services [keeps_rules]:
  "keeps_db db_ok (createMovie now dto)"
  "keeps_db db_ok (updateMovie i p)"
  "keeps_db db_ok (publish i)"
  "keeps_db db_ok (unpublish i)"
  "keeps_db db_ok (deleteMovie i)"
  "keeps_db P (browseMovies now)"
  "keeps_db P (getPublishedMovie now i)"
  unfolding handler_defs movies_cache_defs Let_def
  by (intro keeps_rules keeps_movie_stmts
      | simp add: movies_findById_def movies_hasReservations_def movies_findPublishedForBrowse_def
          movies_findPublishedById_def keeps_rules)+

subsection \<open>What the handlers do\<close>

lemma setStatus_run:
  assumes "db_ok (db w)" and "find_row i (movies (db w)) = Some m"
  shows "movies_setStatus i st w = (Inr (m\<lparr>movie_status := st\<rparr>),
    w\<lparr>db := (db w)\<lparr>movies := update_row i (\<lambda>m. m\<lparr>movie_status := st\<rparr>) (movies (db w))\<rparr>\<rparr>)"
  using assms by (simp add: movies_setStatus_def run_stmt_def update_movie_def on_table_def try_update_def Let_def)

text \<open>The status of a movie is a two-state machine: which transition is refused, and what the others write.\<close>

lemma publish_run:
  assumes "db_ok (db w)"
  shows "publish i w =
    (case find_row i (movies (db w)) of
       None \<Rightarrow> (Inl (movie_not_found i), w)
     | Some m \<Rightarrow>
         if movie_status m = PUBLISHED then (Inl (BadRequestException ''Movie is already published''), w)
         else (Inr (m\<lparr>movie_status := PUBLISHED\<rparr>),
           snd (cache_delLists (snd (movies_setStatus i PUBLISHED w)))))"
  using assms by (simp add: publish_def getExistingMovie_def movies_findById_def act_simps await_def
      setStatus_run cache_delLists_def split: option.split)

lemma unpublish_run:
  assumes "db_ok (db w)"
  shows "unpublish i w =
    (case find_row i (movies (db w)) of
       None \<Rightarrow> (Inl (movie_not_found i), w)
     | Some m \<Rightarrow>
         if movie_status m = DRAFT then (Inl (BadRequestException ''Movie is already a draft''), w)
         else (Inr (m\<lparr>movie_status := DRAFT\<rparr>),
           snd (cache_delLists (snd (cache_delMovie i (snd (movies_setStatus i DRAFT w)))))))"
  using assms by (simp add: unpublish_def getExistingMovie_def movies_findById_def act_simps await_def
      setStatus_run cache_delLists_def cache_delMovie_def split: option.split)

text \<open>Neither of the two cached lists can be served.\<close>

definition lists_missing :: "ms \<Rightarrow> world \<Rightarrow> bool" where
  "lists_missing now w \<longleftrightarrow> redis_up (redis w) \<longrightarrow>
     key_get now () (now_showing (redis w)) = None \<or> key_get now () (coming_soon (redis w)) = None"

lemma browse_miss:
  assumes "lists_missing now w"
  shows "fst (browseMovies now w) = Inr (split_browse (map (\<lambda>m. (m, take 1 (future_screens now (rid m) (db w))))
    (newest_first (filter (\<lambda>m. movie_status m = PUBLISHED) (rows (movies (db w)))))))"
  using assms by (auto simp: lists_missing_def browseMovies_def cache_getLists_def await_assoc act_simps
      movies_findPublishedForBrowse_def cache_setLists_def Let_def split: option.split)

lemma future_screens_Nil:
  "future_screens now mid d = [] \<longleftrightarrow>
     \<not> (\<exists>s \<in> set (rows (screenings d)). scr_movieId s = mid \<and> scr_status s = SCHEDULED \<and> now < startTime s)"
  by (auto simp: future_screens_def filter_empty_conv)

definition now_showing_movie :: "ms \<Rightarrow> db \<Rightarrow> movie \<Rightarrow> bool" where
  "now_showing_movie now d m \<longleftrightarrow>
     (\<exists>s \<in> set (rows (screenings d)). scr_movieId s = rid m \<and> scr_status s = SCHEDULED \<and> now < startTime s)"

lemma split_browse_eq:
  "split_browse (map (\<lambda>m. (m, take 1 (future_screens now (rid m) d))) ms) =
     (filter (now_showing_movie now d) ms, filter (\<lambda>m. \<not> now_showing_movie now d m) ms)"
proof -
  have "take 1 (future_screens now (rid m) d) = [] \<longleftrightarrow> \<not> now_showing_movie now d m" for m
    by (auto simp: future_screens_Nil now_showing_movie_def)
  then show ?thesis by (simp add: split_browse_def filter_map comp_def del: take_eq_Nil)
qed

subsection \<open>Properties\<close>

text \<open>A browse that misses the cache splits the PUBLISHED movies, each in exactly one list: a movie
  is now showing when it has a SCHEDULED screening in the future and coming soon otherwise; both lists
  are newest first and no draft is in them.\<close>

theorem browse_partition:
  assumes "lists_missing now w"
  shows "\<exists>a b w'. browseMovies now w = (Inr (a, b), w') \<and>
    set a = {m \<in> set (rows (movies (db w))). movie_status m = PUBLISHED \<and> now_showing_movie now (db w) m} \<and>
    set b = {m \<in> set (rows (movies (db w))). movie_status m = PUBLISHED \<and> \<not> now_showing_movie now (db w) m} \<and>
    length a + length b = length (filter (\<lambda>m. movie_status m = PUBLISHED) (rows (movies (db w)))) \<and>
    sorted (map (\<lambda>m. - movie_createdAt m) a) \<and> sorted (map (\<lambda>m. - movie_createdAt m) b)"
proof -
  let ?ms = "newest_first (filter (\<lambda>m. movie_status m = PUBLISHED) (rows (movies (db w))))"
  let ?a = "filter (now_showing_movie now (db w)) ?ms" and ?b = "filter (\<lambda>m. \<not> now_showing_movie now (db w) m) ?ms"
  have "fst (browseMovies now w) = Inr (?a, ?b)" by (simp only: browse_miss [OF assms] split_browse_eq)
  then have run: "browseMovies now w = (Inr (?a, ?b), snd (browseMovies now w))" by (metis prod.collapse)
  have srt: "sorted (map (\<lambda>m. - movie_createdAt m) (filter P ?ms))" for P
    unfolding newest_first_def by (rule sorted_filter) simp
  have "length ?a + length ?b = length ?ms" by (rule sum_length_filter_compl)
  then show ?thesis
    using run srt by (intro exI [of _ ?a] exI [of _ ?b]) (auto simp: newest_first_def)
qed

theorem browse_partition_witness:
  "\<exists>w'. browseMovies 0 (world_of sample_db) = (Inr ([sample_movie 1 120 PUBLISHED], []), w')"
proof -
  have "lists_missing 0 (world_of sample_db)"
    by (simp add: lists_missing_def world_of_def empty_redis_def key_simps)
  from browse_partition [OF this] obtain a b w' where
    r: "browseMovies 0 (world_of sample_db) = (Inr (a, b), w')"
    and a: "set a = {m \<in> set (rows (movies sample_db)). movie_status m = PUBLISHED \<and> now_showing_movie 0 sample_db m}"
    and l: "length a + length b = length (filter (\<lambda>m. movie_status m = PUBLISHED) (rows (movies sample_db)))"
    unfolding world_of_def by auto
  have "set a = {sample_movie 1 120 PUBLISHED}" "length a + length b = 1"
    unfolding a l by (auto simp: sample_defs now_showing_movie_def)
  then have "a = [sample_movie 1 120 PUBLISHED] \<and> b = []" by (cases a; cases b) auto
  with r show ?thesis by blast
qed

text \<open>Publishing and unpublishing are a two-state machine on an existing movie: publish is a 400 on
  a PUBLISHED movie and unpublish on a DRAFT one, the other two transitions succeed, and publish
  followed by unpublish (or the reverse) leaves the movie table as it was.\<close>

theorem publish_machine:
  assumes "db_ok (db w)" and "find_row i (movies (db w)) = Some m"
  shows "(movie_status m = PUBLISHED \<longleftrightarrow> fst (publish i w) = Inl (BadRequestException ''Movie is already published'')) \<and>
    (movie_status m = DRAFT \<longleftrightarrow> fst (unpublish i w) = Inl (BadRequestException ''Movie is already a draft'')) \<and>
    (movie_status m = DRAFT \<longrightarrow> fst (publish i w) = Inr (m\<lparr>movie_status := PUBLISHED\<rparr>) \<and>
       movies (db (snd (unpublish i (snd (publish i w))))) = movies (db w)) \<and>
    (movie_status m = PUBLISHED \<longrightarrow> fst (unpublish i w) = Inr (m\<lparr>movie_status := DRAFT\<rparr>) \<and>
       movies (db (snd (publish i (snd (unpublish i w))))) = movies (db w))"
proof -
  have wf: "wf_table (movies (db w))" using assms(1) by (simp add: db_ok_defs)
  have restored: "update_row i (\<lambda>m. m\<lparr>movie_status := b\<rparr>) (update_row i (\<lambda>m. m\<lparr>movie_status := a\<rparr>) (movies (db w))) =
      movies (db w)" if "movie_status m = b" for a b
  proof -
    have "r\<lparr>movie_status := b\<rparr> = r" if r: "r \<in> set (rows (movies (db w)))" "rid r = i" for r
    proof -
      from r assms(2) wf have "r = m" by (metis find_row_iff option.inject)
      with \<open>movie_status m = b\<close> show ?thesis by simp
    qed
    then have "map (\<lambda>r. if rid r = i then r\<lparr>movie_status := b\<rparr> else r) (rows (movies (db w))) = rows (movies (db w))"
      by (intro map_idI) simp
    then show ?thesis by (simp add: update_row_def comp_def if_distrib cong: if_cong)
  qed
  have ok: "db_ok (db (snd (publish i w)))" "db_ok (db (snd (unpublish i w)))"
    using assms(1) keeps_movie_services by (simp_all add: keeps_dbD)
  have st: "movie_status m = DRAFT \<or> movie_status m = PUBLISHED" by (cases "movie_status m") simp_all
  have pub: "movie_status m = DRAFT \<Longrightarrow> movies (db (snd (publish i w))) =
      update_row i (\<lambda>m. m\<lparr>movie_status := PUBLISHED\<rparr>) (movies (db w))"
    "movie_status m = PUBLISHED \<Longrightarrow> movies (db (snd (unpublish i w))) =
      update_row i (\<lambda>m. m\<lparr>movie_status := DRAFT\<rparr>) (movies (db w))"
    using assms by (simp_all add: publish_run unpublish_run setStatus_run cache_delLists_def cache_delMovie_def act_simps)
  have again: "movie_status m = DRAFT \<Longrightarrow> movies (db (snd (unpublish i (snd (publish i w))))) = movies (db w)"
    "movie_status m = PUBLISHED \<Longrightarrow> movies (db (snd (publish i (snd (unpublish i w))))) = movies (db w)"
    using assms(2) restored
    by (simp_all add: unpublish_run [OF ok(1)] publish_run [OF ok(2)] pub find_update_row setStatus_run ok
        cache_delLists_def cache_delMovie_def act_simps)
  with assms st show ?thesis by (auto simp: publish_run unpublish_run)
qed

theorem publish_machine_witness:
  "fst (publish 2 (world_of sample_db)) = Inr (sample_movie 2 90 PUBLISHED)"
proof -
  have "find_row 2 (movies sample_db) = Some (sample_movie 2 90 DRAFT)"
    by (simp add: sample_defs find_row_def)
  then show ?thesis
    using publish_machine [of "world_of sample_db" 2 "sample_movie 2 90 DRAFT"]
    by (simp add: world_of_def sample_db_ok sample_movie_def)
qed

text \<open>After a movie has been unpublished with Redis up, no public read serves it at any later time,
  whatever the caches held: its page is a 404 and neither browse list contains it.\<close>

theorem unpublished_invisible:
  assumes "db_ok (db w)" and "redis_up (redis w)" and "unpublish i w = (Inr m, w')"
  shows "fst (getPublishedMovie t i w') = Inl (movie_not_found i) \<and>
    (\<exists>a b. fst (browseMovies t w') = Inr (a, b) \<and> i \<notin> set (map rid a) \<and> i \<notin> set (map rid b))"
proof -
  from assms(1,3) obtain m0 where m0: "find_row i (movies (db w)) = Some m0"
      and w': "w' = snd (cache_delLists (snd (cache_delMovie i (snd (movies_setStatus i DRAFT w)))))"
    by (auto simp: unpublish_run split: option.splits if_splits)
  have t: "movies (db w') = update_row i (\<lambda>m. m\<lparr>movie_status := DRAFT\<rparr>) (movies (db w))"
    by (simp add: w' setStatus_run [OF assms(1) m0] cache_delLists_def cache_delMovie_def act_simps)
  have miss: "lists_missing t w'" "key_get t i (movie_cache (redis w')) = None"
    using assms(2) by (simp_all add: w' setStatus_run [OF assms(1) m0] cache_delLists_def cache_delMovie_def
        act_simps lists_missing_def key_simps)
  have draft: "movie_status x = DRAFT" if x: "x \<in> set (rows (movies (db w')))" and i: "rid x = i" for x
  proof -
    from x have "x \<in> set (rows (update_row i (\<lambda>m. m\<lparr>movie_status := DRAFT\<rparr>) (movies (db w))))" by (simp add: t)
    then obtain y where "x = y\<lparr>movie_status := DRAFT\<rparr>" using i by (rule updated_rowE) simp_all
    then show ?thesis by simp
  qed
  then have "List.find (\<lambda>m. rid m = i \<and> movie_status m = PUBLISHED) (rows (movies (db w'))) = None"
    by (force simp: find_None_iff)
  then have "fst (getPublishedMovie t i w') = Inl (movie_not_found i)"
    by (simp add: getPublishedMovie_def cache_getMovie_def act_simps miss movies_findPublishedById_def)
  moreover from browse_partition [OF miss(1)] obtain a b where
    "fst (browseMovies t w') = Inr (a, b)" "set a \<union> set b \<subseteq> {x \<in> set (rows (movies (db w'))). movie_status x = PUBLISHED}"
    by fastforce
  moreover from this(2) draft have "i \<notin> set (map rid a)" "i \<notin> set (map rid b)" by fastforce+
  ultimately show ?thesis by blast
qed

theorem unpublished_invisible_witness:
  "\<exists>m w'. unpublish 1 (world_of sample_db) = (Inr m, w') \<and>
     fst (getPublishedMovie 9 1 w') = Inl (movie_not_found 1)"
proof -
  have "find_row 1 (movies sample_db) = Some (sample_movie 1 120 PUBLISHED)"
    by (simp add: sample_defs find_row_def)
  then obtain m w' where u: "unpublish 1 (world_of sample_db) = (Inr m, w')"
    by (simp add: unpublish_run world_of_def sample_db_ok sample_movie_def)
  with unpublished_invisible [of "world_of sample_db" 1 m w' 9] show ?thesis
    by (simp add: world_of_def sample_db_ok empty_redis_def)
qed

end
