(* ===== verification/Halls.thy ===== *)
theory Halls
  imports World "HOL-Library.Multiset" "HOL-Library.Char_ord" "HOL-Library.List_Lexorder" "HOL-Library.Product_Lexorder"
begin

text \<open>
  Halls and their seat grids: \<open>screenings/halls.repository.ts\<close>, \<open>screenings/halls.service.ts\<close> and the
  hall-list part of \<open>screenings/screenings.cache.ts\<close>.

  Seats are listed by \<open>(row, id)\<close>; rows are upper-case labels, so the text order of the database is
  the lexicographic order on characters.
\<close>

subsection \<open>Row labels\<close>

text \<open>The \<open>do .. while\<close> loop of \<open>rowLabel\<close>: the remainder is the last letter, the rest goes on.\<close>

function row_label_loop :: "int \<Rightarrow> string \<Rightarrow> string" where
  "row_label_loop n label =
     (let label' = char_of (65 + nat (n mod 26)) # label;
          n' = n div 26 - 1
      in if 0 \<le> n' then row_label_loop n' label' else label')"
  by pat_completeness auto
termination
  by (relation "measure (\<lambda>(n, _). nat n)") auto

declare row_label_loop.simps [simp del]

definition rowLabel :: "int \<Rightarrow> string" where
  "rowLabel index = row_label_loop index ''''"

text \<open>What a label stands for: its letters as digits 1 to 26, most significant first.\<close>

definition label_value :: "string \<Rightarrow> int" where
  "label_value s = foldl (\<lambda>v c. v * 26 + (of_char c - 64)) 0 s"

definition row_index :: "string \<Rightarrow> int" where
  "row_index s = label_value s - 1"

subsection \<open>HallsRepository\<close>

record hall_dto =
  h_name :: string
  h_rows :: int
  h_seatsPerRow :: int

definition valid_hall_dto :: "hall_dto \<Rightarrow> bool" where
  "valid_hall_dto dto \<longleftrightarrow> h_name dto \<noteq> [] \<and> 1 \<le> h_rows dto \<and> 1 \<le> h_seatsPerRow dto"

type_synonym position = "int \<times> string \<times> string"

definition seat_grid :: "int \<Rightarrow> int \<Rightarrow> int \<Rightarrow> position list" where
  "seat_grid hid nrows per =
     concat (map (\<lambda>r. map (\<lambda>s. (hid, rowLabel r, string_of_int s)) [1..per]) [0..nrows - 1])"

definition seat_position :: "seat \<Rightarrow> position" where
  "seat_position s = (seat_hallId s, seat_row s, seat_number s)"

definition seat_at :: "position \<Rightarrow> int \<Rightarrow> seat" where
  "seat_at p i = \<lparr>rid = i, seat_hallId = fst p, seat_row = fst (snd p), seat_number = snd (snd p)\<rparr>"

fun insert_seats :: "position list \<Rightarrow> seat list stmt" where
  "insert_seats [] d = Inr ([], d)"
| "insert_seats (p # ps) d =
     (case insert_seat (seat_at p) d of
        Inl e \<Rightarrow> Inl e
      | Inr (s, d') \<Rightarrow>
          (case insert_seats ps d' of Inl e \<Rightarrow> Inl e | Inr (ss, d'') \<Rightarrow> Inr (s # ss, d'')))"

definition seats_by_layout :: "int \<Rightarrow> db \<Rightarrow> seat list" where
  "seats_by_layout hid d =
     sort_key (\<lambda>s. (seat_row s, rid s)) (filter (\<lambda>s. seat_hallId s = hid) (rows (seats d)))"

definition find_hall_with_seats :: "int \<Rightarrow> db \<Rightarrow> (hall \<times> seat list) option" where
  "find_hall_with_seats i d =
     (case find_row i (halls d) of None \<Rightarrow> None | Some h \<Rightarrow> Some (h, seats_by_layout i d))"

text \<open>One transaction: an error of a statement rolls back the whole of it.\<close>

definition createHallWithSeats :: "hall_dto \<Rightarrow> (hall \<times> seat list) stmt" where
  "createHallWithSeats dto d =
     (if \<not> fits_int32 (h_rows dto * h_seatsPerRow dto) then Inl POther
      else case insert_hall (\<lambda>i. \<lparr>rid = i, hall_name = h_name dto,
              capacity = h_rows dto * h_seatsPerRow dto\<rparr>) d of
        Inl e \<Rightarrow> Inl e
      | Inr (h, d1) \<Rightarrow>
          (case insert_seats (seat_grid (rid h) (h_rows dto) (h_seatsPerRow dto)) d1 of
             Inl e \<Rightarrow> Inl e
           | Inr (_, d2) \<Rightarrow>
               (case find_hall_with_seats (rid h) d2 of
                  None \<Rightarrow> Inl P2025
                | Some hs \<Rightarrow> Inr (hs, d2))))"

definition halls_findWithSeats :: "int \<Rightarrow> (hall \<times> seat list) option service" where
  "halls_findWithSeats i = query (find_hall_with_seats i)"

definition halls_listHalls :: "hall list service" where
  "halls_listHalls = query (\<lambda>d. sort_key rid (rows (halls d)))"

definition halls_findById :: "int \<Rightarrow> hall option service" where
  "halls_findById i = query (\<lambda>d. find_row i (halls d))"

definition halls_delete :: "int \<Rightarrow> hall service" where
  "halls_delete i = run_stmt None (delete_hall i)"

definition hall_reserved :: "int \<Rightarrow> db \<Rightarrow> bool" where
  "hall_reserved hid d = list_ex (\<lambda>r.
     case find_row (res_screeningId r) (screenings d) of None \<Rightarrow> False | Some s \<Rightarrow> scr_hallId s = hid)
     (rows (reservations d))"

definition halls_hasReservations :: "int \<Rightarrow> bool service" where
  "halls_hasReservations hid = query (hall_reserved hid)"

subsection \<open>Cache and service\<close>

definition HALL_LIST_TTL_SECONDS :: int where "HALL_LIST_TTL_SECONDS = 300"

definition cache_getHalls :: "ms \<Rightarrow> hall list option service" where
  "cache_getHalls now = cache_get hall_list now ()"

definition cache_setHalls :: "ms \<Rightarrow> hall list \<Rightarrow> unit service" where
  "cache_setHalls now hs = cache_write (\<lambda>r.
     r\<lparr>hall_list := key_set_ex now () hs HALL_LIST_TTL_SECONDS (hall_list r)\<rparr>)"

definition cache_delHalls :: "unit service" where
  "cache_delHalls = cache_write (\<lambda>r. r\<lparr>hall_list := key_del () (hall_list r)\<rparr>)"

definition hall_not_found :: "int \<Rightarrow> err" where
  "hall_not_found i = NotFoundException (''Hall '' @ string_of_int i @ '' not found'')"

definition createHall :: "hall_dto \<Rightarrow> (hall \<times> seat list) service" where
  "createHall dto =
     await (run_stmt None (createHallWithSeats dto)) (\<lambda>hall.
     await cache_delHalls (\<lambda>_.
     ret hall))"

definition getHall :: "int \<Rightarrow> (hall \<times> seat list) service" where
  "getHall i =
     await (halls_findWithSeats i) (\<lambda>h. case h of None \<Rightarrow> throw (hall_not_found i) | Some h \<Rightarrow> ret h)"

definition listHalls :: "ms \<Rightarrow> hall list service" where
  "listHalls now =
     await (cache_getHalls now) (\<lambda>cached. case cached of
       Some hs \<Rightarrow> ret hs
     | None \<Rightarrow>
         await halls_listHalls (\<lambda>hs.
         await (cache_setHalls now hs) (\<lambda>_.
         ret hs)))"

definition deleteHall :: "int \<Rightarrow> hall service" where
  "deleteHall i =
     await (halls_findWithSeats i) (\<lambda>h. case h of
       None \<Rightarrow> throw (hall_not_found i)
     | Some _ \<Rightarrow>
         await (halls_hasReservations i) (\<lambda>reserved.
         if reserved then throw (ConflictException ''Cannot delete a hall with existing reservations'')
         else await (halls_delete i) (\<lambda>deleted.
              await cache_delHalls (\<lambda>_.
              ret deleted))))"

lemmas halls_repo_defs = halls_findWithSeats_def halls_listHalls_def halls_findById_def
  halls_delete_def halls_hasReservations_def

lemmas halls_cache_defs = cache_getHalls_def cache_setHalls_def cache_delHalls_def

lemmas halls_service_defs [handler_defs] = createHall_def getHall_def listHalls_def deleteHall_def

subsection \<open>Labels are read back\<close>

lemma foldl_label: "foldl (\<lambda>v c. v * 26 + (of_char c - 64)) a s =
  a * 26 ^ length s + foldl (\<lambda>v c. v * 26 + (of_char c - 64)) (0::int) s"
proof (induction s arbitrary: a)
  case (Cons c s)
  show ?case
    using Cons [of "a * 26 + (of_char c - 64)"] Cons [of "of_char c - 64"]
    by (simp add: algebra_simps)
qed simp

lemma label_value_Cons: "label_value (c # s) = (of_char c - 64) * 26 ^ length s + label_value s"
  unfolding label_value_def using foldl_label [of "of_char c - 64" s] by simp

lemma letter_value: "0 \<le> n \<Longrightarrow> of_char (char_of (65 + nat (n mod 26))) - 64 = n mod 26 + (1::int)"
proof -
  assume "0 \<le> n"
  have "(of_char (char_of (65 + nat (n mod 26)) :: char) :: int) =
      int (of_char (char_of (65 + nat (n mod 26)) :: char))"
    by (simp only: of_nat_of_char)
  also have "\<dots> = int (65 + nat (n mod 26))" by simp
  finally show ?thesis by simp
qed

lemma label_value_loop:
  "0 \<le> n \<Longrightarrow> label_value (row_label_loop n acc) = (n + 1) * 26 ^ length acc + label_value acc"
proof (induction n acc rule: row_label_loop.induct)
  case (1 n label)
  let ?l = "char_of (65 + nat (n mod 26)) # label"
  have l: "label_value ?l = (n mod 26 + 1) * 26 ^ length label + label_value label"
    by (simp add: label_value_Cons letter_value "1.prems")
  show ?case
  proof (cases "0 \<le> n div 26 - 1")
    case True
    have ring: "q * (26 * K) + ((m + 1) * K + v) = (q * 26 + m + 1) * K + v" for q m K v :: int
      by (simp add: algebra_simps)
    have step: "label_value (row_label_loop (n div 26 - 1) ?l) =
        (n div 26) * 26 ^ length ?l + label_value ?l"
      using True "1.IH" [OF refl refl] by simp
    have "(n div 26) * 26 ^ length ?l + label_value ?l =
        (n div 26 * 26 + n mod 26 + 1) * 26 ^ length label + label_value label"
      using ring [of "n div 26" "26 ^ length label" "n mod 26" "label_value label"]
      by (simp only: l list.size(4) power_Suc add_0_right One_nat_def add_Suc_right)
    then have "label_value (row_label_loop (n div 26 - 1) ?l) =
        (n + 1) * 26 ^ length label + label_value label"
      unfolding step div_mult_mod_eq .
    then show ?thesis
      using True by (subst row_label_loop.simps) (simp add: Let_def)
  next
    case False
    then have "n div 26 = 0" using "1.prems" by (simp add: pos_imp_zdiv_nonneg_iff not_le) 
    then have "n mod 26 = n" using mod_div_mult_eq [of n 26] by simp
    with False l show ?thesis
      by (subst row_label_loop.simps) (simp add: Let_def)
  qed
qed

lemma row_index_rowLabel: "0 \<le> n \<Longrightarrow> row_index (rowLabel n) = n"
  using label_value_loop [of n "[]"] by (simp add: row_index_def rowLabel_def label_value_def)

lemma rowLabel_inj: "inj_on rowLabel {0..}"
  by (rule inj_on_inverseI [where g = row_index]) (simp add: row_index_rowLabel)

subsection \<open>The grid\<close>

lemma seat_grid_distinct: "distinct (seat_grid hid nrows per)"
proof -
  have "distinct (concat (map (\<lambda>r. map (\<lambda>s. (hid, rowLabel r, string_of_int s)) [1..per]) rs))"
    if "distinct rs" and "\<forall>r \<in> set rs. 0 \<le> r" for rs
    using that
  proof (induction rs)
    case (Cons r rs)
    have inj: "inj_on (\<lambda>s. (hid, rowLabel r, string_of_int s)) (set [1..per])"
      by (rule inj_onI) (auto dest: string_of_int_inj)
    have "rowLabel r \<noteq> rowLabel r'" if "r' \<in> set rs" for r'
      using that Cons.prems inj_onD [OF rowLabel_inj, of r r'] by auto
    with Cons inj show ?case by (auto simp: distinct_map)
  qed simp
  then show ?thesis unfolding seat_grid_def by simp
qed

lemma length_seat_grid: "length (seat_grid hid nrows per) = nat nrows * nat per"
proof -
  have "length (concat (map (\<lambda>r. map (\<lambda>s. (hid, rowLabel r, string_of_int s)) [1..per]) rs)) =
      length rs * nat per" for rs
    by (induction rs) auto
  then show ?thesis by (simp add: seat_grid_def)
qed

lemma seat_grid_hall: "p \<in> set (seat_grid hid nrows per) \<Longrightarrow> fst p = hid"
  by (auto simp: seat_grid_def)

lemma seat_position_at: "seat_position (seat_at p i) = p"
  by (simp add: seat_position_def seat_at_def)

lemma seat_unique_positions: "seat_unique t \<longleftrightarrow> distinct (map seat_position (rows t))"
  by (simp add: seat_unique_def seat_position_def [abs_def])

text \<open>Seats whose positions are new go in, all of them, at the end of the table.\<close>

lemma insert_seats_new:
  assumes "seat_unique (seats d)" and "distinct ps"
    and "\<forall>p \<in> set ps. p \<notin> seat_position ` set (rows (seats d)) \<and> fst p \<in> set (ids (halls d))"
  shows "\<exists>ss t. insert_seats ps d = Inr (ss, d\<lparr>seats := t\<rparr>) \<and> map seat_position ss = ps \<and>
    rows t = rows (seats d) @ ss"
  using assms
proof (induction ps arbitrary: d)
  case Nil
  then show ?case by (intro exI [of _ "[]"] exI [of _ "seats d"]) simp
next
  case (Cons p ps)
  obtain s t1 where s: "insert_row (seat_at p) (seats d) = (s, t1)" by fastforce
  then have row: "rows t1 = rows (seats d) @ [s]" and sv: "s = seat_at p (next_id (seats d))"
    by (auto simp: table_simps)
  have pos: "seat_position s = p" by (simp add: sv seat_position_at)
  have uniq: "seat_unique t1"
    using Cons.prems by (simp add: seat_unique_positions row pos)
  have fk: "seat_fk d s" using Cons.prems by (simp add: seat_fk_def sv seat_at_def)
  have ins: "insert_seat (seat_at p) d = Inr (s, d\<lparr>seats := t1\<rparr>)"
    using s uniq fk by (simp add: insert_seat_def on_table_def try_insert_def)
  have "\<exists>ss t. insert_seats ps (d\<lparr>seats := t1\<rparr>) = Inr (ss, (d\<lparr>seats := t1\<rparr>)\<lparr>seats := t\<rparr>) \<and>
      map seat_position ss = ps \<and> rows t = rows (seats (d\<lparr>seats := t1\<rparr>)) @ ss"
    by (rule Cons.IH) (use Cons.prems uniq in \<open>auto simp: row pos\<close>)
  then obtain ss t where "insert_seats ps (d\<lparr>seats := t1\<rparr>) = Inr (ss, d\<lparr>seats := t\<rparr>)"
      "map seat_position ss = ps" "rows t = rows t1 @ ss"
    by auto
  with ins pos row show ?case
    by (intro exI [of _ "s # ss"] exI [of _ t]) simp
qed

subsection \<open>Well-formedness\<close>

lemma db_ok_insert_seats [db_ok_intros]:
  "db_ok d \<Longrightarrow> insert_seats ps d = Inr (ss, d') \<Longrightarrow> db_ok d'"
proof (induction ps arbitrary: d ss)
  case (Cons p ps)
  from Cons.prems(2) obtain s d1 ss' where "insert_seat (seat_at p) d = Inr (s, d1)"
      and "insert_seats ps d1 = Inr (ss', d')"
    by (auto split: sum.splits prod.splits)
  then show ?case
    using Cons.IH db_ok_insert_seat [OF Cons.prems(1)] by (metis (no_types, lifting) seat_at_def row.select_convs(1))
qed simp

lemma db_ok_createHallWithSeats [db_ok_intros]:
  "db_ok d \<Longrightarrow> createHallWithSeats dto d = Inr (hs, d') \<Longrightarrow> db_ok d'"
proof -
  assume d: "db_ok d" and c: "createHallWithSeats dto d = Inr (hs, d')"
  from c obtain h d1 ss where h: "insert_hall (\<lambda>i. \<lparr>rid = i, hall_name = h_name dto,
        capacity = h_rows dto * h_seatsPerRow dto\<rparr>) d = Inr (h, d1)"
      and s: "insert_seats (seat_grid (rid h) (h_rows dto) (h_seatsPerRow dto)) d1 = Inr (ss, d')"
    by (auto simp: createHallWithSeats_def split: if_splits sum.splits prod.splits option.splits)
  have "db_ok d1" by (rule db_ok_insert_hall [OF d _ h]) simp
  then show ?thesis using s by (rule db_ok_insert_seats)
qed

lemma keeps_hall_services [keeps_rules]:
  "keeps_db db_ok (createHall dto)"
  "keeps_db P (getHall i)"
  "keeps_db P (listHalls now)"
  "keeps_db db_ok (deleteHall i)"
  unfolding handler_defs halls_repo_defs halls_cache_defs
  by (intro keeps_rules keeps_db_stmt | assumption | erule (1) db_ok_intros)+

subsection \<open>What creating a hall leaves\<close>

lemma createHallWithSeats_run:
  assumes d: "db_ok d" and cap: "fits_int32 (h_rows dto * h_seatsPerRow dto)" and h: "insert_row (\<lambda>i. \<lparr>rid = i, hall_name = h_name dto,
      capacity = h_rows dto * h_seatsPerRow dto\<rparr>) (halls d) = (h, t)"
  shows "\<exists>ss u. createHallWithSeats dto d = Inr ((h, seats_by_layout (rid h) (d\<lparr>halls := t, seats := u\<rparr>)),
      d\<lparr>halls := t, seats := u\<rparr>) \<and> rows u = rows (seats d) @ ss \<and>
    map seat_position ss = seat_grid (rid h) (h_rows dto) (h_seatsPerRow dto)"
proof -
  let ?ps = "seat_grid (rid h) (h_rows dto) (h_seatsPerRow dto)"
  have wf: "wf_table (halls d)" using d by (simp add: db_ok_defs)
  have fresh: "rid h \<notin> set (ids (halls d))" and found: "find_row (rid h) t = Some h"
    using rs.ins_fresh [OF wf _ h] rs.read_your_insert(1) [OF wf _ h] by (simp_all add: find_row_None)
  have hall: "insert_hall (\<lambda>i. \<lparr>rid = i, hall_name = h_name dto,
      capacity = h_rows dto * h_seatsPerRow dto\<rparr>) d = Inr (h, d\<lparr>halls := t\<rparr>)"
    by (simp add: insert_hall_def on_table_def try_insert_def h)
  have "\<exists>ss u. insert_seats ?ps (d\<lparr>halls := t\<rparr>) = Inr (ss, (d\<lparr>halls := t\<rparr>)\<lparr>seats := u\<rparr>) \<and>
      map seat_position ss = ?ps \<and> rows u = rows (seats (d\<lparr>halls := t\<rparr>)) @ ss"
  proof (rule insert_seats_new)
    show "seat_unique (seats (d\<lparr>halls := t\<rparr>))" using d by (simp add: db_ok_defs)
    show "distinct ?ps" by (rule seat_grid_distinct)
    show "\<forall>p \<in> set ?ps. p \<notin> seat_position ` set (rows (seats (d\<lparr>halls := t\<rparr>))) \<and>
        fst p \<in> set (ids (halls (d\<lparr>halls := t\<rparr>)))"
    proof (intro ballI conjI)
      fix p assume p: "p \<in> set ?ps"
      show "fst p \<in> set (ids (halls (d\<lparr>halls := t\<rparr>)))"
        using seat_grid_hall [OF p] by (simp add: ids_insert_row [OF h])
      show "p \<notin> seat_position ` set (rows (seats (d\<lparr>halls := t\<rparr>)))"
        using seat_grid_hall [OF p] fresh d
        by (auto simp: seat_position_def db_ok_defs seat_fk_def)
    qed
  qed
  then obtain ss u where "insert_seats ?ps (d\<lparr>halls := t\<rparr>) = Inr (ss, d\<lparr>halls := t, seats := u\<rparr>)"
      "map seat_position ss = ?ps" "rows u = rows (seats d) @ ss" by auto
  then show ?thesis
    by (intro exI [of _ ss] exI [of _ u])
      (simp add: createHallWithSeats_def cap hall find_hall_with_seats_def found)
qed

lemma new_hall_layout:
  assumes d: "db_ok d" and fresh: "i \<notin> set (ids (halls d))" and u: "rows u = rows (seats d) @ ss"
    and p: "map seat_position ss = seat_grid i n m"
  shows "mset (seats_by_layout i (d\<lparr>halls := t, seats := u\<rparr>)) = mset ss"
proof -
  have "filter (\<lambda>s. seat_hallId s = i) (rows (seats d)) = []"
    using d fresh by (auto simp: filter_empty_conv db_ok_defs seat_fk_def)
  moreover have "filter (\<lambda>s. seat_hallId s = i) ss = ss"
  proof (rule filter_True, rule ballI)
    fix s assume "s \<in> set ss"
    then have "seat_position s \<in> set (seat_grid i n m)" by (simp flip: p)
    then show "seat_hallId s = i" using seat_grid_hall by (fastforce simp: seat_position_def)
  qed
  ultimately show ?thesis by (simp add: seats_by_layout_def u)
qed

lemma set_seat_grid:
  "set (seat_grid i n m) = {(i, rowLabel r, string_of_int s) | r s. 0 \<le> r \<and> r < n \<and> 1 \<le> s \<and> s \<le> m}"
  by (auto simp: seat_grid_def) blast

subsection \<open>Properties\<close>

text \<open>C36. The row label of a zero-based index is bijective base 26: reading its letters back gives the
  index, so two rows of a hall never get the same label.\<close>

theorem rowLabel_roundtrip: "0 \<le> n \<Longrightarrow> row_index (rowLabel n) = n"
  by (rule row_index_rowLabel)

theorem rowLabel_roundtrip_witness: "row_index (rowLabel 701) = 701 \<and> rowLabel 701 = ''ZZ''"
  by (intro conjI, rule rowLabel_roundtrip, simp, code_simp)

text \<open>In a well-formed database, creating a hall whose capacity fits its column always succeeds: the new hall has a fresh id, as
  many seats as its capacity, one for every row and number of the grid and no two at the same
  position; the seats that were there stay as they were, and the cached hall list is dropped.\<close>

theorem createHall_grid:
  assumes "db_ok (db w)" and "valid_hall_dto dto" and "fits_int32 (h_rows dto * h_seatsPerRow dto)"
  shows "\<exists>h ss w'. createHall dto w = (Inr (h, ss), w') \<and>
    find_row (rid h) (halls (db w)) = None \<and> find_row (rid h) (halls (db w')) = Some h \<and>
    capacity h = h_rows dto * h_seatsPerRow dto \<and> int (length ss) = capacity h \<and>
    distinct (map seat_position ss) \<and>
    seat_position ` set ss = {(rid h, rowLabel r, string_of_int s) | r s.
      0 \<le> r \<and> r < h_rows dto \<and> 1 \<le> s \<and> s \<le> h_seatsPerRow dto} \<and>
    take (length (rows (seats (db w)))) (rows (seats (db w'))) = rows (seats (db w)) \<and>
    (redis_up (redis w) \<longrightarrow> key_get now () (hall_list (redis w')) = None) \<and> db_ok (db w')"
proof -
  let ?mk = "\<lambda>i. \<lparr>rid = i, hall_name = h_name dto, capacity = h_rows dto * h_seatsPerRow dto\<rparr>"
  obtain h t where h: "insert_row ?mk (halls (db w)) = (h, t)" by fastforce
  obtain ss u where c: "createHallWithSeats dto (db w) =
        Inr ((h, seats_by_layout (rid h) ((db w)\<lparr>halls := t, seats := u\<rparr>)), (db w)\<lparr>halls := t, seats := u\<rparr>)"
      and u: "rows u = rows (seats (db w)) @ ss"
      and p: "map seat_position ss = seat_grid (rid h) (h_rows dto) (h_seatsPerRow dto)"
    using createHallWithSeats_run [OF assms(1,3) h] by blast
  let ?ss = "seats_by_layout (rid h) ((db w)\<lparr>halls := t, seats := u\<rparr>)"
  let ?w = "snd (createHall dto w)"
  have wf: "wf_table (halls (db w))" using assms(1) by (simp add: db_ok_defs)
  have fresh: "find_row (rid h) (halls (db w)) = None" and found: "find_row (rid h) t = Some h"
    using rs.ins_fresh [OF wf _ h] rs.read_your_insert(1) [OF wf _ h] by simp_all
  have run: "createHall dto w = (Inr (h, ?ss), ?w)" "db ?w = (db w)\<lparr>halls := t, seats := u\<rparr>"
      "redis_up (redis w) \<Longrightarrow> hall_list (redis ?w) = key_del () (hall_list (redis w))"
    by (simp_all add: createHall_def await_def run_stmt_def c cache_delHalls_def act_simps)
  have m: "mset ?ss = mset ss"
    using new_hall_layout [OF assms(1) _ u p] fresh by (simp add: find_row_None)
  have perm: "set ?ss = set ss" "length ?ss = length ss" "mset (map seat_position ?ss) = mset (map seat_position ss)"
    using m by (metis set_mset_mset, metis size_mset, simp)
  have len: "int (length ss) = h_rows dto * h_seatsPerRow dto"
    using assms(2) arg_cong [OF p, of length] by (simp add: length_seat_grid valid_hall_dto_def)
  have dist: "distinct (map seat_position ?ss)"
    using seat_grid_distinct perm(3) p by (metis mset_eq_imp_distinct_iff)
  have pos: "seat_position ` set ?ss = set (seat_grid (rid h) (h_rows dto) (h_seatsPerRow dto))"
    by (simp add: perm flip: p)
  have cap: "capacity h = h_rows dto * h_seatsPerRow dto" by (simp add: insert_row_val [OF h])
  have ok: "db_ok (db ?w)" using assms(1) keeps_hall_services(1) by (simp add: keeps_dbD)
  show ?thesis
    using run fresh found cap len perm(2) dist pos ok u
    by (intro exI [of _ h] exI [of _ ?ss] exI [of _ ?w]) (simp add: set_seat_grid key_simps)
qed

theorem createHall_grid_witness:
  "\<exists>h ss w'. createHall \<lparr>h_name = ''x'', h_rows = 2, h_seatsPerRow = 3\<rparr> (world_of sample_db) = (Inr (h, ss), w') \<and>
     capacity h = 6 \<and> int (length ss) = 6"
proof -
  obtain h ss w' where "createHall \<lparr>h_name = ''x'', h_rows = 2, h_seatsPerRow = 3\<rparr> (world_of sample_db) =
      (Inr (h, ss), w')" "capacity h = 2 * 3" "int (length ss) = capacity h"
    using createHall_grid [of "world_of sample_db" "\<lparr>h_name = ''x'', h_rows = 2, h_seatsPerRow = 3\<rparr>" 0]
    by (auto simp: valid_hall_dto_def fits_int32_def world_of_def sample_db_ok)
  then show ?thesis by (intro exI [of _ h] exI [of _ ss] exI [of _ w']) simp
qed

end
