(* ===== verification/Screenings.thy ===== *)
theory Screenings
  imports Movies Halls
begin

text \<open>
  Scheduling and the public screening reads: \<open>screenings/screenings.repository.ts\<close>,
  \<open>screenings/screenings.service.ts\<close>, \<open>screenings/screenings.cache.ts\<close> and \<open>screenings/dto\<close>.

  \<open>createScreening\<close> is split where the code awaits between its overlap check and its insert
  (\<open>createScreening_check\<close>, \<open>createScreening_insert\<close>), because nothing holds the schedule in between.

  A date is \<open>None\<close> when it is JavaScript's \<open>Invalid Date\<close> (\<open>@IsDateString\<close> accepts ISO forms such as
  week dates that \<open>new Date\<close> does not read): comparisons with it are false and the client refuses it.
\<close>

subsection \<open>DTOs\<close>

record screening_dto =
  c_movieId :: int
  c_hallId :: int
  c_startTime :: "ms option"
  c_price :: int

definition valid_screening_dto :: "screening_dto \<Rightarrow> bool" where
  "valid_screening_dto d \<longleftrightarrow> 1 \<le> c_movieId d \<and> 1 \<le> c_hallId d \<and> 0 \<le> c_price d"

record screening_patch =
  u_movieId :: "int field"
  u_hallId :: "int field"
  u_startTime :: "ms option field"
  u_price :: "int field"

definition valid_screening_patch :: "screening_patch \<Rightarrow> bool" where
  "valid_screening_patch p \<longleftrightarrow> field_ok (\<lambda>n. 1 \<le> n) (u_movieId p) \<and> field_ok (\<lambda>n. 1 \<le> n) (u_hallId p) \<and>
     field_ok (\<lambda>n. 0 \<le> n) (u_price p)"

subsection \<open>ScreeningsRepository\<close>

definition screenings_create :: "int \<Rightarrow> int \<Rightarrow> ms option \<Rightarrow> int \<Rightarrow> screening service" where
  "screenings_create movieId hallId start pr =
     (case start of
        None \<Rightarrow> throw (Prisma PValidation)
      | Some t \<Rightarrow>
          if \<not> fits_int32 movieId \<or> \<not> fits_int32 hallId \<or> \<not> fits_int32 pr then throw (Prisma POther)
          else run_stmt None (insert_screening (\<lambda>i.
            \<lparr>rid = i, scr_hallId = hallId, scr_movieId = movieId, startTime = t,
             scr_status = SCHEDULED, price = pr\<rparr>)))"

definition patch_screening :: "screening_patch \<Rightarrow> ms \<Rightarrow> screening \<Rightarrow> screening" where
  "patch_screening p start s = s\<lparr>scr_movieId := assign (u_movieId p) (scr_movieId s),
     scr_hallId := assign (u_hallId p) (scr_hallId s),
     startTime := (if u_startTime p = Undefined then startTime s else start),
     price := assign (u_price p) (price s)\<rparr>"

definition screenings_updateById :: "int \<Rightarrow> screening_patch \<Rightarrow> ms option \<Rightarrow> screening service" where
  "screenings_updateById i p start =
     (case start of
        None \<Rightarrow> throw (Prisma PValidation)
      | Some t \<Rightarrow>
          if u_price p = Null \<or> u_movieId p = Null \<or> u_hallId p = Null then throw (Prisma PValidation)
          else if \<not> (field_ok fits_int32 (u_price p) \<and> field_ok fits_int32 (u_movieId p) \<and> field_ok fits_int32 (u_hallId p))
          then throw (Prisma POther)
          else run_stmt None (update_screening i (patch_screening p t)))"

definition screening_join :: "int \<Rightarrow> db \<Rightarrow> screening_full option" where
  "screening_join i d =
     (case find_row i (screenings d) of
        None \<Rightarrow> None
      | Some s \<Rightarrow>
          (case (find_row (scr_movieId s) (movies d), find_row (scr_hallId s) (halls d)) of
             (Some m, Some h) \<Rightarrow> Some (s, m, h)
           | _ \<Rightarrow> None))"

definition screenings_findById :: "int \<Rightarrow> screening_full option service" where
  "screenings_findById i = query (screening_join i)"

definition screenings_setStatus :: "int \<Rightarrow> screen_status \<Rightarrow> screening service" where
  "screenings_setStatus i st = run_stmt None (update_screening i (\<lambda>s. s\<lparr>scr_status := st\<rparr>))"

definition screenings_delete :: "int \<Rightarrow> screening service" where
  "screenings_delete i = run_stmt None (delete_screening i)"

definition screening_reserved :: "int \<Rightarrow> db \<Rightarrow> bool" where
  "screening_reserved i d = list_ex (\<lambda>r. res_screeningId r = i) (rows (reservations d))"

definition screenings_hasReservations :: "int \<Rightarrow> bool service" where
  "screenings_hasReservations i = query (screening_reserved i)"

definition movie_duration :: "db \<Rightarrow> int \<Rightarrow> int" where
  "movie_duration d mid = (case find_row mid (movies d) of None \<Rightarrow> 0 | Some m \<Rightarrow> duration m)"

definition scr_end :: "db \<Rightarrow> screening \<Rightarrow> ms" where
  "scr_end d s = startTime s + movie_duration d (scr_movieId s) * 60000"

definition overlapping :: "int \<Rightarrow> ms option \<Rightarrow> ms option \<Rightarrow> int option \<Rightarrow> db \<Rightarrow> screening list" where
  "overlapping hallId start end excludeId d =
     (let candidates = filter (\<lambda>s. scr_hallId s = hallId \<and> scr_status s \<noteq> ScreenCANCELLED \<and>
            excludeId \<noteq> Some (rid s)) (rows (screenings d))
      in filter (\<lambda>s. case (start, end) of
            (Some startMs, Some endMs) \<Rightarrow> startTime s < endMs \<and> startMs < scr_end d s
          | _ \<Rightarrow> False) candidates)"

definition findOverlapping ::
  "int \<Rightarrow> ms option \<Rightarrow> ms option \<Rightarrow> int option \<Rightarrow> screening list service" where
  "findOverlapping hallId start end excludeId = query (overlapping hallId start end excludeId)"

definition future_of_movie :: "int \<Rightarrow> ms \<Rightarrow> db \<Rightarrow> future_screening list" where
  "future_of_movie movieId now d =
     map (\<lambda>s. \<lparr>fs_id = rid s, fs_startTime = startTime s, fs_price = price s,
            fs_hall = (case find_row (scr_hallId s) (halls d) of
                None \<Rightarrow> (0, '''', 0) | Some h \<Rightarrow> (rid h, hall_name h, capacity h))\<rparr>)
       (sort_key startTime (filter (\<lambda>s. scr_movieId s = movieId \<and> scr_status s = SCHEDULED \<and>
          now < startTime s) (rows (screenings d))))"

definition findFutureScheduledByMovie :: "int \<Rightarrow> ms \<Rightarrow> future_screening list service" where
  "findFutureScheduledByMovie movieId now = query (future_of_movie movieId now)"

definition findSeatsByHall :: "int \<Rightarrow> seat list service" where
  "findSeatsByHall hallId = query (seats_by_layout hallId)"

definition active_of_screening :: "int \<Rightarrow> db \<Rightarrow> reservation list" where
  "active_of_screening i d =
     filter (\<lambda>r. res_screeningId r = i \<and> active_res r) (rows (reservations d))"

definition findActiveReservations :: "int \<Rightarrow> (int \<times> reservation_status) list service" where
  "findActiveReservations i =
     query (\<lambda>d. map (\<lambda>r. (res_seatId r, res_status r)) (active_of_screening i d))"

subsection \<open>ScreeningsCache\<close>

definition SEAT_MAP_TTL_SECONDS :: int where "SEAT_MAP_TTL_SECONDS = 300"

definition SCREENING_DETAIL_TTL_SECONDS :: int where "SCREENING_DETAIL_TTL_SECONDS = 60"

definition MOVIE_SCREENINGS_TTL_SECONDS :: int where "MOVIE_SCREENINGS_TTL_SECONDS = 60"

definition cache_getSeatMap :: "ms \<Rightarrow> int \<Rightarrow> seat_map_entry list option service" where
  "cache_getSeatMap now i = cache_get seat_maps now i"

definition cache_setSeatMap :: "ms \<Rightarrow> int \<Rightarrow> seat_map_entry list \<Rightarrow> unit service" where
  "cache_setSeatMap now i m = cache_write (\<lambda>r.
     r\<lparr>seat_maps := key_set_ex now i m SEAT_MAP_TTL_SECONDS (seat_maps r)\<rparr>)"

definition cache_delSeatMap :: "int \<Rightarrow> unit service" where
  "cache_delSeatMap i = cache_write (\<lambda>r. r\<lparr>seat_maps := key_del i (seat_maps r)\<rparr>)"

definition cache_getScreeningDetail :: "ms \<Rightarrow> int \<Rightarrow> screening_full option service" where
  "cache_getScreeningDetail now i = cache_get screening_details now i"

definition cache_setScreeningDetail :: "ms \<Rightarrow> screening_full \<Rightarrow> unit service" where
  "cache_setScreeningDetail now s = cache_write (\<lambda>r.
     r\<lparr>screening_details :=
         key_set_ex now (rid (fst s)) s SCREENING_DETAIL_TTL_SECONDS (screening_details r)\<rparr>)"

definition cache_delScreeningDetail :: "int \<Rightarrow> unit service" where
  "cache_delScreeningDetail i =
     cache_write (\<lambda>r. r\<lparr>screening_details := key_del i (screening_details r)\<rparr>)"

definition cache_getMovieScreenings :: "ms \<Rightarrow> int \<Rightarrow> future_screening list option service" where
  "cache_getMovieScreenings now i = cache_get movie_screenings now i"

definition cache_setMovieScreenings :: "ms \<Rightarrow> int \<Rightarrow> future_screening list \<Rightarrow> unit service" where
  "cache_setMovieScreenings now i ss = cache_write (\<lambda>r.
     r\<lparr>movie_screenings := key_set_ex now i ss MOVIE_SCREENINGS_TTL_SECONDS (movie_screenings r)\<rparr>)"

definition cache_delMovieScreenings :: "int \<Rightarrow> unit service" where
  "cache_delMovieScreenings i =
     cache_write (\<lambda>r. r\<lparr>movie_screenings := key_del i (movie_screenings r)\<rparr>)"

subsection \<open>ScreeningsService: scheduling\<close>

definition screening_not_found :: "int \<Rightarrow> err" where
  "screening_not_found i = NotFoundException (''Screening '' @ string_of_int i @ '' not found'')"

definition overlap_conflict :: err where
  "overlap_conflict = ConflictException ''Hall already has a screening scheduled in this time range''"

definition computeEnd :: "ms option \<Rightarrow> int \<Rightarrow> ms option" where
  "computeEnd start durationMinutes = map_option (\<lambda>t. t + durationMinutes * 60000) start"

definition assertNoOverlap :: "int \<Rightarrow> ms option \<Rightarrow> ms option \<Rightarrow> int option \<Rightarrow> unit service" where
  "assertNoOverlap hallId start end excludeId =
     await (findOverlapping hallId start end excludeId) (\<lambda>os.
     if 0 < length os then throw overlap_conflict else ret ())"

definition getExisting :: "int \<Rightarrow> screening_full service" where
  "getExisting i =
     await (screenings_findById i) (\<lambda>s. case s of
       None \<Rightarrow> throw (screening_not_found i) | Some s \<Rightarrow> ret s)"

definition createScreening_check :: "screening_dto \<Rightarrow> unit service" where
  "createScreening_check dto =
     await (movies_findById (c_movieId dto)) (\<lambda>movie. case movie of
       None \<Rightarrow> throw (movie_not_found (c_movieId dto))
     | Some movie \<Rightarrow>
         await (halls_findById (c_hallId dto)) (\<lambda>hall. case hall of
           None \<Rightarrow> throw (hall_not_found (c_hallId dto))
         | Some _ \<Rightarrow>
             assertNoOverlap (c_hallId dto) (c_startTime dto)
               (computeEnd (c_startTime dto) (duration movie)) None))"

definition createScreening_insert :: "screening_dto \<Rightarrow> screening service" where
  "createScreening_insert dto =
     await (screenings_create (c_movieId dto) (c_hallId dto) (c_startTime dto) (c_price dto)) (\<lambda>screening.
     await cache_delLists (\<lambda>_.
     await (cache_delMovieScreenings (c_movieId dto)) (\<lambda>_.
     ret screening)))"

definition createScreening :: "screening_dto \<Rightarrow> screening service" where
  "createScreening dto = await (createScreening_check dto) (\<lambda>_. createScreening_insert dto)"

definition effective_duration :: "screening_patch \<Rightarrow> screening_full \<Rightarrow> int service" where
  "effective_duration p existing =
     (case existing of (s, m, h) \<Rightarrow>
       (case u_movieId p of
          Undefined \<Rightarrow> ret (duration m)
        | Null \<Rightarrow> throw (Prisma PValidation)
        | Given mid \<Rightarrow>
            if mid = scr_movieId s then ret (duration m)
            else await (movies_findById mid) (\<lambda>movie. case movie of
                   None \<Rightarrow> throw (movie_not_found mid)
                 | Some movie \<Rightarrow> ret (duration movie))))"

definition check_new_hall :: "screening_patch \<Rightarrow> screening_full \<Rightarrow> unit service" where
  "check_new_hall p existing =
     (case u_hallId p of
        Undefined \<Rightarrow> ret ()
      | Null \<Rightarrow> throw (Prisma PValidation)
      | Given hid \<Rightarrow>
          if hid = scr_hallId (fst existing) then ret ()
          else await (halls_findById hid) (\<lambda>hall. case hall of
                 None \<Rightarrow> throw (hall_not_found hid)
               | Some _ \<Rightarrow> ret ()))"

definition invalidate_screening :: "int \<Rightarrow> int \<Rightarrow> unit service" where
  "invalidate_screening i movieId =
     await cache_delLists (\<lambda>_.
     await (cache_delSeatMap i) (\<lambda>_.
     await (cache_delScreeningDetail i) (\<lambda>_.
     cache_delMovieScreenings movieId)))"

definition updateScreening :: "int \<Rightarrow> screening_patch \<Rightarrow> screening service" where
  "updateScreening i p =
     await (getExisting i) (\<lambda>existing.
     let hallId = assign (u_hallId p) (scr_hallId (fst existing));
         start = assign (u_startTime p) (Some (startTime (fst existing))) in
     await (effective_duration p existing) (\<lambda>dur.
     await (check_new_hall p existing) (\<lambda>_.
     await (assertNoOverlap hallId start (computeEnd start dur) (Some i)) (\<lambda>_.
     await (screenings_updateById i p start) (\<lambda>updated.
     await (invalidate_screening i (scr_movieId (fst existing))) (\<lambda>_.
     ret updated))))))"

definition cancelScreening :: "int \<Rightarrow> screening service" where
  "cancelScreening i =
     await (getExisting i) (\<lambda>existing.
     if scr_status (fst existing) = ScreenCANCELLED
     then throw (BadRequestException ''Screening is already cancelled'')
     else await (screenings_setStatus i ScreenCANCELLED) (\<lambda>cancelled.
          await (invalidate_screening i (scr_movieId (fst existing))) (\<lambda>_.
          ret cancelled)))"

definition deleteScreening :: "int \<Rightarrow> screening service" where
  "deleteScreening i =
     await (getExisting i) (\<lambda>existing.
     await (screenings_hasReservations i) (\<lambda>reserved.
     if reserved then throw (ConflictException
         ''Cannot delete a screening with existing reservations; cancel it instead'')
     else await (screenings_delete i) (\<lambda>deleted.
          await (invalidate_screening i (scr_movieId (fst existing))) (\<lambda>_.
          ret deleted))))"

subsection \<open>ScreeningsService: public reads\<close>

definition getScreeningDetail :: "ms \<Rightarrow> int \<Rightarrow> screening_full service" where
  "getScreeningDetail now i =
     await (cache_getScreeningDetail now i) (\<lambda>cached. case cached of
       Some s \<Rightarrow>
         if scr_status (fst s) = ScreenCANCELLED then throw (screening_not_found i) else ret s
     | None \<Rightarrow>
         await (screenings_findById i) (\<lambda>screening. case screening of
           None \<Rightarrow> throw (screening_not_found i)
         | Some s \<Rightarrow>
             if scr_status (fst s) = ScreenCANCELLED then throw (screening_not_found i)
             else await (cache_setScreeningDetail now s) (\<lambda>_. ret s)))"

definition getMovieScreenings :: "ms \<Rightarrow> int \<Rightarrow> future_screening list service" where
  "getMovieScreenings now movieId =
     await (cache_getMovieScreenings now movieId) (\<lambda>cached. case cached of
       Some ss \<Rightarrow> ret ss
     | None \<Rightarrow>
         await (movies_findPublishedById movieId) (\<lambda>movie. case movie of
           None \<Rightarrow> throw (movie_not_found movieId)
         | Some _ \<Rightarrow>
             await (findFutureScheduledByMovie movieId now) (\<lambda>ss.
             await (cache_setMovieScreenings now movieId ss) (\<lambda>_.
             ret ss))))"

fun toSeatStatus :: "reservation_status option \<Rightarrow> seat_status" where
  "toSeatStatus (Some HELD) = SeatHELD"
| "toSeatStatus (Some CONFIRMED) = SeatBOOKED"
| "toSeatStatus _ = SeatAVAILABLE"

definition status_by_seat :: "(int \<times> reservation_status) list \<Rightarrow> int \<Rightarrow> reservation_status option" where
  "status_by_seat rs = foldl (\<lambda>m r. m(fst r \<mapsto> snd r)) Map.empty rs"

definition build_seat_map ::
  "seat list \<Rightarrow> (int \<times> reservation_status) list \<Rightarrow> seat_map_entry list" where
  "build_seat_map ss rs =
     map (\<lambda>s. \<lparr>sm_seatId = rid s, sm_row = seat_row s, sm_number = seat_number s,
        sm_status = toSeatStatus (status_by_seat rs (rid s))\<rparr>) ss"

definition getSeatMap :: "ms \<Rightarrow> int \<Rightarrow> seat_map_entry list service" where
  "getSeatMap now i =
     await (cache_getSeatMap now i) (\<lambda>cached. case cached of
       Some m \<Rightarrow> ret m
     | None \<Rightarrow>
         await (screenings_findById i) (\<lambda>screening. case screening of
           None \<Rightarrow> throw (screening_not_found i)
         | Some s \<Rightarrow>
             if scr_status (fst s) = ScreenCANCELLED then throw (screening_not_found i)
             else await (findSeatsByHall (scr_hallId (fst s))) (\<lambda>ss.
                  await (findActiveReservations i) (\<lambda>rs.
                  let seatMap = build_seat_map ss rs in
                  await (cache_setSeatMap now i seatMap) (\<lambda>_.
                  ret seatMap)))))"

record screening_summary =
  sum_screeningId :: int
  sum_capacity :: int
  sum_held :: int
  sum_booked :: int
  sum_available :: int
  sum_reserved :: int

fun count_seats :: "int \<Rightarrow> int \<Rightarrow> seat_map_entry list \<Rightarrow> int \<times> int" where
  "count_seats held booked [] = (held, booked)"
| "count_seats held booked (e # es) =
     (if sm_status e = SeatHELD then count_seats (held + 1) booked es
      else if sm_status e = SeatBOOKED then count_seats held (booked + 1) es
      else count_seats held booked es)"

definition summarize :: "int \<Rightarrow> seat_map_entry list \<Rightarrow> screening_summary" where
  "summarize i m =
     (case count_seats 0 0 m of (held, booked) \<Rightarrow>
        let cap = int (length m)
        in \<lparr>sum_screeningId = i, sum_capacity = cap, sum_held = held, sum_booked = booked,
            sum_available = cap - held - booked, sum_reserved = held + booked\<rparr>)"

definition getScreeningSummary :: "ms \<Rightarrow> int \<Rightarrow> screening_summary service" where
  "getScreeningSummary now i = await (getSeatMap now i) (\<lambda>m. ret (summarize i m))"

lemmas screenings_repo_defs = screenings_create_def screenings_updateById_def screenings_findById_def
  screenings_setStatus_def screenings_delete_def screenings_hasReservations_def
  findOverlapping_def findFutureScheduledByMovie_def findSeatsByHall_def findActiveReservations_def

lemmas screenings_cache_defs = cache_getSeatMap_def cache_setSeatMap_def cache_delSeatMap_def
  cache_getScreeningDetail_def cache_setScreeningDetail_def cache_delScreeningDetail_def
  cache_getMovieScreenings_def cache_setMovieScreenings_def cache_delMovieScreenings_def

lemmas screenings_service_defs [handler_defs] = assertNoOverlap_def getExisting_def
  createScreening_check_def createScreening_insert_def createScreening_def effective_duration_def
  check_new_hall_def invalidate_screening_def updateScreening_def cancelScreening_def
  deleteScreening_def getScreeningDetail_def getMovieScreenings_def getSeatMap_def
  getScreeningSummary_def

subsection \<open>Well-formedness\<close>

lemma keeps_screening_stmts [keeps_rules]:
  "keeps_db db_ok (screenings_create movieId hallId start pr)"
  "keeps_db db_ok (screenings_updateById i p start)"
  "keeps_db db_ok (screenings_setStatus i st)"
  "keeps_db db_ok (screenings_delete i)"
  unfolding screenings_create_def screenings_updateById_def screenings_setStatus_def screenings_delete_def
  by (intro keeps_rules keeps_db_stmt; erule (1) db_ok_intros [rotated -1]; simp add: patch_screening_def)+

lemma keeps_invalidate_screening [keeps_rules]: "keeps_db P (invalidate_screening i m)"
  unfolding invalidate_screening_def screenings_cache_defs movies_cache_defs by (intro keeps_rules)

lemma keeps_screening_reads [keeps_rules]:
  "keeps_db P (getExisting i)"
  "keeps_db P (assertNoOverlap h s e x)"
  "keeps_db P (effective_duration p ex)"
  "keeps_db P (check_new_hall p ex)"
  "keeps_db P (createScreening_check dto)"
  "keeps_db P (getScreeningDetail now i)"
  "keeps_db P (getMovieScreenings now i)"
  "keeps_db P (getSeatMap now i)"
  "keeps_db P (getScreeningSummary now i)"
  unfolding assertNoOverlap_def getExisting_def createScreening_check_def effective_duration_def
    check_new_hall_def getScreeningDetail_def getMovieScreenings_def getSeatMap_def
    getScreeningSummary_def screenings_cache_defs Let_def
    screenings_findById_def findOverlapping_def findFutureScheduledByMovie_def findSeatsByHall_def
    findActiveReservations_def movies_findById_def movies_findPublishedById_def halls_findById_def
  by (intro keeps_rules)+

lemma keeps_screening_services [keeps_rules]:
  "keeps_db db_ok (createScreening dto)"
  "keeps_db db_ok (createScreening_insert dto)"
  "keeps_db db_ok (updateScreening i p)"
  "keeps_db db_ok (cancelScreening i)"
  "keeps_db db_ok (deleteScreening i)"
  unfolding createScreening_def createScreening_insert_def updateScreening_def cancelScreening_def
    deleteScreening_def Let_def screenings_cache_defs movies_cache_defs screenings_hasReservations_def
  by (intro keeps_rules)+

subsection \<open>The schedule of a hall\<close>

text \<open>
  The contract of scheduling: the time slots of two screenings of a hall that are not cancelled share
  no instant. A slot is the half-open interval from the start to the end of the movie.
\<close>

definition slot :: "db \<Rightarrow> screening \<Rightarrow> ms set" where
  "slot d s = {startTime s ..< scr_end d s}"

definition schedule_ok :: "db \<Rightarrow> bool" where
  "schedule_ok d \<longleftrightarrow> (\<forall>s \<in> set (rows (screenings d)). \<forall>s' \<in> set (rows (screenings d)).
     rid s \<noteq> rid s' \<and> scr_hallId s = scr_hallId s' \<and>
     scr_status s \<noteq> ScreenCANCELLED \<and> scr_status s' \<noteq> ScreenCANCELLED \<longrightarrow> slot d s \<inter> slot d s' = {})"

definition durations_ok :: "db \<Rightarrow> bool" where
  "durations_ok d \<longleftrightarrow> (\<forall>m \<in> set (rows (movies d)). 1 \<le> duration m)"

lemma slots_disjoint:
  fixes a b c e :: int
  shows "\<not> (a < e \<and> c < b) \<Longrightarrow> {a ..< b} \<inter> {c ..< e} = {}"
  by auto

lemma overlapping_Nil:
  "overlapping h (Some a) (Some b) x d = [] \<longleftrightarrow>
     (\<forall>s \<in> set (rows (screenings d)). scr_hallId s = h \<and> scr_status s \<noteq> ScreenCANCELLED \<and> x \<noteq> Some (rid s)
        \<longrightarrow> \<not> (startTime s < b \<and> a < scr_end d s))"
  by (auto simp: overlapping_def filter_empty_conv)

lemma slot_cong: "movies d' = movies d \<Longrightarrow> slot d' s = slot d s"
  by (simp add: slot_def scr_end_def movie_duration_def)

lemma schedule_okI:
  assumes "schedule_ok d" and "movies d' = movies d"
    and old: "\<And>s. s \<in> set (rows (screenings d')) \<Longrightarrow> rid s \<noteq> i \<Longrightarrow> s \<in> set (rows (screenings d))"
    and new: "\<And>s s'. s \<in> set (rows (screenings d')) \<Longrightarrow> rid s = i \<Longrightarrow> scr_status s \<noteq> ScreenCANCELLED \<Longrightarrow>
      s' \<in> set (rows (screenings d)) \<Longrightarrow> rid s' \<noteq> i \<Longrightarrow> scr_hallId s' = scr_hallId s \<Longrightarrow>
      scr_status s' \<noteq> ScreenCANCELLED \<Longrightarrow> slot d s \<inter> slot d s' = {}"
  shows "schedule_ok d'"
  unfolding schedule_ok_def slot_cong [OF assms(2)]
proof (intro ballI impI, elim conjE)
  fix s s'
  assume s: "s \<in> set (rows (screenings d'))" "s' \<in> set (rows (screenings d'))"
    and ne: "rid s \<noteq> rid s'" and h: "scr_hallId s = scr_hallId s'"
    and c: "scr_status s \<noteq> ScreenCANCELLED" "scr_status s' \<noteq> ScreenCANCELLED"
  consider "rid s = i" | "rid s' = i" | "rid s \<noteq> i" "rid s' \<noteq> i" by blast
  then show "slot d s \<inter> slot d s' = {}"
  proof cases
    case 1
    with ne old [OF s(2)] new [OF s(1) 1 c(1)] h c show ?thesis by auto
  next
    case 2
    with ne old [OF s(1)] new [OF s(2) 2 c(2)] h c show ?thesis by auto
  next
    case 3
    with old s have "s \<in> set (rows (screenings d))" "s' \<in> set (rows (screenings d))" by auto
    with assms(1) ne h c show ?thesis unfolding schedule_ok_def by blast
  qed
qed

lemma movie_duration_found: "find_row i (movies d) = Some m \<Longrightarrow> movie_duration d i = duration m"
  by (simp add: movie_duration_def)

lemma schedule_insert:
  assumes d: "schedule_ok d" and m: "find_row mid (movies d) = Some m"
    and free: "overlapping hid (Some t) (Some (t + duration m * 60000)) None d = []"
    and ins: "insert_screening (\<lambda>i. \<lparr>rid = i, scr_hallId = hid, scr_movieId = mid, startTime = t,
      scr_status = SCHEDULED, price = pr\<rparr>) d = Inr (s, d')"
  shows "schedule_ok d'"
proof -
  from ins obtain tab where r: "insert_row (\<lambda>i. \<lparr>rid = i, scr_hallId = hid, scr_movieId = mid,
      startTime = t, scr_status = SCHEDULED, price = pr\<rparr>) (screenings d) = (s, tab)"
      and d': "d' = d\<lparr>screenings := tab\<rparr>"
    unfolding insert_screening_def by (rule insert_stmtE)
  from r have rows: "rows tab = rows (screenings d) @ [s]"
      and s: "scr_hallId s = hid" "scr_movieId s = mid" "startTime s = t"
    by (simp_all add: rows_insert_row [OF r] insert_row_val [OF r])
  have e: "scr_end d s = t + duration m * 60000"
    by (simp add: scr_end_def s movie_duration_found [OF m])
  show ?thesis
  proof (rule schedule_okI [OF d, where i = "rid s"])
    fix x x'
    assume "x \<in> set (rows (screenings d'))" "rid x = rid s" "scr_status x \<noteq> ScreenCANCELLED"
      "x' \<in> set (rows (screenings d))" "rid x' \<noteq> rid s" "scr_hallId x' = scr_hallId x"
      "scr_status x' \<noteq> ScreenCANCELLED"
    moreover from this have "x = s \<or> x \<in> set (rows (screenings d))" by (auto simp: d' rows)
    ultimately show "slot d x \<inter> slot d x' = {}"
    proof (elim disjE)
      assume "x = s"
      moreover have "\<not> (startTime x' < t + duration m * 60000 \<and> t < scr_end d x')"
        using free \<open>x' \<in> set (rows (screenings d))\<close> \<open>scr_hallId x' = scr_hallId x\<close> \<open>x = s\<close> s
          \<open>scr_status x' \<noteq> ScreenCANCELLED\<close> unfolding overlapping_Nil by simp
      ultimately show ?thesis unfolding slot_def e by (intro slots_disjoint) (auto simp: e s)
    qed (use d in \<open>auto simp: schedule_ok_def\<close>)
  qed (auto simp: d' rows)
qed

lemma schedule_update:
  assumes wf: "wf_table (screenings d)" and d: "schedule_ok d"
    and f: "\<And>s. rid (f s) = rid s" and s: "find_row i (screenings d) = Some s"
    and free: "scr_status (f s) \<noteq> ScreenCANCELLED \<Longrightarrow>
      overlapping (scr_hallId (f s)) (Some (startTime (f s))) (Some (scr_end d (f s))) (Some i) d = []"
    and up: "update_screening i f d = Inr (s1, d')"
  shows "schedule_ok d'"
proof -
  from up have d': "d' = d\<lparr>screenings := update_row i f (screenings d)\<rparr>"
    unfolding update_screening_def by (rule update_stmtE)
  have id: "rid s = i" using s by (rule find_row_key)
  show ?thesis
  proof (rule schedule_okI [OF d, where i = i])
    fix x x'
    assume x: "x \<in> set (rows (screenings d'))" "rid x = i" "scr_status x \<noteq> ScreenCANCELLED"
      and x': "x' \<in> set (rows (screenings d))" "rid x' \<noteq> i" "scr_hallId x' = scr_hallId x"
      "scr_status x' \<noteq> ScreenCANCELLED"
    from x(1,2) obtain y where y: "y \<in> set (rows (screenings d))" "x = (if rid y = i then f y else y)"
      by (auto simp: d' table_simps)
    with x(2) f have "rid y = i" by (auto split: if_splits)
    with y s wf id have "x = f s" by (auto simp: find_row_iff dest: wf_table_eq)
    with free x x' show "slot d x \<inter> slot d x' = {}"
      unfolding slot_def by (intro slots_disjoint) (auto simp: overlapping_Nil)
  qed (auto simp: d' table_simps f split: if_splits)
qed

lemma schedule_delete:
  assumes "schedule_ok d" and "delete_screening i d = Inr (s, d')"
  shows "schedule_ok d'"
  using assms(2)
  by (intro schedule_okI [OF assms(1), where i = i])
    (auto simp: delete_screening_def cascade_simps table_simps dest!: on_table_InrD try_delete_InrD)

subsection \<open>What the handlers do\<close>

lemma createScreening_check_run:
  "createScreening_check dto w =
     (case find_row (c_movieId dto) (movies (db w)) of
        None \<Rightarrow> (Inl (movie_not_found (c_movieId dto)), w)
      | Some m \<Rightarrow>
          (case find_row (c_hallId dto) (halls (db w)) of
             None \<Rightarrow> (Inl (hall_not_found (c_hallId dto)), w)
           | Some h \<Rightarrow>
               if overlapping (c_hallId dto) (c_startTime dto)
                    (computeEnd (c_startTime dto) (duration m)) None (db w) = []
               then (Inr (), w) else (Inl overlap_conflict, w)))"
  by (simp add: createScreening_check_def movies_findById_def halls_findById_def assertNoOverlap_def
      findOverlapping_def act_simps split: option.split)

lemma db_cache_write: "db (snd (cache_write f w)) = db w"
  by (simp add: act_simps)

lemma await_keep_Inr: "fst (m w) = Inr x \<Longrightarrow> await m k w = k x (snd (m w))"
  by (cases "m w") (simp add: await_def)

text \<open>The insert half: the row goes in and the two cached lists go out.\<close>

definition drop_lists :: "int \<Rightarrow> redis \<Rightarrow> redis" where
  "drop_lists mid r = r\<lparr>now_showing := key_del () (now_showing r),
     coming_soon := key_del () (coming_soon r), movie_screenings := key_del mid (movie_screenings r)\<rparr>"

definition drop_screening :: "int \<Rightarrow> int \<Rightarrow> redis \<Rightarrow> redis" where
  "drop_screening i mid r = (drop_lists mid r)\<lparr>seat_maps := key_del i (seat_maps r),
     screening_details := key_del i (screening_details r)\<rparr>"

definition with_redis :: "(redis \<Rightarrow> redis) \<Rightarrow> world \<Rightarrow> world" where
  "with_redis f w = (if redis_up (redis w) then w\<lparr>redis := f (redis w)\<rparr> else w)"

lemma db_with_redis [simp]: "db (with_redis f w) = db w"
  by (simp add: with_redis_def)

definition dto_fits :: "screening_dto \<Rightarrow> bool" where
  "dto_fits dto \<longleftrightarrow> fits_int32 (c_movieId dto) \<and> fits_int32 (c_hallId dto) \<and> fits_int32 (c_price dto)"

lemma createScreening_insert_run:
  "createScreening_insert dto w =
     (case c_startTime dto of
        None \<Rightarrow> (Inl (Prisma PValidation), w)
      | Some t \<Rightarrow>
          if \<not> dto_fits dto then (Inl (Prisma POther), w)
          else (case insert_screening (\<lambda>i. \<lparr>rid = i, scr_hallId = c_hallId dto, scr_movieId = c_movieId dto,
                 startTime = t, scr_status = SCHEDULED, price = c_price dto\<rparr>) (db w) of
             Inl e \<Rightarrow> (Inl (Prisma e), w)
           | Inr (s, d) \<Rightarrow> (Inr s, with_redis (drop_lists (c_movieId dto)) (w\<lparr>db := d\<rparr>))))"
  by (simp add: createScreening_insert_def screenings_create_def cache_delLists_def
      cache_delMovieScreenings_def act_simps await_def run_stmt_def with_redis_def drop_lists_def dto_fits_def
      split: option.split sum.split prod.split)

lemma invalidate_screening_run:
  "invalidate_screening i mid w = (Inr (), with_redis (drop_screening i mid) w)"
  by (simp add: invalidate_screening_def cache_delLists_def cache_delSeatMap_def
      cache_delScreeningDetail_def cache_delMovieScreenings_def act_simps with_redis_def
      drop_screening_def drop_lists_def)

lemma keeps_schedule_create: "keeps_db (\<lambda>d. db_ok d \<and> schedule_ok d) (createScreening dto)"
proof (rule keepsI, unfold db_inv_def)
  fix w :: world assume w: "db_ok (db w) \<and> schedule_ok (db w)"
  have "db_ok (db (snd (createScreening dto w)))"
    using keeps_screening_services(1) w by (simp add: keeps_dbD)
  moreover have "schedule_ok (db (snd (createScreening dto w)))"
    using w by (auto simp: createScreening_def await_def createScreening_check_run
        createScreening_insert_run computeEnd_def split: option.splits sum.splits prod.splits if_splits
        intro: schedule_insert)
  ultimately show "db_ok (db (snd (createScreening dto w))) \<and> schedule_ok (db (snd (createScreening dto w)))" ..
qed

lemma screening_join_Some:
  "screening_join i d = Some (s, m, h) \<longleftrightarrow> find_row i (screenings d) = Some s \<and>
     find_row (scr_movieId s) (movies d) = Some m \<and> find_row (scr_hallId s) (halls d) = Some h"
  by (auto simp: screening_join_def split: option.splits)

lemma getExisting_run:
  "getExisting i w =
     (case screening_join i (db w) of
        None \<Rightarrow> (Inl (screening_not_found i), w) | Some s \<Rightarrow> (Inr s, w))"
  by (simp add: getExisting_def screenings_findById_def act_simps split: option.split)

lemma check_new_hall_state: "snd (check_new_hall p ex w) = w"
  by (auto simp: check_new_hall_def halls_findById_def act_simps split: field.split option.split)

lemma effective_duration_run:
  assumes "effective_duration p (s, m, h) w = (Inr n, w')"
    and "find_row (scr_movieId s) (movies (db w)) = Some m"
  shows "w' = w" and "n = movie_duration (db w) (assign (u_movieId p) (scr_movieId s))"
  using assms by (auto simp: effective_duration_def movies_findById_def act_simps assign_def
      movie_duration_def split: field.splits option.splits if_splits)

lemma effective_duration_state: "snd (effective_duration p ex w) = w"
  by (auto simp: effective_duration_def movies_findById_def act_simps
      split: field.split option.split prod.split)

lemma assertNoOverlap_run:
  "assertNoOverlap h s e x w =
     (if overlapping h s e x (db w) = [] then (Inr (), w) else (Inl overlap_conflict, w))"
  by (simp add: assertNoOverlap_def findOverlapping_def act_simps)


lemma db_screenings_updateById:
  "snd (screenings_updateById i p st w) = w \<or>
    (\<exists>t s d. st = Some t \<and> u_price p \<noteq> Null \<and> u_movieId p \<noteq> Null \<and> u_hallId p \<noteq> Null \<and>
       update_screening i (patch_screening p t) (db w) = Inr (s, d) \<and>
       snd (screenings_updateById i p st w) = w\<lparr>db := d\<rparr>)"
  by (auto simp: screenings_updateById_def throw_def run_stmt_def split: option.split sum.split)

lemma await_state:
  "snd (m w) = w \<Longrightarrow> snd (await m k w) = (case fst (m w) of Inl _ \<Rightarrow> w | Inr x \<Rightarrow> snd (k x w))"
  by (cases "m w") (auto simp: await_def split: sum.split)

text \<open>An update either changes no row, or writes the patched row into a slot the check found free.\<close>

lemma updateScreening_db:
  obtains "db (snd (updateScreening i p w)) = db w"
  | s t d s1 where "find_row i (screenings (db w)) = Some s"
      "overlapping (assign (u_hallId p) (scr_hallId s)) (Some t)
         (Some (t + movie_duration (db w) (assign (u_movieId p) (scr_movieId s)) * 60000)) (Some i) (db w) = []"
      "assign (u_startTime p) (Some (startTime s)) = Some t"
      "update_screening i (patch_screening p t) (db w) = Inr (s1, d)"
      "db (snd (updateScreening i p w)) = d"
proof (cases "screening_join i (db w)")
  case None
  then show ?thesis by (intro that(1)) (simp add: updateScreening_def await_def getExisting_run)
next
  case (Some ex)
  obtain s m h where ex: "ex = (s, m, h)" by (metis prod_cases3)
  with Some have s: "find_row i (screenings (db w)) = Some s"
      and m: "find_row (scr_movieId s) (movies (db w)) = Some m"
    by (simp_all add: screening_join_Some)
  let ?start = "assign (u_startTime p) (Some (startTime s))"
  let ?o = "\<lambda>dur. overlapping (assign (u_hallId p) (scr_hallId s)) ?start (computeEnd ?start dur) (Some i) (db w)"
  let ?w = "snd (screenings_updateById i p ?start w)"
  have run: "db (snd (updateScreening i p w)) =
      (case (fst (effective_duration p ex w), fst (check_new_hall p ex w)) of
         (Inr dur, Inr _) \<Rightarrow> if ?o dur = [] then db ?w else db w
       | _ \<Rightarrow> db w)"
    unfolding updateScreening_def
    by (simp add: await_def [of "getExisting i"] getExisting_run Some ex Let_def await_state
        effective_duration_state check_new_hall_state assertNoOverlap_run split: sum.split)
      (auto simp: await_def invalidate_screening_run ret_def split: sum.split prod.split)
  show ?thesis
  proof (cases "db (snd (updateScreening i p w)) = db w")
    case False
    then obtain dur where dur: "fst (effective_duration p ex w) = Inr dur" and free: "?o dur = []"
        and w: "db (snd (updateScreening i p w)) = db ?w"
      unfolding run by (auto split: sum.splits if_splits)
    have ne: "?w \<noteq> w" using False w by auto
    from db_screenings_updateById [of i p ?start w] ne obtain t s1 d where t: "?start = Some t"
        and up: "update_screening i (patch_screening p t) (db w) = Inr (s1, d)" and d: "?w = w\<lparr>db := d\<rparr>"
      by auto
    have "dur = movie_duration (db w) (assign (u_movieId p) (scr_movieId s))"
      using effective_duration_run(2) [of p s m h w dur] dur m ex effective_duration_state [of p ex w]
      by (metis prod.collapse)
    with free t w d up s show ?thesis by (intro that(2)) (auto simp: computeEnd_def)
  qed (rule that(1))
qed

lemma schedule_after_update:
  assumes w: "db_ok (db w)" "schedule_ok (db w)"
  shows "schedule_ok (db (snd (updateScreening i p w)))"
proof (rule updateScreening_db [of i p w])
  fix s t d s1
  assume s: "find_row i (screenings (db w)) = Some s"
    and free: "overlapping (assign (u_hallId p) (scr_hallId s)) (Some t)
         (Some (t + movie_duration (db w) (assign (u_movieId p) (scr_movieId s)) * 60000)) (Some i) (db w) = []"
    and t: "assign (u_startTime p) (Some (startTime s)) = Some t"
    and up: "update_screening i (patch_screening p t) (db w) = Inr (s1, d)"
    and d: "db (snd (updateScreening i p w)) = d"
  have st: "startTime (patch_screening p t s) = t"
    using t by (auto simp: patch_screening_def assign_def split: field.splits)
  have en: "scr_end (db w) (patch_screening p t s) =
      t + movie_duration (db w) (assign (u_movieId p) (scr_movieId s)) * 60000"
    by (simp add: scr_end_def st) (simp add: patch_screening_def)
  have "schedule_ok d"
    by (rule schedule_update [OF _ w(2) _ s _ up])
      (use w free in \<open>simp_all add: st en db_ok_defs\<close>, simp_all add: patch_screening_def)
  then show ?thesis by (simp add: d)
qed (use w in simp)

lemma keeps_schedule_update: "keeps_db (\<lambda>d. db_ok d \<and> schedule_ok d) (updateScreening i p)"
  unfolding keeps_def db_inv_def
  using keeps_screening_services(3) schedule_after_update by (auto intro: keeps_dbD)

lemma cancelScreening_run:
  "cancelScreening i w =
     (case screening_join i (db w) of
        None \<Rightarrow> (Inl (screening_not_found i), w)
      | Some (s, m, h) \<Rightarrow>
          if scr_status s = ScreenCANCELLED then (Inl (BadRequestException ''Screening is already cancelled''), w)
          else (case update_screening i (\<lambda>s. s\<lparr>scr_status := ScreenCANCELLED\<rparr>) (db w) of
                  Inl e \<Rightarrow> (Inl (Prisma e), w)
                | Inr (s', d) \<Rightarrow> (Inr s', with_redis (drop_screening i (scr_movieId s)) (w\<lparr>db := d\<rparr>))))"
  by (simp add: cancelScreening_def await_def getExisting_run screenings_setStatus_def run_stmt_def
      invalidate_screening_run act_simps split: option.split sum.split prod.split)

lemma deleteScreening_run:
  "deleteScreening i w =
     (case screening_join i (db w) of
        None \<Rightarrow> (Inl (screening_not_found i), w)
      | Some (s, m, h) \<Rightarrow>
          if screening_reserved i (db w) then (Inl (ConflictException
             ''Cannot delete a screening with existing reservations; cancel it instead''), w)
          else (case delete_screening i (db w) of
                  Inl e \<Rightarrow> (Inl (Prisma e), w)
                | Inr (s', d) \<Rightarrow> (Inr s', with_redis (drop_screening i (scr_movieId s)) (w\<lparr>db := d\<rparr>))))"
  by (simp add: deleteScreening_def await_def getExisting_run screenings_hasReservations_def
      screenings_delete_def run_stmt_def invalidate_screening_run act_simps
      split: option.split sum.split prod.split)

lemma schedule_after_cancel:
  assumes w: "db_ok (db w)" "schedule_ok (db w)"
  shows "schedule_ok (db (snd (cancelScreening i w)))"
proof -
  have "schedule_ok d" if "find_row i (screenings (db w)) = Some s"
    and "update_screening i (\<lambda>s. s\<lparr>scr_status := ScreenCANCELLED\<rparr>) (db w) = Inr (s', d)" for s s' d
    by (rule schedule_update [OF _ w(2) _ that(1) _ that(2)]) (use w in \<open>simp_all add: db_ok_defs\<close>)
  with w show ?thesis
    by (auto simp: cancelScreening_run screening_join_Some split: option.split sum.split)
qed

lemma schedule_after_delete:
  "schedule_ok (db w) \<Longrightarrow> schedule_ok (db (snd (deleteScreening i w)))"
  by (auto simp: deleteScreening_run split: option.split sum.split intro: schedule_delete)

subsection \<open>The seat map against the reservations\<close>

text \<open>What the reservation table says about a seat of a screening.\<close>

definition seat_state :: "db \<Rightarrow> int \<Rightarrow> int \<Rightarrow> seat_status" where
  "seat_state d i sid =
     (if \<exists>r \<in> set (rows (reservations d)). res_screeningId r = i \<and> res_seatId r = sid \<and> res_status r = CONFIRMED
      then SeatBOOKED
      else if \<exists>r \<in> set (rows (reservations d)). res_screeningId r = i \<and> res_seatId r = sid \<and> res_status r = HELD
      then SeatHELD else SeatAVAILABLE)"

definition seat_map_of :: "db \<Rightarrow> int \<Rightarrow> int \<Rightarrow> seat_map_entry list" where
  "seat_map_of d hallId i =
     map (\<lambda>s. \<lparr>sm_seatId = rid s, sm_row = seat_row s, sm_number = seat_number s,
        sm_status = seat_state d i (rid s)\<rparr>) (seats_by_layout hallId d)"

text \<open>Every reservation is of a seat of its screening's hall.\<close>

definition seats_in_hall :: "db \<Rightarrow> bool" where
  "seats_in_hall d \<longleftrightarrow> (\<forall>r \<in> set (rows (reservations d)).
     case (find_row (res_screeningId r) (screenings d), find_row (res_seatId r) (seats d)) of
       (Some sc, Some st) \<Rightarrow> seat_hallId st = scr_hallId sc | _ \<Rightarrow> True)"

definition count_status :: "reservation_status \<Rightarrow> int \<Rightarrow> db \<Rightarrow> int" where
  "count_status st i d =
     int (length (filter (\<lambda>r. res_screeningId r = i \<and> res_status r = st) (rows (reservations d))))"

lemma status_by_seat_foldl:
  "distinct (map fst rs) \<Longrightarrow>
     foldl (\<lambda>m r. m(fst r \<mapsto> snd r)) m rs i = (case map_of rs i of None \<Rightarrow> m i | Some v \<Rightarrow> Some v)"
proof (induction rs arbitrary: m)
  case (Cons r rs)
  then have "fst r = i \<Longrightarrow> map_of rs i = None" by (auto simp: map_of_eq_None_iff)
  with Cons show ?case by (auto split: option.split)
qed simp

lemma status_by_seat_map_of: "distinct (map fst rs) \<Longrightarrow> status_by_seat rs i = map_of rs i"
  by (simp add: status_by_seat_def status_by_seat_foldl split: option.split)

lemma distinct_active_seats:
  assumes "reservation_unique (reservations d)"
  shows "distinct (map res_seatId (active_of_screening i d))"
proof -
  have "distinct (map res_seatId (filter (\<lambda>r. res_screeningId r = i) xs))"
    if "distinct (map (\<lambda>r. (res_seatId r, res_screeningId r)) xs)" for xs
    using that by (induction xs) (auto simp: image_iff)
  moreover have "active_of_screening i d =
      filter (\<lambda>r. res_screeningId r = i) (filter active_res (rows (reservations d)))"
    by (simp add: active_of_screening_def conj_commute)
  ultimately show ?thesis using assms by (simp add: reservation_unique_def del: filter_filter)
qed

lemma status_choice:
  "\<not> (A \<and> B) \<Longrightarrow> ((if B then SeatBOOKED else if A then SeatHELD else SeatAVAILABLE) = SeatHELD) = A"
  "((if B then SeatBOOKED else if A then SeatHELD else SeatAVAILABLE) = SeatBOOKED) = B"
  by auto

lemma seat_state_iff:
  assumes d: "reservation_unique (reservations d)" and st: "st = HELD \<or> st = CONFIRMED"
  shows "seat_state d i sid = toSeatStatus (Some st) \<longleftrightarrow>
    (\<exists>r \<in> set (rows (reservations d)). res_screeningId r = i \<and> res_seatId r = sid \<and> res_status r = st)"
proof -
  have "\<not> ((\<exists>r \<in> set (rows (reservations d)). res_screeningId r = i \<and> res_seatId r = sid \<and> res_status r = HELD) \<and>
      (\<exists>r \<in> set (rows (reservations d)). res_screeningId r = i \<and> res_seatId r = sid \<and> res_status r = CONFIRMED))"
  proof (rule notI, elim conjE bexE)
    fix r r'
    assume "r \<in> set (rows (reservations d))" "r' \<in> set (rows (reservations d))"
      and "res_screeningId r = i" "res_seatId r = sid" "res_status r = HELD"
      and "res_screeningId r' = i" "res_seatId r' = sid" "res_status r' = CONFIRMED"
    with active_unique_eq [OF d, of r r'] show False by (simp add: active_res_def)
  qed
  then show ?thesis
    using st unfolding seat_state_def
    by (elim disjE) (simp_all only: toSeatStatus.simps status_choice simp_thms)
qed

lemma status_of_seat:
  assumes d: "reservation_unique (reservations d)"
  shows "toSeatStatus (status_by_seat
      (map (\<lambda>r. (res_seatId r, res_status r)) (active_of_screening i d)) sid) = seat_state d i sid"
proof -
  let ?rs = "map (\<lambda>r. (res_seatId r, res_status r)) (active_of_screening i d)"
  have dist: "distinct (map fst ?rs)" using distinct_active_seats [OF d] by (simp add: comp_def)
  show ?thesis
  proof (cases "map_of ?rs sid")
    case None
    then have "\<nexists>r. r \<in> set (rows (reservations d)) \<and> res_screeningId r = i \<and> res_seatId r = sid \<and>
        (res_status r = CONFIRMED \<or> res_status r = HELD)"
      by (auto simp: map_of_eq_None_iff active_of_screening_def active_res_def image_iff)
    then show ?thesis using None by (auto simp: status_by_seat_map_of [OF dist] seat_state_def)
  next
    case (Some st)
    then obtain r where r: "r \<in> set (rows (reservations d))" "res_screeningId r = i" "active_res r"
        "res_seatId r = sid" "res_status r = st"
      by (auto simp: active_of_screening_def dest!: map_of_SomeD)
    with seat_state_iff [OF d, of st i sid] have "seat_state d i sid = toSeatStatus (Some st)"
      by (cases st) (auto simp: active_res_def)
    then show ?thesis by (simp add: status_by_seat_map_of [OF dist] Some)
  qed
qed

lemma build_seat_map_correct:
  "reservation_unique (reservations d) \<Longrightarrow>
   build_seat_map (seats_by_layout h d)
     (map (\<lambda>r. (res_seatId r, res_status r)) (active_of_screening i d)) = seat_map_of d h i"
  by (simp add: build_seat_map_def seat_map_of_def status_of_seat)

definition serve_cached :: "(redis \<Rightarrow> ('k, 'v) keys) \<Rightarrow> ms \<Rightarrow> 'k \<Rightarrow> world \<Rightarrow> 'v option" where
  "serve_cached fam now k w = (if redis_up (redis w) then key_get now k (fam (redis w)) else None)"

lemma getSeatMap_run:
  assumes "db_ok (db w)"
  shows "getSeatMap now i w =
    (case serve_cached seat_maps now i w of
       Some m \<Rightarrow> (Inr m, w)
     | None \<Rightarrow>
         (case screening_join i (db w) of
            None \<Rightarrow> (Inl (screening_not_found i), w)
          | Some (s, _, _) \<Rightarrow>
              if scr_status s = ScreenCANCELLED then (Inl (screening_not_found i), w)
              else let m = seat_map_of (db w) (scr_hallId s) i in
                (Inr m, with_redis (\<lambda>r. r\<lparr>seat_maps :=
                    key_set_ex now i m SEAT_MAP_TTL_SECONDS (seat_maps r)\<rparr>) w)))"
  using assms
  by (simp add: getSeatMap_def cache_getSeatMap_def serve_cached_def cache_setSeatMap_def
      screenings_findById_def findSeatsByHall_def findActiveReservations_def act_simps Let_def
      build_seat_map_correct db_ok_defs with_redis_def split: option.split prod.split)

lemma count_seats_eq:
  "count_seats h b m = (h + int (length (filter (\<lambda>e. sm_status e = SeatHELD) m)),
     b + int (length (filter (\<lambda>e. sm_status e = SeatBOOKED) m)))"
  by (induction m arbitrary: h b) auto

lemma seats_by_layout_set: "set (seats_by_layout h d) = {s \<in> set (rows (seats d)). seat_hallId s = h}"
  by (auto simp: seats_by_layout_def)

lemma distinct_layout: "wf_table (seats d) \<Longrightarrow> distinct (map rid (seats_by_layout h d))"
proof -
  assume "wf_table (seats d)"
  then have "distinct (map rid (filter (\<lambda>s. seat_hallId s = h) (rows (seats d))))"
    by (auto simp: wf_table_def ids_def distinct_map_filter)
  then have dist: "distinct (filter (\<lambda>s. seat_hallId s = h) (rows (seats d)))"
    and inj: "inj_on rid (set (filter (\<lambda>s. seat_hallId s = h) (rows (seats d))))"
    by (simp_all add: distinct_map)
  then show ?thesis by (simp add: seats_by_layout_def distinct_map)
qed

text \<open>
  A seat of the hall has a status exactly when a reservation of the screening has the matching one,
  so counting the seats is counting the reservations.
\<close>

lemma count_status_seats:
  assumes d: "db_ok d" and hall: "seats_in_hall d" and s: "find_row i (screenings d) = Some s"
    and st: "st = HELD \<or> st = CONFIRMED"
  shows "int (length (filter (\<lambda>e. sm_status e = toSeatStatus (Some st)) (seat_map_of d (scr_hallId s) i))) =
    count_status st i d"
proof -
  let ?R = "{r \<in> set (rows (reservations d)). res_screeningId r = i \<and> res_status r = st}"
  let ?S = "{x \<in> set (seats_by_layout (scr_hallId s) d). seat_state d i (rid x) = toSeatStatus (Some st)}"
  have d': "wf_table (seats d)" "wf_table (reservations d)" "reservation_unique (reservations d)"
    "\<forall>r \<in> set (rows (reservations d)). reservation_fk d r"
    using d by (simp_all add: db_ok_defs)
  have only: "r = r'" if "r \<in> set (rows (reservations d))" "r' \<in> set (rows (reservations d))"
    "active_res r" "active_res r'" "res_seatId r = res_seatId r'" "res_screeningId r = res_screeningId r'" for r r'
    using active_unique_eq [OF d'(3)] that by blast
  have inj: "inj_on res_seatId ?R"
    by (rule inj_onI) (use only st in \<open>auto simp: active_res_def\<close>)
  have img: "res_seatId ` ?R = rid ` ?S"
  proof (intro set_eqI iffI)
    fix sid assume "sid \<in> res_seatId ` ?R"
    then obtain r where r: "r \<in> set (rows (reservations d))" "res_screeningId r = i" "res_status r = st"
        "sid = res_seatId r" by auto
    with d'(4) have "sid \<in> set (ids (seats d))" by (simp add: reservation_fk_def)
    then obtain x where x: "find_row sid (seats d) = Some x" by (metis find_row_ids not_None_eq)
    from hall r(1) s x r(2,4) have "seat_hallId x = scr_hallId s" by (auto simp: seats_in_hall_def)
    moreover have "seat_state d i sid = toSeatStatus (Some st)"
      using r by (auto simp: seat_state_iff [OF d'(3) st])
    ultimately show "sid \<in> rid ` ?S"
      using find_row_mem [OF x] find_row_key [OF x] by (auto simp: seats_by_layout_set)
  next
    fix sid assume "sid \<in> rid ` ?S"
    then show "sid \<in> res_seatId ` ?R"
      by (auto simp: seat_state_iff [OF d'(3) st] image_iff)
  qed
  have dl: "distinct (seats_by_layout (scr_hallId s) d)" and il: "inj_on rid (set (seats_by_layout (scr_hallId s) d))"
    using distinct_layout [OF d'(1)] by (simp_all add: distinct_map)
  have "length (filter (\<lambda>x. seat_state d i (rid x) = toSeatStatus (Some st)) (seats_by_layout (scr_hallId s) d)) = card ?S"
    using dl by (simp add: distinct_length_filter Collect_conj_eq Int_commute)
  also have "\<dots> = card (rid ` ?S)" by (rule card_image [symmetric], rule inj_on_subset [OF il]) auto
  also have "\<dots> = card ?R" unfolding img [symmetric] by (rule card_image [OF inj])
  also have "\<dots> = length (filter (\<lambda>r. res_screeningId r = i \<and> res_status r = st) (rows (reservations d)))"
    using d'(2) by (subst distinct_length_filter)
      (auto simp: wf_table_def ids_def distinct_map intro!: arg_cong [where f = card])
  finally show ?thesis
    by (simp add: count_status_def seat_map_of_def filter_map comp_def)
qed

subsection \<open>Creating a screening\<close>

lemma slot_overlap_iff:
  fixes a b c e :: int
  shows "a < b \<Longrightarrow> c < e \<Longrightarrow> {a ..< b} \<inter> {c ..< e} \<noteq> {} \<longleftrightarrow> a < e \<and> c < b"
  by (auto simp: disjoint_iff not_le)

lemma screening_duration_pos:
  assumes "db_ok d" and "durations_ok d" and "s \<in> set (rows (screenings d))"
  shows "startTime s < scr_end d s"
proof -
  from assms have "scr_movieId s \<in> set (ids (movies d))" by (simp add: db_ok_defs screening_fk_def)
  then obtain m where m: "find_row (scr_movieId s) (movies d) = Some m"
    by (metis find_row_ids not_None_eq)
  with assms(2) have "1 \<le> duration m" by (auto simp: durations_ok_def dest: find_row_mem)
  with m show ?thesis by (simp add: scr_end_def movie_duration_def)
qed

text \<open>The slot of the hall shares an instant with a screening that is not cancelled.\<close>

definition slot_taken :: "db \<Rightarrow> int \<Rightarrow> ms set \<Rightarrow> bool" where
  "slot_taken d hallId T \<longleftrightarrow> (\<exists>s \<in> set (rows (screenings d)).
     scr_hallId s = hallId \<and> scr_status s \<noteq> ScreenCANCELLED \<and> slot d s \<inter> T \<noteq> {})"

lemma overlapping_iff:
  assumes "db_ok d" and "durations_ok d" and "a < b"
  shows "overlapping h (Some a) (Some b) None d = [] \<longleftrightarrow> \<not> slot_taken d h {a ..< b}"
proof -
  have "slot d s \<inter> {a ..< b} \<noteq> {} \<longleftrightarrow> startTime s < b \<and> a < scr_end d s" if "s \<in> set (rows (screenings d))" for s
    using screening_duration_pos [OF assms(1,2) that] assms(3) unfolding slot_def by (rule slot_overlap_iff)
  then show ?thesis by (auto simp: overlapping_Nil slot_taken_def)
qed

text \<open>C11. Scheduling a screening of an existing movie in an existing hall, with no other request in between, is refused with
  the conflict error, and changes nothing, exactly when its time slot shares an instant with a screening of the hall
  that is not cancelled. When the slot is free but the price (or an id) does not fit its INT4 column, which the DTO does
  not exclude, the answer is an error of the client, a 500, and nothing changes; otherwise the screening is stored under a
  fresh id, SCHEDULED, with the requested movie, hall, time and price.\<close>

theorem createScreening_conflict_iff:
  assumes "db_ok (db w)" and "durations_ok (db w)"
    and "find_row (c_movieId dto) (movies (db w)) = Some m"
    and "find_row (c_hallId dto) (halls (db w)) = Some h" and "c_startTime dto = Some t"
  shows "let taken = slot_taken (db w) (c_hallId dto) {t ..< t + duration m * 60000} in
    case createScreening dto w of
      (Inl e, w') \<Rightarrow> w' = w \<and> (if taken then e = overlap_conflict else \<not> dto_fits dto \<and> e = Prisma POther)
    | (Inr s, w') \<Rightarrow> \<not> taken \<and> dto_fits dto \<and> find_row (rid s) (screenings (db w)) = None \<and>
        find_row (rid s) (screenings (db w')) = Some s \<and> scr_status s = SCHEDULED \<and>
        scr_movieId s = c_movieId dto \<and> scr_hallId s = c_hallId dto \<and> startTime s = t \<and> price s = c_price dto"
proof -
  let ?mk = "\<lambda>i. \<lparr>rid = i, scr_hallId = c_hallId dto, scr_movieId = c_movieId dto, startTime = t,
     scr_status = SCHEDULED, price = c_price dto\<rparr>"
  obtain s tab where ins: "insert_row ?mk (screenings (db w)) = (s, tab)" by fastforce
  have wf: "wf_table (screenings (db w))" using assms(1) by (simp add: db_ok_defs)
  have s: "s = ?mk (next_id (screenings (db w)))" by (rule insert_row_val [OF ins])
  have "screening_fk (db w) s"
    using assms(3,4) by (simp add: screening_fk_def s flip: find_row_ids)
  then have st: "insert_screening ?mk (db w) = Inr (s, (db w)\<lparr>screenings := tab\<rparr>)"
    by (simp add: insert_screening_def on_table_def try_insert_def ins)
  have "1 \<le> duration m" using assms(2,3) by (auto simp: durations_ok_def dest: find_row_mem)
  then have o: "overlapping (c_hallId dto) (Some t) (Some (t + duration m * 60000)) None (db w) = [] \<longleftrightarrow>
      \<not> slot_taken (db w) (c_hallId dto) {t ..< t + duration m * 60000}"
    by (intro overlapping_iff [OF assms(1,2)]) simp
  show ?thesis
    using rs.ins_fresh [OF wf _ ins] rs.read_your_insert(1) [OF wf _ ins] o
    by (simp add: createScreening_def await_def createScreening_check_run assms(3-5) computeEnd_def
        createScreening_insert_run st Let_def) (simp add: s)
qed

definition sample_slot :: "ms \<Rightarrow> screening_dto" where
  "sample_slot t = \<lparr>c_movieId = 1, c_hallId = 1, c_startTime = Some t, c_price = 700\<rparr>"

theorem createScreening_conflict_iff_witness:
  "fst (createScreening (sample_slot 363600000) (world_of sample_db)) = Inl overlap_conflict"
proof -
  have "slot_taken sample_db 1 {363600000 ..< 363600000 + 120 * 60000}"
    by (auto simp: slot_taken_def slot_def scr_end_def movie_duration_def find_row_def sample_defs)
  moreover have "find_row 1 (movies sample_db) = Some (sample_movie 1 120 PUBLISHED)"
    "find_row 1 (halls sample_db) = Some \<lparr>rid = 1, hall_name = ''h'', capacity = 2\<rparr>" "durations_ok sample_db"
    "duration (sample_movie 1 120 PUBLISHED) = 120"
    by (simp_all add: sample_defs find_row_def durations_ok_def)
  ultimately show ?thesis
    using createScreening_conflict_iff [of "world_of sample_db" "sample_slot 363600000"
        "sample_movie 1 120 PUBLISHED" "\<lparr>rid = 1, hall_name = ''h'', capacity = 2\<rparr>" 363600000]
    by (auto simp: world_of_def sample_db_ok sample_slot_def Let_def split: prod.splits sum.splits)
qed

text \<open>No handler of the scheduling service breaks the hall schedule: started from a well-formed
  database in which no two screenings of a hall that are not cancelled overlap, creating, updating,
  cancelling or deleting a screening leaves such a database, whatever it returns.\<close>

theorem schedule_preserved:
  assumes "db_ok (db w)" and "schedule_ok (db w)"
  shows "\<forall>d \<in> {db (snd (createScreening dto w)), db (snd (updateScreening i p w)),
      db (snd (cancelScreening i w)), db (snd (deleteScreening i w))}. db_ok d \<and> schedule_ok d"
  using assms keeps_dbD [OF keeps_schedule_create] keeps_dbD [OF keeps_schedule_update]
    keeps_dbD [OF keeps_screening_services(4)] keeps_dbD [OF keeps_screening_services(5)]
    schedule_after_cancel schedule_after_delete
  by auto

theorem schedule_preserved_witness:
  "schedule_ok (db (snd (createScreening (sample_slot 367200000) (world_of sample_db))))"
proof -
  have "schedule_ok sample_db" by (simp add: schedule_ok_def sample_db_def)
  then show ?thesis
    using schedule_preserved [of "world_of sample_db" "sample_slot 367200000" 1]
    by (simp add: world_of_def sample_db_ok)
qed

text \<open>The overlap check and the insert of \<open>createScreening\<close> are separate database calls. When two
  requests for overlapping slots of a hall both pass the check before either inserts, both inserts
  succeed and the hall is double-booked.\<close>

theorem createScreening_race:
  assumes "db_ok (db w)"
    and "createScreening_check dto w = (Inr (), w)" and "createScreening_check dto' w = (Inr (), w)"
    and "c_hallId dto' = c_hallId dto" and "c_startTime dto = Some t" and "c_startTime dto' = Some t'"
    and "t \<le> t'" and "t' < t + movie_duration (db w) (c_movieId dto) * 60000"
    and "0 < movie_duration (db w) (c_movieId dto')" and "dto_fits dto" and "dto_fits dto'"
  shows "\<exists>s s' w1 w2. createScreening_insert dto w = (Inr s, w1) \<and>
    createScreening_insert dto' w1 = (Inr s', w2) \<and> \<not> schedule_ok (db w2)"
proof -
  let ?mk = "\<lambda>dto t i. \<lparr>rid = i, scr_hallId = c_hallId dto, scr_movieId = c_movieId dto, startTime = t,
     scr_status = SCHEDULED, price = c_price dto\<rparr>"
  obtain s tab where r: "insert_row (?mk dto t) (screenings (db w)) = (s, tab)" by fastforce
  obtain s' tab' where r': "insert_row (?mk dto' t') tab = (s', tab')" by fastforce
  let ?d1 = "(db w)\<lparr>screenings := tab\<rparr>" and ?d2 = "(db w)\<lparr>screenings := tab'\<rparr>"
  have wf: "wf_table (screenings (db w))" using assms(1) by (simp add: db_ok_defs)
  have v: "s = ?mk dto t (next_id (screenings (db w)))" "s' = ?mk dto' t' (next_id tab)"
    using insert_row_val [OF r] insert_row_val [OF r'] by simp_all
  have fk: "screening_fk (db w) s" "screening_fk ?d1 s'"
    using assms(2,3) by (auto simp: createScreening_check_run screening_fk_def v
        simp flip: find_row_ids split: option.splits if_splits)
  have i1: "insert_screening (?mk dto t) (db w) = Inr (s, ?d1)"
    by (simp add: insert_screening_def on_table_def try_insert_def r fk(1))
  have i2: "insert_screening (?mk dto' t') ?d1 = Inr (s', ?d2)"
    by (simp add: insert_screening_def on_table_def try_insert_def r' fk(2))
  define w1 where "w1 = snd (createScreening_insert dto w)"
  have one: "createScreening_insert dto w = (Inr s, w1)" and d1: "db w1 = ?d1"
    by (simp_all add: w1_def createScreening_insert_run assms(5,10) i1)
  define w2 where "w2 = snd (createScreening_insert dto' w1)"
  have two: "createScreening_insert dto' w1 = (Inr s', w2)" and d2: "db w2 = ?d2"
    by (simp_all add: w2_def createScreening_insert_run assms(6,11) d1 i2)
  have mem: "s \<in> set (rows tab')" "s' \<in> set (rows tab')"
    by (simp_all add: rows_insert_row [OF r] rows_insert_row [OF r'])
  have ne: "rid s \<noteq> rid s'"
    using r by (auto simp: v insert_row_def Let_def)
  have "t' \<in> slot ?d2 s \<inter> slot ?d2 s'"
    using assms(7-9) by (simp add: slot_def scr_end_def movie_duration_def v)
  moreover have "scr_hallId s = scr_hallId s'" "scr_status s = SCHEDULED" "scr_status s' = SCHEDULED"
    using assms(4) by (simp_all add: v)
  ultimately have "\<not> schedule_ok (db w2)"
    using mem ne unfolding schedule_ok_def d2 by (force simp: slot_def scr_end_def movie_duration_def)
  with one two show ?thesis by blast
qed

theorem createScreening_race_witness:
  "\<exists>s s' w1 w2. createScreening_insert (sample_slot 0) (world_of sample_db) = (Inr s, w1) \<and>
    createScreening_insert (sample_slot 3600000) w1 = (Inr s', w2) \<and> \<not> schedule_ok (db w2)"
proof (rule createScreening_race [where t = 0 and t' = 3600000])
  show "db_ok (db (world_of sample_db))" by (simp add: world_of_def sample_db_ok)
qed (simp_all add: createScreening_check_run world_of_def sample_slot_def dto_fits_def fits_int32_def find_row_def overlapping_def
    computeEnd_def scr_end_def movie_duration_def sample_defs)

subsection \<open>Reading the seats\<close>

text \<open>C25. A seat map that is computed (nothing cached) for a screening that is not cancelled has one
  entry per seat of its hall, in layout order, and the status of an entry is what the reservation
  table says: BOOKED when a CONFIRMED reservation of the screening has the seat, HELD when a HELD one
  has it, AVAILABLE otherwise. The map is what reads return for the next 300 seconds when Redis is up.\<close>

theorem seat_map_correct:
  assumes "db_ok (db w)" and "screening_join i (db w) = Some (s, m, h)"
    and "scr_status s \<noteq> ScreenCANCELLED" and "serve_cached seat_maps now i w = None"
  shows "\<exists>w'. getSeatMap now i w = (Inr (seat_map_of (db w) (scr_hallId s) i), w') \<and>
    map sm_seatId (seat_map_of (db w) (scr_hallId s) i) = map rid (seats_by_layout (scr_hallId s) (db w)) \<and>
    distinct (map sm_seatId (seat_map_of (db w) (scr_hallId s) i)) \<and>
    (redis_up (redis w) \<longrightarrow> (\<forall>t. t \<le> now + 300000 \<longrightarrow>
       fst (getSeatMap t i w') = Inr (seat_map_of (db w) (scr_hallId s) i)))"
proof -
  let ?m = "seat_map_of (db w) (scr_hallId s) i"
  let ?w = "with_redis (\<lambda>r. r\<lparr>seat_maps := key_set_ex now i ?m SEAT_MAP_TTL_SECONDS (seat_maps r)\<rparr>) w"
  have run: "getSeatMap now i w = (Inr ?m, ?w)"
    by (simp add: getSeatMap_run [OF assms(1)] assms(2-4) Let_def)
  have ids: "map sm_seatId ?m = map rid (seats_by_layout (scr_hallId s) (db w))"
    by (simp add: seat_map_of_def comp_def)
  have "fst (getSeatMap t i ?w) = Inr ?m" if "redis_up (redis w)" "t \<le> now + 300000" for t
    using that assms(1)
    by (subst getSeatMap_run) (simp_all add: serve_cached_def with_redis_def SEAT_MAP_TTL_SECONDS_def
        ks.get_fresh)
  with run ids distinct_layout [of "db w"] assms(1) show ?thesis by (auto simp: db_ok_defs)
qed

theorem seat_map_correct_witness:
  "\<exists>w'. getSeatMap 0 1 (world_of sample_db) = (Inr (seat_map_of sample_db 1 1), w')"
proof -
  have "screening_join 1 sample_db =
      Some (sample_screening, sample_movie 1 120 PUBLISHED, \<lparr>rid = 1, hall_name = ''h'', capacity = 2\<rparr>)"
    "scr_hallId sample_screening = 1" "scr_status sample_screening = SCHEDULED"
    by (simp_all add: screening_join_def find_row_def sample_defs)
  then show ?thesis
    using seat_map_correct [of "world_of sample_db" 1 sample_screening _ _ 0]
    by (auto simp: world_of_def sample_db_ok serve_cached_def empty_redis_def key_simps)
qed

text \<open>The summary the tables give: what a summary should say.\<close>

definition table_summary :: "db \<Rightarrow> int \<Rightarrow> int \<Rightarrow> screening_summary" where
  "table_summary d hallId i = \<lparr>sum_screeningId = i,
     sum_capacity = int (length (seats_by_layout hallId d)),
     sum_held = count_status HELD i d, sum_booked = count_status CONFIRMED i d,
     sum_available = int (length (filter (\<lambda>x. seat_state d i (rid x) = SeatAVAILABLE) (seats_by_layout hallId d))),
     sum_reserved = count_status HELD i d + count_status CONFIRMED i d\<rparr>"

lemma summarize_seat_map:
  assumes "db_ok d" and "seats_in_hall d" and "find_row i (screenings d) = Some s"
  shows "summarize i (seat_map_of d (scr_hallId s) i) = table_summary d (scr_hallId s) i"
proof -
  let ?m = "seat_map_of d (scr_hallId s) i"
  have counts: "int (length (filter (\<lambda>e. sm_status e = SeatHELD) ?m)) = count_status HELD i d"
      "int (length (filter (\<lambda>e. sm_status e = SeatBOOKED) ?m)) = count_status CONFIRMED i d"
    using count_status_seats [OF assms, of HELD] count_status_seats [OF assms, of CONFIRMED] by simp_all
  have part: "length xs = length (filter (\<lambda>e. sm_status e = SeatHELD) xs) +
      length (filter (\<lambda>e. sm_status e = SeatBOOKED) xs) +
      length (filter (\<lambda>e. sm_status e = SeatAVAILABLE) xs)" for xs
    by (induction xs) (auto, metis seat_status.exhaust)
  have av: "length (filter (\<lambda>e. sm_status e = SeatAVAILABLE) ?m) =
      length (filter (\<lambda>x. seat_state d i (rid x) = SeatAVAILABLE) (seats_by_layout (scr_hallId s) d))"
    by (simp add: seat_map_of_def filter_map comp_def)
  have len: "length ?m = length (seats_by_layout (scr_hallId s) d)" by (simp add: seat_map_of_def)
  from part [of ?m] show ?thesis
    by (simp add: table_summary_def Let_def summarize_def count_seats_eq counts len flip: av)
qed

lemma getScreeningSummary_run:
  assumes "db_ok (db w)" and "seats_in_hall (db w)" and "screening_join i (db w) = Some (s, m, h)"
    and "scr_status s \<noteq> ScreenCANCELLED" and "serve_cached seat_maps now i w = None"
  shows "fst (getScreeningSummary now i w) = Inr (table_summary (db w) (scr_hallId s) i)"
proof -
  have "find_row i (screenings (db w)) = Some s" using assms(3) by (simp add: screening_join_Some)
  from summarize_seat_map [OF assms(1,2) this] show ?thesis
    by (simp add: getScreeningSummary_def await_def getSeatMap_run [OF assms(1)] assms(3-5) Let_def ret_def)
qed

text \<open>The summary of a screening agrees with the reservation table: \<open>held\<close> and \<open>booked\<close> are the
  numbers of its HELD and CONFIRMED reservations, \<open>capacity\<close> the number of seats of its hall, and
  \<open>available\<close>, which is never negative, the seats that no active reservation has.\<close>

theorem summary_counts_reservations:
  assumes "db_ok (db w)" and "seats_in_hall (db w)" and "screening_join i (db w) = Some (s, m, h)"
    and "scr_status s \<noteq> ScreenCANCELLED" and "serve_cached seat_maps now i w = None"
  shows "\<exists>w'. getScreeningSummary now i w = (Inr \<lparr>sum_screeningId = i,
      sum_capacity = int (length (seats_by_layout (scr_hallId s) (db w))),
      sum_held = count_status HELD i (db w), sum_booked = count_status CONFIRMED i (db w),
      sum_available = int (length (filter (\<lambda>x. seat_state (db w) i (rid x) = SeatAVAILABLE)
        (seats_by_layout (scr_hallId s) (db w)))),
      sum_reserved = count_status HELD i (db w) + count_status CONFIRMED i (db w)\<rparr>, w')"
  using getScreeningSummary_run [OF assms] unfolding table_summary_def by (metis prod.collapse)

theorem summary_counts_reservations_witness:
  "\<exists>w'. getScreeningSummary 0 1 (world_of sample_db) = (Inr \<lparr>sum_screeningId = 1, sum_capacity = 2,
     sum_held = 1, sum_booked = 0, sum_available = 1, sum_reserved = 1\<rparr>, w')"
proof -
  have s: "screening_join 1 sample_db =
      Some (sample_screening, sample_movie 1 120 PUBLISHED, \<lparr>rid = 1, hall_name = ''h'', capacity = 2\<rparr>)"
    "scr_hallId sample_screening = 1" "scr_status sample_screening = SCHEDULED" "seats_in_hall sample_db"
    by (simp_all add: screening_join_def find_row_def seats_in_hall_def sample_defs)
  have c: "count_status HELD 1 sample_db = 1" "count_status CONFIRMED 1 sample_db = 0"
    by (simp_all add: count_status_def sample_defs)
  have l: "length (seats_by_layout 1 sample_db) = 2"
    "length (filter (\<lambda>x. seat_state sample_db 1 (rid x) = SeatAVAILABLE) (seats_by_layout 1 sample_db)) = 1"
    by (simp add: seats_by_layout_def sample_defs) code_simp
  show ?thesis
    using summary_counts_reservations [of "world_of sample_db" 1 sample_screening _ _ 0] s c l
    by (simp add: world_of_def sample_db_ok serve_cached_def empty_redis_def key_simps)
qed

text \<open>Once a screening has been cancelled with Redis up, no public read serves it, whatever the
  caches held: its detail and its seat map are 404 at every later time, and it is in no list of
  its movie's screenings.\<close>

theorem cancelled_screening_invisible:
  assumes "db_ok (db w)" and "redis_up (redis w)" and "screening_join i (db w) = Some (s, m, h)"
    and "cancelScreening i w = (Inr s', w')"
  shows "fst (getScreeningDetail t i w') = Inl (screening_not_found i) \<and>
    fst (getSeatMap t i w') = Inl (screening_not_found i) \<and>
    (\<forall>ss. fst (getMovieScreenings t (scr_movieId s) w') = Inr ss \<longrightarrow> i \<notin> set (map fs_id ss))"
proof -
  from assms(3,4) obtain d where up: "update_screening i (\<lambda>s. s\<lparr>scr_status := ScreenCANCELLED\<rparr>) (db w) = Inr (s', d)"
      and w': "w' = with_redis (drop_screening i (scr_movieId s)) (w\<lparr>db := d\<rparr>)"
    by (auto simp: cancelScreening_run split: if_splits sum.splits)
  have ok: "db_ok (db w')"
    using assms(1,4) keeps_screening_services(4) by (metis keeps_dbD snd_conv)
  from up have d: "d = (db w)\<lparr>screenings := update_row i (\<lambda>s. s\<lparr>scr_status := ScreenCANCELLED\<rparr>) (screenings (db w))\<rparr>"
    unfolding update_screening_def by (rule update_stmtE)
  have j: "screening_join i d = Some (s\<lparr>scr_status := ScreenCANCELLED\<rparr>, m, h)"
    using assms(3) by (simp add: screening_join_Some d find_update_row)
  have miss: "serve_cached seat_maps t i w' = None" "key_get t i (screening_details (redis w')) = None"
      "key_get t (scr_movieId s) (movie_screenings (redis w')) = None" and dw: "db w' = d"
    using assms(2) by (simp_all add: w' with_redis_def drop_screening_def drop_lists_def serve_cached_def key_simps)
  have "scr_status x = ScreenCANCELLED" if x: "x \<in> set (rows (screenings d))" and i: "rid x = i" for x
  proof -
    from x have "x \<in> set (rows (update_row i (\<lambda>s. s\<lparr>scr_status := ScreenCANCELLED\<rparr>) (screenings (db w))))"
      by (simp add: d)
    then obtain y where "x = y\<lparr>scr_status := ScreenCANCELLED\<rparr>"
      using i by (rule updated_rowE) simp_all
    then show ?thesis by simp
  qed
  then have "i \<notin> set (map fs_id (future_of_movie mid t d))" for mid
    unfolding future_of_movie_def by fastforce
  then have "\<forall>ss. fst (getMovieScreenings t (scr_movieId s) w') = Inr ss \<longrightarrow> i \<notin> set (map fs_id ss)"
    by (auto simp: getMovieScreenings_def cache_getMovieScreenings_def miss act_simps dw
        movies_findPublishedById_def findFutureScheduledByMovie_def cache_setMovieScreenings_def
        split: option.splits if_splits)
  moreover have "fst (getScreeningDetail t i w') = Inl (screening_not_found i)"
    by (simp add: getScreeningDetail_def cache_getScreeningDetail_def miss act_simps
        screenings_findById_def dw j)
  moreover have "fst (getSeatMap t i w') = Inl (screening_not_found i)"
    by (simp add: getSeatMap_run [OF ok] miss dw j)
  ultimately show ?thesis by blast
qed

theorem cancelled_screening_invisible_witness:
  "\<exists>s' w'. cancelScreening 1 (world_of sample_db) = (Inr s', w') \<and>
     fst (getSeatMap 5 1 w') = Inl (screening_not_found 1)"
proof -
  have s: "screening_join 1 sample_db =
      Some (sample_screening, sample_movie 1 120 PUBLISHED, \<lparr>rid = 1, hall_name = ''h'', capacity = 2\<rparr>)"
    by (simp add: screening_join_def find_row_def sample_defs)
  have "\<exists>s' d. update_screening 1 (\<lambda>s. s\<lparr>scr_status := ScreenCANCELLED\<rparr>) sample_db = Inr (s', d)"
    by (simp add: update_screening_def on_table_def try_update_def find_row_def screening_fk_def
        ids_def Let_def sample_defs)
  then obtain s' w' where c: "cancelScreening 1 (world_of sample_db) = (Inr s', w')"
    using s by (auto simp: cancelScreening_run world_of_def sample_screening_def)
  with cancelled_screening_invisible [of "world_of sample_db" 1 sample_screening _ _ s' w' 5] s
  show ?thesis by (auto simp: world_of_def sample_db_ok empty_redis_def)
qed

subsection \<open>Administrative deletes\<close>

lemma filter_rows_all: "\<forall>r \<in> set (rows t). P r \<Longrightarrow> filter_rows P t = t"
  by (simp add: filter_rows_def)

lemma cascade_bookings:
  assumes "\<forall>r \<in> set (rows (reservations d)). reservation_fk (cascade d) r"
    and "\<forall>p \<in> set (rows (payments d)). payment_fk d p"
  shows "reservations (cascade d) = reservations d \<and> payments (cascade d) = payments d"
proof -
  let ?d = "cascade_screenings (cascade_seats d)"
  have same: "users ?d = users (cascade d)" "screenings ?d = screenings (cascade d)"
      "seats ?d = seats (cascade d)" "reservations ?d = reservations d" "payments ?d = payments d"
    by (simp_all add: cascade_def cascade_seats_def cascade_screenings_def cascade_reservations_def
        cascade_payments_def)
  have r: "cascade_reservations ?d = ?d"
    using assms(1) by (simp add: cascade_reservations_def filter_rows_all reservation_fk_def same)
  have "cascade_payments ?d = ?d"
    using assms(2) by (simp add: cascade_payments_def filter_rows_all payment_fk_def same)
  then show ?thesis by (simp add: cascade_def r same)
qed

lemma ids_filter_rows: "i \<in> set (ids (filter_rows P t)) \<longleftrightarrow> (\<exists>r \<in> set (rows t). rid r = i \<and> P r)"
  by (auto simp: ids_def filter_rows_def)

text \<open>The screening and the seat of a reservation, where the foreign keys hold.\<close>

lemma reservation_parents:
  assumes "db_ok d" and "r \<in> set (rows (reservations d))"
  obtains s x where "find_row (res_screeningId r) (screenings d) = Some s"
    and "find_row (res_seatId r) (seats d) = Some x" and "res_userId r \<in> set (ids (users d))"
    and "screening_fk d s" and "seat_fk d x"
proof -
  from assms have fk: "reservation_fk d r" by (simp add: db_ok_defs)
  then obtain s x where s: "find_row (res_screeningId r) (screenings d) = Some s"
      and x: "find_row (res_seatId r) (seats d) = Some x"
    by (metis find_row_ids not_None_eq reservation_fk_def)
  from assms(1) find_row_mem [OF s] find_row_mem [OF x] have "screening_fk d s" "seat_fk d x"
    by (simp_all add: db_ok_defs)
  with fk s x that show ?thesis by (simp add: reservation_fk_def)
qed

lemma reservation_fk_cascade:
  assumes "find_row (res_screeningId r) (screenings d) = Some s" and "find_row (res_seatId r) (seats d) = Some x"
    and "res_userId r \<in> set (ids (users d))" and "screening_fk d s" and "seat_fk d x"
  shows "reservation_fk (cascade d) r"
  using assms find_row_key [OF assms(1)] find_row_key [OF assms(2)] find_row_mem [OF assms(1)]
    find_row_mem [OF assms(2)]
  unfolding reservation_fk_def cascade_simps ids_filter_rows by blast

lemma delete_screening_bookings:
  assumes d: "db_ok d" and free: "\<not> screening_reserved i d" and del: "delete_screening i d = Inr (s, d')"
  shows "reservations d' = reservations d \<and> payments d' = payments d"
proof -
  from del have d': "d' = cascade (d\<lparr>screenings := delete_row i (screenings d)\<rparr>)"
    unfolding delete_screening_def by (auto dest!: on_table_InrD try_delete_InrD)
  let ?d = "d\<lparr>screenings := delete_row i (screenings d)\<rparr>"
  have "reservation_fk (cascade ?d) r" if r: "r \<in> set (rows (reservations d))" for r
  proof (rule reservation_parents [OF d r])
    fix s x
    assume s: "find_row (res_screeningId r) (screenings d) = Some s" "find_row (res_seatId r) (seats d) = Some x"
      "res_userId r \<in> set (ids (users d))" "screening_fk d s" "seat_fk d x"
    moreover have "res_screeningId r \<noteq> i" using free r by (auto simp: screening_reserved_def list_ex_iff)
    ultimately show ?thesis
      by (intro reservation_fk_cascade) (simp_all add: find_delete_row screening_fk_def seat_fk_def)
  qed
  then show ?thesis
    unfolding d' using cascade_bookings [of ?d] d by (simp add: db_ok_defs payment_fk_def)
qed

lemma delete_movie_bookings:
  assumes d: "db_ok d" and free: "\<not> movie_reserved i d" and del: "delete_movie i d = Inr (m, d')"
  shows "reservations d' = reservations d \<and> payments d' = payments d"
proof -
  from del have d': "d' = cascade (d\<lparr>movies := delete_row i (movies d)\<rparr>)"
    unfolding delete_movie_def by (auto dest!: on_table_InrD try_delete_InrD)
  let ?d = "d\<lparr>movies := delete_row i (movies d)\<rparr>"
  have "reservation_fk (cascade ?d) r" if r: "r \<in> set (rows (reservations d))" for r
  proof (rule reservation_parents [OF d r])
    fix s x
    assume s: "find_row (res_screeningId r) (screenings d) = Some s" "find_row (res_seatId r) (seats d) = Some x"
      "res_userId r \<in> set (ids (users d))" "screening_fk d s" "seat_fk d x"
    have "scr_movieId s \<noteq> i" using free r s(1) by (force simp: movie_reserved_def list_ex_iff)
    with s have "screening_fk ?d s" by (auto simp: screening_fk_def ids_def table_simps)
    with s show ?thesis by (intro reservation_fk_cascade) (simp_all add: seat_fk_def)
  qed
  then show ?thesis
    unfolding d' using cascade_bookings [of ?d] d by (simp add: db_ok_defs payment_fk_def)
qed

lemma delete_hall_bookings:
  assumes d: "db_ok d" and hall: "seats_in_hall d" and free: "\<not> hall_reserved i d"
    and del: "delete_hall i d = Inr (h, d')"
  shows "reservations d' = reservations d \<and> payments d' = payments d"
proof -
  from del have d': "d' = cascade (d\<lparr>halls := delete_row i (halls d)\<rparr>)"
    unfolding delete_hall_def by (auto dest!: on_table_InrD try_delete_InrD)
  let ?d = "d\<lparr>halls := delete_row i (halls d)\<rparr>"
  have "reservation_fk (cascade ?d) r" if r: "r \<in> set (rows (reservations d))" for r
  proof (rule reservation_parents [OF d r])
    fix s x
    assume s: "find_row (res_screeningId r) (screenings d) = Some s" "find_row (res_seatId r) (seats d) = Some x"
      "res_userId r \<in> set (ids (users d))" "screening_fk d s" "seat_fk d x"
    have "scr_hallId s \<noteq> i" using free r s(1) by (force simp: hall_reserved_def list_ex_iff)
    moreover have "seat_hallId x = scr_hallId s" using hall r s(1,2) by (force simp: seats_in_hall_def)
    ultimately have "screening_fk ?d s" "seat_fk ?d x"
      using s by (auto simp: screening_fk_def seat_fk_def ids_def table_simps)
    with s show ?thesis by (intro reservation_fk_cascade) simp_all
  qed
  then show ?thesis
    unfolding d' using cascade_bookings [of ?d] d by (simp add: db_ok_defs payment_fk_def)
qed

lemma deleteMovie_run:
  "deleteMovie i w =
     (case find_row i (movies (db w)) of
        None \<Rightarrow> (Inl (movie_not_found i), w)
      | Some _ \<Rightarrow>
          if movie_reserved i (db w) then (Inl (ConflictException
             ''Cannot delete a movie with existing reservations; unpublish it instead''), w)
          else (case delete_movie i (db w) of
                  Inl e \<Rightarrow> (Inl (Prisma e), w)
                | Inr (m, d) \<Rightarrow> (Inr m, with_redis (\<lambda>r. r\<lparr>movie_cache := key_del i (movie_cache r),
                    now_showing := key_del () (now_showing r), coming_soon := key_del () (coming_soon r)\<rparr>)
                    (w\<lparr>db := d\<rparr>))))"
  by (simp add: deleteMovie_def getExistingMovie_def movies_findById_def movies_hasReservations_def
      movies_delete_def movies_cache_defs await_def run_stmt_def act_simps with_redis_def
      split: option.split sum.split prod.split)

lemma deleteHall_run:
  "deleteHall i w =
     (case find_row i (halls (db w)) of
        None \<Rightarrow> (Inl (hall_not_found i), w)
      | Some _ \<Rightarrow>
          if hall_reserved i (db w)
          then (Inl (ConflictException ''Cannot delete a hall with existing reservations''), w)
          else (case delete_hall i (db w) of
                  Inl e \<Rightarrow> (Inl (Prisma e), w)
                | Inr (h, d) \<Rightarrow> (Inr h, with_redis (\<lambda>r. r\<lparr>hall_list := key_del () (hall_list r)\<rparr>)
                    (w\<lparr>db := d\<rparr>))))"
  by (simp add: deleteHall_def halls_repo_defs find_hall_with_seats_def halls_cache_defs await_def
      run_stmt_def act_simps with_redis_def split: option.split sum.split prod.split)



definition move_hall :: "int \<Rightarrow> screening_patch" where
  "move_hall h = \<lparr>u_movieId = Undefined, u_hallId = Given h, u_startTime = Undefined, u_price = Undefined\<rparr>"

text \<open>Moving a screening with reservations to another hall and deleting the old hall loses them:
  \<open>hasReservations\<close> looks only at the halls of the screenings, but the seats still belong to the old
  hall and take their reservations with them.\<close>

theorem hall_move_loses_bookings:
  "let w = world_of sample_db; (r1, w1) = updateScreening 1 (move_hall 2) w; (r2, w2) = deleteHall 1 w1
   in rows (reservations (db w)) = [sample_reservation] \<and> \<not> isl r1 \<and> \<not> isl r2 \<and> rows (reservations (db w2)) = []"
  by code_simp

end
