(* ===== verification/PaymentAbuse.thy ===== *)
theory PaymentAbuse
  imports World
begin

text \<open>
  The payment-abuse lockout, \<open>redis/payment-abuse.service.ts\<close>: three failed payments within a rolling
  window of 24 hours lock a user out of new reservations for 30 minutes.

  Unlike the caches this service does not swallow Redis errors: with \<open>redis_up\<close> false its calls throw.
  The members of the failure set carry a \<open>randomUUID\<close>, an argument here.
\<close>

subsection \<open>Sorted-set commands on keys that expire\<close>

text \<open>\<open>ZADD\<close> keeps the expiry of a live key and starts a missing one without; an expired key is missing.\<close>

definition zset_at :: "ms \<Rightarrow> 'k \<Rightarrow> ('k, zset) keys \<Rightarrow> zset" where
  "zset_at now k m = (case key_get now k m of None \<Rightarrow> [] | Some z \<Rightarrow> z)"

definition key_ttl :: "ms \<Rightarrow> 'k \<Rightarrow> ('k, 'v) keys \<Rightarrow> ms option" where
  "key_ttl now k m = (case key_get now k m of None \<Rightarrow> None | Some _ \<Rightarrow>
     (case m k of None \<Rightarrow> None | Some e \<Rightarrow> snd e))"

definition zadd_key :: "ms \<Rightarrow> 'k \<Rightarrow> int \<Rightarrow> string \<Rightarrow> ('k, zset) keys \<Rightarrow> ('k, zset) keys" where
  "zadd_key now k score mem m = m(k \<mapsto> (zadd score mem (zset_at now k m), key_ttl now k m))"

definition pexpire_key :: "ms \<Rightarrow> 'k \<Rightarrow> ms \<Rightarrow> ('k, 'v) keys \<Rightarrow> ('k, 'v) keys" where
  "pexpire_key now k px m =
     (case key_get now k m of None \<Rightarrow> m | Some v \<Rightarrow> m(k \<mapsto> (v, Some (now + px))))"

text \<open>A sorted set that becomes empty is removed.\<close>

definition zrem_key :: "ms \<Rightarrow> 'k \<Rightarrow> int \<Rightarrow> int \<Rightarrow> ('k, zset) keys \<Rightarrow> ('k, zset) keys" where
  "zrem_key now k lo hi m =
     (case key_get now k m of
        None \<Rightarrow> m
      | Some z \<Rightarrow>
          let z' = zremrangebyscore lo hi z
          in if z' = [] then m(k := None) else m(k \<mapsto> (z', key_ttl now k m)))"

subsection \<open>PaymentAbuseService\<close>

definition WINDOW_MS :: ms where "WINDOW_MS = 24 * 60 * 60000"

definition LOCKOUT_MS :: ms where "LOCKOUT_MS = 30 * 60000"

definition FAILURE_THRESHOLD :: int where "FAILURE_THRESHOLD = 3"

definition recordFailure :: "ms \<Rightarrow> string \<Rightarrow> int \<Rightarrow> unit service" where
  "recordFailure now uuid userId w =
     (if \<not> redis_up (redis w) then (Inl RedisError, w)
      else
        let fs = zadd_key now userId now (string_of_int now @ ''-'' @ uuid) (payment_failures (redis w));
            fs = pexpire_key now userId WINDOW_MS fs;
            fs = zrem_key now userId 0 (now - WINDOW_MS) fs;
            w = w\<lparr>redis := (redis w)\<lparr>payment_failures := fs\<rparr>\<rparr>;
            count = zcard (zset_at now userId fs)
        in if count \<ge> FAILURE_THRESHOLD
           then (Inr (), w\<lparr>redis := (redis w)\<lparr>payment_lockout :=
                    key_set_px now userId ''1'' LOCKOUT_MS (payment_lockout (redis w))\<rparr>,
                  metrics := (metrics w)\<lparr>payment_abuse_lockouts_total :=
                    payment_abuse_lockouts_total (metrics w) + 1\<rparr>\<rparr>)
           else (Inr (), w))"

definition isLockedOut :: "ms \<Rightarrow> int \<Rightarrow> bool service" where
  "isLockedOut now userId w =
     (if \<not> redis_up (redis w) then (Inl RedisError, w)
      else (Inr (key_exists now userId (payment_lockout (redis w))), w))"

subsection \<open>What a recorded failure leaves\<close>

text \<open>The failures of a user that count at a time: those less than 24 hours old.\<close>

definition recent_failures :: "ms \<Rightarrow> int \<Rightarrow> world \<Rightarrow> int list" where
  "recent_failures now userId w =
     filter (\<lambda>t. now - WINDOW_MS < t) (map snd (zset_at now userId (payment_failures (redis w))))"

lemma keeps_db_recordFailure [keeps_rules]: "keeps_db P (recordFailure now u uid)"
  by (auto simp: keeps_def db_inv_def recordFailure_def Let_def)

lemma keeps_db_isLockedOut [keeps_rules]: "keeps_db P (isLockedOut now uid)"
  by (auto simp: keeps_def db_inv_def isLockedOut_def)

lemma key_get_live: "m k = Some (v, e) \<Longrightarrow> \<not> expired now (v, e) \<Longrightarrow> key_get now k m = Some v"
  by (simp add: key_get_def)

lemma key_ttl_live: "key_get now k m \<noteq> None \<Longrightarrow> key_ttl now k m = None \<or> (\<exists>t. key_ttl now k m = Some t \<and> now \<le> t)"
  by (auto simp: key_ttl_def key_get_def expired_def split: option.splits if_splits)

lemma key_get_zadd_key: "key_get now k (zadd_key now k s mem m) = Some (zadd s mem (zset_at now k m))"
  by (auto simp: zadd_key_def key_get_def key_ttl_def expired_def split: option.splits if_splits)

text \<open>The three commands on the failure set, at once.\<close>

lemma failures_after:
  assumes "0 \<le> now" and "\<forall>e \<in> set (zset_at now uid m). 0 \<le> snd e \<and> fst e \<noteq> mem"
  shows "zset_at t uid (zrem_key now uid 0 (now - WINDOW_MS)
      (pexpire_key now uid WINDOW_MS (zadd_key now uid now mem m))) =
    (if now + WINDOW_MS < t then [] else
       filter (\<lambda>e. now - WINDOW_MS < snd e) (zset_at now uid m) @ [(mem, now)])"
proof -
  have z: "zadd now mem (zset_at now uid m) = zset_at now uid m @ [(mem, now)]"
    using assms(2) by (auto simp: zadd_def intro!: filter_True)
  have r: "zremrangebyscore 0 (now - WINDOW_MS) (zset_at now uid m @ [(mem, now)]) =
      filter (\<lambda>e. now - WINDOW_MS < snd e) (zset_at now uid m) @ [(mem, now)]"
    using assms by (auto simp: zremrangebyscore_def WINDOW_MS_def intro!: filter_cong)
  let ?z = "zset_at now uid m @ [(mem, now)]"
  let ?m = "(zadd_key now uid now mem m)(uid \<mapsto> (?z, Some (now + WINDOW_MS)))"
  have p: "pexpire_key now uid WINDOW_MS (zadd_key now uid now mem m) = ?m"
    by (simp add: pexpire_key_def key_get_zadd_key z)
  have g: "key_get now uid ?m = Some ?z" "key_ttl now uid ?m = Some (now + WINDOW_MS)"
    by (simp_all add: key_get_def key_ttl_def expired_def WINDOW_MS_def)
  have "zrem_key now uid 0 (now - WINDOW_MS) ?m = ?m(uid \<mapsto>
      (filter (\<lambda>e. now - WINDOW_MS < snd e) (zset_at now uid m) @ [(mem, now)], Some (now + WINDOW_MS)))"
    by (simp add: zrem_key_def g r del: fun_upd_apply)
  then show ?thesis
    unfolding p by (simp add: zset_at_def key_get_def expired_def)
qed

definition failure_member :: "ms \<Rightarrow> string \<Rightarrow> string" where
  "failure_member now uuid = string_of_int now @ ''-'' @ uuid"

text \<open>The scores are times since the epoch, and a fresh UUID makes a member that is not in the set.\<close>

definition fresh_failure :: "ms \<Rightarrow> string \<Rightarrow> int \<Rightarrow> world \<Rightarrow> bool" where
  "fresh_failure now uuid uid w \<longleftrightarrow> 0 \<le> now \<and>
     (\<forall>e \<in> set (zset_at now uid (payment_failures (redis w))). 0 \<le> snd e \<and> fst e \<noteq> failure_member now uuid)"

lemma recordFailure_run:
  assumes up: "redis_up (redis w)" and f: "fresh_failure now uuid uid w"
  shows "fst (recordFailure now uuid uid w) = Inr () \<and>
    recent_failures now uid (snd (recordFailure now uuid uid w)) = recent_failures now uid w @ [now] \<and>
    db (snd (recordFailure now uuid uid w)) = db w \<and> redis_up (redis (snd (recordFailure now uuid uid w))) \<and>
    payment_lockout (redis (snd (recordFailure now uuid uid w))) =
      (if 3 \<le> length (recent_failures now uid w) + 1
       then key_set_px now uid ''1'' LOCKOUT_MS (payment_lockout (redis w)) else payment_lockout (redis w))"
proof -
  let ?fs = "zrem_key now uid 0 (now - WINDOW_MS) (pexpire_key now uid WINDOW_MS
      (zadd_key now uid now (failure_member now uuid) (payment_failures (redis w))))"
  have z: "zset_at now uid ?fs =
      filter (\<lambda>e. now - WINDOW_MS < snd e) (zset_at now uid (payment_failures (redis w))) @ [(failure_member now uuid, now)]"
    using failures_after [of now uid "payment_failures (redis w)" "failure_member now uuid" now] f
    by (simp add: fresh_failure_def WINDOW_MS_def)
  have c: "zcard (zset_at now uid ?fs) = int (length (recent_failures now uid w)) + 1"
    by (simp add: z zcard_def recent_failures_def filter_map comp_def)
  have r: "filter (\<lambda>t. now - WINDOW_MS < t) (map snd (zset_at now uid ?fs)) = recent_failures now uid w @ [now]"
    unfolding z recent_failures_def by (simp add: filter_map comp_def WINDOW_MS_def)
  show ?thesis
    using up r c unfolding recordFailure_def failure_member_def
    by (simp add: Let_def FAILURE_THRESHOLD_def) (simp add: recent_failures_def)
qed

subsection \<open>Properties\<close>

text \<open>A recorded failure adds itself to the failures of the last 24 hours and locks the user out
  exactly when that makes three or more: from then on, and for 30 minutes, \<open>isLockedOut\<close> answers true;
  with fewer, whether the user was locked out is unchanged. Other users are not affected.\<close>

theorem third_failure_locks_out:
  assumes "redis_up (redis w)" and "fresh_failure now uuid uid w" and "now \<le> t"
  shows "\<exists>w'. recordFailure now uuid uid w = (Inr (), w') \<and>
    recent_failures now uid w' = recent_failures now uid w @ [now] \<and>
    isLockedOut t uid w' =
      (if 3 \<le> length (recent_failures now uid w') then (Inr (t \<le> now + 30 * 60000), w')
       else (fst (isLockedOut t uid w), w')) \<and>
    (\<forall>v. v \<noteq> uid \<longrightarrow> fst (isLockedOut t v w') = fst (isLockedOut t v w))"
proof -
  let ?w = "snd (recordFailure now uuid uid w)"
  from recordFailure_run [OF assms(1,2)] have "recordFailure now uuid uid w = (Inr (), ?w)"
      "recent_failures now uid ?w = recent_failures now uid w @ [now]" "redis_up (redis ?w)"
      "payment_lockout (redis ?w) = (if 3 \<le> length (recent_failures now uid w) + 1
       then key_set_px now uid ''1'' LOCKOUT_MS (payment_lockout (redis w)) else payment_lockout (redis w))"
    by (simp_all add: prod_eq_iff)
  with assms(1) show ?thesis
    by (intro exI [of _ ?w]) (auto simp: isLockedOut_def key_exists_def key_get_set_px LOCKOUT_MS_def)
qed

theorem third_failure_locks_out_witness:
  "\<exists>w'. recordFailure 1000 ''a'' 7 (world_of sample_db) = (Inr (), w') \<and> fst (isLockedOut 2000 7 w') = Inr False"
proof -
  have w: "redis_up (redis (world_of sample_db))" "fresh_failure 1000 ''a'' 7 (world_of sample_db)"
    "recent_failures 1000 7 (world_of sample_db) = []" "fst (isLockedOut 2000 7 (world_of sample_db)) = Inr False"
    by (simp_all add: world_of_def empty_redis_def fresh_failure_def zset_at_def key_simps
        recent_failures_def isLockedOut_def key_exists_def)
  from third_failure_locks_out [OF w(1,2), of 2000] w(3,4) show ?thesis
    by fastforce
qed

end
