(* ===== verification/Reservations.thy ===== *)
theory Reservations
  imports Screenings PaymentAbuse
begin

text \<open>
  Seat reservations: \<open>reservations/reservations.repository.ts\<close>, \<open>reservations/reservations.service.ts\<close>,
  \<open>reservations/reservation-breaker.service.ts\<close>, \<open>common/guards/concurrency.guard.ts\<close>, the listeners of
  \<open>reservations/listeners\<close> and the hold-expiry job of \<open>cron/hold-expiry.cron.ts\<close>. \<open>cancel\<close> calls the
  refund flow and stands in \<open>Payments\<close>.

  \<^item> \<open>holdSeat_tx\<close> is the transaction of \<open>holdSeat\<close> run on its own; how several of them interleave on
    the row lock is \<open>SeatLock\<close>. \<open>hold_fault\<close> is an error the database may raise: \<open>InTx\<close> in a statement
    of the callback (mapped by its \<open>catch\<close>), \<open>AtTx\<close> when the transaction is opened or committed
    (thrown past it).
  \<^item> The circuit breaker is a library; what it does with one call is the argument \<open>fire\<close>: run it,
    reject it while open, or give up on it after its timeout while the call goes on to complete.
  \<^item> \<open>emit\<close> calls the listeners: the seat-map invalidation, then the counters.
\<close>

subsection \<open>Transaction\<close>

record hold_params =
  hp_userId :: int
  hp_screeningId :: int
  hp_hallId :: int
  hp_seatId :: int
  hp_heldUntil :: ms

datatype hold_fault = InTx prisma_error | AtTx prisma_error

fun is_prefix_of :: "string \<Rightarrow> string \<Rightarrow> bool" where
  "is_prefix_of [] s = True"
| "is_prefix_of (p # ps) [] = False"
| "is_prefix_of (p # ps) (c # cs) = (p = c \<and> is_prefix_of ps cs)"

fun contains_text :: "string \<Rightarrow> string \<Rightarrow> bool" where
  "contains_text pat [] = is_prefix_of pat []"
| "contains_text pat (c # cs) = (is_prefix_of pat (c # cs) \<or> contains_text pat cs)"

definition seat_conflict :: err where
  "seat_conflict = ConflictException ''This seat is already reserved for this screening''"

definition heavy_load :: err where
  "heavy_load = ServiceUnavailableException ''System is under heavy load - please try again''"

definition bad_seat :: err where
  "bad_seat = BadRequestException ''Seat does not exist in this screening hall''"

definition hold_db_error :: err where
  "hold_db_error = InternalServerErrorException ''Reservation failed due to a database error''"

fun hold_catch :: "err \<Rightarrow> err" where
  "hold_catch (ConflictException m) = ConflictException m"
| "hold_catch (BadRequestException m) = BadRequestException m"
| "hold_catch (Prisma P2002) = seat_conflict"
| "hold_catch (Prisma (PUnknown m)) =
     (if contains_text ''timed out'' m \<or> contains_text ''Connection acquisition'' m then heavy_load else hold_db_error)"
| "hold_catch _ = hold_db_error"

definition lock_seat :: "int \<Rightarrow> int \<Rightarrow> db \<Rightarrow> int list" where
  "lock_seat seatId hallId d =
     map rid (filter (\<lambda>s. rid s = seatId \<and> seat_hallId s = hallId) (rows (seats d)))"

definition find_taken :: "int \<Rightarrow> int \<Rightarrow> db \<Rightarrow> reservation option" where
  "find_taken screeningId seatId d = List.find (\<lambda>r. res_screeningId r = screeningId \<and>
     res_seatId r = seatId \<and> active_res r) (rows (reservations d))"

definition hold_row :: "ms \<Rightarrow> hold_params \<Rightarrow> int \<Rightarrow> reservation" where
  "hold_row now p i = \<lparr>rid = i, res_screeningId = hp_screeningId p, res_seatId = hp_seatId p,
     res_userId = hp_userId p, res_status = HELD, heldUntil = Some (hp_heldUntil p), res_createdAt = now\<rparr>"

definition holdSeat_body :: "ms \<Rightarrow> hold_params \<Rightarrow> db \<Rightarrow> err + reservation \<times> db" where
  "holdSeat_body now p d =
     (if length (lock_seat (hp_seatId p) (hp_hallId p) d) \<noteq> 1 then Inl bad_seat
      else case find_taken (hp_screeningId p) (hp_seatId p) d of
        Some _ \<Rightarrow> Inl seat_conflict
      | None \<Rightarrow>
          (case insert_reservation (hold_row now p) d of
             Inl e \<Rightarrow> Inl (Prisma e)
           | Inr (r, d') \<Rightarrow> Inr (r, d')))"

definition holdSeat_tx :: "hold_fault option \<Rightarrow> ms \<Rightarrow> hold_params \<Rightarrow> reservation service" where
  "holdSeat_tx fault now p w =
     (case fault of
        Some (InTx e) \<Rightarrow> (Inl (hold_catch (Prisma e)), w)
      | Some (AtTx e) \<Rightarrow> (Inl (Prisma e), w)
      | None \<Rightarrow>
          (case holdSeat_body now p (db w) of
             Inl e \<Rightarrow> (Inl (hold_catch e), w)
           | Inr (r, d) \<Rightarrow> (Inr r, w\<lparr>db := d\<rparr>)))"

subsection \<open>Circuit breaker and concurrency limit\<close>

datatype fire = FireRun | FireRejected | FireTimedOut

definition breaker_fire :: "fire \<Rightarrow> 'a service \<Rightarrow> 'a service" where
  "breaker_fire f m w =
     (case f of
        FireRun \<Rightarrow> m w
      | FireRejected \<Rightarrow> (Inl BreakerError, w)
      | FireTimedOut \<Rightarrow> (Inl BreakerError, snd (m w)))"

text \<open>The \<open>errorFilter\<close>: the errors that do not count towards opening the breaker.\<close>

definition breaker_ignores :: "err \<Rightarrow> bool" where
  "breaker_ignores e \<longleftrightarrow> is_http_exception e \<and> status_of e < 500"

definition breaker_holdSeat :: "fire \<Rightarrow> hold_fault option \<Rightarrow> ms \<Rightarrow> hold_params \<Rightarrow> reservation service" where
  "breaker_holdSeat f fault now p =
     catch_err (breaker_fire f (holdSeat_tx fault now p))
       (\<lambda>e. if is_http_exception e then throw e else throw heavy_load)"

definition acquire :: "int \<Rightarrow> unit service" where
  "acquire mx w = (if active w \<ge> mx then (Inl heavy_load, w) else (Inr (), w\<lparr>active := active w + 1\<rparr>))"

definition release :: "world \<Rightarrow> world" where
  "release w = w\<lparr>active := active w - 1\<rparr>"

subsection \<open>Listeners\<close>

fun invalidateSeatMap :: "event \<Rightarrow> unit service" where
  "invalidateSeatMap (ReservationCreated s _) = cache_delSeatMap s"
| "invalidateSeatMap (ReservationCancelled s _) = cache_delSeatMap s"
| "invalidateSeatMap _ = ret ()"

fun count_event :: "event \<Rightarrow> metrics \<Rightarrow> metrics" where
  "count_event (ReservationCreated _ _) m =
     m\<lparr>reservations_created_total := reservations_created_total m + 1,
       reservations_held_current := reservations_held_current m + 1\<rparr>"
| "count_event (ReservationCancelled _ _) m =
     m\<lparr>reservations_cancelled_total := reservations_cancelled_total m + 1,
       reservations_held_current := reservations_held_current m - 1\<rparr>"
| "count_event (ReservationConfirmed _ _) m =
     m\<lparr>reservations_confirmed_total := reservations_confirmed_total m + 1,
       reservations_held_current := reservations_held_current m - 1\<rparr>"
| "count_event (HoldExpired _ _ _) m = m"

definition publish_event :: "event \<Rightarrow> unit service" where
  "publish_event e =
     await (emit e) (\<lambda>_.
     await (invalidateSeatMap e) (\<lambda>_.
     modify (\<lambda>w. w\<lparr>metrics := count_event e (metrics w)\<rparr>)))"

subsection \<open>Repository\<close>

definition reservations_extendHold :: "prisma_error option \<Rightarrow> int \<Rightarrow> ms \<Rightarrow> reservation service" where
  "reservations_extendHold fault i until =
     run_stmt fault (update_reservation i (\<lambda>r. r\<lparr>heldUntil := Some until\<rparr>))"

definition reservations_confirm :: "prisma_error option \<Rightarrow> int \<Rightarrow> reservation service" where
  "reservations_confirm fault i =
     run_stmt fault (update_reservation i (\<lambda>r. r\<lparr>res_status := CONFIRMED, heldUntil := None\<rparr>))"

definition hold_expired :: "ms \<Rightarrow> reservation \<Rightarrow> bool" where
  "hold_expired now r \<longleftrightarrow> res_status r = HELD \<and> (case heldUntil r of None \<Rightarrow> False | Some t \<Rightarrow> t < now)"

definition release_expired :: "ms \<Rightarrow> db \<Rightarrow> reservation list \<times> db" where
  "release_expired now d =
     (filter (hold_expired now) (rows (reservations d)),
      d\<lparr>reservations := (reservations d)\<lparr>rows := map (\<lambda>r. if hold_expired now r
          then r\<lparr>res_status := CANCELLED, heldUntil := None\<rparr> else r) (rows (reservations d))\<rparr>\<rparr>)"

definition releaseExpiredHolds :: "prisma_error option \<Rightarrow> ms \<Rightarrow> reservation list service" where
  "releaseExpiredHolds fault now = run_stmt fault (\<lambda>d. Inr (release_expired now d))"

definition reservations_findById :: "int \<Rightarrow> reservation option service" where
  "reservations_findById i = query (\<lambda>d. find_row i (reservations d))"

definition reservations_setStatus :: "prisma_error option \<Rightarrow> int \<Rightarrow> reservation_status \<Rightarrow> reservation service" where
  "reservations_setStatus fault i st =
     run_stmt fault (update_reservation i (\<lambda>r. r\<lparr>res_status := st\<rparr>))"

definition reservation_details :: "db \<Rightarrow> reservation \<Rightarrow> (reservation \<times> seat \<times> screening \<times> movie) option" where
  "reservation_details d r =
     (case (find_row (res_seatId r) (seats d), find_row (res_screeningId r) (screenings d)) of
        (Some st, Some sc) \<Rightarrow>
          (case find_row (scr_movieId sc) (movies d) of None \<Rightarrow> None | Some m \<Rightarrow> Some (r, st, sc, m))
      | _ \<Rightarrow> None)"

definition reservations_findByUser :: "int \<Rightarrow> (reservation \<times> seat \<times> screening \<times> movie) list service" where
  "reservations_findByUser uid = query (\<lambda>d.
     List.map_filter (reservation_details d)
       (sort_key (\<lambda>r. - res_createdAt r) (filter (\<lambda>r. res_userId r = uid) (rows (reservations d)))))"

subsection \<open>Service\<close>

definition HOLD_MINUTES :: int where "HOLD_MINUTES = 10"

record reservation_dto =
  rd_screeningId :: int
  rd_seatId :: int

definition valid_reservation_dto :: "reservation_dto \<Rightarrow> bool" where
  "valid_reservation_dto d \<longleftrightarrow> 1 \<le> rd_screeningId d \<and> 1 \<le> rd_seatId d"

text \<open>What the environment decides of one request: its clock readings, the breaker and the faults.\<close>

record request_env =
  at_check :: ms      \<comment> \<open>\<open>new Date()\<close> of the start check, and Redis' clock\<close>
  at_hold :: ms       \<comment> \<open>\<open>Date.now()\<close> of the hold, and of the row's \<open>createdAt\<close>\<close>
  limit :: int        \<comment> \<open>\<open>CONCURRENCY_LIMIT\<close>\<close>
  breaker :: fire
  tx_fault :: "hold_fault option"

definition lockout_forbidden :: err where
  "lockout_forbidden = ForbiddenException ''Too many failed payments - try again later''"

definition reserve :: "request_env \<Rightarrow> int \<Rightarrow> reservation_dto \<Rightarrow> reservation service" where
  "reserve env userId dto =
     await (isLockedOut (at_check env) userId) (\<lambda>locked.
     if locked then throw lockout_forbidden
     else await (screenings_findById (rd_screeningId dto)) (\<lambda>screening. case screening of
       None \<Rightarrow> throw (screening_not_found (rd_screeningId dto))
     | Some s \<Rightarrow>
         if scr_status (fst s) \<noteq> SCHEDULED then throw (screening_not_found (rd_screeningId dto))
         else if startTime (fst s) \<le> at_check env
         then throw (BadRequestException ''Screening has already started'')
         else
           let heldUntil = at_hold env + HOLD_MINUTES * 60000 in
           await (acquire (limit env)) (\<lambda>_.
           await (finally_do
               (breaker_holdSeat (breaker env) (tx_fault env) (at_hold env)
                 \<lparr>hp_userId = userId, hp_screeningId = rd_screeningId dto, hp_hallId = scr_hallId (fst s),
                  hp_seatId = rd_seatId dto, hp_heldUntil = heldUntil\<rparr>)
               release) (\<lambda>reservation.
           await (publish_event (ReservationCreated (rd_screeningId dto) [res_seatId reservation])) (\<lambda>_.
           ret reservation)))))"

text \<open>The \<open>Map\<close> from screenings to seats, in the insertion order a JavaScript map iterates in.\<close>

fun push_seat :: "int \<Rightarrow> int \<Rightarrow> (int \<times> int list) list \<Rightarrow> (int \<times> int list) list" where
  "push_seat s seat [] = [(s, [seat])]"
| "push_seat s seat ((s', ss) # gs) =
     (if s' = s then (s', ss @ [seat]) # gs else (s', ss) # push_seat s seat gs)"

definition group_by_screening :: "reservation list \<Rightarrow> (int \<times> int list) list" where
  "group_by_screening rs = foldl (\<lambda>gs r. push_seat (res_screeningId r) (res_seatId r) gs) [] rs"

fun publish_all :: "event list \<Rightarrow> unit service" where
  "publish_all [] = ret ()"
| "publish_all (e # es) = await (publish_event e) (\<lambda>_. publish_all es)"

definition expiry_events :: "reservation list \<Rightarrow> event list" where
  "expiry_events rs =
     map (\<lambda>g. ReservationCancelled (fst g) (snd g)) (group_by_screening rs) @
     map (\<lambda>r. HoldExpired (res_userId r) (res_screeningId r) (res_seatId r)) rs"

definition expireHolds :: "prisma_error option \<Rightarrow> ms \<Rightarrow> unit service" where
  "expireHolds fault now =
     await (releaseExpiredHolds fault now) (\<lambda>released.
     if length released = 0 then ret () else publish_all (expiry_events released))"

text \<open>The cron tick logs an error and goes on.\<close>

definition handleExpireHolds :: "prisma_error option \<Rightarrow> ms \<Rightarrow> unit service" where
  "handleExpireHolds fault now = catch_err
     (await (expireHolds fault now) (\<lambda>_.
      record_audit \<lparr>ae_action = ''hold.expiry'', ae_actorId = None, ae_target = None, ae_metadata = []\<rparr>))
     (\<lambda>_. ret ())"

definition finalizeCancel :: "prisma_error option \<Rightarrow> reservation \<Rightarrow> reservation service" where
  "finalizeCancel fault r =
     await (reservations_setStatus fault (rid r) CANCELLED) (\<lambda>cancelled.
     await (publish_event (ReservationCancelled (res_screeningId r) [res_seatId r])) (\<lambda>_.
     ret cancelled))"

definition reservation_not_found :: "int \<Rightarrow> err" where
  "reservation_not_found i = NotFoundException (''Reservation '' @ string_of_int i @ '' not found'')"

definition getById :: "int \<Rightarrow> reservation service" where
  "getById i =
     await (reservations_findById i) (\<lambda>r. case r of
       None \<Rightarrow> throw (reservation_not_found i) | Some r \<Rightarrow> ret r)"

definition findOwned :: "int \<Rightarrow> int \<Rightarrow> reservation service" where
  "findOwned userId i =
     await (getById i) (\<lambda>r. if res_userId r \<noteq> userId then throw (reservation_not_found i) else ret r)"

definition extendHold :: "prisma_error option \<Rightarrow> int \<Rightarrow> ms \<Rightarrow> reservation service" where
  "extendHold fault i until = reservations_extendHold fault i until"

definition confirmPayment :: "prisma_error option \<Rightarrow> int \<Rightarrow> reservation service" where
  "confirmPayment fault i =
     await (reservations_confirm fault i) (\<lambda>r.
     await (publish_event (ReservationConfirmed (res_screeningId r) [res_seatId r])) (\<lambda>_.
     ret r))"

definition listMine :: "int \<Rightarrow> (reservation \<times> seat \<times> screening \<times> movie) list service" where
  "listMine userId = reservations_findByUser userId"

lemmas reservations_repo_defs = reservations_extendHold_def reservations_confirm_def
  releaseExpiredHolds_def reservations_findById_def reservations_setStatus_def reservations_findByUser_def

lemmas reservations_service_defs [handler_defs] = reserve_def expireHolds_def handleExpireHolds_def
  finalizeCancel_def getById_def findOwned_def extendHold_def confirmPayment_def listMine_def

subsection \<open>Running the parts\<close>

lemma publish_event_run:
  "publish_event e w = (Inr (), w\<lparr>emitted := emitted w @ [e],
     redis := (case e of ReservationCreated s _ \<Rightarrow>
          if redis_up (redis w) then (redis w)\<lparr>seat_maps := key_del s (seat_maps (redis w))\<rparr> else redis w
        | ReservationCancelled s _ \<Rightarrow>
          if redis_up (redis w) then (redis w)\<lparr>seat_maps := key_del s (seat_maps (redis w))\<rparr> else redis w
        | _ \<Rightarrow> redis w),
     metrics := count_event e (metrics w)\<rparr>)"
  by (cases e) (simp_all add: publish_event_def cache_delSeatMap_def act_simps)

lemma keeps_db_publish [keeps_rules]: "keeps_db P (publish_event e)"
  by (simp add: keeps_def db_inv_def publish_event_run)

lemma keeps_db_publish_all [keeps_rules]: "keeps_db P (publish_all es)"
  by (induction es) (auto intro: keeps_rules)

lemma publish_all_run:
  "fst (publish_all es w) = Inr () \<and> db (snd (publish_all es w)) = db w \<and>
   active (snd (publish_all es w)) = active w \<and>
   redis_up (redis (snd (publish_all es w))) = redis_up (redis w) \<and>
   emitted (snd (publish_all es w)) = emitted w @ es \<and>
   metrics (snd (publish_all es w)) = fold count_event es (metrics w)"
proof (induction es arbitrary: w)
  case (Cons e es)
  show ?case by (simp add: await_def publish_event_run Cons) (cases e, simp_all)
qed (simp add: ret_def)

lemma publish_all_seat_maps:
  assumes "redis_up (redis w)"
  shows "seat_maps (redis (snd (publish_all es w))) = (\<lambda>k. if \<exists>e \<in> set es. \<exists>ss.
     e = ReservationCreated k ss \<or> e = ReservationCancelled k ss then None else seat_maps (redis w) k)"
  using assms
proof (induction es arbitrary: w)
  case (Cons e es)
  show ?case
    by (rule ext, cases e)
      (simp_all add: await_def publish_event_run Cons.IH Cons.prems key_del_def fun_upd_def)
qed (simp add: ret_def)

lemma find_taken_None:
  "find_taken sid seatId d = None \<longleftrightarrow>
     \<not> (\<exists>r \<in> set (rows (reservations d)). res_screeningId r = sid \<and> res_seatId r = seatId \<and> active_res r)"
  by (auto simp: find_taken_def find_None_iff)

lemma lock_seat_one:
  assumes "wf_table (seats d)"
  shows "length (lock_seat seatId hallId d) = 1 \<longleftrightarrow>
    (\<exists>s. find_row seatId (seats d) = Some s \<and> seat_hallId s = hallId)"
proof -
  have dist: "distinct (lock_seat seatId hallId d)"
    using assms unfolding lock_seat_def by (auto simp: wf_table_def ids_def distinct_map_filter)
  have sub: "set (lock_seat seatId hallId d) \<subseteq> {seatId}" by (auto simp: lock_seat_def)
  have "length (lock_seat seatId hallId d) = card (set (lock_seat seatId hallId d))"
    using dist by (simp add: distinct_card)
  moreover have "seatId \<in> set (lock_seat seatId hallId d) \<longleftrightarrow>
      (\<exists>s. find_row seatId (seats d) = Some s \<and> seat_hallId s = hallId)"
    by (auto simp: lock_seat_def find_row_iff [OF assms] image_iff)
  ultimately show ?thesis
    using sub by (cases "seatId \<in> set (lock_seat seatId hallId d)") (auto simp: subset_singleton_iff)
qed

text \<open>A free seat of the hall: what the transaction asks for.\<close>

definition seat_of_hall :: "db \<Rightarrow> int \<Rightarrow> int \<Rightarrow> bool" where
  "seat_of_hall d hallId seatId \<longleftrightarrow>
     (case find_row seatId (seats d) of None \<Rightarrow> False | Some s \<Rightarrow> seat_hallId s = hallId)"

definition seat_active :: "db \<Rightarrow> int \<Rightarrow> int \<Rightarrow> bool" where
  "seat_active d i seatId \<longleftrightarrow>
     (\<exists>r \<in> set (rows (reservations d)). res_screeningId r = i \<and> res_seatId r = seatId \<and> active_res r)"

lemma reservation_unique_append:
  assumes "reservation_unique t" and "\<not> (\<exists>x \<in> set (rows t). res_screeningId x = res_screeningId r \<and>
      res_seatId x = res_seatId r \<and> active_res x)" and "rows t' = rows t @ [r]"
  shows "reservation_unique t'"
  using assms by (auto simp: reservation_unique_def)

lemma holdSeat_body_run:
  assumes d: "db_ok d" and u: "hp_userId p \<in> set (ids (users d))" and s: "hp_screeningId p \<in> set (ids (screenings d))"
  shows "holdSeat_body now p d =
    (if \<not> seat_of_hall d (hp_hallId p) (hp_seatId p) then Inl bad_seat
     else if seat_active d (hp_screeningId p) (hp_seatId p) then Inl seat_conflict
     else case insert_row (hold_row now p) (reservations d) of (r, t) \<Rightarrow> Inr (r, d\<lparr>reservations := t\<rparr>))"
proof -
  have wf: "wf_table (seats d)" "reservation_unique (reservations d)" using d by (simp_all add: db_ok_defs)
  have lock: "length (lock_seat (hp_seatId p) (hp_hallId p) d) = 1 \<longleftrightarrow> seat_of_hall d (hp_hallId p) (hp_seatId p)"
    unfolding lock_seat_one [OF wf(1)] by (simp add: seat_of_hall_def split: option.split)
  have taken: "find_taken (hp_screeningId p) (hp_seatId p) d = None \<longleftrightarrow> \<not> seat_active d (hp_screeningId p) (hp_seatId p)"
    by (simp add: find_taken_None seat_active_def)
  show ?thesis
  proof (cases "seat_of_hall d (hp_hallId p) (hp_seatId p) \<and> \<not> seat_active d (hp_screeningId p) (hp_seatId p)")
    case True
    obtain r t where r: "insert_row (hold_row now p) (reservations d) = (r, t)" by fastforce
    have rv: "r = hold_row now p (next_id (reservations d))" by (rule insert_row_val [OF r])
    have "reservation_unique t"
    proof (rule reservation_unique_append [OF wf(2) _ rows_insert_row [OF r]])
      have rf: "res_screeningId r = hp_screeningId p" "res_seatId r = hp_seatId p"
        by (simp_all add: rv hold_row_def)
      show "\<not> (\<exists>x \<in> set (rows (reservations d)). res_screeningId x = res_screeningId r \<and>
          res_seatId x = res_seatId r \<and> active_res x)"
        using True unfolding seat_active_def rf by blast
    qed
    moreover have "reservation_fk d r"
    proof -
      from True obtain x where "find_row (hp_seatId p) (seats d) = Some x"
        by (auto simp: seat_of_hall_def split: option.splits)
      then have "hp_seatId p \<in> set (ids (seats d))" by (metis find_row_ids option.distinct(1))
      then show ?thesis by (simp add: reservation_fk_def rv hold_row_def u s)
    qed
    ultimately show ?thesis
      using True lock taken by (simp add: holdSeat_body_def insert_reservation_def on_table_def try_insert_def r)
  next
    case False
    then show ?thesis using lock taken by (auto simp: holdSeat_body_def split: option.split)
  qed
qed

subsection \<open>Well-formedness\<close>

lemma db_ok_holdSeat [db_ok_intros]: "db_ok d \<Longrightarrow> holdSeat_body now p d = Inr (r, d') \<Longrightarrow> db_ok d'"
  by (auto simp: holdSeat_body_def hold_row_def split: if_splits option.splits sum.splits
      elim!: db_ok_insert_reservation [rotated -1])

lemma keeps_holdSeat [keeps_rules]: "keeps_db db_ok (holdSeat_tx fault now p)"
  by (auto simp: keeps_def db_inv_def holdSeat_tx_def split: option.split hold_fault.split sum.split
      intro: db_ok_holdSeat)

lemma keeps_breaker [keeps_rules]: "keeps I m \<Longrightarrow> keeps I (breaker_fire f m)"
  by (auto simp: keeps_def breaker_fire_def split: fire.split)

lemma keeps_breaker_holdSeat [keeps_rules]: "keeps_db db_ok (breaker_holdSeat f fault now p)"
  unfolding breaker_holdSeat_def by (intro keeps_rules)

lemma keeps_acquire [keeps_rules]: "keeps_db P (acquire mx)"
  by (auto simp: keeps_def db_inv_def acquire_def)

lemma keeps_release [keeps_rules]: "keeps_db P m \<Longrightarrow> keeps_db P (finally_do m release)"
  by (rule keeps_finally) (simp_all add: db_inv_def release_def)

lemma active_cancelled: "\<not> active_res (r\<lparr>res_status := CANCELLED\<rparr>)"
  by (simp add: active_res_def)

lemma reservation_unique_map:
  assumes "reservation_unique t" and "rows t' = map f (rows t)"
    and "\<And>r. r \<in> set (rows t) \<Longrightarrow> active_res (f r) \<Longrightarrow> active_res r \<and> res_seatId (f r) = res_seatId r \<and>
      res_screeningId (f r) = res_screeningId r"
  shows "reservation_unique t'"
proof -
  let ?k = "\<lambda>r. (res_seatId r, res_screeningId r)"
  have "distinct (map ?k (filter active_res (map f xs)))"
    if "distinct (map ?k (filter active_res xs))" and "\<And>r. r \<in> set xs \<Longrightarrow> active_res (f r) \<Longrightarrow>
      active_res r \<and> ?k (f r) = ?k r" for xs
    using that
  proof (induction xs)
    case (Cons x xs)
    then have IH: "distinct (map ?k (filter active_res (map f xs)))" by (simp split: if_splits)
    have "?k (f x) \<notin> ?k ` set (filter active_res (map f xs))" if x: "active_res (f x)"
    proof
      assume "?k (f x) \<in> ?k ` set (filter active_res (map f xs))"
      then obtain r where r: "r \<in> set xs" "active_res (f r)" "?k (f x) = ?k (f r)" by auto
      with Cons.prems(2) [of r] Cons.prems(2) [of x] x have "active_res r" "active_res x" "?k x = ?k r"
        by auto
      with r(1) Cons.prems(1) show False by (auto simp: image_iff)
    qed
    with IH show ?case by simp
  qed simp
  with assms show ?thesis unfolding reservation_unique_def by simp
qed

lemma db_ok_release_expired: "db_ok d \<Longrightarrow> db_ok (snd (release_expired now d))"
proof -
  assume d: "db_ok d"
  let ?f = "\<lambda>r. if hold_expired now r then r\<lparr>res_status := CANCELLED, heldUntil := None\<rparr> else r"
  let ?t = "(reservations d)\<lparr>rows := map ?f (rows (reservations d))\<rparr>"
  have id: "rid (?f r) = rid r" for r by simp
  have "reservation_unique ?t"
  proof (rule reservation_unique_map [where f = ?f])
    show "reservation_unique (reservations d)" using d by (simp add: db_ok_defs)
  qed (simp_all add: active_res_def split: if_splits)
  moreover have "wf_table ?t"
    using d by (auto simp: db_ok_defs wf_table_def ids_def comp_def if_distrib cong: if_cong)
  moreover have "ids ?t = ids (reservations d)" by (simp add: ids_def comp_def if_distrib cong: if_cong)
  ultimately show ?thesis
    using d by (auto simp: db_ok_defs fk_defs release_expired_def)
qed

lemma keeps_release_expired [keeps_rules]: "keeps_db db_ok (releaseExpiredHolds fault now)"
  unfolding releaseExpiredHolds_def
  by (rule keeps_db_stmt) (use db_ok_release_expired in \<open>auto simp: release_expired_def\<close>)

lemma keeps_reservation_stmts [keeps_rules]:
  "keeps_db db_ok (reservations_extendHold fault i until)"
  "keeps_db db_ok (reservations_confirm fault i)"
  "keeps_db db_ok (reservations_setStatus fault i st)"
  "keeps_db P (reservations_findById i)"
  "keeps_db P (reservations_findByUser i)"
  unfolding reservations_repo_defs
  by (intro keeps_rules keeps_db_stmt; erule (1) db_ok_intros [rotated -1]; simp)
    (intro keeps_rules keeps_db_stmt; erule (1) db_ok_intros [rotated -1]; simp)+

lemma keeps_screenings_findById [keeps_rules]: "keeps_db P (screenings_findById i)"
  unfolding screenings_findById_def by (rule keeps_rules)

lemma keeps_reservation_services [keeps_rules]:
  "keeps_db db_ok (reserve env uid dto)"
  "keeps_db db_ok (expireHolds fault now)"
  "keeps_db db_ok (handleExpireHolds fault now)"
  "keeps_db db_ok (finalizeCancel fault r)"
  "keeps_db P (getById i)"
  "keeps_db P (findOwned uid i)"
  "keeps_db db_ok (extendHold fault i until)"
  "keeps_db db_ok (confirmPayment fault i)"
  "keeps_db P (listMine uid)"
  unfolding reservations_service_defs Let_def by (intro keeps_rules)+

subsection \<open>What \<open>reserve\<close> does\<close>

definition reserve_params :: "request_env \<Rightarrow> int \<Rightarrow> reservation_dto \<Rightarrow> screening \<Rightarrow> hold_params" where
  "reserve_params env uid dto s = \<lparr>hp_userId = uid, hp_screeningId = rd_screeningId dto, hp_hallId = scr_hallId s,
     hp_seatId = rd_seatId dto, hp_heldUntil = at_hold env + HOLD_MINUTES * 60000\<rparr>"

text \<open>The checks of \<open>reserve\<close> before it takes a permit.\<close>

definition reserve_check :: "request_env \<Rightarrow> int \<Rightarrow> reservation_dto \<Rightarrow> world \<Rightarrow> err + screening" where
  "reserve_check env uid dto w =
     (if \<not> redis_up (redis w) then Inl RedisError
      else if key_exists (at_check env) uid (payment_lockout (redis w)) then Inl lockout_forbidden
      else case screening_join (rd_screeningId dto) (db w) of
        None \<Rightarrow> Inl (screening_not_found (rd_screeningId dto))
      | Some (s, _, _) \<Rightarrow>
          if scr_status s \<noteq> SCHEDULED then Inl (screening_not_found (rd_screeningId dto))
          else if startTime s \<le> at_check env then Inl (BadRequestException ''Screening has already started'')
          else Inr s)"

lemma reserve_run:
  "reserve env uid dto w =
     (case reserve_check env uid dto w of
        Inl e \<Rightarrow> (Inl e, w)
      | Inr s \<Rightarrow>
          if limit env \<le> active w then (Inl heavy_load, w)
          else case breaker_holdSeat (breaker env) (tx_fault env) (at_hold env) (reserve_params env uid dto s)
                 (w\<lparr>active := active w + 1\<rparr>) of
             (Inl e, w') \<Rightarrow> (Inl e, release w')
           | (Inr r, w') \<Rightarrow>
               (Inr r, snd (publish_event (ReservationCreated (rd_screeningId dto) [res_seatId r]) (release w'))))"
  by (simp add: reserve_def reserve_check_def isLockedOut_def await_def screenings_findById_def query_run
      throw_def acquire_def finally_do_def reserve_params_def publish_event_run ret_def Let_def
      split: option.split prod.split sum.split)

lemma holdSeat_tx_frame:
  "active (snd (holdSeat_tx fault now p w)) = active w"
  "redis (snd (holdSeat_tx fault now p w)) = redis w"
  "emitted (snd (holdSeat_tx fault now p w)) = emitted w"
  "metrics (snd (holdSeat_tx fault now p w)) = metrics w"
  by (simp_all add: holdSeat_tx_def split: option.split hold_fault.split sum.split prod.split)

lemma breaker_frame:
  "active (snd (breaker_holdSeat f fault now p w)) = active w"
  "redis (snd (breaker_holdSeat f fault now p w)) = redis w"
  "emitted (snd (breaker_holdSeat f fault now p w)) = emitted w"
  "metrics (snd (breaker_holdSeat f fault now p w)) = metrics w"
  using holdSeat_tx_frame [of fault now p w]
  by (auto simp: breaker_holdSeat_def catch_err_def breaker_fire_def throw_def
      split: fire.split prod.split sum.split)

lemma hold_catch_seat [simp]: "hold_catch bad_seat = bad_seat" "hold_catch seat_conflict = seat_conflict"
  by (simp_all add: bad_seat_def seat_conflict_def)

lemma holdSeat_tx_run:
  assumes "db_ok (db w)" and "hp_userId p \<in> set (ids (users (db w)))"
    and "hp_screeningId p \<in> set (ids (screenings (db w)))"
  shows "holdSeat_tx None now p w =
    (if \<not> seat_of_hall (db w) (hp_hallId p) (hp_seatId p) then (Inl bad_seat, w)
     else if seat_active (db w) (hp_screeningId p) (hp_seatId p) then (Inl seat_conflict, w)
     else case insert_row (hold_row now p) (reservations (db w)) of
       (r, t) \<Rightarrow> (Inr r, w\<lparr>db := (db w)\<lparr>reservations := t\<rparr>\<rparr>))"
  by (simp add: holdSeat_tx_def holdSeat_body_run [OF assms] split: prod.split)

lemma breaker_run_http:
  "breaker_holdSeat FireRun None now p w =
     (case holdSeat_tx None now p w of
        (Inl e, w') \<Rightarrow> (Inl (if is_http_exception e then e else heavy_load), w') | (Inr r, w') \<Rightarrow> (Inr r, w'))"
  by (simp add: breaker_holdSeat_def catch_err_def breaker_fire_def throw_def split: prod.split sum.split)

lemma http_seat [simp]: "is_http_exception bad_seat" "is_http_exception seat_conflict" "is_http_exception heavy_load"
  by (simp_all add: bad_seat_def seat_conflict_def heavy_load_def)

lemma reserve_check_Inr:
  "reserve_check env uid dto w = Inr s \<longleftrightarrow>
     redis_up (redis w) \<and> \<not> key_exists (at_check env) uid (payment_lockout (redis w)) \<and>
     (\<exists>m h. screening_join (rd_screeningId dto) (db w) = Some (s, m, h)) \<and>
     scr_status s = SCHEDULED \<and> at_check env < startTime s"
  by (auto simp: reserve_check_def split: option.splits if_splits)

text \<open>C10. A reservation request that passes its checks and meets no fault has one of three outcomes,
  decided by the reservation table alone: 400 when the seat is not of the screening's hall, 409 when an
  active reservation of the screening has it (both without any change), and otherwise one new HELD row,
  for ten minutes, with the event, the dropped seat map and the counters. The unique index never has to
  decide.\<close>

theorem reserve_outcome:
  assumes "db_ok (db w)" and "uid \<in> set (ids (users (db w)))" and "reserve_check env uid dto w = Inr s"
    and "active w < limit env" and "breaker env = FireRun" and "tx_fault env = None"
  shows "case reserve env uid dto w of
      (Inl e, w') \<Rightarrow> w' = w \<and>
        (if seat_of_hall (db w) (scr_hallId s) (rd_seatId dto)
         then e = seat_conflict \<and> seat_active (db w) (rd_screeningId dto) (rd_seatId dto) else e = bad_seat)
    | (Inr r, w') \<Rightarrow> seat_of_hall (db w) (scr_hallId s) (rd_seatId dto) \<and>
        \<not> seat_active (db w) (rd_screeningId dto) (rd_seatId dto) \<and>
        find_row (rid r) (reservations (db w)) = None \<and>
        rows (reservations (db w')) = rows (reservations (db w)) @ [r] \<and>
        r = hold_row (at_hold env) (reserve_params env uid dto s) (rid r) \<and>
        emitted w' = emitted w @ [ReservationCreated (rd_screeningId dto) [rd_seatId dto]] \<and>
        seat_maps (redis w') (rd_screeningId dto) = None \<and>
        reservations_held_current (metrics w') = reservations_held_current (metrics w) + 1 \<and> active w' = active w"
proof -
  let ?p = "reserve_params env uid dto s"
  let ?w = "w\<lparr>active := active w + 1\<rparr>"
  from assms(3) obtain m h where j: "screening_join (rd_screeningId dto) (db w) = Some (s, m, h)"
      and up: "redis_up (redis w)" by (auto simp: reserve_check_Inr)
  then have "find_row (rd_screeningId dto) (screenings (db w)) \<noteq> None" by (simp add: screening_join_Some)
  then have scr: "rd_screeningId dto \<in> set (ids (screenings (db w)))" by (rule find_row_ids [THEN iffD1])
  have p: "hp_userId ?p = uid" "hp_screeningId ?p = rd_screeningId dto" "hp_hallId ?p = scr_hallId s"
      "hp_seatId ?p = rd_seatId dto" by (simp_all add: reserve_params_def)
  have tx: "holdSeat_tx None (at_hold env) ?p ?w =
    (if \<not> seat_of_hall (db w) (scr_hallId s) (rd_seatId dto) then (Inl bad_seat, ?w)
     else if seat_active (db w) (rd_screeningId dto) (rd_seatId dto) then (Inl seat_conflict, ?w)
     else case insert_row (hold_row (at_hold env) ?p) (reservations (db w)) of
       (r, t) \<Rightarrow> (Inr r, ?w\<lparr>db := (db w)\<lparr>reservations := t\<rparr>\<rparr>))"
    using holdSeat_tx_run [of ?w ?p "at_hold env"] assms(1,2) scr by (simp add: p)
  obtain r t where r: "insert_row (hold_row (at_hold env) ?p) (reservations (db w)) = (r, t)" by fastforce
  have wf: "wf_table (reservations (db w))" using assms(1) by (simp add: db_ok_defs)
  have rv: "r = hold_row (at_hold env) ?p (rid r)" "res_seatId r = rd_seatId dto"
    using insert_row_val [OF r] by (simp_all add: hold_row_def p)
  have fresh: "find_row (rid r) (reservations (db w)) = None"
    by (rule rs.ins_fresh [OF wf _ r]) (simp add: hold_row_def)
  show ?thesis
    using assms(4) up fresh rv rows_insert_row [OF r]
    by (simp add: reserve_run assms(3,5,6) breaker_run_http tx r publish_event_run release_def key_del_def)
qed

definition sample_env :: request_env where
  "sample_env = \<lparr>at_check = 1000, at_hold = 1000, limit = 4, breaker = FireRun, tx_fault = None\<rparr>"

definition sample_request :: "int \<Rightarrow> reservation_dto" where
  "sample_request seatId = \<lparr>rd_screeningId = 1, rd_seatId = seatId\<rparr>"

text \<open>A request of user 2 on the sample database passes its checks.\<close>

lemma sample_check: "reserve_check sample_env 2 (sample_request i) (world_of sample_db) = Inr sample_screening"
  by (simp add: reserve_check_def sample_env_def sample_request_def world_of_def empty_redis_def
      key_exists_def key_simps screening_join_def find_row_def sample_defs)

lemma sample_world: "db (world_of sample_db) = sample_db" "active (world_of sample_db) = 0"
    "redis_up (redis (world_of sample_db))" "emitted (world_of sample_db) = []"
    "redis (world_of sample_db) = empty_redis" "metrics (world_of sample_db) = zero_metrics"
  by (simp_all add: world_of_def empty_redis_def)

theorem reserve_outcome_witness:
  "\<exists>r w'. reserve sample_env 2 (sample_request 2) (world_of sample_db) = (Inr r, w') \<and>
     rows (reservations (db w')) = [sample_reservation, r]"
proof -
  have "seat_of_hall sample_db 1 2" "\<not> seat_active sample_db 1 2" "2 \<in> set (ids (users sample_db))"
    "rows (reservations sample_db) = [sample_reservation]" "scr_hallId sample_screening = 1"
    by (simp_all add: seat_of_hall_def seat_active_def find_row_def ids_def sample_defs)
  then show ?thesis
    using reserve_outcome [of "world_of sample_db" 2 sample_env "sample_request 2" sample_screening]
      sample_check [of 2]
    by (auto simp: sample_world sample_db_ok sample_env_def sample_request_def split: prod.splits sum.splits)
qed

text \<open>Whatever happens to a request (rejected, conflict, database fault, breaker open or timed out),
  the number of permits in use is afterwards what it was before, and a request that finds no permit
  free is a 503 that changes nothing.\<close>

theorem permits_restored:
  "active (snd (reserve env uid dto w)) = active w \<and>
   (reserve_check env uid dto w = Inr s \<longrightarrow> limit env \<le> active w \<longrightarrow> reserve env uid dto w = (Inl heavy_load, w))"
proof -
  have "active (release (snd (breaker_holdSeat f fault now p (w\<lparr>active := active w + 1\<rparr>)))) = active w" for f fault now p
    by (simp add: release_def breaker_frame)
  then have "active (release w') = active w"
    if "breaker_holdSeat f fault now p (w\<lparr>active := active w + 1\<rparr>) = (r, w')" for f fault now p r w'
    using that by (metis snd_conv)
  then show ?thesis
    by (auto simp: reserve_run publish_event_run split: sum.split prod.split)
qed

theorem permits_restored_witness:
  "reserve (sample_env\<lparr>limit := 0\<rparr>) 2 (sample_request 2) (world_of sample_db) = (Inl heavy_load, world_of sample_db)"
proof -
  have "reserve_check (sample_env\<lparr>limit := 0\<rparr>) 2 (sample_request 2) (world_of sample_db) = Inr sample_screening"
    using sample_check [of 2] by (simp add: reserve_check_Inr)
  then show ?thesis
    using permits_restored [of "sample_env\<lparr>limit := 0\<rparr>" 2 "sample_request 2" "world_of sample_db" sample_screening]
    by (simp add: sample_world)
qed

text \<open>When the breaker's timeout fires on a transaction that then commits, the caller is told 503
  but the seat is held: the row is in the table, and neither the event, nor the invalidation of the seat
  map, nor the counters happened.\<close>

theorem breaker_timeout_holds_seat:
  assumes "db_ok (db w)" and "uid \<in> set (ids (users (db w)))" and "reserve_check env uid dto w = Inr s"
    and "active w < limit env" and "breaker env = FireTimedOut" and "tx_fault env = None"
    and "seat_of_hall (db w) (scr_hallId s) (rd_seatId dto)"
    and "\<not> seat_active (db w) (rd_screeningId dto) (rd_seatId dto)"
  shows "\<exists>w'. reserve env uid dto w = (Inl heavy_load, w') \<and>
    seat_active (db w') (rd_screeningId dto) (rd_seatId dto) \<and>
    emitted w' = emitted w \<and> redis w' = redis w \<and> metrics w' = metrics w"
proof -
  let ?p = "reserve_params env uid dto s"
  let ?w = "w\<lparr>active := active w + 1\<rparr>"
  from assms(3) obtain m h where j: "screening_join (rd_screeningId dto) (db w) = Some (s, m, h)"
    by (auto simp: reserve_check_Inr)
  then have "find_row (rd_screeningId dto) (screenings (db w)) \<noteq> None" by (simp add: screening_join_Some)
  then have scr: "rd_screeningId dto \<in> set (ids (screenings (db w)))" by (rule find_row_ids [THEN iffD1])
  obtain r t where r: "insert_row (hold_row (at_hold env) ?p) (reservations (db w)) = (r, t)" by fastforce
  have tx: "holdSeat_tx None (at_hold env) ?p ?w = (Inr r, ?w\<lparr>db := (db w)\<lparr>reservations := t\<rparr>\<rparr>)"
    using holdSeat_tx_run [of ?w ?p "at_hold env"] assms(1,2,7,8) scr by (simp add: reserve_params_def [abs_def] r [unfolded reserve_params_def])
  have "seat_active ((db w)\<lparr>reservations := t\<rparr>) (rd_screeningId dto) (rd_seatId dto)"
    by (simp add: seat_active_def rows_insert_row [OF r])
      (simp add: insert_row_val [OF r] hold_row_def reserve_params_def active_res_def)
  then show ?thesis
    using assms(4) by (simp add: reserve_run assms(3,5,6) breaker_holdSeat_def catch_err_def breaker_fire_def
        tx throw_def release_def)
qed

theorem breaker_timeout_holds_seat_witness:
  "\<exists>w'. reserve (sample_env\<lparr>breaker := FireTimedOut\<rparr>) 2 (sample_request 2) (world_of sample_db) = (Inl heavy_load, w') \<and>
     seat_active (db w') 1 2 \<and> emitted w' = []"
proof -
  let ?env = "sample_env\<lparr>breaker := FireTimedOut\<rparr>"
  have c: "reserve_check ?env 2 (sample_request 2) (world_of sample_db) = Inr sample_screening"
    using sample_check [of 2] by (simp add: reserve_check_Inr)
  have "seat_of_hall sample_db 1 2" "\<not> seat_active sample_db 1 2" "2 \<in> set (ids (users sample_db))"
    "scr_hallId sample_screening = 1"
    by (simp_all add: seat_of_hall_def seat_active_def find_row_def ids_def sample_defs)
  then show ?thesis
    using breaker_timeout_holds_seat [of "world_of sample_db" 2 ?env "sample_request 2" sample_screening] c
    by (auto simp: sample_world sample_db_ok sample_env_def sample_request_def)
qed

subsection \<open>Hold expiry\<close>

lemma group_push:
  "map fst (push_seat s x gs) = (if s \<in> fst ` set gs then map fst gs else map fst gs @ [s])"
  "distinct (map fst gs) \<Longrightarrow> map_of (push_seat s x gs) k =
     (if k = s then Some ((case map_of gs s of None \<Rightarrow> [] | Some xs \<Rightarrow> xs) @ [x]) else map_of gs k)"
  by (induction gs) (auto split: option.split, metis fst_conv image_eqI)

lemma group_distinct: "distinct (map fst (group_by_screening rs))"
  and group_map: "map_of (group_by_screening rs) k =
    (if k \<in> res_screeningId ` set rs
     then Some (map res_seatId (filter (\<lambda>r. res_screeningId r = k) rs)) else None)"
proof -
  have "distinct (map fst (foldl (\<lambda>gs r. push_seat (res_screeningId r) (res_seatId r) gs) gs rs)) \<and>
    map_of (foldl (\<lambda>gs r. push_seat (res_screeningId r) (res_seatId r) gs) gs rs) k =
      (if k \<in> res_screeningId ` set rs
       then Some ((case map_of gs k of None \<Rightarrow> [] | Some xs \<Rightarrow> xs) @ map res_seatId (filter (\<lambda>r. res_screeningId r = k) rs))
       else map_of gs k)" if "distinct (map fst gs)" for gs
    using that
  proof (induction rs arbitrary: gs)
    case (Cons r rs)
    have "distinct (map fst (push_seat (res_screeningId r) (res_seatId r) gs))"
      using Cons.prems by (auto simp: group_push(1))
    from Cons.IH [OF this] Cons.prems show ?case by (auto simp: group_push(2) image_iff filter_empty_conv)
  qed simp
  from this [of "[]"] show "distinct (map fst (group_by_screening rs))"
    "map_of (group_by_screening rs) k = (if k \<in> res_screeningId ` set rs
     then Some (map res_seatId (filter (\<lambda>r. res_screeningId r = k) rs)) else None)"
    by (simp_all add: group_by_screening_def)
qed

lemma group_set:
  "set (group_by_screening rs) =
     {(k, map res_seatId (filter (\<lambda>r. res_screeningId r = k) rs)) | k. k \<in> res_screeningId ` set rs}"
proof -
  have "(k, v) \<in> set (group_by_screening rs) \<longleftrightarrow> map_of (group_by_screening rs) k = Some v" for k v
    using group_distinct [of rs] by (simp add: map_of_eq_Some_iff)
  then show ?thesis by (auto simp: group_map split: if_splits)
qed

lemma expireHolds_run:
  "expireHolds None now w =
     (Inr (), snd (publish_all (expiry_events (fst (release_expired now (db w))))
        (w\<lparr>db := snd (release_expired now (db w))\<rparr>)))"
proof -
  have nil: "expiry_events [] = []" by (simp add: expiry_events_def group_by_screening_def)
  show ?thesis
    using publish_all_run [of "expiry_events (fst (release_expired now (db w)))"]
    by (auto simp: expireHolds_def releaseExpiredHolds_def await_def run_stmt_def ret_def nil prod_eq_iff
        split: prod.split)
qed

lemma find_row_map:
  assumes "\<And>r. rid (f r) = rid r" and "rows t' = map f (rows t)"
  shows "find_row i t' = map_option f (find_row i t)"
proof -
  have "List.find (\<lambda>r. rid r = i) (map f xs) = map_option f (List.find (\<lambda>r. rid r = i) xs)" for xs
    by (induction xs) (auto simp: assms(1))
  then show ?thesis by (simp add: find_row_def assms(2))
qed

definition expire_row :: "ms \<Rightarrow> reservation \<Rightarrow> reservation" where
  "expire_row now r = (if hold_expired now r then r\<lparr>res_status := CANCELLED, heldUntil := None\<rparr> else r)"

lemma release_expired_rows:
  "rows (reservations (snd (release_expired now d))) = map (expire_row now) (rows (reservations d))"
  by (simp add: release_expired_def expire_row_def [abs_def])

lemma hold_expired_alt:
  "hold_expired now r \<longleftrightarrow> res_status r = HELD \<and> heldUntil r \<noteq> None \<and> the (heldUntil r) < now"
  by (cases "heldUntil r") (simp_all add: hold_expired_def)

text \<open>C15. The expiry sweep cancels exactly the HELD reservations whose hold ended before now and touches
  no other; it announces them with one cancellation event per screening, carrying that screening's
  released seats in order, followed by one notice per released reservation.\<close>

theorem expiry_exact:
  "\<exists>w' gs. let due = (\<lambda>r. res_status r = HELD \<and> heldUntil r \<noteq> None \<and> the (heldUntil r) < now);
      released = filter due (rows (reservations (db w))) in
    expireHolds None now w = (Inr (), w') \<and>
    (\<forall>i. find_row i (reservations (db w')) = map_option
      (\<lambda>r. if due r then r\<lparr>res_status := CANCELLED, heldUntil := None\<rparr> else r) (find_row i (reservations (db w)))) \<and>
    emitted w' = emitted w @ map (\<lambda>g. ReservationCancelled (fst g) (snd g)) gs @
      map (\<lambda>r. HoldExpired (res_userId r) (res_screeningId r) (res_seatId r)) released \<and>
    distinct (map fst gs) \<and>
    set gs = {(k, map res_seatId (filter (\<lambda>r. res_screeningId r = k) released)) | k. k \<in> res_screeningId ` set released}"
proof -
  let ?rel = "filter (hold_expired now) (rows (reservations (db w)))"
  let ?w = "snd (expireHolds None now w)"
  have rel: "fst (release_expired now (db w)) = ?rel" by (simp add: release_expired_def)
  have run: "expireHolds None now w = (Inr (), ?w)" by (simp add: expireHolds_run)
  have "db ?w = snd (release_expired now (db w))" "emitted ?w = emitted w @ expiry_events ?rel"
    using publish_all_run by (simp_all add: expireHolds_run rel)
  moreover from this(1) have "find_row i (reservations (db ?w)) =
      map_option (expire_row now) (find_row i (reservations (db w)))" for i
    by (intro find_row_map) (simp_all add: release_expired_rows expire_row_def)
  ultimately show ?thesis
    unfolding Let_def hold_expired_alt [symmetric] expire_row_def [symmetric]
    using run group_distinct [of ?rel] group_set [of ?rel]
    by (intro exI [of _ ?w] exI [of _ "group_by_screening ?rel"]) (simp add: expiry_events_def)
qed

lemma release_expired_Nil:
  assumes "filter (hold_expired now) (rows (reservations d)) = []"
  shows "release_expired now d = ([], d)"
proof -
  have "map (expire_row now) (rows (reservations d)) = rows (reservations d)"
    using assms by (intro map_idI) (auto simp: filter_empty_conv expire_row_def)
  then show ?thesis
    using assms by (cases d) (simp add: release_expired_def expire_row_def [abs_def])
qed

lemma expireHolds_emitted:
  "emitted (snd (expireHolds None now w)) =
     emitted w @ expiry_events (filter (hold_expired now) (rows (reservations (db w))))"
  using publish_all_run by (simp add: expireHolds_run release_expired_def)

text \<open>The sweep is idempotent: run again, at the same time or an earlier one, it finds nothing and
  changes nothing.\<close>

theorem expiry_idempotent:
  assumes "expireHolds None now w = (Inr (), w')" and "t \<le> now"
  shows "expireHolds None t w' = (Inr (), w')"
proof -
  have d: "db w' = snd (release_expired now (db w))"
  proof -
    have "w' = snd (expireHolds None now w)" using assms(1) by simp
    then show ?thesis using publish_all_run by (simp add: expireHolds_run)
  qed
  have "\<not> hold_expired t (expire_row now r)" for r
  proof (cases "hold_expired now r")
    case True
    then show ?thesis by (simp add: expire_row_def hold_expired_def)
  next
    case False
    moreover from assms(2) have "hold_expired t r \<Longrightarrow> hold_expired now r"
      by (simp add: hold_expired_def split: option.splits)
    ultimately show ?thesis by (simp add: expire_row_def) blast
  qed
  then have "filter (hold_expired t) (rows (reservations (db w'))) = []"
    by (simp add: d release_expired_rows filter_empty_conv)
  then show ?thesis
    by (simp add: expireHolds_def releaseExpiredHolds_def run_stmt_def release_expired_Nil await_def ret_def)
qed

theorem expiry_idempotent_witness:
  "\<exists>w'. expireHolds None 700000 (world_of sample_db) = (Inr (), w') \<and> expireHolds None 650000 w' = (Inr (), w') \<and>
     emitted w' = [ReservationCancelled 1 [1], HoldExpired 1 1 1]"
proof -
  let ?w = "snd (expireHolds None 700000 (world_of sample_db))"
  have r: "expireHolds None 700000 (world_of sample_db) = (Inr (), ?w)" by (simp add: expireHolds_run)
  have "emitted ?w = [ReservationCancelled 1 [1], HoldExpired 1 1 1]"
  proof -
    have "filter (hold_expired 700000) (rows (reservations sample_db)) = [sample_reservation]"
      by (simp add: hold_expired_def sample_db_def sample_reservation_def)
    then show ?thesis
      by (simp add: expireHolds_emitted sample_world expiry_events_def group_by_screening_def
          sample_reservation_def)
  qed
  with r expiry_idempotent [OF r, of 650000] show ?thesis by (intro exI [of _ ?w] conjI) simp_all
qed

lemma count_cancelled: "reservations_held_current (fold count_event (map (\<lambda>g. ReservationCancelled (fst g) (snd g)) gs) m) =
    reservations_held_current m - int (length gs)"
  by (induction gs arbitrary: m) auto

lemma count_notices: "fold count_event (map (\<lambda>r. HoldExpired (res_userId r) (res_screeningId r) (res_seatId r)) rs) m = m"
  by (induction rs) auto

text \<open>The sweep lowers the gauge of held reservations by the number of screenings concerned, not by
  the number of holds it released: with two expired seats of one screening the gauge stays one too
  high.\<close>

theorem expiry_gauge_drift:
  "reservations_held_current (metrics (snd (expireHolds None now w))) =
    reservations_held_current (metrics w) -
      int (card (res_screeningId ` set (filter (hold_expired now) (rows (reservations (db w))))))"
proof -
  let ?rel = "filter (hold_expired now) (rows (reservations (db w)))"
  have "length (group_by_screening ?rel) = card (fst ` set (group_by_screening ?rel))"
    using group_distinct [of ?rel] by (metis distinct_card length_map set_map)
  also have "fst ` set (group_by_screening ?rel) = res_screeningId ` set ?rel"
    unfolding group_set by (auto simp: image_iff)
  finally show ?thesis
    using publish_all_run
    by (simp add: expireHolds_run release_expired_def expiry_events_def count_cancelled count_notices)
qed

subsection \<open>Ownership and reads\<close>

text \<open>A reservation of somebody else is indistinguishable from one that does not exist: the owner
  check answers the same 404 in both cases, succeeds exactly for the owner, and changes nothing.\<close>

theorem ownership_hidden:
  "findOwned uid i w =
     (case find_row i (reservations (db w)) of
        Some r \<Rightarrow> if res_userId r = uid then (Inr r, w) else (Inl (reservation_not_found i), w)
      | None \<Rightarrow> (Inl (reservation_not_found i), w))"
  by (simp add: findOwned_def getById_def reservations_findById_def await_def query_run ret_def throw_def
      split: option.split)

lemma breaker_holdSeat_InrE:
  assumes "breaker_holdSeat f fault now p w = (Inr r, w')"
  obtains d where "holdSeat_body now p (db w) = Inr (r, d)" and "w' = w\<lparr>db := d\<rparr>"
proof -
  from assms have "f = FireRun" and "holdSeat_tx fault now p w = (Inr r, w')"
    unfolding breaker_holdSeat_def catch_err_def breaker_fire_def
    by (cases f; simp add: throw_def split: prod.splits sum.splits if_splits)+
  then show ?thesis
    using that by (simp add: holdSeat_tx_def split: option.splits hold_fault.splits sum.splits prod.splits)
qed

text \<open>What a successful reservation did: it passed the checks, one HELD row is new, and the cached map is gone.\<close>

lemma reserve_committed:
  assumes "db_ok (db w)" and "reserve env uid dto w = (Inr r, w')"
  obtains s m h tab where "screening_join (rd_screeningId dto) (db w) = Some (s, m, h)" and "scr_status s = SCHEDULED"
    and "redis_up (redis w')" and "seat_of_hall (db w) (scr_hallId s) (rd_seatId dto)"
    and "\<not> seat_active (db w) (rd_screeningId dto) (rd_seatId dto)"
    and "insert_row (hold_row (at_hold env) (reserve_params env uid dto s)) (reservations (db w)) = (r, tab)"
    and "db w' = (db w)\<lparr>reservations := tab\<rparr>" and "db_ok (db w')"
    and "\<And>t. serve_cached seat_maps t (rd_screeningId dto) w' = None"
    and "emitted w' = emitted w @ [ReservationCreated (rd_screeningId dto) [rd_seatId dto]]"
proof -
  from assms(2) obtain s w1 where c: "reserve_check env uid dto w = Inr s"
      and b: "breaker_holdSeat (breaker env) (tx_fault env) (at_hold env) (reserve_params env uid dto s)
          (w\<lparr>active := active w + 1\<rparr>) = (Inr r, w1)"
      and w': "w' = snd (publish_event (ReservationCreated (rd_screeningId dto) [res_seatId r]) (release w1))"
    by (auto simp: reserve_run split: sum.splits if_splits prod.splits)
  from b obtain d where body: "holdSeat_body (at_hold env) (reserve_params env uid dto s) (db w) = Inr (r, d)"
      and w1: "db w1 = d"
    by (rule breaker_holdSeat_InrE) simp
  have dw: "db w' = d" by (simp add: w' publish_event_run release_def w1)
  from c obtain m h where j: "screening_join (rd_screeningId dto) (db w) = Some (s, m, h)"
      and up: "redis_up (redis w)" and sch: "scr_status s = SCHEDULED" by (auto simp: reserve_check_Inr)
  from body obtain tab where r: "insert_row (hold_row (at_hold env) (reserve_params env uid dto s)) (reservations (db w)) = (r, tab)"
      and d: "d = (db w)\<lparr>reservations := tab\<rparr>"
    by (auto simp: holdSeat_body_def insert_reservation_def split: if_splits option.splits sum.splits elim!: insert_stmtE)
  have seat: "res_seatId r = rd_seatId dto" by (simp add: insert_row_val [OF r] hold_row_def reserve_params_def)
  have p: "hp_hallId (reserve_params env uid dto s) = scr_hallId s" "hp_seatId (reserve_params env uid dto s) = rd_seatId dto"
      "hp_screeningId (reserve_params env uid dto s) = rd_screeningId dto"
    by (simp_all add: reserve_params_def)
  have wf: "wf_table (seats (db w))" using assms(1) by (simp add: db_ok_defs)
  have place: "seat_of_hall (db w) (scr_hallId s) (rd_seatId dto)" "\<not> seat_active (db w) (rd_screeningId dto) (rd_seatId dto)"
    using body unfolding holdSeat_body_def p lock_seat_one [OF wf]
    by (auto simp: seat_of_hall_def seat_active_def split: if_splits option.splits dest!: find_taken_None [THEN iffD1])
  have ok: "db_ok (db w')" using assms keeps_reservation_services(1) by (metis keeps_dbD snd_conv)
  have red: "redis w1 = redis w" "emitted w1 = emitted w"
    using breaker_frame [of "breaker env" "tx_fault env" "at_hold env" "reserve_params env uid dto s"
        "w\<lparr>active := active w + 1\<rparr>"] b by simp_all
  have "serve_cached seat_maps t (rd_screeningId dto) w' = None" for t
    using up by (simp add: serve_cached_def w' publish_event_run release_def red key_simps)
  moreover have "redis_up (redis w')" "emitted w' = emitted w @ [ReservationCreated (rd_screeningId dto) [rd_seatId dto]]"
    using up by (simp_all add: w' publish_event_run release_def red seat)
  ultimately show ?thesis using that j sch place r d dw ok by metis
qed

text \<open>A seat that a HELD row of the screening has is held.\<close>

lemma held_row_seat:
  assumes "db_ok d" and "r \<in> set (rows (reservations d))" and "res_status r = HELD"
  shows "seat_state d (res_screeningId r) (res_seatId r) = SeatHELD"
proof -
  have "seat_state d (res_screeningId r) (res_seatId r) = toSeatStatus (Some HELD)"
    using assms by (subst seat_state_iff) (auto simp: db_ok_defs)
  then show ?thesis by simp
qed

lemma reserved_seat_held:
  assumes "db_ok (db w)" and "reserve env uid dto w = (Inr r, w')"
  shows "seat_state (db w') (rd_screeningId dto) (rd_seatId dto) = SeatHELD"
  using assms
proof (rule reserve_committed)
  fix s tab
  assume r: "insert_row (hold_row (at_hold env) (reserve_params env uid dto s)) (reservations (db w)) = (r, tab)"
    and d: "db w' = (db w)\<lparr>reservations := tab\<rparr>" and ok: "db_ok (db w')"
  have "r \<in> set (rows (reservations (db w')))" by (simp add: d rows_insert_row [OF r])
  moreover have "res_screeningId r = rd_screeningId dto" "res_seatId r = rd_seatId dto" "res_status r = HELD"
    by (simp_all add: insert_row_val [OF r] hold_row_def reserve_params_def)
  ultimately show ?thesis using held_row_seat [OF ok] by fastforce
qed

subsection \<open>Read your writes\<close>

text \<open>Any number of reads of seat maps, at any times, one after the other.\<close>

definition read_maps :: "(ms \<times> int) list \<Rightarrow> world \<Rightarrow> world" where
  "read_maps = fold (\<lambda>(t, i) w. snd (getSeatMap t i w))"

definition serves_only :: "db \<Rightarrow> int \<Rightarrow> seat_map_entry list \<Rightarrow> world \<Rightarrow> bool" where
  "serves_only d i m w \<longleftrightarrow> db w = d \<and> (\<forall>t. serve_cached seat_maps t i w \<in> {None, Some m})"

lemma serves_only_read:
  assumes "db_ok d" and "screening_join i d = Some (s, mv, h)" and "serves_only d i (seat_map_of d (scr_hallId s) i) w"
  shows "serves_only d i (seat_map_of d (scr_hallId s) i) (snd (getSeatMap t j w))"
  using assms
  by (auto simp: serves_only_def getSeatMap_run serve_cached_def with_redis_def key_simps Let_def split: option.split)

lemma serves_only_reads:
  assumes "db_ok d" and "screening_join i d = Some (s, mv, h)" and "serves_only d i (seat_map_of d (scr_hallId s) i) w"
  shows "serves_only d i (seat_map_of d (scr_hallId s) i) (read_maps reads w)"
  using assms(3)
proof (induction reads arbitrary: w)
  case (Cons x reads)
  then show ?case using serves_only_read [OF assms(1,2)] by (cases x) (simp add: read_maps_def)
qed (simp add: read_maps_def)

lemma filter_unique_key: "distinct (map f xs) \<Longrightarrow> y \<in> set xs \<Longrightarrow> filter (\<lambda>x. f x = f y) xs = [y]"
  by (induction xs) (auto simp: filter_empty_conv image_iff)

lemma seat_map_entry:
  assumes "db_ok d" and "seat_of_hall d hallId x"
  shows "\<exists>e. filter (\<lambda>e. sm_seatId e = x) (seat_map_of d hallId i) = [e] \<and> sm_status e = seat_state d i x"
proof -
  let ?l = "seats_by_layout hallId d"
  have dist: "distinct (map rid ?l)" by (rule distinct_layout) (use assms(1) in \<open>simp add: db_ok_defs\<close>)
  obtain s where s: "s \<in> set ?l" "rid s = x"
    using assms(2) find_row_mem find_row_key by (fastforce simp: seat_of_hall_def seats_by_layout_set split: option.splits)
  then have "[s] = filter (\<lambda>s. rid s = x) ?l"
    using filter_unique_key [OF dist s(1)] by simp
  then have "filter (\<lambda>s. rid s = x) ?l = [s]" ..
  then show ?thesis using s by (simp add: seat_map_of_def filter_map comp_def)
qed

text \<open>C34. Read your writes: after a successful reservation, until another operation follows, every seat map of the screening
  that is read, at whatever times and however many maps were read before, whatever map was cached before the reservation,
  lists the seat exactly once, as HELD.\<close>

theorem reserve_then_seat_map:
  assumes "db_ok (db w)" and "reserve env uid dto w = (Inr r, w')"
  shows "\<exists>m e. fst (getSeatMap t (rd_screeningId dto) (read_maps reads w')) = Inr m \<and>
    filter (\<lambda>e. sm_seatId e = rd_seatId dto) m = [e] \<and> sm_status e = SeatHELD"
  using assms
proof (rule reserve_committed)
  fix s m h tab
  assume j: "screening_join (rd_screeningId dto) (db w) = Some (s, m, h)" and sch: "scr_status s = SCHEDULED"
    and place: "seat_of_hall (db w) (scr_hallId s) (rd_seatId dto)"
    and d: "db w' = (db w)\<lparr>reservations := tab\<rparr>" and ok: "db_ok (db w')"
    and miss: "\<And>t. serve_cached seat_maps t (rd_screeningId dto) w' = None"
  let ?i = "rd_screeningId dto" and ?w = "read_maps reads w'"
  let ?m = "seat_map_of (db w') (scr_hallId s) ?i"
  have j': "screening_join ?i (db w') = Some (s, m, h)" using j unfolding d by (simp add: screening_join_Some)
  have "serves_only (db w') ?i ?m w'" using miss by (simp add: serves_only_def)
  from serves_only_reads [OF ok j' this] have only: "db ?w = db w'" "serve_cached seat_maps t ?i ?w \<in> {None, Some ?m}"
    by (auto simp: serves_only_def)
  have "fst (getSeatMap t ?i ?w) = Inr ?m"
    using only ok j' sch by (auto simp: getSeatMap_run Let_def split: option.split)
  moreover have "seat_of_hall (db w') (scr_hallId s) (rd_seatId dto)" using place by (simp add: d seat_of_hall_def)
  ultimately show ?thesis using seat_map_entry [OF ok] reserved_seat_held [OF assms] by metis
qed

lemma sample_reserve: "\<not> isl (fst (reserve sample_env 2 (sample_request 2) (world_of sample_db)))"
  by code_simp

theorem reserve_then_seat_map_witness:
  "\<exists>r w' m e. reserve sample_env 2 (sample_request 2) (world_of sample_db) = (Inr r, w') \<and>
     fst (getSeatMap 9000 1 (read_maps [(2000, 1), (3000, 1)] w')) = Inr m \<and>
     filter (\<lambda>e. sm_seatId e = 2) m = [e] \<and> sm_status e = SeatHELD"
proof -
  obtain r w' where r: "reserve sample_env 2 (sample_request 2) (world_of sample_db) = (Inr r, w')"
    using sample_reserve by (cases "reserve sample_env 2 (sample_request 2) (world_of sample_db)")
      (metis fst_conv isl_def sum.exhaust sum.disc(1))
  with reserve_then_seat_map [OF _ r, of 9000 "[(2000, 1), (3000, 1)]"] show ?thesis
    by (simp add: sample_world sample_db_ok sample_request_def)
qed

end
