(* ===== verification/Transition.thy ===== *)
theory Transition
  imports Main
begin

text \<open>
  Labelled step relations, their reachable states, and the two interfaces the state machines of the
  development are stated against: a system whose steps preserve an invariant, and one in which a
  measure falls with every step, so that every run ends.
\<close>

inductive reaches :: "('l \<Rightarrow> 's \<Rightarrow> 's \<Rightarrow> bool) \<Rightarrow> 'l set \<Rightarrow> 's \<Rightarrow> 's \<Rightarrow> bool"
  for step L s0 where
  start: "reaches step L s0 s0"
| move: "reaches step L s0 s \<Longrightarrow> l \<in> L \<Longrightarrow> step l s s' \<Longrightarrow> reaches step L s0 s'"

lemma reaches_mono: "reaches step L s0 s \<Longrightarrow> L \<subseteq> M \<Longrightarrow> reaches step M s0 s"
  by (induction rule: reaches.induct) (auto intro: reaches.intros)

lemma reaches_trans: "reaches step L s1 s2 \<Longrightarrow> reaches step L s0 s1 \<Longrightarrow> reaches step L s0 s2"
  by (induction rule: reaches.induct) (auto intro: reaches.move)

locale invariant_steps =
  fixes step :: "'l \<Rightarrow> 's \<Rightarrow> 's \<Rightarrow> bool" and L :: "'l set" and inv :: "'s \<Rightarrow> bool"
  assumes preserved: "inv s \<Longrightarrow> l \<in> L \<Longrightarrow> step l s s' \<Longrightarrow> inv s'"
begin

lemma holds_everywhere: "reaches step L s0 s \<Longrightarrow> inv s0 \<Longrightarrow> inv s"
  by (induction rule: reaches.induct) (auto intro: preserved)

end

text \<open>
  A measure on states that every step lowers, in the states where an invariant holds: a run of labels
  is no longer than the measure of the state it starts in.
\<close>

inductive run_of :: "('l \<Rightarrow> 's \<Rightarrow> 's \<Rightarrow> bool) \<Rightarrow> 'l list \<Rightarrow> 's \<Rightarrow> 's \<Rightarrow> bool" for step where
  run_Nil: "run_of step [] s s"
| run_Cons: "step l s s' \<Longrightarrow> run_of step ls s' s'' \<Longrightarrow> run_of step (l # ls) s s''"

inductive_cases run_NilE: "run_of step [] s s'"
inductive_cases run_ConsE: "run_of step (l # ls) s s'"

locale terminating_steps = invariant_steps +
  fixes size_of :: "'s \<Rightarrow> nat"
  assumes falls: "inv s \<Longrightarrow> l \<in> L \<Longrightarrow> step l s s' \<Longrightarrow> size_of s' < size_of s"
begin

lemma run_bounded:
  "run_of step ls s s' \<Longrightarrow> inv s \<Longrightarrow> set ls \<subseteq> L \<Longrightarrow> length ls + size_of s' \<le> size_of s"
proof (induction rule: run_of.induct)
  case (run_Cons l s s' ls s'')
  then have "inv s'" and "size_of s' < size_of s"
    using preserved [of s l s'] falls [of s l s'] by simp_all
  with run_Cons show ?case by simp
qed simp

end

lemma run_append: "run_of step ls s s' \<Longrightarrow> run_of step ks s' s'' \<Longrightarrow> run_of step (ls @ ks) s s''"
  by (induction rule: run_of.induct) (auto intro: run_of.run_Cons)

text \<open>A run that starts in a state with a property and ends in one without has a step that breaks it.\<close>

lemma run_breaks:
  "run_of step ls s s' \<Longrightarrow> P s \<Longrightarrow> \<not> P s' \<Longrightarrow>
    \<exists>ls1 l ls2 s1 s2. ls = ls1 @ l # ls2 \<and> run_of step ls1 s s1 \<and> P s1 \<and> step l s1 s2 \<and> \<not> P s2 \<and> run_of step ls2 s2 s'"
proof (induction rule: run_of.induct)
  case (run_Cons l s s1 ls s')
  show ?case
  proof (cases "P s1")
    case True
    from run_Cons.IH [OF this run_Cons.prems(2)] obtain ls1 k ls2 t1 t2 where "ls = ls1 @ k # ls2" "run_of step ls1 s1 t1" "P t1"
      "step k t1 t2" "\<not> P t2" "run_of step ls2 t2 s'" by blast
    with run_Cons.hyps(1) show ?thesis
      by (intro exI [of _ "l # ls1"] exI [of _ k] exI [of _ ls2] exI [of _ t1] exI [of _ t2]) (simp add: run_of.run_Cons)
  next
    case False
    with run_Cons show ?thesis
      by (intro exI [of _ "[]"] exI [of _ l] exI [of _ ls] exI [of _ s] exI [of _ s1]) (simp add: run_of.run_Nil)
  qed
qed simp

lemma reaches_run: "reaches step L s0 s \<Longrightarrow> \<exists>ls. run_of step ls s0 s \<and> set ls \<subseteq> L"
proof (induction rule: reaches.induct)
  case start
  show ?case by (intro exI [of _ "[]"]) (simp add: run_of.run_Nil)
next
  case (move s l s')
  then obtain ls where "run_of step ls s0 s" "set ls \<subseteq> L" by blast
  moreover have "run_of step [l] s s'" by (rule run_of.run_Cons, rule move.hyps(3), rule run_of.run_Nil)
  ultimately show ?case using run_append [of step ls s0 s "[l]" s'] move.hyps(2) by (intro exI [of _ "ls @ [l]"]) simp
qed

text \<open>
  A specification that matches every step, with a relation between its states and those of the system: every run of
  the system is matched by a run of the specification with the same labels.
\<close>

locale simulation =
  fixes step :: "'l \<Rightarrow> 's \<Rightarrow> 's \<Rightarrow> bool" and L :: "'l set" and spec :: "'l \<Rightarrow> 'a \<Rightarrow> 'a \<Rightarrow> bool" and rel :: "'a \<Rightarrow> 's \<Rightarrow> bool"
  assumes matched: "rel h s \<Longrightarrow> l \<in> L \<Longrightarrow> step l s s' \<Longrightarrow> \<exists>h'. spec l h h' \<and> rel h' s'"
begin

lemma run_matched: "run_of step ls s s' \<Longrightarrow> set ls \<subseteq> L \<Longrightarrow> rel h s \<Longrightarrow> \<exists>h'. run_of spec ls h h' \<and> rel h' s'"
proof (induction arbitrary: h rule: run_of.induct)
  case (run_Nil s)
  then show ?case using run_of.run_Nil by fast
next
  case (run_Cons l s s' ls s'')
  from matched [OF run_Cons.prems(2) _ run_Cons.hyps(1)] run_Cons.prems(1)
  obtain h1 where "spec l h h1" "rel h1 s'" by auto
  with run_Cons.IH [of h1] run_Cons.prems(1) show ?case by (auto intro: run_of.run_Cons)
qed

end

end
