(* ===== verification/SeatLock.thy ===== *)
theory SeatLock
  imports Reservations Transition
begin

text \<open>
  The transactions of \<open>holdSeat\<close> (\<open>reservations/reservations.repository.ts\<close>) interleaved, at READ
  COMMITTED: every request is at one point of the transaction's code, each statement reads the committed
  rows, an insert becomes visible to others when its transaction commits, the row lock of
  \<open>SELECT .. FOR UPDATE\<close> is held to the end of the transaction, and an insert that would collide in the
  unique index with one still uncommitted waits.

  The labels of the step relation: \<open>Tx t\<close> is the next statement of request \<open>t\<close>, \<open>Fault t e\<close> an error of the
  database in it, and \<open>Cancelled i\<close> and \<open>Confirmed i\<close> are the writes of the other services that may fall
  in between (cancellation and expiry; payment confirmation). A request that waits has no step.
\<close>

datatype pc = Idle | Locked | Checked | Pending reservation | Finished "err + reservation"

record lock_state =
  cdb :: db
  lock :: "int \<Rightarrow> nat option"
  pcs :: "nat \<Rightarrow> pc"

datatype label = Tx nat | Fault nat err | Cancelled int | Confirmed int

definition goto :: "nat \<Rightarrow> pc \<Rightarrow> lock_state \<Rightarrow> lock_state" where
  "goto t p s = s\<lparr>pcs := (pcs s)(t := p)\<rparr>"

text \<open>Commit and rollback release the row lock.\<close>

definition finish :: "nat \<Rightarrow> err + reservation \<Rightarrow> lock_state \<Rightarrow> lock_state" where
  "finish t res s = s\<lparr>pcs := (pcs s)(t := Finished res),
     lock := (\<lambda>k. if lock s k = Some t then None else lock s k)\<rparr>"

text \<open>The value an insert takes from the key's sequence is not given back by a rollback.\<close>

definition take_id :: "db \<Rightarrow> db" where
  "take_id d = d\<lparr>reservations := (reservations d)\<lparr>next_id := next_id (reservations d) + 1\<rparr>\<rparr>"

definition append_row :: "reservation \<Rightarrow> db \<Rightarrow> db" where
  "append_row r d = d\<lparr>reservations := (reservations d)\<lparr>rows := rows (reservations d) @ [r]\<rparr>\<rparr>"

definition same_place :: "reservation \<Rightarrow> reservation \<Rightarrow> bool" where
  "same_place r r' \<longleftrightarrow> res_screeningId r = res_screeningId r' \<and> res_seatId r = res_seatId r'"

definition waits_for_insert :: "reservation \<Rightarrow> lock_state \<Rightarrow> bool" where
  "waits_for_insert r s \<longleftrightarrow> (\<exists>t r'. pcs s t = Pending r' \<and> same_place r r')"

fun in_transaction :: "pc \<Rightarrow> bool" where
  "in_transaction (Finished _) = False"
| "in_transaction _ = True"

fun holds_lock :: "pc \<Rightarrow> bool" where
  "holds_lock Locked = True"
| "holds_lock Checked = True"
| "holds_lock (Pending _) = True"
| "holds_lock _ = False"

definition new_row :: "ms \<Rightarrow> hold_params \<Rightarrow> db \<Rightarrow> reservation" where
  "new_row now p d = hold_row now p (next_id (reservations d))"

inductive tx_step :: "(nat \<Rightarrow> hold_params) \<Rightarrow> ms \<Rightarrow> label \<Rightarrow> lock_state \<Rightarrow> lock_state \<Rightarrow> bool"
  for reqs now where
  lock_row: "pcs s t = Idle \<Longrightarrow> length (lock_seat (hp_seatId (reqs t)) (hp_hallId (reqs t)) (cdb s)) = 1 \<Longrightarrow>
    lock s (hp_seatId (reqs t)) = None \<Longrightarrow>
    tx_step reqs now (Tx t) s (goto t Locked (s\<lparr>lock := (lock s)(hp_seatId (reqs t) := Some t)\<rparr>))"
| no_row: "pcs s t = Idle \<Longrightarrow> length (lock_seat (hp_seatId (reqs t)) (hp_hallId (reqs t)) (cdb s)) \<noteq> 1 \<Longrightarrow>
    tx_step reqs now (Tx t) s (finish t (Inl (hold_catch bad_seat)) s)"
| check_taken: "pcs s t = Locked \<Longrightarrow> find_taken (hp_screeningId (reqs t)) (hp_seatId (reqs t)) (cdb s) = Some r \<Longrightarrow>
    tx_step reqs now (Tx t) s (finish t (Inl (hold_catch seat_conflict)) s)"
| check_free: "pcs s t = Locked \<Longrightarrow> find_taken (hp_screeningId (reqs t)) (hp_seatId (reqs t)) (cdb s) = None \<Longrightarrow>
    tx_step reqs now (Tx t) s (goto t Checked s)"
| insert_fails: "pcs s t = Checked \<Longrightarrow> \<not> waits_for_insert (new_row now (reqs t) (cdb s)) s \<Longrightarrow>
    insert_reservation (hold_row now (reqs t)) (cdb s) = Inl e \<Longrightarrow>
    tx_step reqs now (Tx t) s (finish t (Inl (hold_catch (Prisma e))) (s\<lparr>cdb := take_id (cdb s)\<rparr>))"
| insert_row: "pcs s t = Checked \<Longrightarrow> \<not> waits_for_insert (new_row now (reqs t) (cdb s)) s \<Longrightarrow>
    insert_reservation (hold_row now (reqs t)) (cdb s) = Inr (r, d) \<Longrightarrow>
    tx_step reqs now (Tx t) s (goto t (Pending r) (s\<lparr>cdb := take_id (cdb s)\<rparr>))"
| commit: "pcs s t = Pending r \<Longrightarrow>
    tx_step reqs now (Tx t) s (finish t (Inr r) (s\<lparr>cdb := append_row r (cdb s)\<rparr>))"
| fault: "in_transaction (pcs s t) \<Longrightarrow> tx_step reqs now (Fault t e) s (finish t (Inl e) s)"
| cancelled: "update_reservation i (\<lambda>r. r\<lparr>res_status := CANCELLED\<rparr>) (cdb s) = Inr (r, d) \<Longrightarrow>
    tx_step reqs now (Cancelled i) s (s\<lparr>cdb := d\<rparr>)"
| confirmed: "update_reservation i (\<lambda>r. r\<lparr>res_status := CONFIRMED, heldUntil := None\<rparr>) (cdb s) = Inr (r, d) \<Longrightarrow>
    \<not> waits_for_insert r s \<Longrightarrow> tx_step reqs now (Confirmed i) s (s\<lparr>cdb := d\<rparr>)"

inductive_cases tx_stepE: "tx_step reqs now (Tx t) s s'"
inductive_cases fault_stepE: "tx_step reqs now (Fault t e) s s'"
inductive_cases cancelled_stepE: "tx_step reqs now (Cancelled i) s s'"
inductive_cases confirmed_stepE: "tx_step reqs now (Confirmed i) s s'"

definition begin_requests :: "db \<Rightarrow> lock_state" where
  "begin_requests d = \<lparr>cdb = d, lock = (\<lambda>_. None), pcs = (\<lambda>_. Idle)\<rparr>"

text \<open>
  The invariant: the lock table says who is between its lock and its commit; an uncommitted row is the
  row its request asked for, with a key nobody else has, and no active row is at its place.
\<close>

definition lock_table_ok :: "(nat \<Rightarrow> hold_params) \<Rightarrow> lock_state \<Rightarrow> bool" where
  "lock_table_ok reqs s \<longleftrightarrow>
     (\<forall>t k. lock s k = Some t \<longleftrightarrow> holds_lock (pcs s t) \<and> hp_seatId (reqs t) = k)"

definition pending_ok :: "(nat \<Rightarrow> hold_params) \<Rightarrow> ms \<Rightarrow> lock_state \<Rightarrow> bool" where
  "pending_ok reqs now s \<longleftrightarrow>
     (\<forall>t r. pcs s t = Pending r \<longrightarrow>
        r = hold_row now (reqs t) (rid r) \<and> reservation_fk (cdb s) r \<and>
        rid r < next_id (reservations (cdb s)) \<and> rid r \<notin> set (ids (reservations (cdb s))) \<and>
        \<not> seat_active (cdb s) (res_screeningId r) (res_seatId r)) \<and>
     (\<forall>t t' r r'. pcs s t = Pending r \<longrightarrow> pcs s t' = Pending r' \<longrightarrow> t \<noteq> t' \<longrightarrow>
        rid r \<noteq> rid r' \<and> \<not> same_place r r')"

definition lock_inv :: "(nat \<Rightarrow> hold_params) \<Rightarrow> ms \<Rightarrow> lock_state \<Rightarrow> bool" where
  "lock_inv reqs now s \<longleftrightarrow> db_ok (cdb s) \<and> lock_table_ok reqs s \<and> pending_ok reqs now s"

subsection \<open>The invariant is preserved\<close>

lemma active_cong: "rows (reservations d') = rows (reservations d) \<Longrightarrow> seat_active d' = seat_active d"
  by (intro ext) (simp add: seat_active_def)

lemma seat_active_append: "seat_active (append_row r d) i x \<longleftrightarrow>
    seat_active d i x \<or> (res_screeningId r = i \<and> res_seatId r = x \<and> active_res r)"
  by (auto simp: seat_active_def append_row_def)

lemma active_taken: "find_taken i x d = None \<longleftrightarrow> \<not> seat_active d i x"
  by (simp add: find_taken_None seat_active_def)

lemma take_id_simps [simp]:
  "rows (reservations (take_id d)) = rows (reservations d)"
  "next_id (reservations (take_id d)) = next_id (reservations d) + 1"
  "ids (reservations (take_id d)) = ids (reservations d)"
  "reservation_fk (take_id d) = reservation_fk d"
  "seat_active (take_id d) = seat_active d"
  by (auto simp: take_id_def ids_def reservation_fk_def seat_active_def intro!: ext)

lemma append_row_simps [simp]:
  "next_id (reservations (append_row r d)) = next_id (reservations d)"
  "ids (reservations (append_row r d)) = ids (reservations d) @ [rid r]"
  "reservation_fk (append_row r d) = reservation_fk d"
  by (auto simp: append_row_def ids_def reservation_fk_def intro!: ext)

lemma db_ok_take_id: "db_ok d \<Longrightarrow> db_ok (take_id d)"
proof -
  assume d: "db_ok d"
  then have "wf_table (reservations (take_id d))"
    by (fastforce simp: db_ok_defs wf_table_def)
  moreover have "reservation_unique (reservations (take_id d))"
    using d by (simp add: db_ok_defs reservation_unique_def)
  ultimately show ?thesis
    using d by (simp add: db_ok_defs) (simp add: take_id_def fk_defs ids_def)
qed

lemma db_ok_append_row:
  assumes d: "db_ok d" and "reservation_fk d r" and "rid r < next_id (reservations d)"
    and "rid r \<notin> set (ids (reservations d))" and "\<not> seat_active d (res_screeningId r) (res_seatId r)"
  shows "db_ok (append_row r d)"
proof -
  have "reservation_unique (reservations (append_row r d))"
  proof (rule reservation_unique_append)
    show "reservation_unique (reservations d)" using d by (simp add: db_ok_defs)
    show "\<not> (\<exists>x \<in> set (rows (reservations d)). res_screeningId x = res_screeningId r \<and>
        res_seatId x = res_seatId r \<and> active_res x)"
      using assms(5) unfolding seat_active_def by blast
  qed (simp add: append_row_def)
  moreover have "wf_table (reservations (append_row r d))"
    using assms by (auto simp: db_ok_defs wf_table_def ids_def append_row_def)
  ultimately show ?thesis
    using assms(1,2) by (simp add: db_ok_defs) (auto simp: append_row_def fk_defs ids_def)
qed

text \<open>What a committed update of another service can change for the requests.\<close>

lemma update_reservation_facts:
  assumes "update_reservation i f d = Inr (r, d')" and f: "\<And>r. rid (f r) = rid r"
  shows "\<exists>r0. find_row i (reservations d) = Some r0 \<and> r = f r0 \<and>
    rows (reservations d') = map (\<lambda>r. if rid r = i then f r else r) (rows (reservations d)) \<and>
    next_id (reservations d') = next_id (reservations d) \<and> ids (reservations d') = ids (reservations d) \<and>
    reservation_fk d' = reservation_fk d"
  using assms(1) unfolding update_reservation_def
proof (rule update_stmtE)
  fix r0
  assume "find_row i (reservations d) = Some r0" "r = f r0"
    "d' = d\<lparr>reservations := update_row i f (reservations d)\<rparr>"
  then show ?thesis
    using ids_update_row [of f i "reservations d"] f
    by (auto simp: update_row_def reservation_fk_def intro!: ext)
qed

lemma lock_table_goto:
  "lock_table_ok reqs s \<Longrightarrow> holds_lock p = holds_lock (pcs s t) \<Longrightarrow> lock_table_ok reqs (goto t p s)"
  by (auto simp: lock_table_ok_def goto_def)

lemma lock_table_finish: "lock_table_ok reqs s \<Longrightarrow> lock_table_ok reqs (finish t res s)"
  by (auto simp: lock_table_ok_def finish_def) (metis option.inject)

lemma lock_table_cdb [simp]: "lock_table_ok reqs (s\<lparr>cdb := d\<rparr>) = lock_table_ok reqs s"
  by (simp add: lock_table_ok_def)

lemma lock_table_acquire:
  "lock_table_ok reqs s \<Longrightarrow> pcs s t = Idle \<Longrightarrow> lock s (hp_seatId (reqs t)) = None \<Longrightarrow>
     lock_table_ok reqs (goto t Locked (s\<lparr>lock := (lock s)(hp_seatId (reqs t) := Some t)\<rparr>))"
  unfolding lock_table_ok_def goto_def by auto (metis holds_lock.simps(4) option.distinct(1))+

lemma pending_goto:
  "pending_ok reqs now s \<Longrightarrow> (\<forall>r. p \<noteq> Pending r) \<Longrightarrow> pending_ok reqs now (goto t p s)"
  unfolding pending_ok_def goto_def by auto

lemma pending_finish: "pending_ok reqs now s \<Longrightarrow> pending_ok reqs now (finish t res s)"
  unfolding pending_ok_def finish_def by auto

lemma pending_lock [simp]: "pending_ok reqs now (s\<lparr>lock := f\<rparr>) = pending_ok reqs now s"
  by (simp add: pending_ok_def)

lemma pending_take_id: "pending_ok reqs now s \<Longrightarrow> pending_ok reqs now (s\<lparr>cdb := take_id (cdb s)\<rparr>)"
  unfolding pending_ok_def by fastforce

lemma pending_add:
  assumes p: "pending_ok reqs now s" and r: "r = hold_row now (reqs t) (rid r)" "reservation_fk (cdb s) r"
      "rid r < next_id (reservations (cdb s))" "rid r \<notin> set (ids (reservations (cdb s)))"
      "\<not> seat_active (cdb s) (res_screeningId r) (res_seatId r)"
    and other: "\<And>t' r'. pcs s t' = Pending r' \<Longrightarrow> \<not> same_place r r' \<and> rid r' \<noteq> rid r"
  shows "pending_ok reqs now (goto t (Pending r) s)"
proof -
  have sym: "same_place a b = same_place b a" for a b by (auto simp: same_place_def)
  have pcs: "pcs (goto t (Pending r) s) t0 = (if t0 = t then Pending r else pcs s t0)"
    and cdb: "cdb (goto t (Pending r) s) = cdb s" for t0 by (simp_all add: goto_def)
  have one: "r0 = hold_row now (reqs t0) (rid r0) \<and> reservation_fk (cdb s) r0 \<and>
        rid r0 < next_id (reservations (cdb s)) \<and> rid r0 \<notin> set (ids (reservations (cdb s))) \<and>
        \<not> seat_active (cdb s) (res_screeningId r0) (res_seatId r0)"
    if "(if t0 = t then Pending r else pcs s t0) = Pending r0" for t0 r0
  proof (cases "t0 = t")
    case True
    with that have "r0 = r" by simp
    with True r show ?thesis by simp
  next
    case False
    with that p show ?thesis by (simp add: pending_ok_def)
  qed
  have two: "rid r0 \<noteq> rid r1 \<and> \<not> same_place r0 r1"
    if pp: "(if t0 = t then Pending r else pcs s t0) = Pending r0"
      "(if t1 = t then Pending r else pcs s t1) = Pending r1" "t0 \<noteq> t1" for t0 t1 r0 r1
  proof -
    consider "t0 = t" "t1 \<noteq> t" | "t0 \<noteq> t" "t1 = t" | "t0 \<noteq> t" "t1 \<noteq> t" using pp(3) by blast
    then show ?thesis
    proof cases
      case 1
      with pp other [of t1 r1] show ?thesis by auto
    next
      case 2
      with pp other [of t0 r0] sym show ?thesis by auto
    next
      case 3
      with pp p show ?thesis unfolding pending_ok_def by auto
    qed
  qed
  show ?thesis unfolding pending_ok_def pcs cdb using one two by blast
qed

lemma pending_insert:
  assumes p: "pending_ok reqs now s" and d: "db_ok (cdb s)" and "pcs s t = Checked"
    and "\<not> waits_for_insert (new_row now (reqs t) (cdb s)) s"
    and ins: "insert_reservation (hold_row now (reqs t)) (cdb s) = Inr (r, d')"
  shows "pending_ok reqs now (goto t (Pending r) (s\<lparr>cdb := take_id (cdb s)\<rparr>))"
proof -
  from ins obtain tab where r: "insert_row (hold_row now (reqs t)) (reservations (cdb s)) = (r, tab)"
      and u: "reservation_unique tab" and fk: "reservation_fk (cdb s) r"
    unfolding insert_reservation_def by (rule insert_stmtE)
  have rv: "r = new_row now (reqs t) (cdb s)" using insert_row_val [OF r] by (simp add: new_row_def)
  have rid: "rid r = next_id (reservations (cdb s))" by (simp add: rv new_row_def hold_row_def)
  then have rv': "r = hold_row now (reqs t) (rid r)" by (simp add: rv new_row_def)
  have act: "active_res r" by (simp add: rv new_row_def hold_row_def active_res_def)
  have "\<not> seat_active (cdb s) (res_screeningId r) (res_seatId r)"
  proof
    assume "seat_active (cdb s) (res_screeningId r) (res_seatId r)"
    then obtain x where "x \<in> set (rows (reservations (cdb s)))" "res_screeningId x = res_screeningId r"
        "res_seatId x = res_seatId r" "active_res x" by (auto simp: seat_active_def)
    with u act show False by (auto simp: reservation_unique_def rows_insert_row [OF r] image_iff) metis
  qed
  moreover have "rid r \<notin> set (ids (reservations (cdb s)))"
    using d by (auto simp: rid db_ok_defs wf_table_def ids_def)
  moreover have "\<not> same_place r r' \<and> rid r' \<noteq> rid r" if "pcs s t' = Pending r'" for t' r'
  proof -
    have "\<not> same_place r r'" using assms(4) that unfolding waits_for_insert_def rv by blast
    moreover have "rid r' < rid r" using p that unfolding rid pending_ok_def by blast
    ultimately show ?thesis by simp
  qed
  ultimately show ?thesis
    using fk by (intro pending_add [OF pending_take_id [OF p] rv']) (simp_all add: rid)
qed

lemma pending_commit:
  assumes p: "pending_ok reqs now s" and t: "pcs s t = Pending r"
  shows "pending_ok reqs now (finish t (Inr r) (s\<lparr>cdb := append_row r (cdb s)\<rparr>))"
proof -
  let ?s = "finish t (Inr r) (s\<lparr>cdb := append_row r (cdb s)\<rparr>)"
  have old: "pcs s t0 = Pending r0 \<and> t0 \<noteq> t" if "pcs ?s t0 = Pending r0" for t0 r0
    using that by (auto simp: finish_def split: if_splits)
  have cdb: "cdb ?s = append_row r (cdb s)" by (simp add: finish_def)
  have other: "rid r0 \<noteq> rid r \<and> \<not> same_place r0 r" if "pcs ?s t0 = Pending r0" for t0 r0
    using old [OF that] t p unfolding pending_ok_def by blast
  have "r0 = hold_row now (reqs t0) (rid r0) \<and> reservation_fk (cdb ?s) r0 \<and>
      rid r0 < next_id (reservations (cdb ?s)) \<and> rid r0 \<notin> set (ids (reservations (cdb ?s))) \<and>
      \<not> seat_active (cdb ?s) (res_screeningId r0) (res_seatId r0)" if h: "pcs ?s t0 = Pending r0" for t0 r0
  proof -
    have "\<not> (res_screeningId r = res_screeningId r0 \<and> res_seatId r = res_seatId r0)" "rid r0 \<noteq> rid r"
      using other [OF h] by (auto simp: same_place_def)
    moreover have "r0 = hold_row now (reqs t0) (rid r0) \<and> reservation_fk (cdb s) r0 \<and>
      rid r0 < next_id (reservations (cdb s)) \<and> rid r0 \<notin> set (ids (reservations (cdb s))) \<and>
      \<not> seat_active (cdb s) (res_screeningId r0) (res_seatId r0)"
      using old [OF h] p unfolding pending_ok_def by blast
    ultimately show ?thesis by (simp add: cdb seat_active_append) blast
  qed
  moreover have "rid r0 \<noteq> rid r1 \<and> \<not> same_place r0 r1"
    if "pcs ?s t0 = Pending r0" "pcs ?s t1 = Pending r1" "t0 \<noteq> t1" for t0 t1 r0 r1
    using old [OF that(1)] old [OF that(2)] that(3) p unfolding pending_ok_def by blast
  ultimately show ?thesis unfolding pending_ok_def by blast
qed

lemma pending_update:
  assumes p: "pending_ok reqs now s"
    and up: "update_reservation i f (cdb s) = Inr (r, d)" and f: "\<And>r. rid (f r) = rid r"
    and grow: "\<And>t0 r0. pcs s t0 = Pending r0 \<Longrightarrow> seat_active d (res_screeningId r0) (res_seatId r0) \<Longrightarrow>
      seat_active (cdb s) (res_screeningId r0) (res_seatId r0)"
  shows "pending_ok reqs now (s\<lparr>cdb := d\<rparr>)"
proof -
  from update_reservation_facts [OF up f] have d: "next_id (reservations d) = next_id (reservations (cdb s))"
      "ids (reservations d) = ids (reservations (cdb s))" "reservation_fk d = reservation_fk (cdb s)"
    by auto
  show ?thesis
    using p grow unfolding pending_ok_def by (simp add: d) blast
qed

lemma update_active:
  assumes up: "update_reservation i f d = Inr (r, d')" and f: "\<And>r. rid (f r) = rid r"
    and wf: "wf_table (reservations d)" and a: "seat_active d' k x"
  shows "seat_active d k x \<or> (active_res r \<and> res_screeningId r = k \<and> res_seatId r = x)"
proof -
  from update_reservation_facts [OF up f] obtain r0 where r0: "find_row i (reservations d) = Some r0" "r = f r0"
      and rows: "rows (reservations d') = map (\<lambda>r. if rid r = i then f r else r) (rows (reservations d))"
    by blast
  from a obtain y where y: "y \<in> set (rows (reservations d'))" "res_screeningId y = k" "res_seatId y = x" "active_res y"
    by (auto simp: seat_active_def)
  from y(1) obtain z where z: "z \<in> set (rows (reservations d))" "y = (if rid z = i then f z else z)"
    unfolding rows set_map by (rule imageE)
  show ?thesis
  proof (cases "rid z = i")
    case True
    with z(1) r0(1) wf have "z = r0" by (simp add: find_row_iff wf_table_eq)
    with True z(2) r0(2) y show ?thesis by simp
  next
    case False
    with z y show ?thesis by (auto simp: seat_active_def)
  qed
qed

lemma lock_inv_commit:
  assumes inv: "lock_inv reqs now s" and t: "pcs s t = Pending r"
  shows "lock_inv reqs now (finish t (Inr r) (s\<lparr>cdb := append_row r (cdb s)\<rparr>))"
proof -
  have p: "pending_ok reqs now s" using inv by (simp add: lock_inv_def)
  from t p have "reservation_fk (cdb s) r" "rid r < next_id (reservations (cdb s))"
      "rid r \<notin> set (ids (reservations (cdb s)))" "\<not> seat_active (cdb s) (res_screeningId r) (res_seatId r)"
    unfolding pending_ok_def by blast+
  moreover have "cdb (finish t res u) = cdb u" for res u by (simp add: finish_def)
  ultimately show ?thesis
    using inv t pending_commit [OF p] by (simp add: lock_inv_def lock_table_finish db_ok_append_row)
qed

text \<open>A statement of other work on one reservation, as long as it takes no place that an uncommitted row is for.\<close>

lemma lock_inv_update:
  assumes inv: "lock_inv reqs now s" and u: "update_reservation i f (cdb s) = Inr (r, d')" and f: "\<And>r. rid (f r) = rid r"
    and new: "\<And>t0 r0. pcs s t0 = Pending r0 \<Longrightarrow> active_res r \<Longrightarrow> \<not> (res_screeningId r = res_screeningId r0 \<and> res_seatId r = res_seatId r0)"
  shows "lock_inv reqs now (s\<lparr>cdb := d'\<rparr>)"
proof -
  have d: "db_ok (cdb s)" and p: "pending_ok reqs now s" using inv by (simp_all add: lock_inv_def)
  have wf: "wf_table (reservations (cdb s))" using d by (simp add: db_ok_defs)
  have "pending_ok reqs now (s\<lparr>cdb := d'\<rparr>)"
  proof (rule pending_update [OF p u f])
    fix t0 r0 assume "pcs s t0 = Pending r0" and "seat_active d' (res_screeningId r0) (res_seatId r0)"
    with update_active [OF u f wf] new show "seat_active (cdb s) (res_screeningId r0) (res_seatId r0)" by blast
  qed
  moreover have "db_ok d'" by (rule db_ok_update_reservation [OF d f u])
  ultimately show ?thesis using inv by (simp add: lock_inv_def)
qed

lemma lock_inv_step:
  assumes inv: "lock_inv reqs now s" and st: "tx_step reqs now l s s'"
  shows "lock_inv reqs now s'"
proof -
  have d: "db_ok (cdb s)" and lt: "lock_table_ok reqs s" and p: "pending_ok reqs now s"
    using inv by (simp_all add: lock_inv_def)
  have cdb [simp]: "cdb (goto t q u) = cdb u" "cdb (finish t res u) = cdb u" for t q u res
    by (simp_all add: goto_def finish_def)
  from st show ?thesis
  proof cases
    case (lock_row t)
    then show ?thesis using d lt p by (simp add: lock_inv_def lock_table_acquire pending_goto)
  next
    case (no_row t)
    then show ?thesis using d lt p by (simp add: lock_inv_def lock_table_finish pending_finish)
  next
    case (check_taken t r)
    then show ?thesis using d lt p by (simp add: lock_inv_def lock_table_finish pending_finish)
  next
    case (check_free t)
    then show ?thesis using d lt p by (simp add: lock_inv_def lock_table_goto pending_goto)
  next
    case (insert_fails t e)
    then show ?thesis
      using d lt p by (simp add: lock_inv_def lock_table_finish pending_finish pending_take_id db_ok_take_id)
  next
    case (insert_row t r d')
    then show ?thesis
      using d lt pending_insert [OF p d insert_row(3,4,5)]
      by (simp add: lock_inv_def lock_table_goto db_ok_take_id)
  next
    case (commit t r)
    then show ?thesis using lock_inv_commit [OF inv] by simp
  next
    case (fault t e)
    then show ?thesis using d lt p by (simp add: lock_inv_def lock_table_finish pending_finish)
  next
    case (cancelled i r d')
    have "\<not> active_res r"
      using update_reservation_facts [OF cancelled(3)] by (auto simp: active_res_def)
    then show ?thesis unfolding cancelled(2) by (intro lock_inv_update [OF inv cancelled(3)]) simp_all
  next
    case (confirmed i r d')
    show ?thesis
      unfolding confirmed(2) using confirmed(4)
      by (intro lock_inv_update [OF inv confirmed(3)]) (auto simp: waits_for_insert_def same_place_def)
  qed
qed

lemma lock_inv_begin: "db_ok d \<Longrightarrow> lock_inv reqs now (begin_requests d)"
  by (simp add: lock_inv_def begin_requests_def lock_table_ok_def pending_ok_def)

interpretation sl: invariant_steps "tx_step reqs now" UNIV "lock_inv reqs now" for reqs now
  by unfold_locales (rule lock_inv_step)

subsection \<open>A contest for one seat\<close>

text \<open>
  Finitely many requests for the same free seat of the same screening, by registered users, and nobody
  else: no fault and no other service writes.
\<close>

definition contest :: "(nat \<Rightarrow> hold_params) \<Rightarrow> nat set \<Rightarrow> db \<Rightarrow> int \<Rightarrow> int \<Rightarrow> bool" where
  "contest reqs T d scr seatId \<longleftrightarrow> db_ok d \<and> finite T \<and> scr \<in> set (ids (screenings d)) \<and> \<not> seat_active d scr seatId \<and>
     (\<forall>t \<in> T. hp_screeningId (reqs t) = scr \<and> hp_seatId (reqs t) = seatId \<and>
        hp_userId (reqs t) \<in> set (ids (users d)) \<and> seat_of_hall d (hp_hallId (reqs t)) seatId)"

definition won :: "pc \<Rightarrow> bool" where
  "won p \<longleftrightarrow> (\<exists>r. p = Finished (Inr r))"

fun past_check :: "pc \<Rightarrow> bool" where
  "past_check Checked = True"
| "past_check (Pending _) = True"
| "past_check _ = False"

definition same_parents :: "db \<Rightarrow> db \<Rightarrow> bool" where
  "same_parents d d' \<longleftrightarrow> users d' = users d \<and> screenings d' = screenings d \<and> seats d' = seats d"

definition contest_inv ::
  "(nat \<Rightarrow> hold_params) \<Rightarrow> ms \<Rightarrow> nat set \<Rightarrow> db \<Rightarrow> int \<Rightarrow> int \<Rightarrow> lock_state \<Rightarrow> bool" where
  "contest_inv reqs now T d scr seatId s \<longleftrightarrow> lock_inv reqs now s \<and> same_parents d (cdb s) \<and>
     (\<forall>t. t \<notin> T \<longrightarrow> pcs s t = Idle) \<and>
     (seat_active (cdb s) scr seatId \<longleftrightarrow> (\<exists>t \<in> T. won (pcs s t))) \<and>
     (\<forall>t \<in> T. \<forall>t' \<in> T. won (pcs s t) \<longrightarrow> won (pcs s t') \<longrightarrow> t = t') \<and>
     (\<forall>t \<in> T. past_check (pcs s t) \<longrightarrow> \<not> seat_active (cdb s) scr seatId) \<and>
     (\<forall>t \<in> T. \<forall>e. pcs s t = Finished (Inl e) \<longrightarrow> e = seat_conflict \<and> seat_active (cdb s) scr seatId)"

lemma same_parents_take_id: "same_parents d (take_id d') = same_parents d d'"
  by (simp add: same_parents_def take_id_def)

lemma same_parents_append: "same_parents d (append_row r d') = same_parents d d'"
  by (simp add: same_parents_def append_row_def)

lemma lock_exclusive:
  assumes "lock_inv reqs now s" and "holds_lock (pcs s t)" and "holds_lock (pcs s t')"
    and "hp_seatId (reqs t) = hp_seatId (reqs t')"
  shows "t = t'"
  using assms unfolding lock_inv_def lock_table_ok_def by (metis option.inject)

text \<open>With the lock held, the row lock protects the check: nobody else can be inserting.\<close>

lemma checked_not_waiting:
  assumes inv: "contest_inv reqs now T d scr seatId s" and c: "contest reqs T d scr seatId" and t: "t \<in> T"
    and "pcs s t = Checked"
  shows "\<not> waits_for_insert (new_row now (reqs t) (cdb s)) s"
    and "\<exists>r d'. insert_reservation (hold_row now (reqs t)) (cdb s) = Inr (r, d') \<and>
      res_screeningId r = scr \<and> res_seatId r = seatId \<and> active_res r"
proof -
  have li: "lock_inv reqs now s" using inv by (simp add: contest_inv_def)
  show "\<not> waits_for_insert (new_row now (reqs t) (cdb s)) s"
  proof
    assume "waits_for_insert (new_row now (reqs t) (cdb s)) s"
    then obtain t' r' where t': "pcs s t' = Pending r'" by (auto simp: waits_for_insert_def)
    then have "pcs s t' \<noteq> Idle" by simp
    with inv have "t' \<in> T" by (auto simp: contest_inv_def)
    then have "t = t'"
      using lock_exclusive [OF li, of t t'] assms(4) t' c t by (simp add: contest_def)
    with t' assms(4) show False by simp
  qed
  have d: "db_ok (cdb s)" using li by (simp add: lock_inv_def)
  obtain r tab where r: "insert_row (hold_row now (reqs t)) (reservations (cdb s)) = (r, tab)" by fastforce
  have rv: "res_screeningId r = scr" "res_seatId r = seatId" "res_userId r = hp_userId (reqs t)" "active_res r"
    using c t by (simp_all add: insert_row_val [OF r] hold_row_def active_res_def contest_def)
  have free: "\<not> seat_active (cdb s) scr seatId"
    using inv assms(4) t unfolding contest_inv_def by (metis past_check.simps(1))
  have "reservation_unique tab"
  proof (rule reservation_unique_append [OF _ _ rows_insert_row [OF r]])
    show "reservation_unique (reservations (cdb s))" using d by (simp add: db_ok_defs)
    show "\<not> (\<exists>x \<in> set (rows (reservations (cdb s))). res_screeningId x = res_screeningId r \<and>
        res_seatId x = res_seatId r \<and> active_res x)"
      using free unfolding seat_active_def rv by blast
  qed
  moreover have "reservation_fk (cdb s) r"
  proof -
    have par: "same_parents d (cdb s)" using inv by (simp add: contest_inv_def)
    from c t obtain x where "find_row seatId (seats d) = Some x"
      by (auto simp: contest_def seat_of_hall_def split: option.splits)
    then have "seatId \<in> set (ids (seats d))" by (metis find_row_ids option.distinct(1))
    then show ?thesis
      using par c t by (simp add: reservation_fk_def rv same_parents_def contest_def)
  qed
  ultimately show "\<exists>r d'. insert_reservation (hold_row now (reqs t)) (cdb s) = Inr (r, d') \<and>
      res_screeningId r = scr \<and> res_seatId r = seatId \<and> active_res r"
    using rv by (simp add: insert_reservation_def on_table_def try_insert_def r)
qed

lemma seat_lockable:
  assumes "contest_inv reqs now T d scr seatId s" and "contest reqs T d scr seatId" and "t \<in> T"
  shows "length (lock_seat (hp_seatId (reqs t)) (hp_hallId (reqs t)) (cdb s)) = 1"
proof -
  have "wf_table (seats (cdb s))" using assms(1) by (simp add: contest_inv_def lock_inv_def db_ok_defs)
  moreover have "seat_of_hall (cdb s) (hp_hallId (reqs t)) (hp_seatId (reqs t))"
    using assms by (simp add: contest_def contest_inv_def same_parents_def seat_of_hall_def)
  ultimately show ?thesis
    by (subst lock_seat_one) (auto simp: seat_of_hall_def split: option.splits)
qed

lemma contest_goto:
  assumes inv: "contest_inv reqs now T d scr seatId s" and "lock_inv reqs now s'" and "same_parents d (cdb s')"
    and pcs: "pcs s' = (pcs s)(t := p)" and t: "t \<in> T" and tr: "in_transaction (pcs s t)" "in_transaction p"
    and act: "seat_active (cdb s') scr seatId = seat_active (cdb s) scr seatId"
    and chk: "past_check p \<Longrightarrow> \<not> seat_active (cdb s) scr seatId"
  shows "contest_inv reqs now T d scr seatId s'"
proof -
  have nf: "pcs s t \<noteq> Finished res" "p \<noteq> Finished res" for res using tr by auto
  then have won: "won (pcs s' x) = won (pcs s x)" for x by (simp add: pcs won_def)
  have fin: "pcs s' x = Finished (Inl e) \<longleftrightarrow> pcs s x = Finished (Inl e)" for x e using nf by (simp add: pcs)
  have past: "past_check (pcs s' x) \<Longrightarrow> x \<in> T \<Longrightarrow> \<not> seat_active (cdb s) scr seatId" for x
  proof (cases "x = t")
    case False
    assume "past_check (pcs s' x)" "x \<in> T"
    with False inv show ?thesis unfolding contest_inv_def pcs by (metis fun_upd_apply)
  qed (use chk in \<open>simp add: pcs\<close>)
  have idle: "x \<notin> T \<Longrightarrow> pcs s' x = Idle" for x using inv t by (auto simp: pcs contest_inv_def)
  show ?thesis
    unfolding contest_inv_def won fin act
    using assms(2,3) idle past inv unfolding contest_inv_def by blast
qed

lemma contest_lose:
  assumes inv: "contest_inv reqs now T d scr seatId s" and "lock_inv reqs now s'" and cdb: "cdb s' = cdb s"
    and pcs: "pcs s' = (pcs s)(t := Finished (Inl seat_conflict))" and t: "t \<in> T" "in_transaction (pcs s t)"
    and act: "seat_active (cdb s) scr seatId"
  shows "contest_inv reqs now T d scr seatId s'"
proof -
  have nf: "pcs s t \<noteq> Finished res" for res using t(2) by auto
  then have won: "won (pcs s' x) = won (pcs s x)" for x by (simp add: pcs won_def)
  have fin: "pcs s' x = Finished (Inl e) \<Longrightarrow> x \<in> T \<Longrightarrow> e = seat_conflict" for x e
    using inv by (cases "x = t") (auto simp: pcs contest_inv_def)
  have past: "past_check (pcs s' x) \<Longrightarrow> past_check (pcs s x)" for x by (cases "x = t") (simp_all add: pcs)
  have idle: "x \<notin> T \<Longrightarrow> pcs s' x = Idle" for x using inv t by (auto simp: pcs contest_inv_def)
  show ?thesis
    unfolding contest_inv_def won cdb
    using assms(2) idle past fin act inv unfolding contest_inv_def by blast
qed

lemma contest_commit:
  assumes inv: "contest_inv reqs now T d scr seatId s" and c: "contest reqs T d scr seatId" and li: "lock_inv reqs now s'"
    and t: "t \<in> T" "pcs s t = Pending r" and s': "cdb s' = append_row r (cdb s)" "pcs s' = (pcs s)(t := Finished (Inr r))"
  shows "contest_inv reqs now T d scr seatId s'"
proof -
  have "r = hold_row now (reqs t) (rid r)"
    using inv t(2) unfolding contest_inv_def lock_inv_def pending_ok_def by blast
  then have r: "res_screeningId r = scr" "res_seatId r = seatId" "active_res r"
    using c t(1) by (metis contest_def hold_row_def reservation.select_convs(1),
        metis contest_def hold_row_def reservation.select_convs(2), metis hold_row_def active_res_def reservation.select_convs(4))
  have "\<not> seat_active (cdb s) scr seatId"
    using inv t unfolding contest_inv_def by (metis past_check.simps(2))
  then have none: "\<not> (\<exists>t' \<in> T. won (pcs s t'))" using inv by (simp add: contest_inv_def)
  have others: "\<not> past_check (pcs s t')" if "t' \<in> T" "t' \<noteq> t" for t'
    using lock_exclusive [of reqs now s t' t] that inv c t by (cases "pcs s t'") (auto simp: contest_inv_def contest_def)
  have act: "seat_active (cdb s') scr seatId" by (simp add: s'(1) seat_active_append r)
  show ?thesis
    using inv li t none others act
    unfolding contest_inv_def s' same_parents_def by (auto simp: won_def append_row_def)
qed

lemma contest_step:
  assumes inv: "contest_inv reqs now T d scr seatId s" and c: "contest reqs T d scr seatId"
    and t: "t \<in> T" and st: "tx_step reqs now (Tx t) s s'"
  shows "contest_inv reqs now T d scr seatId s'"
proof -
  have li: "lock_inv reqs now s'" using lock_inv_step [OF _ st] inv by (simp add: contest_inv_def)
  have rq: "hp_screeningId (reqs t) = scr" "hp_seatId (reqs t) = seatId" using c t by (simp_all add: contest_def)
  from st show ?thesis
  proof cases
    case lock_row
    then show ?thesis
      using inv by (intro contest_goto [OF inv li _ _ t, of Locked]) (simp_all add: goto_def contest_inv_def)
  next
    case no_row
    then show ?thesis using seat_lockable [OF inv c t] by simp
  next
    case (check_taken r)
    then have "seat_active (cdb s) scr seatId" using active_taken rq by (metis option.distinct(1))
    then show ?thesis
      using check_taken by (intro contest_lose [OF inv li _ _ t]) (simp_all add: finish_def)
  next
    case check_free
    then have "\<not> seat_active (cdb s) scr seatId" using active_taken rq by metis
    then show ?thesis
      using inv check_free
      by (intro contest_goto [OF inv li _ _ t, of Checked]) (simp_all add: goto_def contest_inv_def)
  next
    case (insert_fails e)
    then show ?thesis using checked_not_waiting(2) [OF inv c t] by auto
  next
    case (insert_row r d')
    have free: "\<not> seat_active (cdb s) scr seatId"
      using inv insert_row t unfolding contest_inv_def by (metis past_check.simps(1))
    have cdb: "cdb s' = take_id (cdb s)" and pcs: "pcs s' = (pcs s)(t := Pending r)"
      using insert_row by (simp_all add: goto_def)
    have par: "same_parents d (cdb s')" using inv unfolding cdb by (simp add: contest_inv_def same_parents_take_id)
    show ?thesis
      using insert_row free by (intro contest_goto [OF inv li par pcs t]) (simp_all add: goto_def)
  next
    case (commit r)
    then show ?thesis by (intro contest_commit [OF inv c li t]) (simp_all add: finish_def)
  qed
qed


lemma contest_begin:
  assumes "contest reqs T d scr seatId"
  shows "contest_inv reqs now T d scr seatId (begin_requests d)"
  using assms lock_inv_begin [of d reqs now]
  by (auto simp: contest_def contest_inv_def begin_requests_def same_parents_def won_def)

fun pc_rank :: "pc \<Rightarrow> nat" where
  "pc_rank Idle = 4"
| "pc_rank Locked = 3"
| "pc_rank Checked = 2"
| "pc_rank (Pending _) = 1"
| "pc_rank (Finished _) = 0"

definition work_left :: "nat set \<Rightarrow> lock_state \<Rightarrow> nat" where
  "work_left T s = (\<Sum>t \<in> T. pc_rank (pcs s t))"

lemma work_falls:
  assumes "finite T" and "t \<in> T" and "tx_step reqs now (Tx t) s s' \<or> tx_step reqs now (Fault t e) s s'"
  shows "work_left T s' < work_left T s"
proof -
  have rank: "pcs s' = (pcs s)(t := pcs s' t) \<and> pc_rank (pcs s' t) < pc_rank (pcs s t)"
    using assms(3)
  proof
    assume "tx_step reqs now (Fault t e) s s'"
    then show ?thesis by (cases "pcs s t") (auto simp: finish_def elim!: fault_stepE)
  qed (auto simp: finish_def goto_def elim!: tx_stepE)
  have "(\<Sum>x \<in> T - {t}. pc_rank (pcs s' x)) = (\<Sum>x \<in> T - {t}. pc_rank (pcs s x))"
  proof (rule sum.cong)
    fix x assume "x \<in> T - {t}"
    with rank show "pc_rank (pcs s' x) = pc_rank (pcs s x)" by (metis DiffD2 fun_upd_other singletonI)
  qed simp
  with rank show ?thesis
    unfolding work_left_def by (simp add: sum.remove [OF assms(1,2)])
qed

interpretation ct: terminating_steps "tx_step reqs now" "{l. \<exists>t \<in> T. l = Tx t \<or> (\<exists>e. l = Fault t e)}"
    "\<lambda>s. finite T" "work_left T" for reqs now T
proof unfold_locales
  fix l s s'
  assume "finite T" and "l \<in> {l. \<exists>t \<in> T. l = Tx t \<or> (\<exists>e. l = Fault t e)}" and "tx_step reqs now l s s'"
  then show "work_left T s' < work_left T s" using work_falls by blast
qed simp

text \<open>As long as a request is unfinished, some request can take a step: nobody waits for ever.\<close>

lemma contest_progress:
  assumes inv: "contest_inv reqs now T d scr seatId s" and c: "contest reqs T d scr seatId"
    and t: "t \<in> T" and busy: "in_transaction (pcs s t)"
  shows "\<exists>t' \<in> T. \<exists>s'. tx_step reqs now (Tx t') s s'"
proof (cases "pcs s t")
  case Idle
  show ?thesis
  proof (cases "lock s (hp_seatId (reqs t))")
    case None
    then show ?thesis using tx_step.lock_row [of s t reqs now, OF Idle seat_lockable [OF inv c t]] t by blast
  next
    case (Some t')
    then have h: "holds_lock (pcs s t')" using inv unfolding contest_inv_def lock_inv_def lock_table_ok_def by blast
    then have t': "t' \<in> T" using inv unfolding contest_inv_def by (metis holds_lock.simps(4))
    show ?thesis
    proof (cases "pcs s t'")
      case Locked
      then show ?thesis
        using t' tx_step.check_taken tx_step.check_free by (metis option.exhaust)
    next
      case Checked
      then show ?thesis
        using t' tx_step.insert_row checked_not_waiting [OF inv c t'] by blast
    next
      case (Pending r)
      then show ?thesis using t' tx_step.commit by blast
    qed (use h in simp_all)
  qed
next
  case Locked
  then show ?thesis
    using t tx_step.check_taken tx_step.check_free by (metis option.exhaust)
next
  case Checked
  then show ?thesis using t tx_step.insert_row checked_not_waiting [OF inv c t] by blast
next
  case (Pending r)
  then show ?thesis using t tx_step.commit by blast
qed (use busy in simp)

lemma contest_reach:
  assumes "reaches (tx_step reqs now) {l. \<exists>t \<in> T. l = Tx t} (begin_requests d) s" and "contest reqs T d scr seatId"
  shows "contest_inv reqs now T d scr seatId s"
  using assms(1)
proof (induction rule: reaches.induct)
  case (move s l s')
  then show ?case using contest_step [OF move.IH assms(2)] by blast
qed (rule contest_begin [OF assms(2)])

subsection \<open>Properties\<close>

text \<open>C1. No double booking, whatever the interleaving: from a well-formed database, after any
  sequence of statements of any number of concurrent reservation requests, database faults in them, and
  cancellations, expiries and payment confirmations in between, two HELD or CONFIRMED reservations of the
  same seat and screening are the same row, and two requests that both hold the row lock of a seat are
  the same request.\<close>

theorem no_double_booking_interleaved:
  assumes "db_ok d" and "reaches (tx_step reqs now) UNIV (begin_requests d) s"
  shows "(\<forall>r \<in> set (rows (reservations (cdb s))). \<forall>r' \<in> set (rows (reservations (cdb s))).
      active_res r \<and> active_res r' \<and> same_place r r' \<longrightarrow> r = r') \<and>
    (\<forall>t t'. holds_lock (pcs s t) \<and> holds_lock (pcs s t') \<and> hp_seatId (reqs t) = hp_seatId (reqs t') \<longrightarrow> t = t')"
proof -
  have inv: "lock_inv reqs now s" using sl.holds_everywhere [OF assms(2) lock_inv_begin [OF assms(1)]] .
  then have "reservation_unique (reservations (cdb s))" by (simp add: lock_inv_def db_ok_defs)
  from active_unique_eq [OF this] lock_exclusive [OF inv] show ?thesis
    unfolding same_place_def by blast
qed

lemma contest_winner:
  assumes "contest reqs T d scr seatId" and "T \<noteq> {}"
    and "reaches (tx_step reqs now) {l. \<exists>t \<in> T. l = Tx t} (begin_requests d) s"
    and "\<forall>t \<in> T. \<nexists>s'. tx_step reqs now (Tx t) s s'"
  shows "\<exists>t \<in> T. \<exists>r. pcs s t = Finished (Inr r)"
proof -
  have inv: "contest_inv reqs now T d scr seatId s" by (rule contest_reach [OF assms(3,1)])
  have fin: "\<exists>res. pcs s t = Finished res" if "t \<in> T" for t
    using contest_progress [OF inv assms(1) that] assms(4) by (cases "pcs s t") auto
  have lost: "pcs s t = Finished (Inl e) \<Longrightarrow> t \<in> T \<Longrightarrow> seat_active (cdb s) scr seatId" for t e
    using inv unfolding contest_inv_def by blast
  obtain t0 where "t0 \<in> T" using assms(2) by blast
  with fin lost inv show ?thesis
    unfolding contest_inv_def won_def by (metis old.sum.exhaust)
qed

text \<open>C5. Exactly one winner: when finitely many requests (at least one) race for the same free seat of a
  screening and none of them can take another step, all have finished, exactly one of them has the
  reservation, every other one was answered 409, and the seat is taken.\<close>

theorem exactly_one_winner:
  assumes "contest reqs T d scr seatId" and "T \<noteq> {}"
    and "reaches (tx_step reqs now) {l. \<exists>t \<in> T. l = Tx t} (begin_requests d) s"
    and "\<forall>t \<in> T. \<nexists>s'. tx_step reqs now (Tx t) s s'"
  shows "\<exists>t \<in> T. \<exists>r. pcs s t = Finished (Inr r) \<and>
    (\<forall>t' \<in> T. t' \<noteq> t \<longrightarrow> pcs s t' = Finished (Inl seat_conflict)) \<and> seat_active (cdb s) scr seatId"
proof -
  have inv: "contest_inv reqs now T d scr seatId s" by (rule contest_reach [OF assms(3,1)])
  have fin: "\<exists>res. pcs s t = Finished res" if "t \<in> T" for t
    using contest_progress [OF inv assms(1) that] assms(4) by (cases "pcs s t") auto
  have lost: "pcs s t = Finished (Inl e) \<Longrightarrow> t \<in> T \<Longrightarrow> e = seat_conflict \<and> seat_active (cdb s) scr seatId" for t e
    using inv unfolding contest_inv_def by blast
  obtain t r where t: "t \<in> T" "won (pcs s t)" and r: "pcs s t = Finished (Inr r)"
    using contest_winner [OF assms] by (auto simp: won_def)
  have "pcs s t' = Finished (Inl seat_conflict)" if t': "t' \<in> T" "t' \<noteq> t" for t'
  proof -
    from fin [OF t'(1)] obtain res where res: "pcs s t' = Finished res" by blast
    have "\<not> won (pcs s t')" using inv t t' unfolding contest_inv_def by blast
    with res obtain e where "res = Inl e" by (cases res) (auto simp: won_def)
    with res lost t'(1) show ?thesis by blast
  qed
  moreover have "seat_active (cdb s) scr seatId" using inv t unfolding contest_inv_def by blast
  ultimately show ?thesis using t(1) r by blast
qed

subsection \<open>Nobody waits for ever\<close>

text \<open>The statements and faults of the requests in \<open>T\<close>, and the writes of other work.\<close>

fun confined :: "nat set \<Rightarrow> label \<Rightarrow> bool" where
  "confined T (Tx t) \<longleftrightarrow> t \<in> T"
| "confined T (Fault t e) \<longleftrightarrow> t \<in> T"
| "confined T _ \<longleftrightarrow> True"

definition only_started :: "nat set \<Rightarrow> lock_state \<Rightarrow> bool" where
  "only_started T s \<longleftrightarrow> (\<forall>t. t \<notin> T \<longrightarrow> pcs s t = Idle)"

definition answered :: "nat set \<Rightarrow> lock_state \<Rightarrow> bool" where
  "answered T s \<longleftrightarrow> (\<forall>t \<in> T. \<exists>res. pcs s t = Finished res) \<and> (\<forall>k. lock s k = None)"

lemma started_step: "only_started T s \<Longrightarrow> confined T l \<Longrightarrow> tx_step reqs now l s s' \<Longrightarrow> only_started T s'"
  by (erule tx_step.cases) (auto simp: only_started_def goto_def finish_def)

interpretation mv: invariant_steps "tx_step reqs now" "{l. confined T l}" "\<lambda>s. lock_inv reqs now s \<and> only_started T s" for reqs now T
  by unfold_locales (use lock_inv_step started_step in blast)

text \<open>Whoever has a lock can move, or waits for an insert that can commit.\<close>

lemma holder_moves:
  assumes "only_started T s" and "t \<in> T" and "holds_lock (pcs s t)"
  shows "\<exists>t' \<in> T. \<exists>s'. tx_step reqs now (Tx t') s s'"
proof (cases "pcs s t")
  case Locked
  then show ?thesis using assms(2) tx_step.check_taken tx_step.check_free by (metis option.exhaust)
next
  case Checked
  show ?thesis
  proof (cases "waits_for_insert (new_row now (reqs t) (cdb s)) s")
    case True
    then obtain t' r' where t': "pcs s t' = Pending r'" by (auto simp: waits_for_insert_def)
    then have "t' \<in> T" using assms(1) by (metis only_started_def pc.distinct(5))
    then show ?thesis using t' tx_step.commit by blast
  next
    case False
    then show ?thesis
      using assms(2) Checked tx_step.insert_row tx_step.insert_fails
      by (cases "insert_reservation (hold_row now (reqs t)) (cdb s)") (blast, metis surj_pair)
  qed
next
  case (Pending r)
  then show ?thesis using assms(2) tx_step.commit by blast
qed (use assms(3) in simp_all)

lemma race_progress:
  assumes "lock_inv reqs now s" and "only_started T s" and "t \<in> T" and "in_transaction (pcs s t)"
  shows "\<exists>t' \<in> T. \<exists>s'. tx_step reqs now (Tx t') s s'"
proof (cases "holds_lock (pcs s t)")
  case False
  then have idle: "pcs s t = Idle" using assms(4) by (cases "pcs s t") simp_all
  show ?thesis
  proof (cases "length (lock_seat (hp_seatId (reqs t)) (hp_hallId (reqs t)) (cdb s)) = 1")
    case one: True
    show ?thesis
    proof (cases "lock s (hp_seatId (reqs t))")
      case None
      then show ?thesis using tx_step.lock_row [of s t reqs now, OF idle one] assms(3) by blast
    next
      case (Some t')
      then have h: "holds_lock (pcs s t')" using assms(1) unfolding lock_inv_def lock_table_ok_def by blast
      then have "t' \<in> T" using assms(2) by (metis only_started_def holds_lock.simps(4))
      from holder_moves [OF assms(2) this h] show ?thesis .
    qed
  qed (use assms(3) tx_step.no_row idle in blast)
qed (rule holder_moves [OF assms(2,3)])

lemma stuck_answered:
  assumes "lock_inv reqs now s" and "only_started T s" and "\<forall>t \<in> T. \<nexists>s'. tx_step reqs now (Tx t) s s'"
  shows "answered T s"
proof -
  have fin: "\<exists>res. pcs s t = Finished res" if "t \<in> T" for t
    using race_progress [OF assms(1,2) that] assms(3) by (cases "pcs s t") auto
  have "lock s k = None" for k
  proof (rule ccontr)
    assume "lock s k \<noteq> None"
    then obtain t where "holds_lock (pcs s t)" using assms(1) unfolding lock_inv_def lock_table_ok_def by blast
    then show False using fin [of t] assms(2) by (cases "t \<in> T") (auto simp: only_started_def)
  qed
  with fin show ?thesis by (simp add: answered_def)
qed

lemma race_drains:
  assumes "finite T" and "lock_inv reqs now s" and "only_started T s"
  shows "\<exists>ls s'. run_of (tx_step reqs now) ls s s' \<and> set ls \<subseteq> Tx ` T \<and> length ls \<le> work_left T s \<and> answered T s'"
  using assms(2,3)
proof (induction "work_left T s" arbitrary: s rule: less_induct)
  case less
  show ?case
  proof (cases "\<exists>t \<in> T. \<exists>x. tx_step reqs now (Tx t) s x")
    case True
    then obtain t u where t: "t \<in> T" and st: "tx_step reqs now (Tx t) s u" by blast
    have fall: "work_left T u < work_left T s" using work_falls [OF assms(1) t] st by blast
    have "lock_inv reqs now u" "only_started T u"
      using lock_inv_step [OF less.prems(1) st] started_step [OF less.prems(2) _ st] t by simp_all
    from less.hyps [OF fall this] obtain ls s' where "run_of (tx_step reqs now) ls u s'" "set ls \<subseteq> Tx ` T"
      "length ls \<le> work_left T u" "answered T s'" by blast
    with run_of.run_Cons [where step = "tx_step reqs now", OF st] fall t show ?thesis
      by (intro exI [of _ "Tx t # ls"] exI [of _ s']) auto
  next
    case False
    with stuck_answered [OF less.prems] run_of.run_Nil show ?thesis by fastforce
  qed
qed

text \<open>C35. Every race ends with an answer for everyone: however far any set of concurrent requests (for any seats of any
  screenings) has come, with faults in them and status changes of other work in between, there is no deadlock on the row locks
  or on a waiting insert. From there at most four more statements per request lead to a state in which every request is
  answered and no row is locked, any state in which no request can take a step is such a state, and no schedule of statements
  and faults of the requests is longer than that.\<close>

theorem race_ends_with_answers:
  assumes "finite T" and "db_ok d" and "reaches (tx_step reqs now) {l. confined T l} (begin_requests d) s"
  shows "(\<exists>ls s'. run_of (tx_step reqs now) ls s s' \<and> set ls \<subseteq> Tx ` T \<and> length ls \<le> 4 * card T \<and> answered T s') \<and>
    ((\<forall>t \<in> T. \<nexists>s'. tx_step reqs now (Tx t) s s') \<longrightarrow> answered T s) \<and>
    (\<forall>ls s'. run_of (tx_step reqs now) ls s s' \<and> set ls \<subseteq> {l. \<exists>t \<in> T. l = Tx t \<or> (\<exists>e. l = Fault t e)} \<longrightarrow>
      length ls \<le> 4 * card T)"
proof -
  have "lock_inv reqs now (begin_requests d) \<and> only_started T (begin_requests d)"
    using lock_inv_begin [OF assms(2)] by (simp add: only_started_def begin_requests_def)
  from mv.holds_everywhere [OF assms(3) this] have inv: "lock_inv reqs now s" "only_started T s" by simp_all
  have "pc_rank p \<le> 4" for p by (cases p) simp_all
  then have "work_left T s \<le> (\<Sum>t \<in> T. 4)" unfolding work_left_def by (intro sum_mono)
  then have w: "work_left T s \<le> 4 * card T" by (simp add: mult.commute)
  obtain ls s' where "run_of (tx_step reqs now) ls s s'" "set ls \<subseteq> Tx ` T" "length ls \<le> work_left T s" "answered T s'"
    using race_drains [OF assms(1) inv] by blast
  then have "\<exists>ls s'. run_of (tx_step reqs now) ls s s' \<and> set ls \<subseteq> Tx ` T \<and> length ls \<le> 4 * card T \<and> answered T s'"
    using w le_trans by blast
  moreover have "length ls \<le> 4 * card T"
    if "run_of (tx_step reqs now) ls s s'" "set ls \<subseteq> {l. \<exists>t \<in> T. l = Tx t \<or> (\<exists>e. l = Fault t e)}" for ls s'
    using ct.run_bounded [OF that(1) assms(1) that(2)] w by simp
  ultimately show ?thesis using stuck_answered [OF inv] by blast
qed

text \<open>Two requests for seat 2 of the sample database, run one after the other.\<close>

definition sample_reqs :: "nat \<Rightarrow> hold_params" where
  "sample_reqs t = \<lparr>hp_userId = int t + 2, hp_screeningId = 1, hp_hallId = 1, hp_seatId = 2, hp_heldUntil = 600000\<rparr>"

lemma sample_contest: "contest sample_reqs {0, 1} sample_db 1 2"
proof -
  have "1 \<in> set (ids (screenings sample_db))" "\<not> seat_active sample_db 1 2" "seat_of_hall sample_db 1 2"
    "2 \<in> set (ids (users sample_db))" "3 \<in> set (ids (users sample_db))"
    by (simp_all add: seat_active_def seat_of_hall_def find_row_def ids_def sample_defs)
  then show ?thesis by (simp add: contest_def sample_db_ok sample_reqs_def)
qed

lemma stuck_reached:
  assumes "contest reqs T d scr seatId"
  shows "\<exists>s. reaches (tx_step reqs now) {l. \<exists>t \<in> T. l = Tx t} (begin_requests d) s \<and>
    (\<forall>t \<in> T. \<nexists>s'. tx_step reqs now (Tx t) s s')"
proof -
  let ?R = "reaches (tx_step reqs now) {l. \<exists>t \<in> T. l = Tx t}"
  have fin: "finite T" using assms by (simp add: contest_def)
  have "\<exists>s'. ?R s s' \<and> (\<forall>t \<in> T. \<nexists>x. tx_step reqs now (Tx t) s' x)" for s
  proof (induction "work_left T s" arbitrary: s rule: less_induct)
    case less
    show ?case
    proof (cases "\<exists>t \<in> T. \<exists>x. tx_step reqs now (Tx t) s x")
      case True
      then obtain t u where t: "t \<in> T" and st: "tx_step reqs now (Tx t) s u" by blast
      then have "work_left T u < work_left T s" using work_falls [OF fin] by blast
      from less [OF this] obtain v where v: "?R u v" "\<forall>t \<in> T. \<nexists>x. tx_step reqs now (Tx t) v x" by blast
      have "?R s u" by (rule reaches.move [where s = s]) (use t st in \<open>auto intro: reaches.start\<close>)
      from reaches_trans [OF v(1) this] v(2) show ?thesis by blast
    qed (auto intro: reaches.start)
  qed
  then show ?thesis by blast
qed

theorem exactly_one_winner_witness:
  "\<exists>s :: lock_state. (\<exists>t \<in> {0, 1}. \<exists>r. pcs s t = Finished (Inr r)) \<and> seat_active (cdb s) 1 2"
proof -
  obtain s where s: "reaches (tx_step sample_reqs 0) {l. \<exists>t \<in> {0, 1}. l = Tx t} (begin_requests sample_db) s"
      "\<forall>t \<in> {0, 1}. \<nexists>s'. tx_step sample_reqs 0 (Tx t) s s'"
    using stuck_reached [OF sample_contest, of 0] by (elim exE conjE) (rule that)
  obtain t r where "t \<in> {0, 1}" and "pcs s t = Finished (Inr r)" and a: "seat_active (cdb s) 1 2"
    using exactly_one_winner [OF sample_contest insert_not_empty s] by (elim bexE exE conjE) (rule that)
  then have "\<exists>t \<in> {0, 1}. \<exists>r. pcs s t = Finished (Inr r)" by (intro bexI exI)
  with a show ?thesis by (intro exI [of _ s] conjI)
qed

theorem no_double_booking_interleaved_witness:
  "\<exists>s. reaches (tx_step sample_reqs 0) UNIV (begin_requests sample_db) s \<and> pcs s 0 \<noteq> Idle \<and>
     (\<forall>r \<in> set (rows (reservations (cdb s))). \<forall>r' \<in> set (rows (reservations (cdb s))).
        active_res r \<and> active_res r' \<and> same_place r r' \<longrightarrow> r = r')"
proof -
  obtain s where s: "reaches (tx_step sample_reqs 0) {l. \<exists>t \<in> {0, 1}. l = Tx t} (begin_requests sample_db) s"
      "\<forall>t \<in> {0, 1}. \<nexists>s'. tx_step sample_reqs 0 (Tx t) s s'"
    using stuck_reached [OF sample_contest, of 0] by (elim exE conjE) (rule that)
  have inv: "contest_inv sample_reqs 0 {0, 1} sample_db 1 2 s" by (rule contest_reach [OF s(1) sample_contest])
  have "pcs s 0 \<noteq> Idle"
    using contest_progress [OF inv sample_contest, of 0] s(2) by auto
  moreover have u: "reaches (tx_step sample_reqs 0) UNIV (begin_requests sample_db) s"
    by (rule reaches_mono [OF s(1)]) simp
  moreover from no_double_booking_interleaved [OF sample_db_ok u] have
    "\<forall>r \<in> set (rows (reservations (cdb s))). \<forall>r' \<in> set (rows (reservations (cdb s))).
        active_res r \<and> active_res r' \<and> same_place r r' \<longrightarrow> r = r'" by (rule conjunct1)
  ultimately show ?thesis by blast
qed

lemma sample_first_step: "\<exists>s'. tx_step sample_reqs 0 (Tx 0) (begin_requests sample_db) s'"
  using tx_step.lock_row [of "begin_requests sample_db" 0 sample_reqs 0]
    seat_lockable [OF contest_begin [OF sample_contest, of 0] sample_contest, of 0]
  by (auto simp: begin_requests_def)

theorem race_ends_with_answers_witness:
  "\<exists>s ls s'. tx_step sample_reqs 0 (Tx 0) (begin_requests sample_db) s \<and> run_of (tx_step sample_reqs 0) ls s s' \<and>
     set ls \<subseteq> Tx ` {0, 1} \<and> answered {0, 1} s'"
proof -
  from sample_first_step obtain s where st: "tx_step sample_reqs 0 (Tx 0) (begin_requests sample_db) s" by blast
  have "reaches (tx_step sample_reqs 0) {l. confined {0, 1} l} (begin_requests sample_db) s"
    by (rule reaches.move [OF reaches.start, where l = "Tx 0"]) (simp, rule st)
  from race_ends_with_answers [OF _ sample_db_ok this] obtain ls s' where
    "run_of (tx_step sample_reqs 0) ls s s'" "set ls \<subseteq> Tx ` {0, 1}" "answered {0, 1} s'" by blast
  with st show ?thesis by blast
qed

end
