(* ===== verification/Serial.thy ===== *)
theory Serial
  imports SeatLock
begin

text \<open>
  The interleaved transactions of \<open>SeatLock\<close> against the transaction as one step (\<open>holdSeat_tx\<close> of \<open>Reservations\<close>): a machine
  that runs every request in one go, and the simulation that matches each interleaved run with one of its runs. Row ids are left out of the
  comparison, since the sequence hands them out at the insert and not at the commit.
\<close>

subsection \<open>One request after the other\<close>

definition unnumbered :: "reservation \<Rightarrow> reservation" where
  "unnumbered r = r\<lparr>rid := 0\<rparr>"

definition same_rows :: "db \<Rightarrow> db \<Rightarrow> bool" where
  "same_rows d d' \<longleftrightarrow> (\<exists>t. d' = d\<lparr>reservations := t\<rparr>) \<and>
     map unnumbered (rows (reservations d')) = map unnumbered (rows (reservations d))"

definition same_result :: "err + reservation \<Rightarrow> err + reservation \<Rightarrow> bool" where
  "same_result x y \<longleftrightarrow> map_sum id unnumbered x = map_sum id unnumbered y"

text \<open>A state is the log of the requests that are done, with their results, and the world. A request is done whole, at one of its
  steps, or dropped at a fault.\<close>

inductive serial_step :: "(nat \<Rightarrow> hold_params) \<Rightarrow> ms \<Rightarrow> label \<Rightarrow>
    (nat \<times> (err + reservation)) list \<times> world \<Rightarrow> (nat \<times> (err + reservation)) list \<times> world \<Rightarrow> bool" for reqs now where
  silent: "serial_step reqs now l h h"
| whole: "t \<notin> fst ` set hist \<Longrightarrow> holdSeat_tx None now (reqs t) w = (res, w') \<Longrightarrow>
    serial_step reqs now (Tx t) (hist, w) (hist @ [(t, res)], w')"
| dropped: "t \<notin> fst ` set hist \<Longrightarrow> serial_step reqs now (Fault t e) (hist, w) (hist @ [(t, Inl e)], w)"

inductive_cases serial_stepE: "serial_step reqs now l h h'"

subsection \<open>What a request sees does not depend on ids\<close>

lemma unnumbered_simps [simp]:
  "res_screeningId (unnumbered r) = res_screeningId r" "res_seatId (unnumbered r) = res_seatId r"
  "active_res (unnumbered r) = active_res r" "unnumbered (hold_row now p i) = unnumbered (hold_row now p j)"
  by (simp_all add: unnumbered_def active_res_def hold_row_def)

lemma same_rows_refl [simp]: "same_rows d d"
  by (simp add: same_rows_def) (metis db.surjective db.update_convs(6))

lemma same_rows_parents:
  assumes "same_rows d d'"
  shows "users d' = users d" "halls d' = halls d" "seats d' = seats d" "screenings d' = screenings d"
  using assms by (auto simp: same_rows_def)

lemma same_rows_active:
  assumes "same_rows d d'"
  shows "seat_active d' = seat_active d"
proof (intro ext)
  fix i x
  have seen: "seat_active d i x \<longleftrightarrow> (\<exists>r \<in> set (map unnumbered (rows (reservations d))). res_screeningId r = i \<and> res_seatId r = x \<and> active_res r)" for d
    by (auto simp: seat_active_def)
  show "seat_active d' i x = seat_active d i x" unfolding seen using assms by (simp only: same_rows_def)
qed

lemma same_rows_taken: "same_rows d d' \<Longrightarrow> find_taken i x d' = None \<longleftrightarrow> find_taken i x d = None"
  by (simp add: active_taken same_rows_active)

lemma same_rows_append:
  assumes "same_rows d d'" and "unnumbered r = unnumbered r'"
    and "rows t = rows (reservations d) @ [r]"
  shows "same_rows (d\<lparr>reservations := t\<rparr>) (append_row r' d')"
  using assms by (auto simp: same_rows_def append_row_def)

lemma same_rows_take_id: "same_rows d d' \<Longrightarrow> same_rows d (take_id d')"
  by (auto simp: same_rows_def take_id_def)

text \<open>An insert of a hold: what it answers.\<close>

definition with_hold :: "ms \<Rightarrow> hold_params \<Rightarrow> db \<Rightarrow> reservation table" where
  "with_hold now p d = (reservations d)\<lparr>rows := rows (reservations d) @ [new_row now p d], next_id := next_id (reservations d) + 1\<rparr>"

lemma insert_hold:
  "insert_reservation (hold_row now p) d =
    (if \<not> reservation_unique (with_hold now p d) then Inl P2002
     else if \<not> reservation_fk d (new_row now p d) then Inl P2003
     else Inr (new_row now p d, d\<lparr>reservations := with_hold now p d\<rparr>))"
  by (simp add: insert_reservation_def on_table_def try_insert_def insert_row_def Let_def with_hold_def new_row_def)

lemma reservation_unique_unnumbered:
  "reservation_unique t \<longleftrightarrow> distinct (map (\<lambda>r. (res_seatId r, res_screeningId r)) (filter active_res (map unnumbered (rows t))))"
  by (simp add: reservation_unique_def filter_map comp_def)

lemma insert_hold_same:
  assumes "same_rows d d'" and "insert_reservation (hold_row now p) d' = Inl e"
  shows "insert_reservation (hold_row now p) d = Inl e"
proof -
  have "unnumbered (new_row now p d') = unnumbered (new_row now p d)" by (simp add: new_row_def)
  then have "reservation_unique (with_hold now p d') = reservation_unique (with_hold now p d)"
    using assms(1) by (simp add: reservation_unique_unnumbered same_rows_def with_hold_def del: filter_append)
  moreover have "reservation_fk d' (new_row now p d') = reservation_fk d (new_row now p d)"
    using same_rows_parents [OF assms(1)] by (simp add: reservation_fk_def new_row_def hold_row_def)
  ultimately show ?thesis using assms(2) unfolding insert_hold by (simp split: if_splits)
qed

subsection \<open>The simulation\<close>

definition matched :: "(nat \<Rightarrow> hold_params) \<Rightarrow> ms \<Rightarrow> (nat \<times> (err + reservation)) list \<times> world \<Rightarrow> lock_state \<Rightarrow> bool" where
  "matched reqs now h s \<longleftrightarrow> lock_inv reqs now s \<and> same_rows (db (snd h)) (cdb s) \<and> distinct (map fst (fst h)) \<and>
     (\<forall>t res. pcs s t = Finished res \<longrightarrow> (\<exists>res'. (t, res') \<in> set (fst h) \<and> same_result res' res)) \<and>
     (\<forall>t \<in> fst ` set (fst h). \<not> in_transaction (pcs s t)) \<and>
     (\<forall>t. holds_lock (pcs s t) \<longrightarrow> length (lock_seat (hp_seatId (reqs t)) (hp_hallId (reqs t)) (cdb s)) = 1) \<and>
     (\<forall>t. pcs s t = Checked \<longrightarrow> find_taken (hp_screeningId (reqs t)) (hp_seatId (reqs t)) (cdb s) = None)"

lemma same_result_refl [simp]: "same_result x x"
  by (simp add: same_result_def)

lemma lock_seat_seats: "seats d' = seats d \<Longrightarrow> lock_seat i j d' = lock_seat i j d"
  by (simp add: lock_seat_def)

text \<open>A step of \<open>t\<close> within its transaction, and the step that ends it.\<close>

lemma matched_within:
  assumes "matched reqs now h s" and "lock_inv reqs now s'" and "same_rows (db (snd h)) (cdb s')" and "in_transaction (pcs s t)"
    and "pcs s' = (pcs s)(t := p)" and "in_transaction p" and "seats (cdb s') = seats (cdb s)" and "\<And>i x. find_taken i x (cdb s') = find_taken i x (cdb s)"
    and "length (lock_seat (hp_seatId (reqs t)) (hp_hallId (reqs t)) (cdb s)) = 1"
    and "p = Checked \<Longrightarrow> find_taken (hp_screeningId (reqs t)) (hp_seatId (reqs t)) (cdb s) = None"
  shows "matched reqs now h s'"
proof -
  note m = assms(1) [unfolded matched_def]
  show ?thesis
    unfolding matched_def
  proof (intro conjI allI impI ballI)
    show "\<exists>r'. (x, r') \<in> set (fst h) \<and> same_result r' r" if "pcs s' x = Finished r" for x r
      using that m assms(5,6) by (cases "x = t") auto
    show "\<not> in_transaction (pcs s' x)" if "x \<in> fst ` set (fst h)" for x
      using that m assms(4) by (cases "x = t") (auto simp: assms(5))
    show "length (lock_seat (hp_seatId (reqs x)) (hp_hallId (reqs x)) (cdb s')) = 1" if "holds_lock (pcs s' x)" for x
      using that m assms(9) by (cases "x = t") (auto simp: assms(5) lock_seat_seats [OF assms(7)])
    show "find_taken (hp_screeningId (reqs x)) (hp_seatId (reqs x)) (cdb s') = None" if "pcs s' x = Checked" for x
      using that m assms(10) by (cases "x = t") (auto simp: assms(5,8))
  qed (use m assms(2,3) in simp_all)
qed

lemma matched_end:
  assumes "matched reqs now (hist, w) s" and "lock_inv reqs now s'" and "same_rows (db w') (cdb s')" and "in_transaction (pcs s t)"
    and "pcs s' = (pcs s)(t := Finished res)" and "same_result res' res" and "seats (cdb s') = seats (cdb s)"
    and "\<And>x. x \<noteq> t \<Longrightarrow> pcs s x = Checked \<Longrightarrow> find_taken (hp_screeningId (reqs x)) (hp_seatId (reqs x)) (cdb s') = None"
  shows "matched reqs now (hist @ [(t, res')], w') s'" and "t \<notin> fst ` set hist"
proof -
  note m = assms(1) [unfolded matched_def, simplified]
  show new: "t \<notin> fst ` set hist" using m assms(4) by blast
  show "matched reqs now (hist @ [(t, res')], w') s'"
    unfolding matched_def fst_conv snd_conv
  proof (intro conjI allI impI ballI)
    show "distinct (map fst (hist @ [(t, res')]))" using m new by simp
    show "\<exists>r'. (x, r') \<in> set (hist @ [(t, res')]) \<and> same_result r' r" if "pcs s' x = Finished r" for x r
      using that m assms(5,6) by (cases "x = t") auto
    show "\<not> in_transaction (pcs s' x)" if "x \<in> fst ` set (hist @ [(t, res')])" for x
      using that m by (cases "x = t") (auto simp: assms(5))
    show "length (lock_seat (hp_seatId (reqs x)) (hp_hallId (reqs x)) (cdb s')) = 1" if "holds_lock (pcs s' x)" for x
      using that m by (cases "x = t") (auto simp: assms(5) lock_seat_seats [OF assms(7)])
    show "find_taken (hp_screeningId (reqs x)) (hp_seatId (reqs x)) (cdb s') = None" if "pcs s' x = Checked" for x
      using that assms(8) by (cases "x = t") (auto simp: assms(5))
  qed (use assms(2,3) in simp_all)
qed

text \<open>What the whole transaction answers on the rows that the interleaved one sees.\<close>

lemma whole_refused:
  assumes "same_rows (db w) d" and "length (lock_seat (hp_seatId p) (hp_hallId p) d) \<noteq> 1"
  shows "holdSeat_tx None now p w = (Inl (hold_catch bad_seat), w)"
  using assms lock_seat_seats [OF same_rows_parents(3) [OF assms(1)]] by (simp add: holdSeat_tx_def holdSeat_body_def)

lemma whole_taken:
  assumes "same_rows (db w) d" and "length (lock_seat (hp_seatId p) (hp_hallId p) d) = 1"
    and "find_taken (hp_screeningId p) (hp_seatId p) d = Some r"
  shows "holdSeat_tx None now p w = (Inl (hold_catch seat_conflict), w)"
  using assms lock_seat_seats [OF same_rows_parents(3) [OF assms(1)]] same_rows_taken [OF assms(1), of "hp_screeningId p" "hp_seatId p"]
  by (auto simp: holdSeat_tx_def holdSeat_body_def)

lemma whole_insert:
  assumes "same_rows (db w) d" and "length (lock_seat (hp_seatId p) (hp_hallId p) d) = 1"
    and "find_taken (hp_screeningId p) (hp_seatId p) d = None"
  shows "holdSeat_tx None now p w = (case insert_reservation (hold_row now p) (db w) of
      Inl e \<Rightarrow> (Inl (hold_catch (Prisma e)), w) | Inr (r, d') \<Rightarrow> (Inr r, w\<lparr>db := d'\<rparr>))"
  using assms lock_seat_seats [OF same_rows_parents(3) [OF assms(1)]] same_rows_taken [OF assms(1), of "hp_screeningId p" "hp_seatId p"]
  by (simp add: holdSeat_tx_def holdSeat_body_def split: sum.split)

lemma insert_free:
  assumes "db_ok d" and "same_rows d0 d" and "reservation_fk d r" and "r = hold_row now p i" and "\<not> seat_active d (hp_screeningId p) (hp_seatId p)"
  shows "insert_reservation (hold_row now p) d0 = Inr (new_row now p d0, d0\<lparr>reservations := with_hold now p d0\<rparr>)"
proof -
  have "reservation_unique (reservations d)" using assms(1) by (simp add: db_ok_defs)
  then have uq: "reservation_unique (reservations d0)" using assms(2) by (simp add: reservation_unique_unnumbered same_rows_def)
  have free: "\<not> seat_active d0 (hp_screeningId p) (hp_seatId p)" using assms(5) same_rows_active [OF assms(2)] by simp
  have "reservation_unique (with_hold now p d0)"
  proof (rule reservation_unique_append [OF uq])
    show "rows (with_hold now p d0) = rows (reservations d0) @ [new_row now p d0]" by (simp add: with_hold_def)
    show "\<not> (\<exists>x \<in> set (rows (reservations d0)). res_screeningId x = res_screeningId (new_row now p d0) \<and>
        res_seatId x = res_seatId (new_row now p d0) \<and> active_res x)"
      using free by (simp add: seat_active_def new_row_def hold_row_def)
  qed
  moreover have "reservation_fk d0 (new_row now p d0)"
    using assms(3) same_rows_parents [OF assms(2)] by (simp add: reservation_fk_def new_row_def hold_row_def assms(4))
  ultimately show ?thesis by (simp add: insert_hold)
qed

definition hold_labels :: "label set" where
  "hold_labels = range Tx \<union> {Fault t e | t e. True}"

lemma commit_matched:
  assumes m: "matched reqs now (hist, w) s" and li: "lock_inv reqs now s'" and t: "pcs s t = Pending r"
    and s': "s' = finish t (Inr r) (s\<lparr>cdb := append_row r (cdb s)\<rparr>)"
  shows "\<exists>h'. serial_step reqs now (Tx t) (hist, w) h' \<and> matched reqs now h' s'"
proof -
  note m' = m [unfolded matched_def fst_conv snd_conv]
  have inv: "lock_inv reqs now s" and same: "same_rows (db w) (cdb s)" using m' by simp_all
  have p: "r = hold_row now (reqs t) (rid r)" "reservation_fk (cdb s) r" "\<not> seat_active (cdb s) (res_screeningId r) (res_seatId r)"
    using inv t unfolding lock_inv_def pending_ok_def by blast+
  have rs: "res_screeningId r = hp_screeningId (reqs t)" "res_seatId r = hp_seatId (reqs t)"
    by (subst p(1), simp add: hold_row_def)+
  have locked: "length (lock_seat (hp_seatId (reqs t)) (hp_hallId (reqs t)) (cdb s)) = 1" using m' t by force
  have free: "find_taken (hp_screeningId (reqs t)) (hp_seatId (reqs t)) (cdb s) = None" using p(3) by (simp add: active_taken rs)
  have "db_ok (cdb s)" using inv by (simp add: lock_inv_def)
  note ins = insert_free [OF this same p(2,1) p(3) [unfolded rs]]
  let ?r = "new_row now (reqs t) (db w)" and ?w = "w\<lparr>db := (db w)\<lparr>reservations := with_hold now (reqs t) (db w)\<rparr>\<rparr>"
  have run: "holdSeat_tx None now (reqs t) w = (Inr ?r, ?w)" by (simp add: whole_insert [OF same locked free] ins)
  have un: "unnumbered ?r = unnumbered r" by (subst p(1)) (simp add: new_row_def)
  have "same_rows (db ?w) (append_row r (cdb s))"
    using same_rows_append [OF same un, of "with_hold now (reqs t) (db w)"] by (simp add: with_hold_def)
  moreover have "find_taken (hp_screeningId (reqs x)) (hp_seatId (reqs x)) (append_row r (cdb s)) = None"
    if x: "x \<noteq> t" "pcs s x = Checked" for x
  proof -
    have "hp_seatId (reqs x) \<noteq> hp_seatId (reqs t)" using lock_exclusive [OF inv, of x t] x t by auto
    moreover have "find_taken (hp_screeningId (reqs x)) (hp_seatId (reqs x)) (cdb s) = None" using m' x(2) by blast
    ultimately show ?thesis by (simp add: active_taken seat_active_append rs)
  qed
  ultimately have "matched reqs now (hist @ [(t, Inr ?r)], ?w) s' \<and> t \<notin> fst ` set hist"
    using matched_end [OF m li, of ?w t "Inr r" "Inr ?r"] t un by (simp add: s' finish_def same_result_def append_row_def)
  with serial_step.whole [where reqs = reqs and now = now and t = t, OF _ run] show ?thesis by blast
qed

lemma ended_matched:
  assumes m: "matched reqs now (hist, w) s" and li: "lock_inv reqs now s'" and tx: "holdSeat_tx None now (reqs t) w = (res, w)"
    and t: "in_transaction (pcs s t)" "pcs s' = (pcs s)(t := Finished res)" "cdb s' = cdb s \<or> cdb s' = take_id (cdb s)"
  shows "\<exists>h'. serial_step reqs now (Tx t) (hist, w) h' \<and> matched reqs now h' s'"
proof -
  note m' = m [unfolded matched_def fst_conv snd_conv]
  then have same: "same_rows (db w) (cdb s)" by simp
  have "find_taken i x (cdb s') = find_taken i x (cdb s)" for i x using t(3) by (auto simp: find_taken_def)
  then have "matched reqs now (hist @ [(t, res)], w) s' \<and> t \<notin> fst ` set hist"
    using matched_end [OF m li, of w t res res] t m' same_rows_take_id [OF same] by (auto simp: take_id_def)
  with serial_step.whole [where reqs = reqs and now = now and t = t, OF _ tx] show ?thesis by blast
qed

lemma step_matched:
  assumes m: "matched reqs now h s" and l: "l \<in> hold_labels" and st: "tx_step reqs now l s s'"
  shows "\<exists>h'. serial_step reqs now l h h' \<and> matched reqs now h' s'"
proof -
  obtain hist w where h: "h = (hist, w)" by fastforce
  note m' = m [unfolded h matched_def fst_conv snd_conv]
  have inv: "lock_inv reqs now s" and same: "same_rows (db w) (cdb s)" using m' by simp_all
  have li: "lock_inv reqs now s'" by (rule lock_inv_step [OF inv st])
  have locked: "length (lock_seat (hp_seatId (reqs t)) (hp_hallId (reqs t)) (cdb s)) = 1" if "holds_lock (pcs s t)" for t
    using m' that by blast
  note ended = ended_matched [OF m [unfolded h] li, folded h]
  from st show ?thesis
  proof cases
    case (lock_row t)
    then have "matched reqs now h s'"
      using same by (intro matched_within [OF m li, of t Locked]) (simp_all add: h goto_def)
    then show ?thesis using serial_step.silent by blast
  next
    case (no_row t)
    with ended [OF whole_refused [OF same]] show ?thesis by (simp add: finish_def)
  next
    case (check_taken t r)
    with ended [OF whole_taken [OF same locked]] show ?thesis by (simp add: finish_def)
  next
    case (check_free t)
    then have "matched reqs now h s'"
      using same locked [of t] by (intro matched_within [OF m li, of t Checked]) (simp_all add: h goto_def)
    then show ?thesis using serial_step.silent by blast
  next
    case (insert_fails t e)
    then have "find_taken (hp_screeningId (reqs t)) (hp_seatId (reqs t)) (cdb s) = None" using m' by blast
    from whole_insert [OF same locked this, of now] insert_fails insert_hold_same [OF same insert_fails(5)]
    have "holdSeat_tx None now (reqs t) w = (Inl (hold_catch (Prisma e)), w)" by simp
    with ended [OF this] insert_fails show ?thesis by (simp add: finish_def)
  next
    case (insert_row t r d')
    then have "matched reqs now h s'"
      using same_rows_take_id [OF same] locked [of t]
      by (intro matched_within [OF m li, of t "Pending r"]) (simp_all add: h goto_def find_taken_def, simp add: take_id_def)
    then show ?thesis using serial_step.silent by blast
  next
    case (commit t r)
    then show ?thesis using commit_matched [OF m [unfolded h] li, of t r] h by simp
  next
    case (fault t e)
    then have "matched reqs now (hist @ [(t, Inl e)], w) s' \<and> t \<notin> fst ` set hist"
      using matched_end [OF m [unfolded h] li, of w t "Inl e" "Inl e"] same m' by (simp add: finish_def)
    with serial_step.dropped h fault(1) show ?thesis by blast
  qed (use l in \<open>auto simp: hold_labels_def\<close>)
qed

interpretation serial: simulation "tx_step reqs now" hold_labels "serial_step reqs now" "matched reqs now" for reqs now
  by unfold_locales (rule step_matched)

lemma matched_begin: "db_ok (db w) \<Longrightarrow> matched reqs now ([], w) (begin_requests (db w))"
  by (simp add: matched_def begin_requests_def lock_inv_begin [unfolded begin_requests_def])

text \<open>C6. The transactions of holdSeat are serialisable: however the statements of any number of requests interleave, with faults of the
  database anywhere, the run is matched step by step by a run of a machine in which every request runs the whole transaction at once, at
  one of its own steps, or is dropped without a trace at its fault. Each request that finished got the answer it gets there, and
  the committed rows are the same, up to the ids that the sequence handed out.\<close>

theorem hold_serialisable:
  assumes "run_of (tx_step reqs now) ls (begin_requests (db w)) s" and "set ls \<subseteq> hold_labels" and "db_ok (db w)"
  shows "\<exists>hist w'. run_of (serial_step reqs now) ls ([], w) (hist, w') \<and> distinct (map fst hist) \<and>
    (\<forall>t res. pcs s t = Finished res \<longrightarrow> (\<exists>res'. (t, res') \<in> set hist \<and> map_sum id unnumbered res' = map_sum id unnumbered res)) \<and>
    map unnumbered (rows (reservations (cdb s))) = map unnumbered (rows (reservations (db w')))"
proof -
  obtain hist w' where "run_of (serial_step reqs now) ls ([], w) (hist, w')" "matched reqs now (hist, w') s"
    using serial.run_matched [OF assms(1,2) matched_begin [OF assms(3)]] by fastforce
  then show ?thesis by (auto simp: matched_def same_rows_def same_result_def)
qed

text \<open>Two requests for one seat, run until nothing is left to do: one of them has it.\<close>

theorem hold_serialisable_witness:
  "\<exists>ls s hist w' t r r'. run_of (tx_step sample_reqs 0) ls (begin_requests sample_db) s \<and> pcs s t = Finished (Inr r) \<and>
     run_of (serial_step sample_reqs 0) ls ([], world_of sample_db) (hist, w') \<and> (t, Inr r') \<in> set hist \<and>
     unnumbered r' = unnumbered r"
proof -
  obtain s where s: "reaches (tx_step sample_reqs 0) {l. \<exists>t \<in> {0, 1}. l = Tx t} (begin_requests sample_db) s"
      "\<forall>t \<in> {0, 1}. \<nexists>s'. tx_step sample_reqs 0 (Tx t) s s'"
    using stuck_reached [OF sample_contest, of 0] by (elim exE conjE) (rule that)
  have "\<exists>t r. pcs s t = Finished (Inr r)"
    using contest_winner [OF sample_contest insert_not_empty s] by blast
  then obtain t r where t: "pcs s t = Finished (Inr r)" by blast
  obtain ls where ls: "run_of (tx_step sample_reqs 0) ls (begin_requests sample_db) s" "set ls \<subseteq> {l. \<exists>t \<in> {0, 1}. l = Tx t}"
    using reaches_run [OF s(1)] by blast
  have d: "db (world_of sample_db) = sample_db" by (simp add: world_of_def)
  have sub: "set ls \<subseteq> hold_labels" using ls(2) by (auto simp: hold_labels_def)
  obtain hist w' where h: "run_of (serial_step sample_reqs 0) ls ([], world_of sample_db) (hist, w')"
    "\<forall>t res. pcs s t = Finished res \<longrightarrow> (\<exists>res'. (t, res') \<in> set hist \<and> map_sum id unnumbered res' = map_sum id unnumbered res)"
    using hold_serialisable [where w = "world_of sample_db" and reqs = sample_reqs and now = 0 and ls = ls and s = s] ls(1) sub sample_db_ok
    unfolding d by blast
  obtain res' where "(t, res') \<in> set hist" "map_sum id unnumbered res' = Inr (unnumbered r)" using h(2) t by fastforce
  then obtain r' where "(t, Inr r') \<in> set hist" "unnumbered r' = unnumbered r" by (cases res') auto
  with ls(1) t h(1) show ?thesis by blast
qed

end
