(* ===== verification/Payments.thy ===== *)
theory Payments
  imports Reservations
begin

text \<open>
  Payments: \<open>payments/payments.repository.ts\<close>, \<open>payments/payments.service.ts\<close>, and \<open>cancel\<close> of
  \<open>reservations/reservations.service.ts\<close>, which calls the refund flow.

  Stripe is not under \<open>src\<close>: its calls are the functions of \<open>stripe_env\<close>, an argument of the handlers
  (\<open>Inl\<close> a message is a thrown \<open>StripeError\<close>). \<open>pay_fault\<close> injects database errors at the named
  statements. Percentages and hours are exact rationals where the code has doubles; \<open>Math.round x\<close> is
  the floor of \<open>x + 1/2\<close>. Amounts are 32-bit columns, as the schema's \<open>Int\<close>. \<open>metadata.paymentId\<close> is text; what is not a decimal number is \<open>NaN\<close>, which
  the database client refuses.
\<close>

subsection \<open>Stripe\<close>

record checkout_session =
  cs_paymentId :: "string option"
  cs_payment_status :: string
  cs_payment_intent :: "string option"

record dispute =
  dp_payment_intent :: "string option"
  dp_reason :: string

datatype event_data =
    CheckoutCompleted checkout_session
  | AsyncPaymentFailed checkout_session
  | CheckoutExpired checkout_session
  | DisputeCreated dispute
  | OtherEvent string

record stripe_event =
  ev_id :: string
  ev_data :: event_data

record session_request =
  sr_currency :: string
  sr_product :: string
  sr_unit_amount :: int
  sr_expires_at :: int
  sr_paymentId :: string

record refund_request =
  rr_payment_intent :: string
  rr_amount :: int
  rr_idempotencyKey :: string

datatype pay_site = AtCreate | AtSessionSave | AtExtend | AtDelete | AtConfirm | AtPaymentUpdate
  | AtRefundSave | AtFinalize | AtReconcile

record stripe_env =
  create_session :: "session_request \<Rightarrow> string + string \<times> string option"   \<comment> \<open>id and url\<close>
  create_refund :: "refund_request \<Rightarrow> string + string"                     \<comment> \<open>id\<close>
  retrieve_session :: "string \<Rightarrow> string + checkout_session"
  construct_event :: "string \<Rightarrow> string \<Rightarrow> string + stripe_event"
  pay_now :: ms
  pay_uuid :: "int \<Rightarrow> string"
  pay_fault :: "pay_site \<Rightarrow> prisma_error option"

definition from_stripe :: "string + 'a \<Rightarrow> 'a service" where
  "from_stripe r = (case r of Inl m \<Rightarrow> throw (StripeError m) | Inr x \<Rightarrow> ret x)"

subsection \<open>PaymentsRepository\<close>

definition payments_findByReservationId :: "int \<Rightarrow> payment option service" where
  "payments_findByReservationId i =
     query (\<lambda>d. List.find (\<lambda>p. pay_reservationId p = i) (rows (payments d)))"

definition payments_findById :: "int option \<Rightarrow> payment option service" where
  "payments_findById i =
     (case i of None \<Rightarrow> throw (Prisma PValidation) | Some i \<Rightarrow> query (\<lambda>d. find_row i (payments d)))"

definition payments_findByStripeEventId :: "string \<Rightarrow> payment option service" where
  "payments_findByStripeEventId e =
     query (\<lambda>d. List.find (\<lambda>p. stripeEventId p = Some e) (rows (payments d)))"

definition payments_findByStripePaymentId :: "string option \<Rightarrow> payment option service" where
  "payments_findByStripePaymentId s =
     (case s of
        None \<Rightarrow> throw (Prisma PValidation)
      | Some s \<Rightarrow> query (\<lambda>d. List.find (\<lambda>p. stripePaymentId p = Some s) (rows (payments d))))"

definition new_payment :: "ms \<Rightarrow> int \<Rightarrow> int \<Rightarrow> string \<Rightarrow> int \<Rightarrow> payment" where
  "new_payment now reservationId amt cur i =
     \<lparr>rid = i, pay_reservationId = reservationId, amount = amt, currency = cur, pay_status = PENDING,
      stripePaymentId = None, stripeSessionId = '''', stripeEventId = None, refundId = None,
      refundedAt = None, disputed = None, disputeReason = None, disputedAt = None, pay_createdAt = now\<rparr>"

definition payments_create :: "prisma_error option \<Rightarrow> ms \<Rightarrow> int \<Rightarrow> int \<Rightarrow> string \<Rightarrow> payment service" where
  "payments_create fault now reservationId amt cur =
     (if fits_int32 amt then run_stmt fault (insert_payment (new_payment now reservationId amt cur))
      else throw (Prisma POther))"

definition payments_updateById :: "prisma_error option \<Rightarrow> int option \<Rightarrow> (payment \<Rightarrow> payment) \<Rightarrow> payment service" where
  "payments_updateById fault i f =
     (case i of None \<Rightarrow> throw (Prisma PValidation) | Some i \<Rightarrow> run_stmt fault (update_payment i f))"

definition payments_delete :: "prisma_error option \<Rightarrow> int \<Rightarrow> payment service" where
  "payments_delete fault i = run_stmt fault (delete_payment i)"

definition stuck_timed_out :: "ms \<Rightarrow> db \<Rightarrow> payment list" where
  "stuck_timed_out olderThan d =
     filter (\<lambda>p. pay_status p = TIMED_OUT \<and> pay_createdAt p < olderThan) (rows (payments d))"

definition payments_findStuckTimedOut :: "ms \<Rightarrow> payment list service" where
  "payments_findStuckTimedOut olderThan = query (stuck_timed_out olderThan)"

definition refund_policy_for :: "rat \<Rightarrow> db \<Rightarrow> refund_policy option" where
  "refund_policy_for hours d =
     List.find (\<lambda>p. of_int (hoursFrom p) \<le> hours \<and> hours < of_int (hoursTo p)) (rows (policies d))"

definition payments_findRefundPolicy :: "rat \<Rightarrow> refund_policy option service" where
  "payments_findRefundPolicy hours = query (refund_policy_for hours)"

text \<open>Two updates in one transaction: both or neither.\<close>

definition both_updates ::
  "int \<Rightarrow> (payment \<Rightarrow> payment) \<Rightarrow> int \<Rightarrow> (reservation \<Rightarrow> reservation) \<Rightarrow> (payment \<times> reservation) stmt" where
  "both_updates pid f i g d =
     (case update_payment pid f d of
        Inl e \<Rightarrow> Inl e
      | Inr (p, d1) \<Rightarrow>
          (case update_reservation i g d1 of Inl e \<Rightarrow> Inl e | Inr (r, d2) \<Rightarrow> Inr ((p, r), d2)))"

definition declineWithReservation :: "prisma_error option \<Rightarrow> int \<Rightarrow> int \<Rightarrow> (payment \<times> reservation) service" where
  "declineWithReservation fault pid i = run_stmt fault
     (both_updates pid (\<lambda>p. p\<lparr>pay_status := DECLINED\<rparr>) i (\<lambda>r. r\<lparr>res_status := CANCELLED\<rparr>))"

definition confirmWithReservation ::
  "prisma_error option \<Rightarrow> int \<Rightarrow> int \<Rightarrow> string option \<Rightarrow> (payment \<times> reservation) service" where
  "confirmWithReservation fault pid i intent = run_stmt fault
     (both_updates pid (\<lambda>p. p\<lparr>pay_status := SUCCEEDED, stripePaymentId := intent\<rparr>)
        i (\<lambda>r. r\<lparr>res_status := CONFIRMED, heldUntil := None\<rparr>))"

subsection \<open>Checkout\<close>

definition CHECKOUT_EXPIRY_MINUTES :: int where "CHECKOUT_EXPIRY_MINUTES = 30"

definition RECONCILE_GRACE_MINUTES :: int where "RECONCILE_GRACE_MINUTES = 10"

definition CURRENCY :: string where "CURRENCY = ''usd''"

definition inc :: "(metrics \<Rightarrow> metrics) \<Rightarrow> unit service" where
  "inc f = modify (\<lambda>w. w\<lparr>metrics := f (metrics w)\<rparr>)"

definition not_held :: err where
  "not_held = ConflictException ''Reservation is not held''"

definition has_payment :: err where
  "has_payment = ConflictException ''This reservation already has a payment''"

definition screening_gone :: err where
  "screening_gone = ConflictException ''Screening no longer exists''"

definition expires_at :: "ms \<Rightarrow> int" where
  "expires_at now = now div 1000 + CHECKOUT_EXPIRY_MINUTES * 60"

definition session_request_for :: "ms \<Rightarrow> int \<Rightarrow> payment \<Rightarrow> session_request" where
  "session_request_for now reservationId p =
     \<lparr>sr_currency = CURRENCY, sr_product = ''Seat reservation #'' @ string_of_int reservationId,
      sr_unit_amount = amount p, sr_expires_at = expires_at now, sr_paymentId = string_of_int (rid p)\<rparr>"

definition createCheckoutSession :: "stripe_env \<Rightarrow> int \<Rightarrow> int \<Rightarrow> string option service" where
  "createCheckoutSession env userId reservationId =
     await (findOwned userId reservationId) (\<lambda>reservation.
     if res_status reservation \<noteq> HELD then throw not_held
     else await (payments_findByReservationId reservationId) (\<lambda>existing. case existing of
       Some _ \<Rightarrow> throw has_payment
     | None \<Rightarrow>
         await (screenings_findById (res_screeningId reservation)) (\<lambda>screening. case screening of
           None \<Rightarrow> throw screening_gone
         | Some s \<Rightarrow>
             let amt = price (fst s) * 100 in
             await (catch_err
                 (payments_create (pay_fault env AtCreate) (pay_now env) reservationId amt CURRENCY)
                 (\<lambda>e. if e = Prisma P2002 then throw has_payment else throw e)) (\<lambda>payment.
             catch_err
               (await (from_stripe (create_session env (session_request_for (pay_now env) reservationId payment)))
                  (\<lambda>session.
                await (payments_updateById (pay_fault env AtSessionSave) (Some (rid payment))
                    (\<lambda>p. p\<lparr>stripeSessionId := fst session\<rparr>)) (\<lambda>_.
                await (extendHold (pay_fault env AtExtend) reservationId (expires_at (pay_now env) * 1000)) (\<lambda>_.
                ret (snd session)))))
               (\<lambda>e. await (payments_delete (pay_fault env AtDelete) (rid payment)) (\<lambda>_. throw e))))))"

subsection \<open>Webhook\<close>

definition paymentIdFrom :: "checkout_session \<Rightarrow> int option" where
  "paymentIdFrom s = (case cs_paymentId s of None \<Rightarrow> None | Some t \<Rightarrow> number_of_string t)"

definition handleCheckoutCompleted :: "stripe_env \<Rightarrow> string \<Rightarrow> checkout_session \<Rightarrow> unit service" where
  "handleCheckoutCompleted env eventId session =
     (let paymentId = paymentIdFrom session in
      await (payments_findById paymentId) (\<lambda>payment. case payment of
        None \<Rightarrow> ret ()
      | Some payment \<Rightarrow>
          if cs_payment_status session = ''paid'' then
            await (confirmPayment (pay_fault env AtConfirm) (pay_reservationId payment)) (\<lambda>_.
            await (payments_updateById (pay_fault env AtPaymentUpdate) paymentId
                (\<lambda>p. p\<lparr>pay_status := SUCCEEDED, stripeEventId := Some eventId,
                       stripePaymentId := cs_payment_intent session\<rparr>)) (\<lambda>_.
            await (inc (\<lambda>m. m\<lparr>payments_succeeded_total := payments_succeeded_total m + 1\<rparr>)) (\<lambda>_.
            record_audit (on_target ''payment.succeeded'' ''payment'' (rid payment)))))
          else
            await (payments_updateById (pay_fault env AtPaymentUpdate) paymentId
                (\<lambda>p. p\<lparr>pay_status := IN_PROGRESS, stripeEventId := Some eventId\<rparr>)) (\<lambda>_.
            ret ())))"

definition handleAsyncPaymentFailed :: "stripe_env \<Rightarrow> string \<Rightarrow> checkout_session \<Rightarrow> unit service" where
  "handleAsyncPaymentFailed env eventId session =
     await (payments_updateById (pay_fault env AtPaymentUpdate) (paymentIdFrom session)
         (\<lambda>p. p\<lparr>pay_status := FAILED, stripeEventId := Some eventId\<rparr>)) (\<lambda>payment.
     await (getById (pay_reservationId payment)) (\<lambda>reservation.
     await (recordFailure (pay_now env) (pay_uuid env (rid payment)) (res_userId reservation)) (\<lambda>_.
     await (inc (\<lambda>m. m\<lparr>payments_failed_total := payments_failed_total m + 1\<rparr>)) (\<lambda>_.
     record_audit (on_target ''payment.failed'' ''payment'' (rid payment))))))"

definition handleCheckoutExpired :: "stripe_env \<Rightarrow> string \<Rightarrow> checkout_session \<Rightarrow> unit service" where
  "handleCheckoutExpired env eventId session =
     await (payments_updateById (pay_fault env AtPaymentUpdate) (paymentIdFrom session)
         (\<lambda>p. p\<lparr>pay_status := TIMED_OUT, stripeEventId := Some eventId\<rparr>)) (\<lambda>_.
     inc (\<lambda>m. m\<lparr>payments_timed_out_total := payments_timed_out_total m + 1\<rparr>))"

definition handleDisputeCreated :: "stripe_env \<Rightarrow> string \<Rightarrow> dispute \<Rightarrow> unit service" where
  "handleDisputeCreated env eventId dp =
     await (payments_findByStripePaymentId (dp_payment_intent dp)) (\<lambda>payment. case payment of
       None \<Rightarrow> ret ()
     | Some payment \<Rightarrow>
         await (payments_updateById (pay_fault env AtPaymentUpdate) (Some (rid payment))
             (\<lambda>p. p\<lparr>disputed := Some True, disputeReason := Some (dp_reason dp),
                    disputedAt := Some (pay_now env), stripeEventId := Some eventId\<rparr>)) (\<lambda>_.
         record_audit ((on_target ''payment.dispute'' ''payment'' (rid payment))\<lparr>ae_metadata := [(''reason'', Some (dp_reason dp))]\<rparr>)))"

definition dispatch_event :: "stripe_env \<Rightarrow> stripe_event \<Rightarrow> unit service" where
  "dispatch_event env event =
     (case ev_data event of
        CheckoutCompleted s \<Rightarrow> handleCheckoutCompleted env (ev_id event) s
      | AsyncPaymentFailed s \<Rightarrow> handleAsyncPaymentFailed env (ev_id event) s
      | CheckoutExpired s \<Rightarrow> handleCheckoutExpired env (ev_id event) s
      | DisputeCreated dp \<Rightarrow> handleDisputeCreated env (ev_id event) dp
      | OtherEvent _ \<Rightarrow> ret ())"

definition handleWebhookEvent :: "stripe_env \<Rightarrow> string \<Rightarrow> string \<Rightarrow> bool service" where
  "handleWebhookEvent env rawBody signature =
     (case construct_event env rawBody signature of
        Inl m \<Rightarrow> throw (BadRequestException (''Webhook signature verification failed: '' @ m))
      | Inr event \<Rightarrow>
          await (payments_findByStripeEventId (ev_id event)) (\<lambda>alreadyProcessed. case alreadyProcessed of
            Some _ \<Rightarrow> ret True
          | None \<Rightarrow> await (dispatch_event env event) (\<lambda>_. ret True)))"

subsection \<open>Refund and cancellation\<close>

definition hours_until :: "ms \<Rightarrow> ms \<Rightarrow> rat" where
  "hours_until start now = of_int (start - now) / of_int (60 * 60 * 1000)"

definition round_half_up :: "rat \<Rightarrow> int" where
  "round_half_up x = \<lfloor>x + 1 / 2\<rfloor>"

definition refund_amount :: "int \<Rightarrow> rat \<Rightarrow> int" where
  "refund_amount amt percent = round_half_up (of_int amt * percent / 100)"

text \<open>An empty or absent payment intent is falsy: nothing is refunded at Stripe.\<close>

definition truthy :: "string option \<Rightarrow> bool" where
  "truthy s \<longleftrightarrow> (case s of None \<Rightarrow> False | Some t \<Rightarrow> t \<noteq> [])"

definition refund_call :: "payment \<Rightarrow> rat \<Rightarrow> refund_request" where
  "refund_call p percent = \<lparr>rr_payment_intent = the (stripePaymentId p), rr_amount = refund_amount (amount p) percent,
     rr_idempotencyKey = ''refund-'' @ string_of_int (rid p)\<rparr>"

definition asks_refund :: "payment \<Rightarrow> rat \<Rightarrow> bool" where
  "asks_refund p percent \<longleftrightarrow> 0 < percent \<and> truthy (stripePaymentId p)"

definition stripe_refund :: "stripe_env \<Rightarrow> payment \<Rightarrow> rat \<Rightarrow> string option service" where
  "stripe_refund env p percent =
     (if asks_refund p percent then
        await (from_stripe (create_refund env (refund_call p percent))) (\<lambda>refund. ret (Some refund))
      else ret None)"

definition refundReservation :: "stripe_env \<Rightarrow> reservation \<Rightarrow> reservation service" where
  "refundReservation env r =
     await (payments_findByReservationId (rid r)) (\<lambda>payment. case payment of
       None \<Rightarrow> throw (NotFoundException (''No payment found for reservation '' @ string_of_int (rid r)))
     | Some p \<Rightarrow>
         if pay_status p = REFUNDED then finalizeCancel (pay_fault env AtFinalize) r
         else await (screenings_findById (res_screeningId r)) (\<lambda>screening. case screening of
           None \<Rightarrow> throw screening_gone
         | Some s \<Rightarrow>
             await (payments_findRefundPolicy (hours_until (startTime (fst s)) (pay_now env))) (\<lambda>policy.
             let percent = (case policy of None \<Rightarrow> 0 | Some pol \<Rightarrow> refundPercent pol) in
             await (stripe_refund env p percent) (\<lambda>refund.
             await (payments_updateById (pay_fault env AtRefundSave) (Some (rid p))
                 (\<lambda>p. p\<lparr>pay_status := REFUNDED,
                        refundId := (case refund of None \<Rightarrow> refundId p | Some i \<Rightarrow> Some i),
                        refundedAt := Some (pay_now env)\<rparr>)) (\<lambda>_.
             await (inc (\<lambda>m. m\<lparr>payments_refunded_total := payments_refunded_total m + 1\<rparr>)) (\<lambda>_.
             await (record_audit ((on_target ''payment.refunded'' ''payment'' (rid p))\<lparr>ae_metadata := [(''refundId'', refund)]\<rparr>)) (\<lambda>_.
             finalizeCancel (pay_fault env AtFinalize) r)))))))"

definition cannot_cancel :: err where
  "cannot_cancel = ConflictException ''Only a held or confirmed reservation can be cancelled''"

definition cancel :: "stripe_env \<Rightarrow> int \<Rightarrow> int \<Rightarrow> reservation service" where
  "cancel env userId i =
     await (findOwned userId i) (\<lambda>r.
     if res_status r = CONFIRMED then refundReservation env r
     else if res_status r \<noteq> HELD then throw cannot_cancel
     else finalizeCancel (pay_fault env AtFinalize) r)"

subsection \<open>Reconciliation and status\<close>

definition reconcile_one :: "stripe_env \<Rightarrow> payment \<Rightarrow> unit service" where
  "reconcile_one env p =
     await (from_stripe (retrieve_session env (stripeSessionId p))) (\<lambda>session.
     if cs_payment_status session = ''paid'' then
       await (confirmWithReservation (pay_fault env AtReconcile) (rid p) (pay_reservationId p)
           (cs_payment_intent session)) (\<lambda>pr.
       await (inc (\<lambda>m. m\<lparr>payments_succeeded_total := payments_succeeded_total m + 1\<rparr>)) (\<lambda>_.
       publish_event (ReservationConfirmed (res_screeningId (snd pr)) [res_seatId (snd pr)])))
     else
       await (declineWithReservation (pay_fault env AtReconcile) (rid p) (pay_reservationId p)) (\<lambda>pr.
       await (inc (\<lambda>m. m\<lparr>payments_declined_total := payments_declined_total m + 1\<rparr>)) (\<lambda>_.
       await (publish_event (ReservationCancelled (res_screeningId (snd pr)) [res_seatId (snd pr)])) (\<lambda>_.
       recordFailure (pay_now env) (pay_uuid env (rid p)) (res_userId (snd pr))))))"

fun reconcile_all :: "stripe_env \<Rightarrow> payment list \<Rightarrow> unit service" where
  "reconcile_all env [] = ret ()"
| "reconcile_all env (p # ps) = await (reconcile_one env p) (\<lambda>_. reconcile_all env ps)"

definition reconcileTimedOutPayments :: "stripe_env \<Rightarrow> unit service" where
  "reconcileTimedOutPayments env =
     await (payments_findStuckTimedOut (pay_now env - RECONCILE_GRACE_MINUTES * 60000)) (\<lambda>stuck.
     reconcile_all env stuck)"

definition handleReconcilePayments :: "stripe_env \<Rightarrow> unit service" where
  "handleReconcilePayments env = catch_err (reconcileTimedOutPayments env) (\<lambda>_. ret ())"

definition getStatus :: "int \<Rightarrow> int \<Rightarrow> (reservation_status \<times> payment_status option) service" where
  "getStatus userId reservationId =
     await (findOwned userId reservationId) (\<lambda>r.
     await (payments_findByReservationId reservationId) (\<lambda>p.
     ret (res_status r, map_option pay_status p)))"

lemmas payments_repo_defs = payments_findByReservationId_def payments_findById_def
  payments_findByStripeEventId_def payments_findByStripePaymentId_def payments_create_def
  payments_updateById_def payments_delete_def payments_findStuckTimedOut_def
  payments_findRefundPolicy_def declineWithReservation_def confirmWithReservation_def

lemmas payments_service_defs [handler_defs] = createCheckoutSession_def handleCheckoutCompleted_def
  handleAsyncPaymentFailed_def handleCheckoutExpired_def handleDisputeCreated_def dispatch_event_def
  handleWebhookEvent_def stripe_refund_def refundReservation_def cancel_def reconcile_one_def
  reconcileTimedOutPayments_def handleReconcilePayments_def getStatus_def

subsection \<open>Well-formedness\<close>

lemma keeps_from_stripe [keeps_rules]: "keeps I (from_stripe r)"
  unfolding from_stripe_def by (intro keeps_rules)

lemma keeps_db_inc [keeps_rules]: "keeps_db P (inc f)"
  unfolding inc_def by (rule keeps_db_metrics)

lemma db_ok_both_updates [db_ok_intros]:
  assumes "db_ok d" and "\<And>r. rid (f r) = rid r" and "\<And>r. rid (g r) = rid r"
    and "both_updates pid f i g d = Inr (x, d')"
  shows "db_ok d'"
proof -
  from assms(4) obtain p d1 r where "update_payment pid f d = Inr (p, d1)"
      and "update_reservation i g d1 = Inr (r, d')"
    by (auto simp: both_updates_def split: sum.splits prod.splits)
  with assms(1-3) show ?thesis by (blast intro: db_ok_update_payment db_ok_update_reservation)
qed

lemma keeps_payment_updateById:
  "(\<And>r. rid (f r) = rid r) \<Longrightarrow> keeps_db db_ok (payments_updateById fault i f)"
  unfolding payments_updateById_def
  by (intro keeps_rules keeps_db_stmt; erule (1) db_ok_intros [rotated -1]; simp)

lemma keeps_payment_stmts [keeps_rules]:
  "keeps_db db_ok (payments_create fault now i amt cur)"
  "keeps_db db_ok (payments_delete fault i)"
  "keeps_db db_ok (confirmWithReservation fault pid i intent)"
  "keeps_db db_ok (declineWithReservation fault pid i)"
  unfolding payments_create_def payments_delete_def confirmWithReservation_def declineWithReservation_def
  by (intro keeps_rules keeps_db_stmt;
      erule (1) db_ok_intros [rotated -1] db_ok_both_updates [rotated -1]; simp add: new_payment_def)+

lemma keeps_payment_reads [keeps_rules]:
  "keeps_db P (payments_findByReservationId i)"
  "keeps_db P (payments_findById j)"
  "keeps_db P (payments_findByStripeEventId e)"
  "keeps_db P (payments_findByStripePaymentId s)"
  "keeps_db P (payments_findStuckTimedOut t)"
  "keeps_db P (payments_findRefundPolicy h)"
  unfolding payments_repo_defs by (intro keeps_rules)+

lemma keeps_case_event [keeps_rules]:
  "(\<And>s. keeps I (a s)) \<Longrightarrow> (\<And>s. keeps I (b s)) \<Longrightarrow> (\<And>s. keeps I (c s)) \<Longrightarrow> (\<And>s. keeps I (d s)) \<Longrightarrow>
     (\<And>s. keeps I (e s)) \<Longrightarrow> keeps I (case ev of CheckoutCompleted s \<Rightarrow> a s | AsyncPaymentFailed s \<Rightarrow> b s
       | CheckoutExpired s \<Rightarrow> c s | DisputeCreated dp \<Rightarrow> d dp | OtherEvent t \<Rightarrow> e t)"
  by (simp split: event_data.split)

lemma keeps_webhook_handlers [keeps_rules]:
  "keeps_db db_ok (createCheckoutSession env uid i)"
  "keeps_db db_ok (handleCheckoutCompleted env e s)"
  "keeps_db db_ok (handleAsyncPaymentFailed env e s)"
  "keeps_db db_ok (handleCheckoutExpired env e s)"
  "keeps_db db_ok (handleDisputeCreated env e dp)"
  unfolding createCheckoutSession_def handleCheckoutCompleted_def handleAsyncPaymentFailed_def
    handleCheckoutExpired_def handleDisputeCreated_def Let_def
  by (intro keeps_rules keeps_payment_updateById; simp)+

lemma keeps_payment_services [keeps_rules]:
  "keeps_db db_ok (handleWebhookEvent env raw sig)"
  "keeps_db db_ok (refundReservation env r)"
  "keeps_db db_ok (cancel env uid i)"
  "keeps_db P (getStatus uid i)"
  unfolding handleWebhookEvent_def dispatch_event_def refundReservation_def stripe_refund_def cancel_def
    getStatus_def Let_def
  by (intro keeps_rules keeps_payment_updateById; simp)+

lemma keeps_reconcile [keeps_rules]:
  "keeps_db db_ok (reconcile_one env p)"
  "keeps_db db_ok (reconcile_all env ps)"
  "keeps_db db_ok (reconcileTimedOutPayments env)"
  "keeps_db db_ok (handleReconcilePayments env)"
proof -
  show one: "keeps_db db_ok (reconcile_one env p)" for p
    unfolding reconcile_one_def by (intro keeps_rules)
  show all: "keeps_db db_ok (reconcile_all env ps)" for ps
    by (induction ps) (auto intro: keeps_rules one)
  show "keeps_db db_ok (reconcileTimedOutPayments env)" "keeps_db db_ok (handleReconcilePayments env)"
    unfolding handleReconcilePayments_def reconcileTimedOutPayments_def by (intro keeps_rules all)+
qed

subsection \<open>Statements that complete\<close>

text \<open>
  When the written value meets no other row, a statement completes, and the table is the expected one.
\<close>

lemma map_filter_update:
  assumes "distinct (map rid xs)" and "unique_nullable g xs" and "\<And>r. rid (f r) = rid r"
    and "\<And>x y. x \<in> set xs \<Longrightarrow> rid x = i \<Longrightarrow> y \<in> set xs \<Longrightarrow> rid y \<noteq> i \<Longrightarrow> g (f x) \<noteq> None \<Longrightarrow> g y \<noteq> g (f x)"
  shows "unique_nullable g (map (\<lambda>r. if rid r = i then f r else r) xs)"
  using assms unfolding unique_nullable_def
proof (induction xs)
  case (Cons x xs)
  let ?h = "\<lambda>r. if rid r = i then f r else r"
  have IH: "distinct (List.map_filter g (map ?h xs))"
    using Cons.prems by (intro Cons.IH) (auto simp: map_filter_simps2 split: option.splits)
  have "v \<notin> set (List.map_filter g (map ?h xs))" if v: "g (?h x) = Some v" for v
  proof
    assume "v \<in> set (List.map_filter g (map ?h xs))"
    then obtain y where y: "y \<in> set xs" "g (?h y) = Some v" by (auto simp: set_map_filter2)
    from Cons.prems(1) y(1) have ne: "rid y \<noteq> rid x" by (auto simp: image_iff)
    show False
    proof (cases "rid x = i \<or> rid y = i")
      case True
      then show ?thesis using Cons.prems(4) [of x y] Cons.prems(4) [of y x] v y ne by auto
    next
      case False
      then show ?thesis using Cons.prems(2) v y by (auto simp: map_filter_simps2 set_map_filter2)
    qed
  qed
  with IH show ?case by (simp add: map_filter_simps2 split: option.split)
qed (simp add: map_filter_simps2)

text \<open>The values a payment may take in its unique columns: its own, or ones no other payment has.\<close>

definition no_clash :: "db \<Rightarrow> int \<Rightarrow> payment \<Rightarrow> bool" where
  "no_clash d i p \<longleftrightarrow> (\<forall>q \<in> set (rows (payments d)). rid q \<noteq> i \<longrightarrow>
     (stripeEventId p \<noteq> None \<longrightarrow> stripeEventId q \<noteq> stripeEventId p) \<and>
     (stripePaymentId p \<noteq> None \<longrightarrow> stripePaymentId q \<noteq> stripePaymentId p))"

lemma payment_at: "db_ok d \<Longrightarrow> x \<in> set (rows (payments d)) \<Longrightarrow> find_row (rid x) (payments d) = Some x"
  by (simp add: db_ok_defs mem_find_row)

lemma update_payment_run:
  assumes d: "db_ok d" and p: "find_row i (payments d) = Some p"
    and f: "\<And>r. rid (f r) = rid r" "\<And>r. pay_reservationId (f r) = pay_reservationId r"
    and c: "no_clash d i (f p)"
  shows "update_payment i f d = Inr (f p, d\<lparr>payments := update_row i f (payments d)\<rparr>)"
proof -
  let ?t = "payments d"
  have wf: "distinct (map rid (rows ?t))" and u: "payment_unique ?t"
    using d by (simp_all add: db_ok_defs wf_table_def ids_def)
  have only: "x = p" if "x \<in> set (rows ?t)" "rid x = i" for x
    using payment_at [OF d that(1)] that(2) p by simp
  have "unique_nullable stripePaymentId (rows (update_row i f ?t))"
    unfolding rows_update_row using u c only
    by (intro map_filter_update wf f(1)) (auto simp: payment_unique_def no_clash_def)
  moreover have "unique_nullable stripeEventId (rows (update_row i f ?t))"
    unfolding rows_update_row using u c only
    by (intro map_filter_update wf f(1)) (auto simp: payment_unique_def no_clash_def)
  moreover have "map pay_reservationId (rows (update_row i f ?t)) = map pay_reservationId (rows ?t)"
    using f(2) by (simp add: rows_update_row)
  moreover have "payment_fk d (f p)"
    using d find_row_mem [OF p] f(2) by (simp add: db_ok_defs payment_fk_def)
  ultimately show ?thesis
    using u p by (simp add: update_payment_def on_table_def try_update_def payment_unique_def)
qed

lemma no_clash_same:
  assumes "db_ok d" and "find_row i (payments d) = Some p"
    and "stripeEventId p' = stripeEventId p" and "stripePaymentId p' = stripePaymentId p"
  shows "no_clash d i p'"
proof -
  have p: "p \<in> set (rows (payments d))" "rid p = i" using assms(2) find_row_mem find_row_key by blast+
  have u: "unique_nullable stripeEventId (rows (payments d))" "unique_nullable stripePaymentId (rows (payments d))"
    using assms(1) by (simp_all add: db_ok_defs payment_unique_def)
  show ?thesis
    unfolding no_clash_def assms(3,4)
  proof (intro ballI impI conjI notI)
    fix q
    assume q: "q \<in> set (rows (payments d))" "rid q \<noteq> i"
    show False if "stripeEventId p \<noteq> None" "stripeEventId q = stripeEventId p"
      using unique_nullable_eq [OF u(1) p(1) q(1)] that p(2) q(2) by (metis option.exhaust)
    show False if "stripePaymentId p \<noteq> None" "stripePaymentId q = stripePaymentId p"
      using unique_nullable_eq [OF u(2) p(1) q(1)] that p(2) q(2) by (metis option.exhaust)
  qed
qed

lemma update_reservation_run:
  assumes d: "db_ok d" and r: "find_row i (reservations d) = Some r"
    and f: "\<And>r. rid (f r) = rid r" "\<And>r. res_screeningId (f r) = res_screeningId r"
      "\<And>r. res_seatId (f r) = res_seatId r" "\<And>r. res_userId (f r) = res_userId r"
    and c: "active_res (f r) \<Longrightarrow> active_res r"
  shows "update_reservation i f d = Inr (f r, d\<lparr>reservations := update_row i f (reservations d)\<rparr>)"
proof -
  let ?t = "reservations d"
  have wf: "wf_table ?t" and u: "reservation_unique ?t" using d by (simp_all add: db_ok_defs)
  have "reservation_unique (update_row i f ?t)"
  proof (rule reservation_unique_map [OF u rows_update_row])
    fix x
    assume x: "x \<in> set (rows ?t)" and a: "active_res (if rid x = i then f x else x)"
    have "x = r" if "rid x = i" using mem_find_row [OF wf x] that r by simp
    with a c f show "active_res x \<and> res_seatId (if rid x = i then f x else x) = res_seatId x \<and>
        res_screeningId (if rid x = i then f x else x) = res_screeningId x" by (auto split: if_splits)
  qed
  moreover have "reservation_fk d (f r)"
    using d find_row_mem [OF r] f by (simp add: db_ok_defs reservation_fk_def)
  ultimately show ?thesis
    using r by (simp add: update_reservation_def on_table_def try_update_def)
qed

text \<open>A statement that would make a second active reservation of a seat is refused.\<close>

lemma update_reservation_clash:
  assumes r: "find_row i (reservations d) = Some r" and r': "r' \<in> set (rows (reservations d))" "rid r' \<noteq> i"
    and f: "rid (f r) = rid r" and a: "active_res (f r)" "active_res r'"
    and k: "res_seatId (f r) = res_seatId r'" "res_screeningId (f r) = res_screeningId r'"
  shows "update_reservation i f d = Inl P2002"
proof -
  let ?t = "update_row i f (reservations d)"
  have m: "f r \<in> set (rows ?t)" "r' \<in> set (rows ?t)"
    using r r' find_row_mem [OF r] find_row_key [OF r] by (force simp: rows_update_row)+
  have "\<not> reservation_unique ?t"
  proof
    assume "reservation_unique ?t"
    then have "f r = r'" using active_unique_eq [OF _ m a k] by simp
    with r' f find_row_key [OF r] show False by simp
  qed
  with r show ?thesis by (simp add: update_reservation_def on_table_def try_update_def)
qed

lemma insert_payment_run:
  assumes d: "db_ok d" and n: "\<And>n. rid (mk n) = n" and r: "pay_reservationId (mk (next_id (payments d))) \<in> set (ids (reservations d))"
    and free: "\<forall>p \<in> set (rows (payments d)). pay_reservationId p \<noteq> pay_reservationId (mk (next_id (payments d)))"
    and nulls: "stripeEventId (mk (next_id (payments d))) = None" "stripePaymentId (mk (next_id (payments d))) = None"
  shows "insert_payment mk d = Inr (mk (next_id (payments d)), d\<lparr>payments :=
    \<lparr>rows = rows (payments d) @ [mk (next_id (payments d))], next_id = next_id (payments d) + 1\<rparr>\<rparr>)"
proof -
  have un: "unique_nullable g (xs @ [x]) = unique_nullable g xs" if "g x = None" for g :: "payment \<Rightarrow> string option" and xs x
    using that by (simp add: unique_nullable_def map_filter_append map_filter_simps2)
  have "payment_unique (payments d)" using d by (simp add: db_ok_defs)
  then show ?thesis
    using r free nulls
    by (cases "payments d") (auto simp: insert_payment_def on_table_def try_insert_def insert_row_def Let_def payment_unique_def payment_fk_def un)
qed

end
