(* ===== verification/PaymentFlows.thy ===== *)
theory PaymentFlows
  imports Payments
begin

text \<open>
  What checkout and the Stripe webhook do, end to end: the effect of a checkout and its compensation,
  of a paid session, of a redelivered event, and of a delivery that failed half-way.
\<close>

lemma findOwned_run:
  "find_row i (reservations (db w)) = Some r \<Longrightarrow> res_userId r = uid \<Longrightarrow> findOwned uid i w = (Inr r, w)"
  by (simp add: findOwned_def getById_def reservations_findById_def await_def query_run ret_run)

lemma from_stripe_run [act_simps]:
  "from_stripe r w = (case r of Inl m \<Rightarrow> (Inl (StripeError m), w) | Inr x \<Rightarrow> (Inr x, w))"
  by (simp add: from_stripe_def act_simps split: sum.split)

lemma catch_err_run: "catch_err m h w = (case m w of (Inl e, w') \<Rightarrow> h e w' | (Inr x, w') \<Rightarrow> (Inr x, w'))"
  by (simp add: catch_err_def)

lemma run_payment_update:
  assumes "db_ok (db w)" and "find_row i (payments (db w)) = Some p"
    and "\<And>r. rid (f r) = rid r" "\<And>r. pay_reservationId (f r) = pay_reservationId r"
    and "no_clash (db w) i (f p)"
  shows "payments_updateById None (Some i) f w =
    (Inr (f p), w\<lparr>db := (db w)\<lparr>payments := update_row i f (payments (db w))\<rparr>\<rparr>)"
  using update_payment_run [OF assms] by (simp add: payments_updateById_def run_stmt_def)

lemma run_extendHold:
  assumes "db_ok (db w)" and "find_row i (reservations (db w)) = Some r"
  shows "extendHold None i t w = (Inr (r\<lparr>heldUntil := Some t\<rparr>),
    w\<lparr>db := (db w)\<lparr>reservations := update_row i (\<lambda>r. r\<lparr>heldUntil := Some t\<rparr>) (reservations (db w))\<rparr>\<rparr>)"
  using update_reservation_run [OF assms, of "\<lambda>r. r\<lparr>heldUntil := Some t\<rparr>"]
  by (simp add: extendHold_def reservations_extendHold_def run_stmt_def active_res_def)

lemma db_ok_step:
  "db_ok d \<Longrightarrow> (\<And>r. rid (f r) = rid r) \<Longrightarrow> update_payment i f d = Inr (p, d') \<Longrightarrow> db_ok d'"
  by (rule db_ok_update_payment)

subsection \<open>Checkout\<close>

lemma screening_of_reservation:
  assumes "db_ok d" and "find_row i (screenings d) = Some s"
  obtains m h where "screening_join i d = Some (s, m, h)"
proof -
  have "screening_fk d s" using assms find_row_mem by (fastforce simp: db_ok_defs)
  then obtain m h where "find_row (scr_movieId s) (movies d) = Some m" "find_row (scr_hallId s) (halls d) = Some h"
    unfolding screening_fk_def find_row_ids [symmetric] by blast
  with assms(2) that show ?thesis by (simp add: screening_join_def)
qed

text \<open>The table after a payment was inserted, and after it was removed again.\<close>

definition with_payment :: "payment \<Rightarrow> db \<Rightarrow> db" where
  "with_payment p d = d\<lparr>payments := \<lparr>rows = rows (payments d) @ [p], next_id = next_id (payments d) + 1\<rparr>\<rparr>"

lemma with_payment_simps [simp]:
  "reservations (with_payment p d) = reservations d" "screenings (with_payment p d) = screenings d"
  "rows (payments (with_payment p d)) = rows (payments d) @ [p]"
  by (simp_all add: with_payment_def)

lemma payment_ids_fresh:
  assumes "db_ok d" and "x \<in> set (rows (payments d))"
  shows "rid x \<noteq> next_id (payments d)"
  using assms by (auto simp: db_ok_defs wf_table_def)

lemma find_with_payment:
  assumes "db_ok d" and "rid p = next_id (payments d)"
  shows "find_row (rid p) (payments (with_payment p d)) = Some p"
  using payment_ids_fresh [OF assms(1)] assms(2)
  by (auto simp: find_row_def find_append find_None_iff split: option.split dest: find_Some_mem)

lemma update_with_payment:
  assumes "db_ok d" and "rid p = next_id (payments d)"
  shows "rows (update_row (rid p) f (payments (with_payment p d))) = rows (payments d) @ [f p]"
  using payment_ids_fresh [OF assms(1)] assms(2) by (auto simp: rows_update_row intro!: map_idI)

lemma delete_with_payment:
  assumes "db_ok d" and "rid p = next_id (payments d)"
  shows "\<exists>d'. delete_payment (rid p) (with_payment p d) = Inr (p, d') \<and>
    rows (payments d') = rows (payments d) \<and> reservations d' = reservations d"
proof -
  have "filter (\<lambda>x. rid x \<noteq> rid p) (rows (payments d)) = rows (payments d)"
    using payment_ids_fresh [OF assms(1)] assms(2) by (intro filter_True) simp
  then show ?thesis
    by (simp add: delete_payment_def on_table_def try_delete_def find_with_payment [OF assms] rows_delete_row)
qed

definition checkout_ready :: "world \<Rightarrow> int \<Rightarrow> int \<Rightarrow> reservation \<Rightarrow> screening \<Rightarrow> bool" where
  "checkout_ready w uid i r s \<longleftrightarrow> db_ok (db w) \<and> find_row i (reservations (db w)) = Some r \<and> res_userId r = uid \<and>
     res_status r = HELD \<and> (\<forall>p \<in> set (rows (payments (db w))). pay_reservationId p \<noteq> i) \<and>
     find_row (res_screeningId r) (screenings (db w)) = Some s \<and> fits_int32 (price s * 100)"

text \<open>The payment of a checkout, and what is asked of Stripe.\<close>

definition first_payment :: "stripe_env \<Rightarrow> world \<Rightarrow> int \<Rightarrow> screening \<Rightarrow> payment" where
  "first_payment env w i s = new_payment (pay_now env) i (price s * 100) ''usd'' (next_id (payments (db w)))"

lemma first_payment_simps [simp]: "rid (first_payment env w i s) = next_id (payments (db w))" "amount (first_payment env w i s) = price s * 100"
  by (simp_all add: first_payment_def new_payment_def)

lemma checkout_start:
  assumes "checkout_ready w uid i r s" and "\<And>x. pay_fault env x = None"
  defines "p \<equiv> first_payment env w i s"
  shows "createCheckoutSession env uid i w = catch_err
      (await (from_stripe (create_session env (session_request_for (pay_now env) i p))) (\<lambda>session.
       await (payments_updateById None (Some (rid p)) (\<lambda>p. p\<lparr>stripeSessionId := fst session\<rparr>)) (\<lambda>_.
       await (extendHold None i (expires_at (pay_now env) * 1000)) (\<lambda>_. ret (snd session)))))
      (\<lambda>e. await (payments_delete None (rid p)) (\<lambda>_. throw e)) (w\<lparr>db := with_payment p (db w)\<rparr>)"
    and "db_ok (with_payment p (db w))"
proof -
  note a = assms(1) [unfolded checkout_ready_def]
  obtain m h where j: "screening_join (res_screeningId r) (db w) = Some (s, m, h)"
    using screening_of_reservation a by metis
  have "i \<in> set (ids (reservations (db w)))" using a by (simp add: find_row_ids [symmetric])
  then have ins: "insert_payment (new_payment (pay_now env) i (price s * 100) ''usd'') (db w) = Inr (p, with_payment p (db w))"
    unfolding with_payment_def p_def first_payment_def using a by (intro insert_payment_run) (auto simp: new_payment_def)
  show "db_ok (with_payment p (db w))" using a by (intro db_ok_insert_payment [OF _ _ ins]) (simp_all add: new_payment_def)
  have "List.find (\<lambda>p. pay_reservationId p = i) (rows (payments (db w))) = None" using a by (simp add: find_None_iff)
  then show "createCheckoutSession env uid i w = catch_err
      (await (from_stripe (create_session env (session_request_for (pay_now env) i p))) (\<lambda>session.
       await (payments_updateById None (Some (rid p)) (\<lambda>p. p\<lparr>stripeSessionId := fst session\<rparr>)) (\<lambda>_.
       await (extendHold None i (expires_at (pay_now env) * 1000)) (\<lambda>_. ret (snd session)))))
      (\<lambda>e. await (payments_delete None (rid p)) (\<lambda>_. throw e)) (w\<lparr>db := with_payment p (db w)\<rparr>)"
    using a assms(2) ins unfolding createCheckoutSession_def
    by (simp add: await_def findOwned_run payments_findByReservationId_def query_run screenings_findById_def j catch_err_def
        payments_create_def CURRENCY_def run_stmt_def Let_def)
qed

lemma checkout_failed:
  assumes "checkout_ready w uid i r s" and "\<And>x. pay_fault env x = None"
    and "create_session env (session_request_for (pay_now env) i (first_payment env w i s)) = Inl m"
  shows "\<exists>w'. createCheckoutSession env uid i w = (Inl (StripeError m), w') \<and>
    rows (payments (db w')) = rows (payments (db w)) \<and> reservations (db w') = reservations (db w)"
proof -
  let ?p = "first_payment env w i s"
  have "db_ok (db w)" using assms(1) by (simp add: checkout_ready_def)
  from delete_with_payment [OF this, of ?p] obtain d' where d': "delete_payment (rid ?p) (with_payment ?p (db w)) = Inr (?p, d')"
    "rows (payments d') = rows (payments (db w))" "reservations d' = reservations (db w)" by auto
  have "createCheckoutSession env uid i w = (Inl (StripeError m), w\<lparr>db := d'\<rparr>)"
    unfolding checkout_start(1) [OF assms(1,2)] using d'(1)
    by (simp add: catch_err_def await_def from_stripe_run assms(3) payments_delete_def run_stmt_def throw_run)
  with d'(2,3) show ?thesis by (intro exI [of _ "w\<lparr>db := d'\<rparr>"]) simp
qed

lemma checkout_done:
  assumes "checkout_ready w uid i r s" and "\<And>x. pay_fault env x = None"
    and "create_session env (session_request_for (pay_now env) i (first_payment env w i s)) = Inr (session, url)"
  defines "until \<equiv> expires_at (pay_now env) * 1000"
  shows "\<exists>w'. createCheckoutSession env uid i w = (Inr url, w') \<and>
    rows (payments (db w')) = rows (payments (db w)) @ [(first_payment env w i s)\<lparr>stripeSessionId := session\<rparr>] \<and>
    reservations (db w') = update_row i (\<lambda>r. r\<lparr>heldUntil := Some until\<rparr>) (reservations (db w))"
proof -
  note a = assms(1) [unfolded checkout_ready_def]
  let ?p = "first_payment env w i s"
  let ?d = "with_payment ?p (db w)"
  let ?f = "\<lambda>p :: payment. p\<lparr>stripeSessionId := session\<rparr>" and ?g = "\<lambda>r :: reservation. r\<lparr>heldUntil := Some until\<rparr>"
  let ?d1 = "?d\<lparr>payments := update_row (rid ?p) ?f (payments ?d)\<rparr>"
  have ok: "db_ok ?d" by (rule checkout_start(2) [OF assms(1,2)])
  have found: "find_row (rid ?p) (payments ?d) = Some ?p" using a by (intro find_with_payment) simp_all
  have nc: "no_clash ?d (rid ?p) (?f ?p)" by (rule no_clash_same [OF ok found]) simp_all
  have u: "update_payment (rid ?p) ?f ?d = Inr (?f ?p, ?d1)"
    by (rule update_payment_run [where f = ?f, OF ok found _ _ nc]) simp_all
  have ok1: "db_ok ?d1" by (rule db_ok_update_payment [OF ok _ u]) simp
  let ?w' = "w\<lparr>db := ?d1\<lparr>reservations := update_row i ?g (reservations (db w))\<rparr>\<rparr>"
  have ext: "extendHold None i until (w\<lparr>db := ?d1\<rparr>) = (Inr (?g r), ?w')"
    using run_extendHold [of "w\<lparr>db := ?d1\<rparr>" i r until] ok1 a by simp
  have "createCheckoutSession env uid i w = (Inr url, ?w')"
    unfolding checkout_start(1) [OF assms(1,2)] using u ext
    by (simp add: catch_err_def await_def from_stripe_run assms(3) payments_updateById_def run_stmt_def ret_run until_def)
  moreover have "rows (payments (db ?w')) = rows (payments (db w)) @ [?f ?p]"
    using update_with_payment [of "db w" ?p ?f] a by simp
  ultimately show ?thesis by (intro exI [of _ ?w']) simp
qed

text \<open>C21. A checkout of one's own held reservation that has no payment asks Stripe for a session over
  the screening's price in cents, with the payment's id as metadata and an expiry 30 minutes ahead.
  When Stripe answers, the pending payment carries the session and the hold lasts exactly until the
  session expires; when Stripe fails, its error is thrown and the payment is gone again, with every
  reservation as it was.\<close>

theorem checkout_outcome:
  assumes "db_ok (db w)" and "find_row i (reservations (db w)) = Some r" and "res_userId r = uid"
    and "res_status r = HELD" and "\<forall>p \<in> set (rows (payments (db w))). pay_reservationId p \<noteq> i"
    and "find_row (res_screeningId r) (screenings (db w)) = Some s" and "fits_int32 (price s * 100)"
    and "\<And>x. pay_fault env x = None"
  shows "\<exists>w'. let p = new_payment (pay_now env) i (price s * 100) ''usd'' (next_id (payments (db w))) in
    case create_session env \<lparr>sr_currency = ''usd'', sr_product = ''Seat reservation #'' @ string_of_int i,
        sr_unit_amount = price s * 100, sr_expires_at = pay_now env div 1000 + 1800,
        sr_paymentId = string_of_int (rid p)\<rparr> of
      Inl m \<Rightarrow> createCheckoutSession env uid i w = (Inl (StripeError m), w') \<and>
        rows (payments (db w')) = rows (payments (db w)) \<and> reservations (db w') = reservations (db w)
    | Inr (session, url) \<Rightarrow> createCheckoutSession env uid i w = (Inr url, w') \<and>
        rows (payments (db w')) = rows (payments (db w)) @ [p\<lparr>stripeSessionId := session\<rparr>] \<and>
        find_row i (reservations (db w')) = Some (r\<lparr>heldUntil := Some ((pay_now env div 1000 + 1800) * 1000)\<rparr>) \<and>
        (\<forall>j. j \<noteq> i \<longrightarrow> find_row j (reservations (db w')) = find_row j (reservations (db w)))"
proof -
  let ?p = "first_payment env w i s"
  have ready: "checkout_ready w uid i r s" using assms(1-7) by (simp add: checkout_ready_def)
  have req: "session_request_for (pay_now env) i ?p = \<lparr>sr_currency = ''usd'', sr_product = ''Seat reservation #'' @ string_of_int i,
      sr_unit_amount = price s * 100, sr_expires_at = pay_now env div 1000 + 1800, sr_paymentId = string_of_int (rid ?p)\<rparr>"
    and until: "expires_at (pay_now env) * 1000 = (pay_now env div 1000 + 1800) * 1000"
    by (simp_all add: session_request_for_def expires_at_def CURRENCY_def CHECKOUT_EXPIRY_MINUTES_def)
  have find: "find_row j (update_row i (\<lambda>r. r\<lparr>heldUntil := t\<rparr>) (reservations (db w))) =
      (if j = i then map_option (\<lambda>r. r\<lparr>heldUntil := t\<rparr>) (find_row j (reservations (db w))) else find_row j (reservations (db w)))" for j t
    by (rule find_update_row) simp
  show ?thesis
  proof (cases "create_session env (session_request_for (pay_now env) i ?p)")
    case (Inl m)
    from checkout_failed [OF ready assms(8) Inl] Inl show ?thesis by (simp add: first_payment_def req [unfolded first_payment_def] Let_def)
  next
    case (Inr su)
    then obtain session url where su: "create_session env (session_request_for (pay_now env) i ?p) = Inr (session, url)" by (cases su) simp
    from checkout_done [OF ready assms(8) su] su show ?thesis
      using assms(2) by (auto simp: first_payment_def req [unfolded first_payment_def] Let_def until find)
  qed
qed

subsection \<open>Webhook\<close>

text \<open>No other active reservation has the seat of \<open>r\<close> at its screening.\<close>

definition seat_clear :: "db \<Rightarrow> reservation \<Rightarrow> bool" where
  "seat_clear d r \<longleftrightarrow> (\<forall>x \<in> set (rows (reservations d)). active_res x \<and> rid x \<noteq> rid r \<longrightarrow>
     \<not> (res_seatId x = res_seatId r \<and> res_screeningId x = res_screeningId r))"

lemma active_clear:
  assumes "db_ok d" and "r \<in> set (rows (reservations d))" and "active_res r"
  shows "seat_clear d r"
  unfolding seat_clear_def
proof (intro ballI impI)
  fix x
  assume x: "x \<in> set (rows (reservations d))" and a: "active_res x \<and> rid x \<noteq> rid r"
  have "reservation_unique (reservations d)" using assms(1) by (simp add: db_ok_defs)
  from active_unique_eq [OF this x assms(2) _ assms(3)] a
  show "\<not> (res_seatId x = res_seatId r \<and> res_screeningId x = res_screeningId r)" by blast
qed

lemma reservation_unique_update:
  assumes "wf_table t" and "reservation_unique t" and "find_row i t = Some r" and f: "\<And>r. rid (f r) = rid r"
    and same: "res_seatId (f r) = res_seatId r" "res_screeningId (f r) = res_screeningId r"
    and clear: "\<forall>x \<in> set (rows t). active_res x \<and> rid x \<noteq> rid r \<longrightarrow>
      \<not> (res_seatId x = res_seatId r \<and> res_screeningId x = res_screeningId r)"
  shows "reservation_unique (update_row i f t)"
proof -
  let ?k = "\<lambda>r. (res_seatId r, res_screeningId r)"
  have only: "x = r" if "x \<in> set (rows t)" "rid x = i" for x
    using mem_find_row [OF assms(1) that(1)] that(2) assms(3) by simp
  have ri: "rid r = i" by (rule find_row_key [OF assms(3)])
  have "distinct (map ?k (filter active_res (map (\<lambda>r. if rid r = i then f r else r) xs)))"
    if "distinct (map rid xs)" "distinct (map ?k (filter active_res xs))" "set xs \<subseteq> set (rows t)" for xs
    using that
  proof (induction xs)
    case (Cons x xs)
    let ?g = "\<lambda>r. if rid r = i then f r else r"
    have IH: "distinct (map ?k (filter active_res (map ?g xs)))"
      using Cons by (auto split: if_splits)
    have "?k (?g x) \<noteq> ?k (?g y)" if y: "y \<in> set xs" "active_res (?g x)" "active_res (?g y)" for y
    proof -
      from y(1) Cons.prems(1) have ne: "rid x \<noteq> rid y" by (auto simp: image_iff)
      have mem: "x \<in> set (rows t)" "y \<in> set (rows t)" using Cons.prems(3) y(1) by auto
      consider "rid x = i" "rid y \<noteq> i" | "rid y = i" "rid x \<noteq> i" | "rid x \<noteq> i" "rid y \<noteq> i" using ne by auto
      then show ?thesis
      proof cases
        case 1
        with only [OF mem(1)] have "x = r" by simp
        with 1 y(3) clear mem(2) ri same show ?thesis by auto
      next
        case 2
        with only [OF mem(2)] have "y = r" by simp
        with 2 y(2) clear mem(1) ri same show ?thesis by auto
      next
        case 3
        with y Cons.prems(2) show ?thesis by (auto simp: image_iff)
      qed
    qed
    then have "?k (?g x) \<notin> set (map ?k (filter active_res (map ?g xs)))" if "active_res (?g x)"
      using that unfolding set_map set_filter by blast
    with IH show ?case by simp
  qed simp
  with assms(1,2) show ?thesis by (simp add: reservation_unique_def rows_update_row wf_table_def ids_def)
qed

lemma update_reservation_clear:
  assumes d: "db_ok d" and r: "find_row i (reservations d) = Some r"
    and f: "\<And>r. rid (f r) = rid r" "\<And>r. res_screeningId (f r) = res_screeningId r"
      "\<And>r. res_seatId (f r) = res_seatId r" "\<And>r. res_userId (f r) = res_userId r"
    and c: "seat_clear d r"
  shows "update_reservation i f d = Inr (f r, d\<lparr>reservations := update_row i f (reservations d)\<rparr>)"
proof -
  let ?t = "reservations d"
  have "reservation_unique (update_row i f ?t)"
    using d r f c unfolding seat_clear_def by (intro reservation_unique_update) (auto simp: db_ok_defs)
  moreover have "reservation_fk d (f r)"
    using d find_row_mem [OF r] f by (simp add: db_ok_defs reservation_fk_def)
  ultimately show ?thesis
    using r by (simp add: update_reservation_def on_table_def try_update_def)
qed

definition event_marked :: "string \<Rightarrow> db \<Rightarrow> bool" where
  "event_marked e d \<longleftrightarrow> (\<exists>p \<in> set (rows (payments d)). stripeEventId p = Some e)"

lemma webhook_run:
  assumes "construct_event env raw sig = Inr e"
  shows "handleWebhookEvent env raw sig w =
    (if event_marked (ev_id e) (db w) then (Inr True, w)
     else case dispatch_event env e w of (Inl x, w') \<Rightarrow> (Inl x, w') | (Inr _, w') \<Rightarrow> (Inr True, w'))"
proof -
  let ?find = "List.find (\<lambda>p. stripeEventId p = Some (ev_id e)) (rows (payments (db w)))"
  have "?find = None \<longleftrightarrow> \<not> event_marked (ev_id e) (db w)"
    by (auto simp: find_None_iff event_marked_def)
  then show ?thesis
    by (cases ?find) (simp_all add: handleWebhookEvent_def assms payments_findByStripeEventId_def await_query
        ret_run, simp add: await_def ret_run split: prod.split sum.split)
qed

lemma updateById_marks:
  assumes "payments_updateById fault i f w = (Inr p, w')" and "\<And>p. stripeEventId (f p) = Some e"
    and "\<And>p. rid (f p) = rid p"
  shows "event_marked e (db w')"
proof -
  from assms(1) obtain j where j: "i = Some j" "fault = None"
    by (auto simp: payments_updateById_def throw_run run_stmt_def split: option.splits)
  with assms(1) obtain d' where u: "update_payment j f (db w) = Inr (p, d')" and w': "w' = w\<lparr>db := d'\<rparr>"
    by (auto simp: payments_updateById_def run_stmt_def split: sum.splits)
  from u show ?thesis unfolding update_payment_def
  proof (rule update_stmtE)
    fix r0
    assume r0: "find_row j (payments (db w)) = Some r0"
      and d': "d' = (db w)\<lparr>payments := update_row j f (payments (db w))\<rparr>"
    have "f r0 \<in> set (rows (payments d'))"
      unfolding d' using find_row_mem [OF r0] find_row_key [OF r0] by (force simp: rows_update_row)
    then have "\<exists>p \<in> set (rows (payments d')). stripeEventId p = Some e" by (rule bexI [rotated]) (rule assms(2))
    then show ?thesis by (simp add: event_marked_def w')
  qed
qed

lemma keeps_frames: "keeps_db P (inc f)" "keeps_db P (getById i)" "keeps_db P (recordFailure t u uid)"
    "keeps_db P (record_audit a)"
  by (intro keeps_rules)+

lemma keeps_marked: "keeps_db (event_marked e) m \<Longrightarrow> m w = (x, w') \<Longrightarrow> event_marked e (db w) \<Longrightarrow> event_marked e (db w')"
  using keeps_dbD [of "event_marked e" m w] by simp

text \<open>What an event must refer to so that handling it marks a payment: an existing one.\<close>

definition event_has_payment :: "db \<Rightarrow> event_data \<Rightarrow> bool" where
  "event_has_payment d ev \<longleftrightarrow> (case ev of
       CheckoutCompleted s \<Rightarrow> (\<exists>i. paymentIdFrom s = Some i \<and> find_row i (payments d) \<noteq> None)
     | DisputeCreated x \<Rightarrow> (\<exists>p \<in> set (rows (payments d)). stripePaymentId p = dp_payment_intent x)
     | OtherEvent _ \<Rightarrow> False
     | _ \<Rightarrow> True)"

lemma completed_marks:
  assumes "handleCheckoutCompleted env e s w = (Inr (), w')" and "paymentIdFrom s = Some i" and "find_row i (payments (db w)) = Some p"
  shows "event_marked e (db w')"
proof (cases "cs_payment_status s = ''paid''")
  case True
  with assms obtain r w1 p1 w2 w3
    where u: "payments_updateById (pay_fault env AtPaymentUpdate) (Some i) (\<lambda>p. p\<lparr>pay_status := SUCCEEDED,
        stripeEventId := Some e, stripePaymentId := cs_payment_intent s\<rparr>) w1 = (Inr p1, w2)"
      and rest: "inc (\<lambda>m. m\<lparr>payments_succeeded_total := payments_succeeded_total m + 1\<rparr>) w2 = (Inr (), w3)"
        "record_audit (on_target ''payment.succeeded'' ''payment'' (rid p)) w3 = (Inr (), w')"
    by (auto simp: handleCheckoutCompleted_def payments_findById_def await_query elim!: await_returnsE)
  from updateById_marks [OF u] have "event_marked e (db w2)" by simp
  from keeps_marked [OF keeps_frames(4) rest(2) keeps_marked [OF keeps_frames(1) rest(1) this]] show ?thesis .
next
  case False
  with assms obtain p1 where "payments_updateById (pay_fault env AtPaymentUpdate) (Some i) (\<lambda>p. p\<lparr>pay_status := IN_PROGRESS,
        stripeEventId := Some e\<rparr>) w = (Inr p1, w')"
    by (auto simp: handleCheckoutCompleted_def payments_findById_def await_query ret_run elim!: await_returnsE)
  from updateById_marks [OF this] show ?thesis by simp
qed

lemma async_failed_marks:
  assumes "handleAsyncPaymentFailed env e s w = (Inr (), w')"
  shows "event_marked e (db w')"
proof -
  from assms obtain p1 w1 r w2 w3 w4 where
      u: "payments_updateById (pay_fault env AtPaymentUpdate) (paymentIdFrom s) (\<lambda>p. p\<lparr>pay_status := FAILED,
          stripeEventId := Some e\<rparr>) w = (Inr p1, w1)"
    and g: "getById (pay_reservationId p1) w1 = (Inr r, w2)"
    and a: "recordFailure (pay_now env) (pay_uuid env (rid p1)) (res_userId r) w2 = (Inr (), w3)"
    and k: "inc (\<lambda>m. m\<lparr>payments_failed_total := payments_failed_total m + 1\<rparr>) w3 = (Inr (), w4)"
      "record_audit (on_target ''payment.failed'' ''payment'' (rid p1)) w4 = (Inr (), w')"
    by (auto simp: handleAsyncPaymentFailed_def elim!: await_returnsE)
  from updateById_marks [OF u] have "event_marked e (db w1)" by simp
  from keeps_marked [OF keeps_frames(4) k(2) keeps_marked [OF keeps_frames(1) k(1) keeps_marked [OF keeps_frames(3) a
      keeps_marked [OF keeps_frames(2) g this]]]]
  show ?thesis .
qed

lemma expired_marks:
  assumes "handleCheckoutExpired env e s w = (Inr (), w')"
  shows "event_marked e (db w')"
proof -
  from assms obtain p1 w1 where
      u: "payments_updateById (pay_fault env AtPaymentUpdate) (paymentIdFrom s) (\<lambda>p. p\<lparr>pay_status := TIMED_OUT,
          stripeEventId := Some e\<rparr>) w = (Inr p1, w1)"
    and k: "inc (\<lambda>m. m\<lparr>payments_timed_out_total := payments_timed_out_total m + 1\<rparr>) w1 = (Inr (), w')"
    by (auto simp: handleCheckoutExpired_def elim!: await_returnsE)
  from updateById_marks [OF u] have "event_marked e (db w1)" by simp
  from keeps_marked [OF keeps_frames(1) k this] show ?thesis .
qed

lemma dispute_marks:
  assumes "handleDisputeCreated env e x w = (Inr (), w')" and "q \<in> set (rows (payments (db w)))" "stripePaymentId q = dp_payment_intent x"
  shows "event_marked e (db w')"
proof -
  obtain t where t: "dp_payment_intent x = Some t"
    using assms(1) by (cases "dp_payment_intent x") (auto simp: handleDisputeCreated_def payments_findByStripePaymentId_def act_simps)
  with assms(2,3) have "List.find (\<lambda>p. stripePaymentId p = Some t) (rows (payments (db w))) \<noteq> None" by (auto simp: find_None_iff)
  then obtain p where p: "List.find (\<lambda>p. stripePaymentId p = Some t) (rows (payments (db w))) = Some p" by blast
  with assms(1) t obtain p1 w1
    where u: "payments_updateById (pay_fault env AtPaymentUpdate) (Some (rid p))
       (\<lambda>p. p\<lparr>disputed := Some True, disputeReason := Some (dp_reason x), disputedAt := Some (pay_now env),
          stripeEventId := Some e\<rparr>) w = (Inr p1, w1)" and w1: "db w' = db w1"
    by (auto simp: handleDisputeCreated_def payments_findByStripePaymentId_def await_query record_audit_run elim!: await_returnsE)
  from updateById_marks [OF u] show ?thesis by (simp add: w1)
qed

lemma dispatch_marks:
  assumes "dispatch_event env e w = (Inr (), w')" and "event_has_payment (db w) (ev_data e)"
  shows "event_marked (ev_id e) (db w')"
  using assms completed_marks async_failed_marks expired_marks dispute_marks
  by (auto simp: dispatch_event_def event_has_payment_def split: event_data.splits)

text \<open>C17. Redelivery: once a Stripe event that refers to a payment was handled, a delivery of an event with the same id is
  acknowledged without any effect, right after or in any later state in which the payments are still as that handling left
  them, whatever else has changed. (A payment remembers only its last event: after another event of the same payment the
  first one is handled again, see Settlement.) A body whose signature does not verify is a 400 without any effect.\<close>

theorem webhook_redelivery:
  assumes "construct_event env raw sig = Inr e" and "event_has_payment (db w) (ev_data e)"
    and "handleWebhookEvent env raw sig w = (Inr True, w')" and "payments (db w2) = payments (db w')"
    and "construct_event env' raw' sig' = Inr e'" and "ev_id e' = ev_id e" and "construct_event env' bad sig' = Inl m"
  shows "handleWebhookEvent env' raw' sig' w2 = (Inr True, w2) \<and>
    handleWebhookEvent env' bad sig' w2 =
      (Inl (BadRequestException (''Webhook signature verification failed: '' @ m)), w2)"
proof -
  have "event_marked (ev_id e) (db w')"
    using assms(3) dispatch_marks [OF _ assms(2), of env w'] unfolding webhook_run [OF assms(1)]
    by (auto split: if_splits prod.splits sum.splits)
  then have "event_marked (ev_id e) (db w2)" by (simp add: event_marked_def assms(4))
  then show ?thesis
    using assms(6) by (simp add: webhook_run [OF assms(5)]) (simp add: handleWebhookEvent_def assms(7) throw_run)
qed

subsection \<open>A paid session\<close>

definition confirmed_res :: "reservation \<Rightarrow> reservation" where
  "confirmed_res r = r\<lparr>res_status := CONFIRMED, heldUntil := None\<rparr>"

definition paid_payment :: "string \<Rightarrow> string option \<Rightarrow> payment \<Rightarrow> payment" where
  "paid_payment e intent p = p\<lparr>pay_status := SUCCEEDED, stripeEventId := Some e, stripePaymentId := intent\<rparr>"

lemma run_confirmPayment:
  assumes "db_ok (db w)" and "find_row i (reservations (db w)) = Some r" and "seat_clear (db w) r"
  shows "confirmPayment None i w = (Inr (confirmed_res r),
    snd (publish_event (ReservationConfirmed (res_screeningId r) [res_seatId r])
      (w\<lparr>db := (db w)\<lparr>reservations := update_row i confirmed_res (reservations (db w))\<rparr>\<rparr>)))"
proof -
  have "update_reservation i confirmed_res (db w) =
      Inr (confirmed_res r, (db w)\<lparr>reservations := update_row i confirmed_res (reservations (db w))\<rparr>)"
    by (rule update_reservation_clear [OF assms(1,2) _ _ _ _ assms(3)]) (simp_all add: confirmed_res_def)
  then show ?thesis
    by (simp add: confirmPayment_def reservations_confirm_def confirmed_res_def [abs_def] await_def run_stmt_def
        publish_event_run ret_run)
qed

text \<open>A delivery of a paid session of payment \<open>p\<close>, of reservation \<open>r\<close>, that was not handled before.\<close>

definition paid_delivery ::
  "stripe_env \<Rightarrow> string \<Rightarrow> string \<Rightarrow> stripe_event \<Rightarrow> checkout_session \<Rightarrow> world \<Rightarrow> payment \<Rightarrow> reservation \<Rightarrow> bool" where
  "paid_delivery env raw sig e s w p r \<longleftrightarrow> db_ok (db w) \<and> construct_event env raw sig = Inr e \<and>
     ev_data e = CheckoutCompleted s \<and> cs_payment_status s = ''paid'' \<and> paymentIdFrom s = Some (rid p) \<and>
     find_row (rid p) (payments (db w)) = Some p \<and> find_row (pay_reservationId p) (reservations (db w)) = Some r \<and>
     \<not> event_marked (ev_id e) (db w) \<and> (\<forall>q \<in> set (rows (payments (db w))). rid q \<noteq> rid p \<longrightarrow>
       cs_payment_intent s \<noteq> None \<longrightarrow> stripePaymentId q \<noteq> cs_payment_intent s)"

lemma completed_paid_run:
  assumes "cs_payment_status s = ''paid''" and "paymentIdFrom s = Some (rid p)" and "find_row (rid p) (payments (db w)) = Some p"
    and conf: "confirmPayment None (pay_reservationId p) w = (Inr r, w1)" and nf: "pay_fault env AtConfirm = None"
    and u: "update_payment (rid p) (paid_payment i (cs_payment_intent s)) (db w1) = Inr (p', d)"
  shows "handleCheckoutCompleted env i s w = (case pay_fault env AtPaymentUpdate of
      Some x \<Rightarrow> (Inl (Prisma x), w1)
    | None \<Rightarrow> (Inr (), w1\<lparr>db := d, metrics := (metrics w1)\<lparr>payments_succeeded_total := payments_succeeded_total (metrics w1) + 1\<rparr>,
             audit_log := audit_log w1 @ [on_target ''payment.succeeded'' ''payment'' (rid p)]\<rparr>))"
proof -
  have after: "await (confirmPayment None (pay_reservationId p)) k w = k r w1" for k :: "reservation \<Rightarrow> unit service"
    by (simp add: await_def conf)
  show ?thesis
  proof (cases "pay_fault env AtPaymentUpdate")
    case None
    have upd: "await (payments_updateById None (Some (rid p)) (paid_payment i (cs_payment_intent s))) k w1 = k p' (w1\<lparr>db := d\<rparr>)"
      for k :: "payment \<Rightarrow> unit service"
      using u by (simp add: payments_updateById_def run_stmt_def await_def)
    show ?thesis
      using assms(1-3) nf None
      by (simp add: handleCheckoutCompleted_def payments_findById_def await_query after
          upd [unfolded paid_payment_def [abs_def]] inc_def await_modify record_audit_run)
  next
    case (Some x)
    have upd: "await (payments_updateById (Some x) (Some (rid p)) f) k w1 = (Inl (Prisma x), w1)" for f and k :: "payment \<Rightarrow> unit service"
      by (simp add: payments_updateById_def run_stmt_def await_def)
    show ?thesis using assms(1-3) nf Some by (simp add: handleCheckoutCompleted_def payments_findById_def await_query after upd)
  qed
qed

lemma paid_delivery_run:
  assumes "paid_delivery env raw sig e s w p r" and "seat_clear (db w) r" and "pay_fault env AtConfirm = None"
  shows "handleWebhookEvent env raw sig w =
    (let d = (db w)\<lparr>reservations := update_row (rid r) confirmed_res (reservations (db w))\<rparr>;
         w1 = snd (publish_event (ReservationConfirmed (res_screeningId r) [res_seatId r]) (w\<lparr>db := d\<rparr>))
     in case pay_fault env AtPaymentUpdate of
          Some x \<Rightarrow> (Inl (Prisma x), w1)
        | None \<Rightarrow> (Inr True, w1\<lparr>db := d\<lparr>payments :=
             update_row (rid p) (paid_payment (ev_id e) (cs_payment_intent s)) (payments d)\<rparr>,
             metrics := (metrics w1)\<lparr>payments_succeeded_total := payments_succeeded_total (metrics w1) + 1\<rparr>,
             audit_log := audit_log w1 @ [on_target ''payment.succeeded'' ''payment'' (rid p)]\<rparr>))"
proof -
  note a = assms(1) [unfolded paid_delivery_def]
  have ri: "pay_reservationId p = rid r" using a find_row_key by fastforce
  let ?f = "paid_payment (ev_id e) (cs_payment_intent s)"
  let ?d = "(db w)\<lparr>reservations := update_row (rid r) confirmed_res (reservations (db w))\<rparr>"
  let ?w = "snd (publish_event (ReservationConfirmed (res_screeningId r) [res_seatId r]) (w\<lparr>db := ?d\<rparr>))"
  have conf: "confirmPayment None (rid r) w = (Inr (confirmed_res r), ?w)"
    using run_confirmPayment [of w "rid r" r] a assms(2) ri by simp
  have dw: "db ?w = ?d" by (simp add: publish_event_run)
  have ok: "db_ok ?d"
    using keeps_dbD [of db_ok "confirmPayment None (rid r)" w] keeps_reservation_services(8) a conf dw by simp
  have "no_clash ?d (rid p) (?f p)"
    using a unfolding no_clash_def event_marked_def by (auto simp: paid_payment_def)
  then have u: "update_payment (rid p) ?f ?d = Inr (?f p, ?d\<lparr>payments := update_row (rid p) ?f (payments ?d)\<rparr>)"
    using a by (intro update_payment_run ok) (simp_all add: paid_payment_def)
  have "handleWebhookEvent env raw sig w = (case handleCheckoutCompleted env (ev_id e) s w of
      (Inl x, w') \<Rightarrow> (Inl x, w') | (Inr _, w') \<Rightarrow> (Inr True, w'))"
    using a webhook_run [of env raw sig e w] by (simp add: dispatch_event_def)
  with completed_paid_run [of s p w "confirmed_res r" ?w env "ev_id e" "?f p"] a assms(3) conf u ri dw
  show ?thesis by (simp add: Let_def dw split: option.split)
qed

lemma confirmed_survives:
  assumes "find_row i (reservations (db w)) = Some r" and "res_status r = CONFIRMED"
  shows "find_row i (reservations (db (snd (expireHolds None t w)))) = Some r"
proof -
  have "db (snd (expireHolds None t w)) = snd (release_expired t (db w))"
    using publish_all_run by (simp add: expireHolds_run)
  moreover have "find_row i (reservations (snd (release_expired t (db w)))) =
      map_option (expire_row t) (find_row i (reservations (db w)))"
    by (intro find_row_map) (simp_all add: release_expired_rows expire_row_def)
  ultimately show ?thesis using assms by (simp add: expire_row_def hold_expired_def)
qed

text \<open>C16. The first delivery of a paid session, when no one else has the seat and no statement of the database fails, confirms:
  the webhook is acknowledged, the reservation is CONFIRMED without a deadline, the payment SUCCEEDED with its event and
  payment intent, nobody else's reservation or payment changes, and no expiry sweep takes the seat away. (Late payments and
  deliveries that fail half-way are below.)\<close>

theorem paid_session_confirms:
  assumes "paid_delivery env raw sig e s w p r" and "seat_clear (db w) r" and "\<And>x. pay_fault env x = None"
  shows "\<exists>w'. handleWebhookEvent env raw sig w = (Inr True, w') \<and>
    reservations (db w') = update_row (rid r) (\<lambda>r. r\<lparr>res_status := CONFIRMED, heldUntil := None\<rparr>) (reservations (db w)) \<and>
    payments (db w') = update_row (rid p) (\<lambda>p. p\<lparr>pay_status := SUCCEEDED, stripeEventId := Some (ev_id e),
      stripePaymentId := cs_payment_intent s\<rparr>) (payments (db w)) \<and>
    emitted w' = emitted w @ [ReservationConfirmed (res_screeningId r) [res_seatId r]] \<and>
    find_row (rid r) (reservations (db (snd (expireHolds None t w')))) =
      Some (r\<lparr>res_status := CONFIRMED, heldUntil := None\<rparr>)"
proof -
  let ?w = "snd (handleWebhookEvent env raw sig w)"
  have run: "handleWebhookEvent env raw sig w = (Inr True, ?w)"
    and res: "reservations (db ?w) = update_row (rid r) confirmed_res (reservations (db w))"
    and pay: "payments (db ?w) = update_row (rid p) (paid_payment (ev_id e) (cs_payment_intent s)) (payments (db w))"
    and em: "emitted ?w = emitted w @ [ReservationConfirmed (res_screeningId r) [res_seatId r]]"
    by (simp_all add: paid_delivery_run [OF assms(1,2,3)] assms(3) Let_def publish_event_run)
  have "find_row (rid r) (reservations (db w)) = Some r"
    using assms(1) find_row_key unfolding paid_delivery_def by metis
  then have "find_row (rid r) (reservations (db ?w)) = Some (confirmed_res r)"
    unfolding res by (subst find_update_row) (simp_all add: confirmed_res_def)
  from confirmed_survives [OF this] run res pay em show ?thesis
    by (intro exI [of _ ?w]) (simp add: confirmed_res_def [abs_def] paid_payment_def [abs_def])
qed

text \<open>A delivery that failed half-way is finished by the redelivery: when the database fails after the
  reservation was confirmed, the delivery is an error, the payment is untouched and not marked as handled,
  and a fault-free redelivery leaves the same reservations and payments as a fault-free first delivery.\<close>

theorem half_done_webhook_recovers:
  assumes "paid_delivery env raw sig e s w p r" and "seat_clear (db w) r" and "\<And>x. pay_fault env x = None"
    and "env' = env\<lparr>pay_fault := (\<lambda>x. if x = AtPaymentUpdate then Some f else None)\<rparr>"
  shows "\<exists>w1 w2 w'. handleWebhookEvent env' raw sig w = (Inl (Prisma f), w1) \<and>
    payments (db w1) = payments (db w) \<and>
    handleWebhookEvent env raw sig w1 = (Inr True, w2) \<and>
    handleWebhookEvent env raw sig w = (Inr True, w') \<and> db w2 = db w'"
proof -
  let ?d = "(db w)\<lparr>reservations := update_row (rid r) confirmed_res (reservations (db w))\<rparr>"
  let ?w1 = "snd (publish_event (ReservationConfirmed (res_screeningId r) [res_seatId r]) (w\<lparr>db := ?d\<rparr>))"
  have d1: "db ?w1 = ?d" by (simp add: publish_event_run)
  have del: "paid_delivery env' raw sig e s w p r"
    using assms(1) by (simp add: paid_delivery_def assms(4))
  then have first: "handleWebhookEvent env' raw sig w = (Inl (Prisma f), ?w1)"
    by (subst paid_delivery_run [OF del assms(2)]) (simp_all add: assms(4) Let_def)
  have mem: "find_row (rid r) (reservations (db w)) = Some r" and ri: "pay_reservationId p = rid r"
    using assms(1) find_row_key unfolding paid_delivery_def by metis+
  have ok: "db_ok (db ?w1)"
    using keeps_dbD [of db_ok "handleWebhookEvent env' raw sig" w] keeps_payment_services(1) assms(1) first
    by (simp add: paid_delivery_def)
  have row: "find_row (rid r) (reservations ?d) = Some (confirmed_res r)"
    using mem by (simp add: find_update_row confirmed_res_def)
  have twice: "update_row (rid r) confirmed_res (update_row (rid r) confirmed_res t) = update_row (rid r) confirmed_res t" for t
    by (simp add: update_row_def confirmed_res_def)
  have "paid_delivery env raw sig e s ?w1 p (confirmed_res r)"
    using assms(1) ok row ri unfolding paid_delivery_def d1 by (simp add: event_marked_def)
  moreover have "seat_clear (db ?w1) (confirmed_res r)"
    unfolding d1 using ok row find_row_mem [OF row]
    by (intro active_clear) (simp_all add: d1 active_res_def confirmed_res_def)
  moreover have "rid (confirmed_res r) = rid r" by (simp add: confirmed_res_def)
  ultimately show ?thesis
    using first paid_delivery_run [OF assms(1,2,3)] paid_delivery_run [of env raw sig e s ?w1 p "confirmed_res r"] assms(3)
    by (simp add: Let_def d1 twice publish_event_run)
qed

text \<open>C37. Late payment: when the hold was given up and another user has the seat since, the webhook of the
  paid session is refused by the unique index, at this and every later delivery, and leaves the database as it was: the
  customer is charged, the reservation stays CANCELLED and the payment unsettled.\<close>

theorem late_payment_is_lost:
  assumes "paid_delivery env raw sig e s w p r" and "res_status r = CANCELLED"
    and "r' \<in> set (rows (reservations (db w)))" and "active_res r'"
    and "res_seatId r' = res_seatId r" and "res_screeningId r' = res_screeningId r" and "pay_fault env AtConfirm = None"
  shows "handleWebhookEvent env raw sig w = (Inl (Prisma P2002), w)"
proof -
  note a = assms(1) [unfolded paid_delivery_def]
  have ri: "pay_reservationId p = rid r" and mem: "find_row (rid r) (reservations (db w)) = Some r"
    using a find_row_key by metis+
  have "rid r' \<noteq> rid r"
  proof
    assume "rid r' = rid r"
    then have "find_row (rid r) (reservations (db w)) = Some r'"
      using a assms(3) mem_find_row [of "reservations (db w)" r'] by (simp add: db_ok_defs)
    with mem assms(2,4) show False by (simp add: active_res_def)
  qed
  with mem have "update_reservation (rid r) confirmed_res (db w) = Inl P2002"
    using assms(4) by (intro update_reservation_clash [OF mem assms(3) \<open>rid r' \<noteq> rid r\<close>])
      (simp_all add: confirmed_res_def active_res_def assms(5,6))
  then have "await (confirmPayment None (rid r)) k w = (Inl (Prisma P2002), w)" for k :: "reservation \<Rightarrow> unit service"
    by (simp add: confirmPayment_def reservations_confirm_def confirmed_res_def [abs_def] await_def run_stmt_def)
  then show ?thesis
    using a assms(7) ri webhook_run [of env raw sig e w]
    by (simp add: dispatch_event_def handleCheckoutCompleted_def payments_findById_def await_query)
qed

subsection \<open>The properties on the sample database\<close>

definition sample_session :: checkout_session where
  "sample_session = \<lparr>cs_paymentId = Some ''1'', cs_payment_status = ''paid'', cs_payment_intent = Some ''pi''\<rparr>"

text \<open>A Stripe whose calls succeed; the signature \<open>ok\<close> verifies a body that is not empty, and the body is the event's id.\<close>

definition sample_stripe :: stripe_env where
  "sample_stripe = \<lparr>create_session = (\<lambda>_. Inr (''cs'', Some ''url'')), create_refund = (\<lambda>_. Inr ''re''),
     retrieve_session = (\<lambda>_. Inr sample_session),
     construct_event = (\<lambda>raw sig. if sig = ''ok'' \<and> raw \<noteq> [] then Inr \<lparr>ev_id = raw, ev_data = CheckoutCompleted sample_session\<rparr>
        else Inl ''no match''),
     pay_now = 1000, pay_uuid = (\<lambda>_. ''u''), pay_fault = (\<lambda>_. None)\<rparr>"

definition sample_payment :: payment where
  "sample_payment = new_payment 1000 1 50000 ''usd'' 1"

definition sample_paid_db :: "reservation_status \<Rightarrow> db" where
  "sample_paid_db st = sample_db\<lparr>payments := \<lparr>rows = [sample_payment], next_id = 2\<rparr>,
     reservations := \<lparr>rows = [sample_reservation\<lparr>res_status := st\<rparr>], next_id = 2\<rparr>\<rparr>"

text \<open>The same, with the seat taken by user 2 after the first reservation was given up.\<close>

definition sample_late_db :: db where
  "sample_late_db = (sample_paid_db CANCELLED)\<lparr>reservations := \<lparr>rows = [sample_reservation\<lparr>res_status := CANCELLED\<rparr>,
     sample_reservation\<lparr>rid := 2, res_userId := 2\<rparr>], next_id = 3\<rparr>\<rparr>"

lemmas sample_pay_defs = sample_paid_db_def sample_late_db_def sample_payment_def new_payment_def sample_session_def
  sample_stripe_def

lemma sample_paid_ok: "db_ok (sample_paid_db st)"
  by (cases st) (simp_all add: db_ok_defs fk_defs sample_defs sample_pay_defs wf_table_def ids_def user_unique_def
      seat_unique_def reservation_unique_def active_res_def payment_unique_def policy_unique_def unique_nullable_def
      map_filter_simps2)

lemma sample_late_ok: "db_ok sample_late_db"
  by (simp add: db_ok_defs fk_defs sample_defs sample_pay_defs wf_table_def ids_def user_unique_def
      seat_unique_def reservation_unique_def active_res_def payment_unique_def policy_unique_def unique_nullable_def
      map_filter_simps2)

lemma sample_number: "number_of_string ''1'' = Some 1"
  by code_simp

lemma sample_delivery:
  assumes "d = sample_paid_db st \<or> d = sample_late_db \<and> st = CANCELLED"
  shows "paid_delivery sample_stripe ''e1'' ''ok'' \<lparr>ev_id = ''e1'', ev_data = CheckoutCompleted sample_session\<rparr>
    sample_session (world_of d) sample_payment (sample_reservation\<lparr>res_status := st\<rparr>)"
  using assms sample_paid_ok sample_late_ok
  by (auto simp: paid_delivery_def sample_world world_of_def sample_pay_defs sample_defs paymentIdFrom_def sample_number find_row_def
      event_marked_def)

theorem checkout_outcome_witness:
  "\<exists>w'. createCheckoutSession sample_stripe 1 1 (world_of sample_db) = (Inr (Some ''url''), w') \<and>
     rows (payments (db w')) = [sample_payment\<lparr>stripeSessionId := ''cs''\<rparr>]"
proof -
  have "find_row 1 (reservations sample_db) = Some sample_reservation" "rows (payments sample_db) = []"
    "find_row 1 (screenings sample_db) = Some sample_screening" "next_id (payments sample_db) = 1"
    by (simp_all add: find_row_def sample_defs empty_table_def)
  moreover have "res_userId sample_reservation = 1" "res_status sample_reservation = HELD"
    "res_screeningId sample_reservation = 1" "price sample_screening = 500" "fits_int32 50000"
    by (simp_all add: sample_defs fits_int32_def)
  moreover have "pay_fault sample_stripe x = None" "create_session sample_stripe q = Inr (''cs'', Some ''url'')"
    "pay_now sample_stripe = 1000" for x q by (simp_all add: sample_stripe_def)
  ultimately show ?thesis
    using checkout_outcome [of "world_of sample_db" 1 sample_reservation 1 sample_screening sample_stripe]
    by (auto simp: world_of_def sample_db_ok sample_payment_def Let_def)
qed

theorem paid_session_confirms_witness:
  "\<exists>w'. handleWebhookEvent sample_stripe ''e1'' ''ok'' (world_of (sample_paid_db HELD)) = (Inr True, w') \<and>
     emitted w' = [ReservationConfirmed 1 [1]]"
proof -
  have "seat_clear (sample_paid_db HELD) (sample_reservation\<lparr>res_status := HELD\<rparr>)"
    by (rule active_clear [OF sample_paid_ok]) (simp_all add: sample_paid_db_def active_res_def)
  moreover have "pay_fault sample_stripe x = None" for x by (simp add: sample_stripe_def)
  ultimately show ?thesis
    using paid_session_confirms [OF sample_delivery [of "sample_paid_db HELD" HELD], of 0]
    by (auto simp: world_of_def sample_reservation_def)
qed

theorem webhook_redelivery_witness:
  "\<exists>w'. handleWebhookEvent sample_stripe ''e1'' ''ok'' (world_of (sample_paid_db HELD)) = (Inr True, w') \<and>
     handleWebhookEvent sample_stripe ''e1'' ''ok'' w' = (Inr True, w')"
proof -
  let ?w = "world_of (sample_paid_db HELD)"
  let ?s = "snd (handleWebhookEvent sample_stripe ''e1'' ''ok'' ?w)"
  have "seat_clear (db ?w) (sample_reservation\<lparr>res_status := HELD\<rparr>)"
    unfolding sample_world world_of_def select_convs
    by (simp, rule active_clear [OF sample_paid_ok]) (simp_all add: sample_paid_db_def active_res_def)
  from paid_delivery_run [OF sample_delivery this]
  have "handleWebhookEvent sample_stripe ''e1'' ''ok'' ?w = (Inr True, ?s)"
    by (simp add: Let_def sample_stripe_def)
  moreover have "construct_event sample_stripe ''e1'' ''ok'' =
      Inr \<lparr>ev_id = ''e1'', ev_data = CheckoutCompleted sample_session\<rparr>" "construct_event sample_stripe [] ''ok'' = Inl ''no match''"
    by (simp_all add: sample_stripe_def)
  moreover have "event_has_payment (db ?w) (CheckoutCompleted sample_session)"
    by (auto simp: event_has_payment_def paymentIdFrom_def world_of_def sample_pay_defs sample_number find_row_def)
  ultimately show ?thesis
    using webhook_redelivery [of sample_stripe "''e1''" "''ok''" "\<lparr>ev_id = ''e1'', ev_data = CheckoutCompleted sample_session\<rparr>"
      ?w ?s ?s sample_stripe "''e1''" "''ok''" "\<lparr>ev_id = ''e1'', ev_data = CheckoutCompleted sample_session\<rparr>" "[]" "''no match''"]
    by (intro exI [of _ ?s]) simp
qed

theorem half_done_webhook_recovers_witness:
  "\<exists>w1 w2. handleWebhookEvent (sample_stripe\<lparr>pay_fault := (\<lambda>x. if x = AtPaymentUpdate then Some POther else None)\<rparr>)
       ''e1'' ''ok'' (world_of (sample_paid_db HELD)) = (Inl (Prisma POther), w1) \<and>
     handleWebhookEvent sample_stripe ''e1'' ''ok'' w1 = (Inr True, w2)"
proof -
  have "seat_clear (sample_paid_db HELD) (sample_reservation\<lparr>res_status := HELD\<rparr>)"
    by (rule active_clear [OF sample_paid_ok]) (simp_all add: sample_paid_db_def active_res_def)
  moreover have "pay_fault sample_stripe x = None" for x by (simp add: sample_stripe_def)
  ultimately show ?thesis
    using half_done_webhook_recovers [OF sample_delivery [of "sample_paid_db HELD" HELD] _ _ refl, of POther]
    by (auto simp: world_of_def)
qed

theorem late_payment_is_lost_witness:
  "handleWebhookEvent sample_stripe ''e1'' ''ok'' (world_of sample_late_db) = (Inl (Prisma P2002), world_of sample_late_db)"
  by (rule late_payment_is_lost [OF sample_delivery [of sample_late_db CANCELLED], of "sample_reservation\<lparr>rid := 2, res_userId := 2\<rparr>"])
    (simp_all add: world_of_def sample_late_db_def active_res_def sample_reservation_def sample_stripe_def)

end
