(* ===== verification/Ownership.thy ===== *)
theory Ownership
  imports PaymentFlows Transition
begin

text \<open>
  What booking promises, as a machine: a seat of a screening is free or belongs to one user, who has paid for it or
  not. The operations of the reservations and payments services refine it: each of them, whatever its outcome, takes
  a step of the machine that its arguments allow.
\<close>

subsection \<open>The machine\<close>

type_synonym place = "int \<times> int"            \<comment> \<open>screening, seat\<close>
type_synonym owners = "place \<Rightarrow> (int \<times> bool) option"

datatype own_label = Stay | Take place int | Pay place | Revive place int | Free "place set"

inductive own_step :: "own_label \<Rightarrow> owners \<Rightarrow> owners \<Rightarrow> bool" where
  stay: "own_step Stay A A"
| take_it: "A k = None \<Longrightarrow> own_step (Take k u) A (A(k \<mapsto> (u, False)))"
| pay: "A k = Some (u, b) \<Longrightarrow> own_step (Pay k) A (A(k \<mapsto> (u, True)))"
| revive: "A k = None \<Longrightarrow> own_step (Revive k u) A (A(k \<mapsto> (u, True)))"
| free: "\<forall>k \<in> K. A k \<noteq> None \<Longrightarrow> own_step (Free K) A (\<lambda>k. if k \<in> K then None else A k)"

inductive_cases own_stepE: "own_step l A A'"

text \<open>In one step a seat keeps its owner or becomes free.\<close>

lemma own_step_keeps:
  assumes "own_step l A A'" and "A k = Some (u, b)"
  shows "(\<exists>b'. A' k = Some (u, b')) \<or> (\<exists>K. l = Free K \<and> k \<in> K \<and> A' k = None)"
  using assms by (auto elim!: own_stepE)

subsection \<open>The abstraction\<close>

abbreviation place_of :: "reservation \<Rightarrow> place" where
  "place_of r \<equiv> (res_screeningId r, res_seatId r)"

definition owners_of :: "db \<Rightarrow> owners" where
  "owners_of d k = map_option (\<lambda>r. (res_userId r, res_status r = CONFIRMED))
     (List.find (\<lambda>r. active_res r \<and> place_of r = k) (rows (reservations d)))"

lemma owners_None: "owners_of d k = None \<longleftrightarrow> (\<forall>r \<in> set (rows (reservations d)). active_res r \<longrightarrow> place_of r \<noteq> k)"
  by (auto simp: owners_of_def find_None_iff)

lemma owners_Some:
  assumes "db_ok d"
  shows "owners_of d k = Some v \<longleftrightarrow>
    (\<exists>r \<in> set (rows (reservations d)). active_res r \<and> place_of r = k \<and> v = (res_userId r, res_status r = CONFIRMED))"
proof
  assume "owners_of d k = Some v"
  then show "\<exists>r \<in> set (rows (reservations d)). active_res r \<and> place_of r = k \<and> v = (res_userId r, res_status r = CONFIRMED)"
    by (auto simp: owners_of_def dest!: find_Some_mem)
next
  assume "\<exists>r \<in> set (rows (reservations d)). active_res r \<and> place_of r = k \<and> v = (res_userId r, res_status r = CONFIRMED)"
  then obtain r where r: "r \<in> set (rows (reservations d))" "active_res r" "place_of r = k" "v = (res_userId r, res_status r = CONFIRMED)" by blast
  then obtain r' where f: "List.find (\<lambda>r. active_res r \<and> place_of r = k) (rows (reservations d)) = Some r'"
    by (cases "List.find (\<lambda>r. active_res r \<and> place_of r = k) (rows (reservations d))") (auto simp: find_None_iff)
  have "r' = r" using find_Some_mem [OF f] r assms active_unique_eq [of "reservations d" r' r] by (auto simp: db_ok_defs)
  with f r show "owners_of d k = Some v" by (simp add: owners_of_def)
qed

lemma owners_ext:
  assumes "db_ok d" and "\<And>k v. A k = Some v \<longleftrightarrow>
    (\<exists>r \<in> set (rows (reservations d)). active_res r \<and> place_of r = k \<and> v = (res_userId r, res_status r = CONFIRMED))"
  shows "owners_of d = A"
proof
  fix k
  show "owners_of d k = A k"
    using owners_Some [OF assms(1), of k] assms(2) [of k] by (metis option.exhaust)
qed

text \<open>Inserting a hold, sweeping, and changing one row.\<close>

lemma owners_insert:
  assumes "db_ok d" and "db_ok d'" and "rows (reservations d') = rows (reservations d) @ [r]" and "active_res r"
  shows "owners_of d' = (owners_of d)(place_of r \<mapsto> (res_userId r, res_status r = CONFIRMED)) \<and> owners_of d (place_of r) = None"
proof -
  have un: "x = y" if "x \<in> set (rows (reservations d'))" "y \<in> set (rows (reservations d'))" "active_res x" "active_res y"
      "place_of x = place_of y" for x y
    using active_unique_eq [of "reservations d'" x y] that assms(2) by (auto simp: db_ok_defs)
  have ids: "distinct (map rid (rows (reservations d')))" using assms(2) by (simp add: db_ok_defs wf_table_def ids_def)
  have none: "owners_of d (place_of r) = None"
  proof (rule ccontr)
    assume "owners_of d (place_of r) \<noteq> None"
    then obtain x where "x \<in> set (rows (reservations d))" "active_res x" "place_of x = place_of r"
      by (auto simp: owners_None)
    then have "x = r" and "x \<in> set (rows (reservations d))" using un [of x r] assms(3,4) by simp_all
    with ids assms(3) show False by auto
  qed
  have "owners_of d' = (owners_of d)(place_of r \<mapsto> (res_userId r, res_status r = CONFIRMED))"
    using assms(3,4) none by (intro owners_ext [OF assms(2)]) (auto simp: owners_Some [OF assms(1)] owners_None)
  with none show ?thesis by simp
qed

text \<open>Of the rows after an update, one is the new row, and the others are the old ones.\<close>

lemma bex_updated:
  assumes "r \<in> set xs" and "rid r = i" and "\<And>y. y \<in> set xs \<Longrightarrow> rid y = i \<Longrightarrow> y = r"
  shows "(\<exists>y \<in> set xs. Q (if rid y = i then f y else y)) \<longleftrightarrow> Q (f r) \<or> (\<exists>y \<in> set xs. y \<noteq> r \<and> Q y)"
proof -
  have "Q (if rid y = i then f y else y) = (if y = r then Q (f r) else Q y)" if "y \<in> set xs" for y
    by (cases "y = r") (simp_all add: assms(2), use assms(3) [OF that] in blast)
  then have "(\<exists>y \<in> set xs. Q (if rid y = i then f y else y)) \<longleftrightarrow> (\<exists>y \<in> set xs. if y = r then Q (f r) else Q y)"
    by (intro bex_cong [OF refl])
  with assms(1) show ?thesis by (auto split: if_splits)
qed

lemma owner_alone:
  assumes "db_ok d" and "db_ok d'" and "rows (reservations d') = map (\<lambda>r. if rid r = i then f r else r) (rows (reservations d))"
    and "r \<in> set (rows (reservations d))" and "rid r = i" and "\<And>r. rid (f r) = rid r" and "\<And>r. place_of (f r) = place_of r"
    and y: "y \<in> set (rows (reservations d))" "active_res y" "place_of y = place_of r" "active_res r \<or> active_res (f r)"
  shows "y = r"
proof (cases "rid y = i")
  case False
  have un: "y = z" if "y \<in> set (rows (reservations e))" "z \<in> set (rows (reservations e))" "active_res y" "active_res z"
      "place_of y = place_of z" "db_ok e" for y z e
    using active_unique_eq [of "reservations e" y z] that by (auto simp: db_ok_defs)
  have "y \<in> set (rows (reservations d'))" "f r \<in> set (rows (reservations d'))"
    using y(1) assms(4,5) False by (force simp: assms(3))+
  with False y un [of y d r] un [of y d' "f r"] assms show ?thesis by metis
next
  case True
  have "wf_table (reservations d)" using assms(1) by (simp add: db_ok_defs)
  from mem_find_row [OF this y(1)] mem_find_row [OF this assms(4)] True assms(5) show ?thesis by simp
qed

lemma owners_update:
  assumes "db_ok d" and "update_reservation i f d = Inr (x, d')"
    and "\<And>r. rid (f r) = rid r" and "\<And>r. place_of (f r) = place_of r" and "\<And>r. res_userId (f r) = res_userId r"
  obtains r where "find_row i (reservations d) = Some r" and "x = f r" and "db_ok d'" and
    "owners_of d' = (if active_res (f r) then (owners_of d)(place_of r \<mapsto> (res_userId r, res_status (f r) = CONFIRMED))
       else if active_res r then (owners_of d)(place_of r := None) else owners_of d)"
    and "active_res (f r) \<Longrightarrow> owners_of d (place_of r) = (if active_res r then Some (res_userId r, res_status r = CONFIRMED) else None)"
proof -
  let ?g = "\<lambda>r. if rid r = i then f r else r"
  from assms(2) obtain r where r: "find_row i (reservations d) = Some r" and x: "x = f r"
      and d': "d' = d\<lparr>reservations := update_row i f (reservations d)\<rparr>"
    unfolding update_reservation_def by (rule update_stmtE) auto
  have ok': "db_ok d'" by (rule db_ok_update_reservation [OF assms(1,3,2)])
  have wf: "wf_table (reservations d)" using assms(1) by (simp add: db_ok_defs)
  have rows': "rows (reservations d') = map ?g (rows (reservations d))" by (simp add: d' rows_update_row)
  have rm: "r \<in> set (rows (reservations d))" "rid r = i" using r find_row_mem find_row_key by blast+
  have only: "y = r" if "y \<in> set (rows (reservations d))" "rid y = i" for y
    using mem_find_row [OF wf that(1)] that(2) r by simp
  note alone = owner_alone [OF assms(1) ok' rows' rm assms(3,4)]
  let ?A = "if active_res (f r) then (owners_of d)(place_of r \<mapsto> (res_userId r, res_status (f r) = CONFIRMED))
       else if active_res r then (owners_of d)(place_of r := None) else owners_of d"
  have "?A k = Some v \<longleftrightarrow>
    (\<exists>y \<in> set (rows (reservations d)). active_res (?g y) \<and> place_of (?g y) = k \<and> v = (res_userId (?g y), res_status (?g y) = CONFIRMED))"
    (is "_ \<longleftrightarrow> ?R k v") for k v
  proof -
    have R: "?R k v \<longleftrightarrow> (active_res (f r) \<and> place_of r = k \<and> v = (res_userId r, res_status (f r) = CONFIRMED)) \<or>
        (\<exists>y \<in> set (rows (reservations d)). y \<noteq> r \<and> active_res y \<and> place_of y = k \<and> v = (res_userId y, res_status y = CONFIRMED))"
      using bex_updated [OF rm only, of "\<lambda>z. active_res z \<and> place_of z = k \<and> v = (res_userId z, res_status z = CONFIRMED)" f]
      by (simp only: assms(4,5))
    have O: "owners_of d k = Some v \<longleftrightarrow> (active_res r \<and> place_of r = k \<and> v = (res_userId r, res_status r = CONFIRMED)) \<or>
        (\<exists>y \<in> set (rows (reservations d)). y \<noteq> r \<and> active_res y \<and> place_of y = k \<and> v = (res_userId y, res_status y = CONFIRMED))"
      using rm by (auto simp: owners_Some [OF assms(1)])
    show ?thesis
    proof (cases "k = place_of r \<and> (active_res r \<or> active_res (f r))")
      case True
      then have "\<not> (\<exists>y \<in> set (rows (reservations d)). y \<noteq> r \<and> active_res y \<and> place_of y = k)" using alone by blast
      with True show ?thesis unfolding R by auto
    next
      case False
      then have "?A k = owners_of d k" by auto
      with False show ?thesis unfolding R by (simp add: O) blast
    qed
  qed
  then have "owners_of d' = ?A" by (intro owners_ext [OF ok']) (simp only: rows' set_map bex_simps(7))
  moreover have "owners_of d (place_of r) = (if active_res r then Some (res_userId r, res_status r = CONFIRMED) else None)" if "active_res (f r)"
    using alone that rm by (auto simp: owners_Some [OF assms(1)] owners_None)
  ultimately show ?thesis using that r x ok' by blast
qed

subsection \<open>Services that take one step\<close>

definition same_res :: "db \<Rightarrow> db \<Rightarrow> bool" where
  "same_res d0 d \<longleftrightarrow> db_ok d \<and> reservations d = reservations d0"

definition own_inv :: "owners \<Rightarrow> db \<Rightarrow> bool" where
  "own_inv A d \<longleftrightarrow> db_ok d \<and> owners_of d = A"

definition refines :: "db \<Rightarrow> own_label set \<Rightarrow> 'a service \<Rightarrow> bool" where
  "refines d0 L m \<longleftrightarrow> (\<forall>w. same_res d0 (db w) \<longrightarrow>
     db_ok (db (snd (m w))) \<and> (\<exists>l \<in> L. own_step l (owners_of d0) (owners_of (db (snd (m w))))))"

lemma owners_same: "reservations d = reservations d0 \<Longrightarrow> owners_of d = owners_of d0"
  by (simp add: owners_of_def fun_eq_iff)

named_theorems refine_rules "rules about services that refine the machine"

lemma refines_keep: "keeps_db (same_res d0) m \<Longrightarrow> Stay \<in> L \<Longrightarrow> refines d0 L m"
  unfolding refines_def keeps_def db_inv_def same_res_def using own_step.stay owners_same by metis

lemma refines_await_first:
  assumes "keeps_db (same_res d0) m" and "\<And>x. refines d0 L (k x)" and "Stay \<in> L"
  shows "refines d0 L (await m k)"
proof (unfold refines_def, intro allI impI)
  fix w :: world assume w: "same_res d0 (db w)"
  then have s: "same_res d0 (db (snd (m w)))" using assms(1) by (simp add: keeps_dbD)
  show "db_ok (db (snd (await m k w))) \<and> (\<exists>l \<in> L. own_step l (owners_of d0) (owners_of (db (snd (await m k w)))))"
  proof (cases "fst (m w)")
    case (Inl e)
    then have "snd (await m k w) = snd (m w)" by (simp add: await_def case_prod_beta)
    moreover have "own_step Stay (owners_of d0) (owners_of (db (snd (m w))))"
      using s own_step.stay owners_same by (metis same_res_def)
    ultimately show ?thesis using s assms(3) by (auto simp: same_res_def)
  next
    case (Inr x)
    then have "snd (await m k w) = snd (k x (snd (m w)))" by (simp add: await_def case_prod_beta)
    then show ?thesis using assms(2) [of x] s unfolding refines_def by simp
  qed
qed

lemma refines_await_last:
  assumes "refines d0 L m" and "\<And>x A. keeps_db (own_inv A) (k x)"
  shows "refines d0 L (await m k)"
proof (unfold refines_def, intro allI impI)
  fix w :: world assume "same_res d0 (db w)"
  then have s: "own_inv (owners_of (db (snd (m w)))) (db (snd (m w)))"
      "\<exists>l \<in> L. own_step l (owners_of d0) (owners_of (db (snd (m w))))"
    using assms(1) by (simp_all add: refines_def own_inv_def)
  have "own_inv (owners_of (db (snd (m w)))) (db (snd (await m k w)))"
  proof (cases "fst (m w)")
    case (Inl e)
    then show ?thesis using s(1) by (simp add: await_def case_prod_beta)
  next
    case (Inr x)
    then have "snd (await m k w) = snd (k x (snd (m w)))" by (simp add: await_def case_prod_beta)
    then show ?thesis using keeps_dbD [of _ "k x" "snd (m w)", OF assms(2) s(1)] by simp
  qed
  with s(2) show "db_ok (db (snd (await m k w))) \<and> (\<exists>l \<in> L. own_step l (owners_of d0) (owners_of (db (snd (await m k w)))))"
    by (simp add: own_inv_def)
qed

lemma refines_if [refine_rules]: "refines d0 L m \<Longrightarrow> refines d0 L n \<Longrightarrow> refines d0 L (if b then m else n)"
  by simp

lemma refines_option [refine_rules]: "refines d0 L m \<Longrightarrow> (\<And>x. refines d0 L (k x)) \<Longrightarrow>
    refines d0 L (case v of None \<Rightarrow> m | Some x \<Rightarrow> k x)"
  by (simp split: option.split)

lemma refines_findOwned:
  assumes "\<And>r. find_row i (reservations d0) = Some r \<Longrightarrow> res_userId r = u \<Longrightarrow> refines d0 L (k r)" and "Stay \<in> L"
  shows "refines d0 L (await (findOwned u i) k)"
proof (unfold refines_def, intro allI impI)
  fix w :: world assume w: "same_res d0 (db w)"
  have stay: "db_ok (db w) \<and> (\<exists>l \<in> L. own_step l (owners_of d0) (owners_of (db w)))"
    using w assms(2) own_step.stay owners_same by (metis same_res_def)
  show "db_ok (db (snd (await (findOwned u i) k w))) \<and> (\<exists>l \<in> L. own_step l (owners_of d0) (owners_of (db (snd (await (findOwned u i) k w)))))"
  proof (cases "find_row i (reservations (db w))")
    case None
    then show ?thesis using stay by (simp add: findOwned_def getById_def reservations_findById_def await_def query_run act_simps)
  next
    case (Some r)
    show ?thesis
    proof (cases "res_userId r = u")
      case True
      with Some have "await (findOwned u i) k w = k r w"
        by (simp add: findOwned_def getById_def reservations_findById_def await_def query_run act_simps)
      moreover have "find_row i (reservations d0) = Some r" using Some w by (simp add: same_res_def)
      ultimately show ?thesis using assms(1) [of r] True w by (simp add: refines_def)
    next
      case False
      with Some show ?thesis using stay by (simp add: findOwned_def getById_def reservations_findById_def await_def query_run act_simps)
    qed
  qed
qed

subsection \<open>The statements\<close>

text \<open>The step that a change of one row is: \<open>b\<close> and \<open>c\<close> tell whether it was active and confirmed, \<open>b'\<close> and \<open>c'\<close> whether it is.\<close>

lemma change_step:
  assumes new: "A' = (if b' then A(k \<mapsto> (u, c')) else if b then A(k := None) else A)"
    and old: "b' \<Longrightarrow> A k = (if b then Some (u, c) else None)" and act: "b \<Longrightarrow> A k \<noteq> None" and mono: "b \<Longrightarrow> b' \<Longrightarrow> c' \<or> c' = c"
  shows "own_step (if b' then if b then if c' = c then Stay else Pay k else if c' then Revive k u else Take k u
    else if b then Free {k} else Stay) A A'"
proof -
  have "own_step Stay A A'" if "b'" "b" "c' = c"
  proof -
    have "A' = A" using old that by (simp add: new fun_upd_idem)
    then show ?thesis using own_step.stay by simp
  qed
  moreover have "own_step (Pay k) A A'" if "b'" "b" "c' \<noteq> c"
    using old mono that own_step.pay [of A k u c] by (simp add: new)
  moreover have "own_step (if c' then Revive k u else Take k u) A A'" if "b'" "\<not> b"
    using old that own_step.revive [of A k u] own_step.take_it [of A k u] by (simp add: new)
  moreover have "own_step (Free {k}) A A'" if "\<not> b'" "b"
  proof -
    have "A' = (\<lambda>x. if x \<in> {k} then None else A x)" using that by (auto simp: new fun_eq_iff)
    with own_step.free [of "{k}" A] act that show ?thesis by simp
  qed
  moreover have "own_step Stay A A'" if "\<not> b'" "\<not> b"
    using that own_step.stay by (simp add: new)
  ultimately show ?thesis by simp
qed

lemma refines_update:
  assumes "\<And>r. rid (f r) = rid r" and "\<And>r. place_of (f r) = place_of r" and "\<And>r. res_userId (f r) = res_userId r"
    and "\<And>r. find_row i (reservations d0) = Some r \<Longrightarrow> active_res (f r) \<Longrightarrow>
      (if active_res r then (if res_status (f r) = res_status r then Stay else Pay (place_of r)) else
         (if res_status (f r) = CONFIRMED then Revive (place_of r) (res_userId r) else Take (place_of r) (res_userId r))) \<in> L"
    and "\<And>r. find_row i (reservations d0) = Some r \<Longrightarrow> \<not> active_res (f r) \<Longrightarrow> active_res r \<Longrightarrow> Free {place_of r} \<in> L"
    and "\<And>r. active_res r \<Longrightarrow> active_res (f r) \<Longrightarrow> res_status (f r) = CONFIRMED \<or> res_status (f r) = res_status r"
    and "Stay \<in> L"
  shows "refines d0 L (run_stmt fault (update_reservation i f))"
proof (unfold refines_def, intro allI impI)
  fix w :: world assume w: "same_res d0 (db w)"
  then have A: "owners_of (db w) = owners_of d0" by (intro owners_same) (simp add: same_res_def)
  have stay: "db_ok (db w) \<and> (\<exists>l \<in> L. own_step l (owners_of d0) (owners_of (db w)))"
    using w assms(7) own_step.stay A by (metis same_res_def)
  let ?run = "run_stmt fault (update_reservation i f) w"
  show "db_ok (db (snd ?run)) \<and> (\<exists>l \<in> L. own_step l (owners_of d0) (owners_of (db (snd ?run))))"
  proof (cases "fault = None \<and> \<not> isl (update_reservation i f (db w))")
    case False
    then have "snd ?run = w" by (auto simp: run_stmt_def isl_def split: option.split sum.split)
    with stay show ?thesis by simp
  next
    case True
    then obtain x d' where u: "update_reservation i f (db w) = Inr (x, d')"
      by (cases "update_reservation i f (db w)") auto
    have d': "db (snd ?run) = d'" using True u by (simp add: run_stmt_def)
    have "db_ok (db w)" using w by (simp add: same_res_def)
    from this u assms(1-3) show ?thesis
    proof (rule owners_update)
      fix r
      assume r: "find_row i (reservations (db w)) = Some r" and ok: "db_ok d'"
        and new: "owners_of d' = (if active_res (f r) then (owners_of (db w))(place_of r \<mapsto> (res_userId r, res_status (f r) = CONFIRMED))
           else if active_res r then (owners_of (db w))(place_of r := None) else owners_of (db w))"
        and old: "active_res (f r) \<Longrightarrow> owners_of (db w) (place_of r) = (if active_res r then Some (res_userId r, res_status r = CONFIRMED) else None)"
      have r0: "find_row i (reservations d0) = Some r" using r w by (simp add: same_res_def)
      have act: "active_res r \<Longrightarrow> owners_of d0 (place_of r) \<noteq> None"
        using find_row_mem [OF r] unfolding A [symmetric] by (auto simp: owners_None)
      let ?b = "active_res r" and ?b' = "active_res (f r)" and ?c = "res_status r = CONFIRMED" and ?c' = "res_status (f r) = CONFIRMED"
      let ?l = "if ?b' then if ?b then if ?c' = ?c then Stay else Pay (place_of r) else if ?c' then Revive (place_of r) (res_userId r)
        else Take (place_of r) (res_userId r) else if ?b then Free {place_of r} else Stay"
      have "own_step ?l (owners_of d0) (owners_of d')"
        by (rule change_step [OF new [unfolded A] old [unfolded A] act]) (use assms(6) [of r] in auto)
      moreover have "?l \<in> L"
        using assms(4) [OF r0] assms(5) [OF r0] assms(6) [of r] assms(7) by (cases ?b; cases ?b'; cases ?c) (auto split: if_splits)
      ultimately have "\<exists>l \<in> L. own_step l (owners_of d0) (owners_of d')" by blast
      with ok d' show ?thesis by simp
    qed
  qed
qed

lemma refines_both:
  assumes "refines d0 L (run_stmt None (update_reservation i g))" and "\<And>p. rid (f p) = rid p" and "Stay \<in> L"
  shows "refines d0 L (run_stmt fault (both_updates pid f i g))"
proof (unfold refines_def, intro allI impI)
  fix w :: world assume w: "same_res d0 (db w)"
  then have stay: "db_ok (db w) \<and> (\<exists>l \<in> L. own_step l (owners_of d0) (owners_of (db w)))"
    using assms(3) own_step.stay owners_same by (metis same_res_def)
  show "db_ok (db (snd (run_stmt fault (both_updates pid f i g) w))) \<and>
    (\<exists>l \<in> L. own_step l (owners_of d0) (owners_of (db (snd (run_stmt fault (both_updates pid f i g) w)))))"
  proof (cases "fault = None \<and> \<not> isl (both_updates pid f i g (db w))")
    case False
    then have "snd (run_stmt fault (both_updates pid f i g) w) = w" by (auto simp: run_stmt_def isl_def split: option.split sum.split)
    with stay show ?thesis by simp
  next
    case True
    then obtain p d1 r d2 where p: "update_payment pid f (db w) = Inr (p, d1)" and r: "update_reservation i g d1 = Inr (r, d2)"
      by (auto simp: both_updates_def split: sum.splits prod.splits)
    have "db_ok d1" using db_ok_update_payment [OF _ assms(2) p] w by (simp add: same_res_def)
    moreover have "reservations d1 = reservations (db w)" using p by (auto simp: update_payment_def dest!: on_table_InrD)
    ultimately have "same_res d0 (db (w\<lparr>db := d1\<rparr>))" using w by (simp add: same_res_def)
    moreover have "db (snd (run_stmt fault (both_updates pid f i g) w)) = db (snd (run_stmt None (update_reservation i g) (w\<lparr>db := d1\<rparr>)))"
      using True p r by (simp add: run_stmt_def both_updates_def)
    ultimately show ?thesis using assms(1) unfolding refines_def by simp
  qed
qed

lemma same_res_payment_stmts:
  "same_res d0 d \<Longrightarrow> insert_payment mk d = Inr (x, d') \<Longrightarrow> (\<And>n. rid (mk n) = n) \<Longrightarrow> same_res d0 d'"
  "same_res d0 d \<Longrightarrow> update_payment i f d = Inr (x, d') \<Longrightarrow> (\<And>p. rid (f p) = rid p) \<Longrightarrow> same_res d0 d'"
  "same_res d0 d \<Longrightarrow> delete_payment i d = Inr (x, d') \<Longrightarrow> same_res d0 d'"
proof -
  have "insert_payment mk d = Inr (x, d') \<Longrightarrow> reservations d' = reservations d"
    "update_payment i f d = Inr (x, d') \<Longrightarrow> reservations d' = reservations d"
    "delete_payment i d = Inr (x, d') \<Longrightarrow> reservations d' = reservations d"
    by (auto simp: insert_payment_def update_payment_def delete_payment_def dest!: on_table_InrD)
  then show "same_res d0 d \<Longrightarrow> insert_payment mk d = Inr (x, d') \<Longrightarrow> (\<And>n. rid (mk n) = n) \<Longrightarrow> same_res d0 d'"
    "same_res d0 d \<Longrightarrow> update_payment i f d = Inr (x, d') \<Longrightarrow> (\<And>p. rid (f p) = rid p) \<Longrightarrow> same_res d0 d'"
    "same_res d0 d \<Longrightarrow> delete_payment i d = Inr (x, d') \<Longrightarrow> same_res d0 d'"
    using db_ok_insert_payment [of d mk x d'] db_ok_update_payment [of d f i x d'] db_ok_delete_payment [of d i x d']
    by (simp_all add: same_res_def)
qed

lemma keeps_payments_updateById:
  "(\<And>p. rid (f p) = rid p) \<Longrightarrow> keeps_db (same_res d0) (payments_updateById fault i f)"
  unfolding payments_updateById_def by (intro keeps_rules keeps_db_stmt) (blast intro: same_res_payment_stmts)

lemma keeps_same_payments [keeps_rules]:
  "keeps_db (same_res d0) (payments_create fault now i amt cur)" "keeps_db (same_res d0) (payments_delete fault i)"
  unfolding payments_create_def payments_delete_def
  by (intro keeps_rules keeps_db_stmt; erule (1) same_res_payment_stmts; simp add: new_payment_def)+

lemma own_inv_same: "(\<And>d0. keeps_db (same_res d0) m) \<Longrightarrow> keeps_db (own_inv A) m"
proof (rule keepsI)
  fix w assume k: "\<And>d0. keeps_db (same_res d0) m" and "db_inv (own_inv A) w"
  then have o: "db_ok (db w)" "owners_of (db w) = A" by (simp_all add: db_inv_def own_inv_def)
  have "same_res (db w) (db (snd (m w)))" by (rule keeps_dbD [OF k]) (simp add: same_res_def o)
  with o show "db_inv (own_inv A) (snd (m w))"
    using owners_same [of "db (snd (m w))" "db w"] by (simp add: db_inv_def own_inv_def same_res_def)
qed

lemma keeps_own_payments:
  "(\<And>p. rid (f p) = rid p) \<Longrightarrow> keeps_db (own_inv A) (payments_updateById fault i f)"
  by (rule own_inv_same, rule keeps_payments_updateById)

lemma keeps_own_stmts [keeps_rules]:
  "keeps_db (own_inv A) (payments_create fault now i amt cur)" "keeps_db (own_inv A) (payments_delete fault i)"
  by (rule own_inv_same, intro keeps_rules)+

lemma refines_own:
  assumes "\<And>A. keeps_db (own_inv A) m" and "Stay \<in> L"
  shows "refines d0 L m"
proof (unfold refines_def, intro allI impI)
  fix w :: world assume "same_res d0 (db w)"
  then have w: "own_inv (owners_of d0) (db w)"
    using owners_same [of "db w" d0] by (simp add: same_res_def own_inv_def)
  have "own_inv (owners_of d0) (db (snd (m w)))" by (rule keeps_dbD [OF assms(1)]) (rule w)
  then show "db_ok (db (snd (m w))) \<and> (\<exists>l \<in> L. own_step l (owners_of d0) (owners_of (db (snd (m w)))))"
    using assms(2) own_step.stay by (auto simp: own_inv_def)
qed

lemma own_of_refines: 
  assumes "\<And>d0. refines d0 {Stay} m"
  shows "keeps_db (own_inv A) m"
proof (rule keepsI)
  fix w assume "db_inv (own_inv A) w"
  then have w: "db_ok (db w)" "owners_of (db w) = A" by (simp_all add: db_inv_def own_inv_def)
  with assms [of "db w"] have "db_ok (db (snd (m w)))" "own_step Stay A (owners_of (db (snd (m w))))"
    by (simp_all add: refines_def same_res_def)
  then show "db_inv (own_inv A) (snd (m w))" by (auto simp: db_inv_def own_inv_def elim: own_stepE)
qed

lemma keeps_own_extend [keeps_rules]: "keeps_db (own_inv A) (reservations_extendHold fault i t)"
  unfolding reservations_extendHold_def
  by (rule own_of_refines, rule refines_update) (auto simp: active_res_def)

subsection \<open>The operations\<close>

definition allow_cancel :: "db \<Rightarrow> int \<Rightarrow> own_label set" where
  "allow_cancel d i = insert Stay {Free {place_of r} | r. find_row i (reservations d) = Some r \<and> active_res r}"

definition allow_confirm :: "db \<Rightarrow> int \<Rightarrow> own_label set" where
  "allow_confirm d i = insert Stay ({Pay (place_of r) | r. find_row i (reservations d) = Some r \<and> active_res r} \<union>
     {Revive (place_of r) (res_userId r) | r. find_row i (reservations d) = Some r \<and> \<not> active_res r})"

lemma refines_setStatus: "refines d0 (allow_cancel d0 i) (reservations_setStatus fault i CANCELLED)"
  unfolding reservations_setStatus_def by (rule refines_update) (auto simp: active_res_def allow_cancel_def)

lemma refines_confirm: "refines d0 (allow_confirm d0 i) (reservations_confirm fault i)"
  unfolding reservations_confirm_def by (rule refines_update) (auto simp: active_res_def allow_confirm_def)

lemma refines_decline: "refines d0 (allow_cancel d0 i) (declineWithReservation fault pid i)"
  unfolding declineWithReservation_def
  by (rule refines_both, rule refines_update) (auto simp: active_res_def allow_cancel_def)

lemma refines_confirmWith: "refines d0 (allow_confirm d0 i) (confirmWithReservation fault pid i intent)"
  unfolding confirmWithReservation_def
  by (rule refines_both, rule refines_update) (auto simp: active_res_def allow_confirm_def)

lemma refines_finalize: "refines d0 (allow_cancel d0 (rid r)) (finalizeCancel fault r)"
  unfolding finalizeCancel_def by (intro refines_await_last refines_setStatus keeps_rules)

lemma refines_confirmPayment: "refines d0 (allow_confirm d0 i) (confirmPayment fault i)"
  unfolding confirmPayment_def by (intro refines_await_last refines_confirm keeps_rules)

lemma refines_mono: "refines d0 L m \<Longrightarrow> L \<subseteq> M \<Longrightarrow> refines d0 M m"
  unfolding refines_def by blast

lemma await_pure: "await (throw e) k = throw e" "await (ret x) k = k x"
  by (simp_all add: fun_eq_iff act_simps)

lemma refines_pure [refine_rules]: "Stay \<in> L \<Longrightarrow> refines d0 L (ret x)" "Stay \<in> L \<Longrightarrow> refines d0 L (throw e)"
  by (rule refines_keep, intro keeps_rules, assumption)+

lemma stay_in [simp]: "Stay \<in> allow_cancel d i" "Stay \<in> allow_confirm d i"
  by (simp_all add: allow_cancel_def allow_confirm_def)

lemma keeps_stripe_refund [keeps_rules]: "keeps_db P (stripe_refund env p pc)"
  unfolding stripe_refund_def by (intro keeps_rules)

lemma refines_refund: "refines d0 (allow_cancel d0 (rid r)) (refundReservation env r)"
  unfolding refundReservation_def Let_def
  by (intro refine_rules refines_finalize refines_await_first keeps_rules keeps_payments_updateById stay_in
      | simp add: screenings_findById_def)+

definition cancel_labels :: "db \<Rightarrow> int \<Rightarrow> int \<Rightarrow> own_label set" where
  "cancel_labels d u i = insert Stay
     {Free {place_of r} | r. find_row i (reservations d) = Some r \<and> active_res r \<and> res_userId r = u}"

lemma refines_cancel: "refines d0 (cancel_labels d0 u i) (cancel env u i)"
  unfolding cancel_def
proof (rule refines_findOwned)
  fix r assume r: "find_row i (reservations d0) = Some r" and u: "res_userId r = u"
  have L: "allow_cancel d0 (rid r) \<subseteq> cancel_labels d0 u i"
    using r u find_row_key [OF r] by (auto simp: allow_cancel_def cancel_labels_def)
  show "refines d0 (cancel_labels d0 u i) (if res_status r = CONFIRMED then refundReservation env r
     else if res_status r \<noteq> HELD then throw cannot_cancel else finalizeCancel (pay_fault env AtFinalize) r)"
    by (intro refine_rules refines_mono [OF refines_refund L] refines_mono [OF refines_finalize L]) (simp add: cancel_labels_def)
qed (simp add: cancel_labels_def)

lemma refines_checkout: "refines d0 {Stay} (createCheckoutSession env u i)"
  unfolding createCheckoutSession_def extendHold_def Let_def screenings_findById_def
  by (rule refines_own [OF _ insertI1], intro keeps_rules keeps_own_payments; simp)

definition confirm_labels :: "db \<Rightarrow> own_label set" where
  "confirm_labels d = (\<Union>i. allow_confirm d i)"

lemma refines_webhook: "refines d0 (confirm_labels d0) (handleWebhookEvent env raw sig)"
proof -
  have L: "allow_confirm d0 i \<subseteq> confirm_labels d0" "Stay \<in> confirm_labels d0" for i
    using stay_in(2) [of d0 i] by (auto simp: confirm_labels_def)
  have c: "refines d0 (confirm_labels d0) (handleCheckoutCompleted env e s)" for e s
    unfolding handleCheckoutCompleted_def Let_def
    by (intro refine_rules refines_await_first [OF keeps_payment_reads(2)] L(2) refines_await_last
        refines_mono [OF refines_confirmPayment L(1)] keeps_rules keeps_own_payments
        refines_own; simp)
  have o: "refines d0 (confirm_labels d0) (handleAsyncPaymentFailed env e s)"
    "refines d0 (confirm_labels d0) (handleCheckoutExpired env e s)"
    "refines d0 (confirm_labels d0) (handleDisputeCreated env e dp)" for e s dp
    unfolding handleAsyncPaymentFailed_def handleCheckoutExpired_def handleDisputeCreated_def getById_def
    by (rule refines_own [OF _ L(2)], intro keeps_rules keeps_own_payments; simp add: reservations_findById_def)+
  show ?thesis
    unfolding handleWebhookEvent_def dispatch_event_def
    by (auto simp: await_pure split: sum.split event_data.split intro!: refine_rules refines_await_first [OF keeps_payment_reads(3)]
        refines_await_last [OF c] refines_await_last [OF o(1)] refines_await_last [OF o(2)] refines_await_last [OF o(3)] L(2) keeps_rules)
qed

definition reconcile_labels :: "stripe_env \<Rightarrow> payment \<Rightarrow> db \<Rightarrow> own_label set" where
  "reconcile_labels env p d = (case retrieve_session env (stripeSessionId p) of
       Inl _ \<Rightarrow> {Stay}
     | Inr s \<Rightarrow> if cs_payment_status s = ''paid'' then allow_confirm d (pay_reservationId p) else allow_cancel d (pay_reservationId p))"

lemma refines_reconcile: "refines d0 (reconcile_labels env p d0) (reconcile_one env p)"
  unfolding reconcile_one_def reconcile_labels_def from_stripe_def
  by (auto split: sum.split simp: await_pure
      intro!: refine_rules refines_await_last [OF refines_confirmWith] refines_await_last [OF refines_decline] keeps_rules)

text \<open>A hold is a row added to a free place; a breaker that gave up may still have let it commit.\<close>

definition take_labels :: "int \<Rightarrow> reservation_dto \<Rightarrow> own_label set" where
  "take_labels u dto = {Stay, Take (rd_screeningId dto, rd_seatId dto) u}"

lemma refines_hold: "refines d0 {Stay, Take (hp_screeningId p, hp_seatId p) (hp_userId p)} (breaker_holdSeat f fault now p)"
proof (unfold refines_def, intro allI impI)
  fix w :: world assume w: "same_res d0 (db w)"
  let ?w = "snd (breaker_holdSeat f fault now p w)"
  let ?L = "{Stay, Take (hp_screeningId p, hp_seatId p) (hp_userId p)}"
  have ok: "db_ok (db ?w)" by (rule keeps_dbD [OF keeps_breaker_holdSeat]) (use w in \<open>simp add: same_res_def\<close>)
  have A: "owners_of (db w) = owners_of d0" using w by (intro owners_same) (simp add: same_res_def)
  have "db (snd (holdSeat_tx fault now p w)) = db w \<or> (\<exists>r d. holdSeat_body now p (db w) = Inr (r, d) \<and> db (snd (holdSeat_tx fault now p w)) = d)"
    by (simp add: holdSeat_tx_def split: option.split hold_fault.split sum.split prod.split)
  then have "db ?w = db w \<or> (\<exists>r d. holdSeat_body now p (db w) = Inr (r, d) \<and> db ?w = d)"
    by (cases f) (auto simp: breaker_holdSeat_def catch_err_def breaker_fire_def throw_def split: prod.split sum.split if_splits)
  then have "\<exists>l \<in> ?L. own_step l (owners_of d0) (owners_of (db ?w))"
  proof
    assume "db ?w = db w"
    then show ?thesis using own_step.stay A by simp
  next
    assume "\<exists>r d. holdSeat_body now p (db w) = Inr (r, d) \<and> db ?w = d"
    then obtain r where b: "holdSeat_body now p (db w) = Inr (r, db ?w)" by blast
    then obtain tab where r: "insert_row (hold_row now p) (reservations (db w)) = (r, tab)" and d: "db ?w = (db w)\<lparr>reservations := tab\<rparr>"
      by (auto simp: holdSeat_body_def insert_reservation_def split: if_splits option.splits sum.splits elim!: insert_stmtE)
    have rf: "place_of r = (hp_screeningId p, hp_seatId p)" "res_userId r = hp_userId p" "res_status r = HELD"
      by (simp_all add: insert_row_val [OF r] hold_row_def)
    have "rows (reservations (db ?w)) = rows (reservations (db w)) @ [r]" by (simp add: d rows_insert_row [OF r])
    from owners_insert [OF _ ok this] w rf
    have "owners_of (db ?w) = (owners_of d0)(place_of r \<mapsto> (hp_userId p, False))" "owners_of d0 (place_of r) = None"
      by (simp_all add: same_res_def A active_res_def)
    then show ?thesis using own_step.take_it [of "owners_of d0" "place_of r" "hp_userId p"] rf(1) by simp
  qed
  with ok show "db_ok (db ?w) \<and> (\<exists>l \<in> ?L. own_step l (owners_of d0) (owners_of (db ?w)))" by blast
qed

lemma refines_finally: "refines d0 L m \<Longrightarrow> refines d0 L (finally_do m release)"
  by (simp add: refines_def finally_do_def release_def case_prod_beta)

lemma refines_reserve: "refines d0 (take_labels u dto) (reserve env u dto)"
proof -
  have "refines d0 (take_labels u dto) (breaker_holdSeat f fault now
      \<lparr>hp_userId = u, hp_screeningId = rd_screeningId dto, hp_hallId = h, hp_seatId = rd_seatId dto, hp_heldUntil = t\<rparr>)" for f fault now h t
    using refines_hold [of d0 "\<lparr>hp_userId = u, hp_screeningId = rd_screeningId dto, hp_hallId = h, hp_seatId = rd_seatId dto, hp_heldUntil = t\<rparr>"]
    by (simp add: take_labels_def)
  then show ?thesis
    unfolding reserve_def Let_def screenings_findById_def
    by (intro refine_rules refines_await_last [OF refines_finally] refines_await_first keeps_rules; simp add: take_labels_def)
qed

text \<open>The sweep frees exactly the places whose hold ran out.\<close>

definition swept :: "ms \<Rightarrow> db \<Rightarrow> place set" where
  "swept t d = place_of ` {r \<in> set (rows (reservations d)). hold_expired t r}"

lemma owners_swept:
  assumes "db_ok d"
  shows "own_step (Free (swept t d)) (owners_of d) (owners_of (snd (release_expired t d)))"
proof -
  let ?d = "snd (release_expired t d)"
  have ok: "db_ok ?d" by (rule db_ok_release_expired [OF assms])
  have act: "active_res r" if "hold_expired t r" for r using that by (simp add: hold_expired_def active_res_def)
  have un: "y = z" if "y \<in> set (rows (reservations d))" "z \<in> set (rows (reservations d))" "active_res y" "active_res z"
      "place_of y = place_of z" for y z
    using active_unique_eq [of "reservations d" y z] that assms by (auto simp: db_ok_defs)
  have rows': "rows (reservations ?d) = map (\<lambda>r. if hold_expired t r then r\<lparr>res_status := CANCELLED, heldUntil := None\<rparr> else r) (rows (reservations d))"
    by (simp add: release_expired_def)
  have "owners_of ?d = (\<lambda>k. if k \<in> swept t d then None else owners_of d k)"
  proof (rule owners_ext [OF ok])
    fix k v
    have R: "(\<exists>r \<in> set (rows (reservations ?d)). active_res r \<and> place_of r = k \<and> v = (res_userId r, res_status r = CONFIRMED)) \<longleftrightarrow>
        (\<exists>r \<in> set (rows (reservations d)). \<not> hold_expired t r \<and> active_res r \<and> place_of r = k \<and> v = (res_userId r, res_status r = CONFIRMED))"
      unfolding rows' set_map bex_simps(7) by (rule bex_cong [OF refl]) (auto simp: active_res_def)
    have "k \<in> swept t d \<Longrightarrow> r \<in> set (rows (reservations d)) \<Longrightarrow> active_res r \<Longrightarrow> place_of r = k \<Longrightarrow> hold_expired t r" for r
      using un act unfolding swept_def by blast
    moreover have "hold_expired t r \<Longrightarrow> r \<in> set (rows (reservations d)) \<Longrightarrow> place_of r = k \<Longrightarrow> k \<in> swept t d" for r
      unfolding swept_def by blast
    ultimately show "(if k \<in> swept t d then None else owners_of d k) = Some v \<longleftrightarrow>
        (\<exists>r \<in> set (rows (reservations ?d)). active_res r \<and> place_of r = k \<and> v = (res_userId r, res_status r = CONFIRMED))"
      unfolding R using owners_Some [OF assms, of k v] by auto
  qed
  moreover have "\<forall>k \<in> swept t d. owners_of d k \<noteq> None"
    using act by (auto simp: swept_def owners_None)
  ultimately show ?thesis using own_step.free by metis
qed

lemma refines_caught:
  assumes "refines d0 L m"
  shows "refines d0 L (catch_err m (\<lambda>_. ret ()))"
proof -
  have "snd (catch_err m (\<lambda>_. ret ()) w) = snd (m w)" for w
    by (simp add: catch_err_def ret_def split: prod.split sum.split)
  with assms show ?thesis by (simp add: refines_def)
qed

lemma refines_sweep: "refines d0 {Stay, Free (swept t d0)} (handleExpireHolds fault t)"
proof -
  have r: "refines d0 {Stay, Free (swept t d0)} (releaseExpiredHolds fault t)"
  proof (unfold refines_def, intro allI impI)
    fix w :: world assume w: "same_res d0 (db w)"
    then have A: "owners_of (db w) = owners_of d0" by (intro owners_same) (simp add: same_res_def)
    have ok: "db_ok (db w)" and K: "swept t (db w) = swept t d0" using w by (simp_all add: same_res_def swept_def)
    let ?w = "snd (releaseExpiredHolds fault t w)"
    have "db ?w = db w \<or> db ?w = snd (release_expired t (db w))"
      by (simp add: releaseExpiredHolds_def run_stmt_def split: option.split prod.split)
    then show "db_ok (db ?w) \<and> (\<exists>l \<in> {Stay, Free (swept t d0)}. own_step l (owners_of d0) (owners_of (db ?w)))"
      using ok db_ok_release_expired [OF ok, of t] owners_swept [OF ok, of t, unfolded A K] own_step.stay [of "owners_of d0"] A by auto
  qed
  have "refines d0 {Stay, Free (swept t d0)} (await (expireHolds fault t) (\<lambda>_. record_audit e))" for e
    unfolding expireHolds_def by (intro refines_await_last r keeps_rules)
  then show ?thesis unfolding handleExpireHolds_def by (rule refines_caught)
qed

subsection \<open>Runs\<close>

datatype seat_op =
    Reserving request_env int reservation_dto
  | Sweeping "prisma_error option" ms
  | Cancelling stripe_env int int
  | CheckingOut stripe_env int int
  | Hooking stripe_env string string
  | Reconciling stripe_env payment
  | Elsewhere

text \<open>\<open>Elsewhere\<close> is any other work that keeps the database well-formed and does not touch the reservations. The
  reconciliation job is a run of \<open>Reconciling\<close> steps, one per stuck payment.\<close>

inductive seat_step :: "seat_op \<Rightarrow> world \<Rightarrow> world \<Rightarrow> bool" where
  reserving: "seat_step (Reserving env u dto) w (snd (reserve env u dto w))"
| sweeping: "seat_step (Sweeping f t) w (snd (handleExpireHolds f t w))"
| cancelling: "seat_step (Cancelling env' u i) w (snd (cancel env' u i w))"
| checking_out: "seat_step (CheckingOut env' u i) w (snd (createCheckoutSession env' u i w))"
| hooking: "seat_step (Hooking env' raw sig) w (snd (handleWebhookEvent env' raw sig w))"
| reconciling: "seat_step (Reconciling env' p) w (snd (reconcile_one env' p w))"
| elsewhere: "db_ok (db w') \<Longrightarrow> reservations (db w') = reservations (db w) \<Longrightarrow> seat_step Elsewhere w w'"

fun labels :: "seat_op \<Rightarrow> db \<Rightarrow> own_label set" where
  "labels (Reserving env u dto) d = {Stay, Take (rd_screeningId dto, rd_seatId dto) u}"
| "labels (Sweeping f t) d = {Stay, Free (swept t d)}"
| "labels (Cancelling env u i) d = cancel_labels d u i"
| "labels (Hooking env raw sig) d = confirm_labels d"
| "labels (Reconciling env p) d = reconcile_labels env p d"
| "labels _ d = {Stay}"

lemma seat_step_refines:
  assumes "db_ok (db w)" and "seat_step op w w'"
  shows "db_ok (db w') \<and> (\<exists>l \<in> labels op (db w). own_step l (owners_of (db w)) (owners_of (db w')))"
proof -
  have s: "same_res (db w) (db w)" using assms(1) by (simp add: same_res_def)
  from assms(2) show ?thesis
  proof cases
    case (elsewhere)
    then have "owners_of (db w') = owners_of (db w)" by (intro owners_same) simp
    then show ?thesis using elsewhere own_step.stay by simp
  qed (use s refines_reserve refines_sweep refines_cancel refines_checkout refines_webhook refines_reconcile in
    \<open>force simp: refines_def take_labels_def\<close>)+
qed

lemma reserve_takes:
  assumes "db_ok (db w)" and "reserve env u dto w = (Inr r, w')"
  shows "own_step (Take (rd_screeningId dto, rd_seatId dto) u) (owners_of (db w)) (owners_of (db w'))"
  using assms
proof (rule reserve_committed)
  fix s tab
  assume r: "insert_row (hold_row (at_hold env) (reserve_params env u dto s)) (reservations (db w)) = (r, tab)"
    and d: "db w' = (db w)\<lparr>reservations := tab\<rparr>" and ok: "db_ok (db w')"
  have rf: "place_of r = (rd_screeningId dto, rd_seatId dto)" "res_userId r = u" "res_status r = HELD"
    by (simp_all add: insert_row_val [OF r] hold_row_def reserve_params_def)
  have "rows (reservations (db w')) = rows (reservations (db w)) @ [r]" by (simp add: d rows_insert_row [OF r])
  from owners_insert [OF assms(1) ok this] rf
  have "owners_of (db w') = (owners_of (db w))(place_of r \<mapsto> (u, False))" "owners_of (db w) (place_of r) = None"
    by (simp_all add: active_res_def)
  then show ?thesis using own_step.take_it [of "owners_of (db w)" "place_of r" u] rf(1) by simp
qed

text \<open>C2. Booking refines the machine of seat ownership: whatever its outcome, each operation takes one step of the machine,
  and one its arguments allow. A reservation request takes the free place it names for its user or changes nothing,
  and takes it when it is answered with success; the sweep frees exactly the places whose hold ran out; a cancellation frees a place
  of its own user only; a checkout changes no owner; a webhook or a reconciliation marks a place paid for the user of the reservation or,
  when the payment was not made, frees it. A place never passes from one user to another in one operation.\<close>

theorem booking_refines_ownership:
  assumes "db_ok (db w)" and "seat_step op w w'"
  shows "db_ok (db w') \<and> (\<exists>l \<in> labels op (db w). own_step l (owners_of (db w)) (owners_of (db w'))) \<and>
    (\<forall>env u dto r. op = Reserving env u dto \<and> fst (reserve env u dto w) = Inr r \<longrightarrow>
       own_step (Take (rd_screeningId dto, rd_seatId dto) u) (owners_of (db w)) (owners_of (db w'))) \<and>
    (\<forall>k u b v b'. owners_of (db w) k = Some (u, b) \<and> owners_of (db w') k = Some (v, b') \<longrightarrow> u = v)"
proof (intro conjI allI impI)
  from seat_step_refines [OF assms] show "db_ok (db w')"
    and s: "\<exists>l \<in> labels op (db w). own_step l (owners_of (db w)) (owners_of (db w'))" by blast+
  fix k u b v b' assume "owners_of (db w) k = Some (u, b) \<and> owners_of (db w') k = Some (v, b')"
  with s show "u = v" using own_step_keeps by fastforce
next
  fix env u dto r assume r: "op = Reserving env u dto \<and> fst (reserve env u dto w) = Inr r"
  with assms(2) have "w' = snd (reserve env u dto w)" by (auto elim: seat_step.cases)
  with r have "reserve env u dto w = (Inr r, w')" by (metis prod.collapse)
  with assms(1) show "own_step (Take (rd_screeningId dto, rd_seatId dto) u) (owners_of (db w)) (owners_of (db w'))"
    by (rule reserve_takes)
qed

definition gives_up :: "seat_op \<Rightarrow> int \<Rightarrow> place \<Rightarrow> db \<Rightarrow> bool" where
  "gives_up op u k d \<longleftrightarrow> (case op of
      Sweeping f t \<Rightarrow> k \<in> swept t d
    | Cancelling env u' i \<Rightarrow> u' = u
    | Reconciling env p \<Rightarrow> (case retrieve_session env (stripeSessionId p) of Inl _ \<Rightarrow> False | Inr s \<Rightarrow> cs_payment_status s \<noteq> ''paid'')
    | _ \<Rightarrow> False)"

lemma free_label:
  assumes "db_ok d" and "Free K \<in> labels op d" and "k \<in> K" and "owners_of d k = Some (u, b)"
  shows "gives_up op u k d"
proof (cases op)
  case (Cancelling env u' i)
  with assms obtain r where r: "find_row i (reservations d) = Some r" "active_res r" "res_userId r = u'" "place_of r = k"
    by (auto simp: cancel_labels_def)
  then have "owners_of d k = Some (u', res_status r = CONFIRMED)"
    using owners_Some [OF assms(1)] find_row_mem [OF r(1)] by auto
  with assms(4) Cancelling show ?thesis by (simp add: gives_up_def)
next
  case (Hooking env raw sig)
  with assms(2) show ?thesis by (auto simp: confirm_labels_def allow_confirm_def)
next
  case (Reconciling env p)
  with assms(2) show ?thesis
    by (auto simp: reconcile_labels_def gives_up_def allow_confirm_def split: sum.splits if_splits)
qed (use assms(2,3) in \<open>auto simp: gives_up_def\<close>)

text \<open>A booked seat changes hands only when it was given up: if, over any run of operations, a place that belonged to one user ends
  up with another, then at some point in between it was freed, by a sweep after the hold ran out, by a cancellation that its owner made,
  or by a reconciliation that found the payment not made.\<close>

theorem seat_changes_hands:
  assumes "run_of seat_step ops w w'" and "db_ok (db w)"
    and "owners_of (db w) k = Some (u, b)" and "owners_of (db w') k = Some (v, b')" and "u \<noteq> v"
  shows "\<exists>ops1 op ops2 w1 w2. ops = ops1 @ op # ops2 \<and> run_of seat_step ops1 w w1 \<and> seat_step op w1 w2 \<and>
    run_of seat_step ops2 w2 w' \<and> (\<exists>c. owners_of (db w1) k = Some (u, c)) \<and> owners_of (db w2) k = None \<and> gives_up op u k (db w1)"
  using assms
proof (induction arbitrary: b rule: run_of.induct)
  case (run_Cons op w w1 ops w')
  from seat_step_refines [OF run_Cons.prems(1) run_Cons.hyps(1)] obtain l where ok: "db_ok (db w1)"
      and l: "l \<in> labels op (db w)" "own_step l (owners_of (db w)) (owners_of (db w1))" by blast
  from own_step_keeps [OF l(2) run_Cons.prems(2)] show ?case
  proof
    assume "\<exists>c. owners_of (db w1) k = Some (u, c)"
    then obtain c where "owners_of (db w1) k = Some (u, c)" ..
    from run_Cons.IH [OF ok this run_Cons.prems(3,4)] obtain ops1 op' ops2 w2 w3
      where "ops = ops1 @ op' # ops2" "run_of seat_step ops1 w1 w2" "seat_step op' w2 w3" "run_of seat_step ops2 w3 w'"
        "\<exists>c. owners_of (db w2) k = Some (u, c)" "owners_of (db w3) k = None" "gives_up op' u k (db w2)" by blast
    with run_Cons.hyps(1) show ?case
      by (intro exI [of _ "op # ops1"] exI [of _ op'] exI [of _ ops2] exI [of _ w2] exI [of _ w3]) (simp add: run_of.run_Cons)
  next
    assume "\<exists>K. l = Free K \<and> k \<in> K \<and> owners_of (db w1) k = None"
    then obtain K where K: "l = Free K" "k \<in> K" "owners_of (db w1) k = None" by blast
    have "gives_up op u k (db w)" using free_label [OF run_Cons.prems(1) _ K(2) run_Cons.prems(2)] l(1) K(1) by simp
    with run_Cons.hyps run_Cons.prems(2) K(3) show ?case
      by (intro exI [of _ "[]"] exI [of _ op] exI [of _ ops] exI [of _ w] exI [of _ w1]) (simp add: run_of.run_Nil)
  qed
qed simp

subsection \<open>The properties on the sample database\<close>

theorem booking_refines_ownership_witness:
  "\<exists>r w'. reserve sample_env 2 (sample_request 2) (world_of sample_db) = (Inr r, w') \<and>
     own_step (Take (1, 2) 2) (owners_of sample_db) (owners_of (db w'))"
proof -
  obtain r w' where r: "reserve sample_env 2 (sample_request 2) (world_of sample_db) = (Inr r, w')"
    using sample_reserve by (cases "reserve sample_env 2 (sample_request 2) (world_of sample_db)")
      (metis fst_conv isl_def sum.exhaust sum.disc(1))
  have "seat_step (Reserving sample_env 2 (sample_request 2)) (world_of sample_db) w'"
    using seat_step.reserving [of sample_env 2 "sample_request 2" "world_of sample_db"] r by simp
  from booking_refines_ownership [OF _ this] r show ?thesis
    by (auto simp: sample_world sample_db_ok sample_request_def)
qed

text \<open>User 1's hold on seat 1 is swept, then user 2 takes the seat.\<close>

definition late_env :: request_env where
  "late_env = sample_env\<lparr>at_check := 700000, at_hold := 700000\<rparr>"

definition swept_world :: world where
  "swept_world = snd (handleExpireHolds None 700000 (world_of sample_db))"

lemma sample_handover:
  "owners_of sample_db (1, 1) = Some (1, False)"
  "owners_of (db (snd (reserve late_env 2 (sample_request 1) swept_world))) (1, 1) = Some (2, False)"
  by code_simp+

theorem seat_changes_hands_witness:
  "\<exists>w' ops1 op ops2 w1. run_of seat_step (ops1 @ op # ops2) (world_of sample_db) w' \<and>
     run_of seat_step ops1 (world_of sample_db) w1 \<and> gives_up op 1 (1, 1) (db w1) \<and> owners_of (db w') (1, 1) = Some (2, False)"
proof -
  let ?w' = "snd (reserve late_env 2 (sample_request 1) swept_world)"
  have run: "run_of seat_step [Sweeping None 700000, Reserving late_env 2 (sample_request 1)] (world_of sample_db) ?w'"
    unfolding swept_world_def
    by (rule run_of.run_Cons, rule seat_step.sweeping, rule run_of.run_Cons, rule seat_step.reserving, rule run_of.run_Nil)
  have own: "owners_of (db (world_of sample_db)) (1, 1) = Some (1, False)" using sample_handover(1) by (simp add: sample_world)
  from seat_changes_hands [OF run _ own sample_handover(2)] obtain ops1 op ops2 w1
    where "[Sweeping None 700000, Reserving late_env 2 (sample_request 1)] = ops1 @ op # ops2"
      "run_of seat_step ops1 (world_of sample_db) w1" "gives_up op 1 (1, 1) (db w1)"
    by (auto simp: sample_world sample_db_ok)
  with run sample_handover(2) show ?thesis by metis
qed

end
