(* ===== verification/Refunds.thy ===== *)
theory Refunds
  imports PaymentFlows
begin

text \<open>
  Cancellation with its refund, and the reconciliation of stuck payments: the amount that goes back, what a
  failure of Stripe or of the database leaves, and which payments a run settles.
\<close>

subsection \<open>The amount\<close>

text \<open>A refund is never negative nor more than was paid, off the exact share by at most half a cent,
  exact at 0 and 100 percent, and grows with the percentage.\<close>

theorem refund_amount_bounds:
  assumes "0 \<le> amt" and "0 \<le> p" and "p \<le> q" and "q \<le> 100"
  shows "0 \<le> refund_amount amt p \<and> refund_amount amt p \<le> refund_amount amt q \<and> refund_amount amt q \<le> amt \<and>
    \<bar>of_int (refund_amount amt p) - of_int amt * p / 100\<bar> \<le> 1 / 2 \<and>
    refund_amount amt 0 = 0 \<and> refund_amount amt 100 = amt"
proof -
  have mono: "refund_amount amt a \<le> refund_amount amt b" if "a \<le> b" for a b
    using assms(1) that unfolding refund_amount_def round_half_up_def
    by (intro floor_mono add_right_mono divide_right_mono mult_left_mono) simp_all
  have ends: "refund_amount amt 0 = 0" "refund_amount amt 100 = amt"
    by (simp_all add: refund_amount_def round_half_up_def floor_eq_iff)
  have near: "\<bar>of_int \<lfloor>x + 1 / 2\<rfloor> - x\<bar> \<le> 1 / 2" for x :: rat by linarith
  show ?thesis
    using mono [OF assms(2)] mono [OF assms(3)] mono [OF assms(4)] ends near [of "of_int amt * p / 100"]
    by (simp add: refund_amount_def [of amt p] round_half_up_def)
qed

theorem refund_amount_bounds_witness: "refund_amount 999 50 = 500 \<and> 500 \<le> refund_amount 999 100"
proof -
  have "refund_amount 999 50 = 500" by (simp add: refund_amount_def round_half_up_def floor_eq_iff)
  with refund_amount_bounds [of 999 50 100] show ?thesis by simp
qed

subsection \<open>Cancelling a confirmed reservation\<close>

definition refund_percent :: "stripe_env \<Rightarrow> db \<Rightarrow> screening \<Rightarrow> rat" where
  "refund_percent env d s =
     (case refund_policy_for (hours_until (startTime s) (pay_now env)) d of None \<Rightarrow> 0 | Some pol \<Rightarrow> refundPercent pol)"

definition refund_request_for :: "stripe_env \<Rightarrow> db \<Rightarrow> screening \<Rightarrow> payment \<Rightarrow> refund_request" where
  "refund_request_for env d s p = \<lparr>rr_payment_intent = the (stripePaymentId p),
     rr_amount = refund_amount (amount p) (refund_percent env d s), rr_idempotencyKey = ''refund-'' @ string_of_int (rid p)\<rparr>"

definition refunded :: "ms \<Rightarrow> string option \<Rightarrow> payment \<Rightarrow> payment" where
  "refunded now i p = p\<lparr>pay_status := REFUNDED,
     refundId := (case i of None \<Rightarrow> refundId p | Some i \<Rightarrow> Some i), refundedAt := Some now\<rparr>"

definition cancelled_res :: "reservation \<Rightarrow> reservation" where
  "cancelled_res r = r\<lparr>res_status := CANCELLED\<rparr>"

definition count_refund :: "int \<Rightarrow> string option \<Rightarrow> world \<Rightarrow> world" where
  "count_refund pid refund w = w\<lparr>metrics := (metrics w)\<lparr>payments_refunded_total := payments_refunded_total (metrics w) + 1\<rparr>,
     audit_log := audit_log w @ [(on_target ''payment.refunded'' ''payment'' pid)\<lparr>ae_metadata := [(''refundId'', refund)]\<rparr>]\<rparr>"

text \<open>A confirmed reservation of the user, with the payment \<open>p\<close> and the screening \<open>s\<close>.\<close>

definition paid_reservation :: "world \<Rightarrow> int \<Rightarrow> reservation \<Rightarrow> payment \<Rightarrow> screening \<Rightarrow> bool" where
  "paid_reservation w uid r p s \<longleftrightarrow> db_ok (db w) \<and> find_row (rid r) (reservations (db w)) = Some r \<and>
     res_userId r = uid \<and> res_status r = CONFIRMED \<and> p \<in> set (rows (payments (db w))) \<and>
     pay_reservationId p = rid r \<and> find_row (res_screeningId r) (screenings (db w)) = Some s"

lemma payment_of_reservation:
  assumes "db_ok d" and "p \<in> set (rows (payments d))"
  shows "List.find (\<lambda>q. pay_reservationId q = pay_reservationId p) (rows (payments d)) = Some p"
proof -
  have "distinct (map pay_reservationId (rows (payments d)))"
    using assms(1) by (simp add: db_ok_defs payment_unique_def)
  then have "List.find (\<lambda>q. pay_reservationId q = pay_reservationId p) xs = Some p"
    if "p \<in> set xs" "distinct (map pay_reservationId xs)" for xs
    using that by (induction xs) (auto simp: image_iff)
  then show ?thesis using assms \<open>distinct _\<close> by blast
qed

lemma run_finalizeCancel:
  assumes "db_ok (db w)" and "find_row (rid r) (reservations (db w)) = Some r'"
  shows "finalizeCancel fault r w = (case fault of Some e \<Rightarrow> (Inl (Prisma e), w)
    | None \<Rightarrow> (Inr (cancelled_res r'), snd (publish_event (ReservationCancelled (res_screeningId r) [res_seatId r])
        (w\<lparr>db := (db w)\<lparr>reservations := update_row (rid r) cancelled_res (reservations (db w))\<rparr>\<rparr>))))"
proof -
  have "update_reservation (rid r) cancelled_res (db w) =
      Inr (cancelled_res r', (db w)\<lparr>reservations := update_row (rid r) cancelled_res (reservations (db w))\<rparr>)"
    by (rule update_reservation_run [OF assms]) (simp_all add: cancelled_res_def active_res_def)
  then show ?thesis
    by (cases fault) (simp_all add: finalizeCancel_def reservations_setStatus_def cancelled_res_def [abs_def]
        await_def run_stmt_def publish_event_run ret_run)
qed

lemma cancel_refunded:
  assumes "paid_reservation w uid r p s" and "pay_status p = REFUNDED"
  shows "cancel env uid (rid r) w = finalizeCancel (pay_fault env AtFinalize) r w"
proof -
  note a = assms(1) [unfolded paid_reservation_def]
  have "findOwned uid (rid r) w = (Inr r, w)" using a by (intro findOwned_run) simp_all
  moreover have "List.find (\<lambda>q. pay_reservationId q = rid r) (rows (payments (db w))) = Some p"
    using payment_of_reservation [of "db w" p] a by simp
  ultimately show ?thesis
    using a assms(2) by (simp add: cancel_def await_Inr refundReservation_def payments_findByReservationId_def await_query)
qed

lemma refund_run:
  assumes "paid_reservation w uid r p s" and "pay_status p \<noteq> REFUNDED" and "pay_fault env AtRefundSave = None"
  shows "cancel env uid (rid r) w =
    (case (if 0 < refund_percent env (db w) s \<and> truthy (stripePaymentId p)
           then map_sum id Some (create_refund env (refund_request_for env (db w) s p)) else Inr None) of
       Inl m \<Rightarrow> (Inl (StripeError m), w)
     | Inr i \<Rightarrow> finalizeCancel (pay_fault env AtFinalize) r (count_refund (rid p) i
         (w\<lparr>db := (db w)\<lparr>payments := update_row (rid p) (refunded (pay_now env) i) (payments (db w))\<rparr>\<rparr>)))"
proof -
  note a = assms(1) [unfolded paid_reservation_def]
  have "findOwned uid (rid r) w = (Inr r, w)" using a by (intro findOwned_run) simp_all
  then have own: "await (findOwned uid (rid r)) k w = k r w" for k :: "reservation \<Rightarrow> reservation service"
    by (simp add: await_def)
  have pay: "List.find (\<lambda>q. pay_reservationId q = rid r) (rows (payments (db w))) = Some p"
    using payment_of_reservation [of "db w" p] a by simp
  obtain m h where j: "screening_join (res_screeningId r) (db w) = Some (s, m, h)"
    using screening_of_reservation a by blast
  have row: "find_row (rid p) (payments (db w)) = Some p" using payment_at a by blast
  have save: "payments_updateById None (Some (rid p)) (refunded (pay_now env) i) w = (Inr (refunded (pay_now env) i p),
      w\<lparr>db := (db w)\<lparr>payments := update_row (rid p) (refunded (pay_now env) i) (payments (db w))\<rparr>\<rparr>)" for i
    using a by (intro run_payment_update row) (auto simp: refunded_def intro: no_clash_same [OF _ row])
  let ?out = "if 0 < refund_percent env (db w) s \<and> truthy (stripePaymentId p)
     then map_sum id Some (create_refund env (refund_request_for env (db w) s p)) else Inr None"
  have ask: "stripe_refund env p (refund_percent env (db w) s) w =
      (case ?out of Inl m \<Rightarrow> (Inl (StripeError m), w) | Inr i \<Rightarrow> (Inr i, w))"
    by (simp add: stripe_refund_def asks_refund_def refund_call_def await_def from_stripe_run ret_run refund_request_for_def split: sum.split)
  have "cancel env uid (rid r) w =
    await (stripe_refund env p (refund_percent env (db w) s)) (\<lambda>i.
    await (payments_updateById None (Some (rid p)) (refunded (pay_now env) i)) (\<lambda>_.
    await (inc (\<lambda>m. m\<lparr>payments_refunded_total := payments_refunded_total m + 1\<rparr>)) (\<lambda>_.
    await (record_audit ((on_target ''payment.refunded'' ''payment'' (rid p))\<lparr>ae_metadata := [(''refundId'', i)]\<rparr>)) (\<lambda>_.
    finalizeCancel (pay_fault env AtFinalize) r)))) w"
    using a assms(2,3) pay j
    by (simp add: cancel_def own refundReservation_def payments_findByReservationId_def await_query
        screenings_findById_def payments_findRefundPolicy_def Let_def refund_percent_def refunded_def [abs_def])
  also have "\<dots> = (case ?out of Inl m \<Rightarrow> (Inl (StripeError m), w)
     | Inr i \<Rightarrow> finalizeCancel (pay_fault env AtFinalize) r (count_refund (rid p) i
         (w\<lparr>db := (db w)\<lparr>payments := update_row (rid p) (refunded (pay_now env) i) (payments (db w))\<rparr>\<rparr>)))"
    unfolding await_def ask by (simp add: save inc_def modify_run record_audit_run count_refund_def split: sum.split)
  finally show ?thesis .
qed

text \<open>Cancelling the active reservation of a seat frees it.\<close>

lemma cancel_frees:
  assumes "db_ok d" and "find_row (rid r) (reservations d) = Some r" and "active_res r"
  shows "\<not> seat_active (d\<lparr>reservations := update_row (rid r) cancelled_res (reservations d)\<rparr>) (res_screeningId r) (res_seatId r)"
proof
  assume "seat_active (d\<lparr>reservations := update_row (rid r) cancelled_res (reservations d)\<rparr>) (res_screeningId r) (res_seatId r)"
  then obtain y where y: "y \<in> set (rows (reservations d))" "active_res (if rid y = rid r then cancelled_res y else y)"
      "res_screeningId y = res_screeningId r" "res_seatId y = res_seatId r"
    unfolding seat_active_def by (auto simp: rows_update_row cancelled_res_def split: if_splits)
  have "rid y \<noteq> rid r" using y(2) by (auto simp: cancelled_res_def active_res_def)
  moreover have "reservation_unique (reservations d)" using assms(1) by (simp add: db_ok_defs)
  ultimately show False
    using active_unique_eq [of "reservations d" y r] y find_row_mem [OF assms(2)] assms(3) by auto
qed

text \<open>C18. Cancelling a confirmed reservation refunds the share of the policy whose hours contain the time
  left, and nothing without one or without a payment intent. When Stripe refuses, its error is thrown and
  nothing changed; otherwise the reservation is CANCELLED, its seat free, its seat map dropped, and the
  payment REFUNDED with Stripe's refund id, all other payments untouched.\<close>

theorem refund_outcome:
  assumes "paid_reservation w uid r p s" and "pay_status p \<noteq> REFUNDED" and "\<And>x. pay_fault env x = None"
    and "percent = (case refund_policy_for (hours_until (startTime s) (pay_now env)) (db w) of
       None \<Rightarrow> 0 | Some pol \<Rightarrow> refundPercent pol)"
    and "answer = (if percent > 0 \<and> truthy (stripePaymentId p)
       then map_sum id Some (create_refund env \<lparr>rr_payment_intent = the (stripePaymentId p),
         rr_amount = refund_amount (amount p) percent, rr_idempotencyKey = ''refund-'' @ string_of_int (rid p)\<rparr>)
       else Inr None)"
  shows "case answer of
      Inl m \<Rightarrow> cancel env uid (rid r) w = (Inl (StripeError m), w)
    | Inr i \<Rightarrow> \<exists>w'. cancel env uid (rid r) w = (Inr (r\<lparr>res_status := CANCELLED\<rparr>), w') \<and>
        find_row (rid r) (reservations (db w')) = Some (r\<lparr>res_status := CANCELLED\<rparr>) \<and>
        \<not> seat_active (db w') (res_screeningId r) (res_seatId r) \<and>
        (redis_up (redis w) \<longrightarrow> seat_maps (redis w') (res_screeningId r) = None) \<and>
        payments (db w') = update_row (rid p) (\<lambda>p. p\<lparr>pay_status := REFUNDED,
          refundId := (case i of None \<Rightarrow> refundId p | Some i \<Rightarrow> Some i), refundedAt := Some (pay_now env)\<rparr>) (payments (db w))"
proof -
  have ans: "(if 0 < refund_percent env (db w) s \<and> truthy (stripePaymentId p)
      then map_sum id Some (create_refund env (refund_request_for env (db w) s p)) else Inr None) = answer"
    unfolding assms(4,5) refund_percent_def refund_request_for_def by (rule refl)
  show ?thesis
proof (cases answer)
  case (Inl m)
  then show ?thesis unfolding Inl sum.case refund_run [OF assms(1,2,3)] ans Inl by simp
next
  case (Inr i)
  note a = assms(1) [unfolded paid_reservation_def]
  let ?w = "count_refund (rid p) i (w\<lparr>db := (db w)\<lparr>payments := update_row (rid p) (refunded (pay_now env) i) (payments (db w))\<rparr>\<rparr>)"
  have run: "cancel env uid (rid r) w = finalizeCancel None r ?w"
    unfolding refund_run [OF assms(1,2,3)] ans Inr sum.case assms(3) ..
  have row: "find_row (rid p) (payments (db w)) = Some p" using payment_at a by blast
  have u: "update_payment (rid p) (refunded (pay_now env) i) (db w) = Inr (refunded (pay_now env) i p, db ?w)"
    using a by (subst update_payment_run [OF _ row])
      (auto simp: refunded_def count_refund_def intro: no_clash_same [OF _ row])
  have ok: "db_ok (db ?w)"
    by (rule db_ok_update_payment [OF _ _ u]) (use a in \<open>simp_all add: refunded_def\<close>)
  have mem: "find_row (rid r) (reservations (db ?w)) = Some r" using a by (simp add: count_refund_def)
  let ?w' = "snd (finalizeCancel None r ?w)"
  have dw: "db ?w' = (db ?w)\<lparr>reservations := update_row (rid r) cancelled_res (reservations (db ?w))\<rparr>"
    by (simp add: run_finalizeCancel [OF ok mem] publish_event_run)
  have res: "reservations (db ?w') = update_row (rid r) cancelled_res (reservations (db w))"
    unfolding dw by (simp add: count_refund_def)
  have out: "cancel env uid (rid r) w = (Inr (cancelled_res r), ?w')"
    unfolding run by (simp add: run_finalizeCancel [OF ok mem])
  moreover have "find_row (rid r) (reservations (db ?w')) = Some (cancelled_res r)"
    unfolding res using a by (subst find_update_row) (simp_all add: cancelled_res_def)
  moreover have "\<not> seat_active (db ?w') (res_screeningId r) (res_seatId r)"
    unfolding dw using a by (intro cancel_frees [OF ok mem]) (simp add: active_res_def)
  moreover have "redis_up (redis w) \<longrightarrow> seat_maps (redis ?w') (res_screeningId r) = None"
    unfolding run_finalizeCancel [OF ok mem] by (simp add: publish_event_run count_refund_def key_del_def)
  moreover have "payments (db ?w') = update_row (rid p) (refunded (pay_now env) i) (payments (db w))"
    unfolding dw by (simp add: count_refund_def)
  ultimately show ?thesis
    unfolding Inr sum.case by (intro exI [of _ ?w']) (simp add: cancelled_res_def refunded_def [abs_def])
qed
qed

text \<open>Money goes back at most once: when the refund was recorded and the cancellation then failed, the
  request is an error, and a retry cancels the reservation without a call to Stripe (whatever Stripe would
  answer) and without touching the payment again.\<close>

theorem refund_retry_skips_stripe:
  assumes "paid_reservation w uid r p s" and "pay_status p \<noteq> REFUNDED"
    and "env = env0\<lparr>pay_fault := (\<lambda>x. if x = AtFinalize then Some f else None)\<rparr>"
    and "\<forall>q. \<exists>i. create_refund env q = Inr i" and "pay_fault env' AtFinalize = None"
  shows "\<exists>w1 w2. cancel env uid (rid r) w = (Inl (Prisma f), w1) \<and>
    find_row (rid r) (reservations (db w1)) = Some r \<and>
    cancel env' uid (rid r) w1 = (Inr (r\<lparr>res_status := CANCELLED\<rparr>), w2) \<and> payments (db w2) = payments (db w1)"
proof -
  note a = assms(1) [unfolded paid_reservation_def]
  obtain i where i: "(if 0 < refund_percent env (db w) s \<and> truthy (stripePaymentId p)
      then map_sum id Some (create_refund env (refund_request_for env (db w) s p)) else Inr None) = Inr i"
    using assms(4) by (metis map_sum.simps(2))
  let ?w = "count_refund (rid p) i (w\<lparr>db := (db w)\<lparr>payments := update_row (rid p) (refunded (pay_now env) i) (payments (db w))\<rparr>\<rparr>)"
  have row: "find_row (rid p) (payments (db w)) = Some p" using payment_at a by blast
  have u: "update_payment (rid p) (refunded (pay_now env) i) (db w) = Inr (refunded (pay_now env) i p, db ?w)"
    using a by (subst update_payment_run [OF _ row])
      (auto simp: refunded_def count_refund_def intro: no_clash_same [OF _ row])
  have ok: "db_ok (db ?w)"
    by (rule db_ok_update_payment [OF _ _ u]) (use a in \<open>simp_all add: refunded_def\<close>)
  have mem: "find_row (rid r) (reservations (db ?w)) = Some r" using a by (simp add: count_refund_def)
  have save: "pay_fault env AtRefundSave = None" by (simp add: assms(3))
  have first: "cancel env uid (rid r) w = (Inl (Prisma f), ?w)"
    unfolding refund_run [OF assms(1,2) save] i sum.case run_finalizeCancel [OF ok mem] by (simp add: assms(3))
  have "refunded (pay_now env) i p \<in> set (rows (payments (db ?w)))"
    using a by (auto simp: count_refund_def rows_update_row)
  then have paid: "paid_reservation ?w uid r (refunded (pay_now env) i p) s"
    using a ok mem by (simp add: paid_reservation_def refunded_def count_refund_def)
  have "cancel env' uid (rid r) ?w = finalizeCancel None r ?w"
    using cancel_refunded [OF paid, of env'] assms(5) by (simp add: refunded_def)
  with first mem show ?thesis
    by (intro exI [of _ ?w] exI [of _ "snd (finalizeCancel None r ?w)"])
      (simp add: run_finalizeCancel [OF ok mem] publish_event_run cancelled_res_def)
qed

definition sample_settled_db :: db where
  "sample_settled_db = (sample_paid_db CONFIRMED)\<lparr>payments :=
     \<lparr>rows = [sample_payment\<lparr>pay_status := SUCCEEDED, stripePaymentId := Some ''pi''\<rparr>], next_id = 2\<rparr>\<rparr>"

lemma sample_settled:
  "paid_reservation (world_of sample_settled_db) 1 (sample_reservation\<lparr>res_status := CONFIRMED\<rparr>)
     (sample_payment\<lparr>pay_status := SUCCEEDED, stripePaymentId := Some ''pi''\<rparr>) sample_screening"
  by (simp add: paid_reservation_def world_of_def find_row_def sample_settled_db_def db_ok_defs fk_defs sample_defs
      sample_pay_defs wf_table_def ids_def user_unique_def seat_unique_def reservation_unique_def active_res_def
      payment_unique_def policy_unique_def unique_nullable_def map_filter_simps2)

lemma sample_policy_full: "refund_policy_for (hours_until 360000000 1000) sample_settled_db = Some (sample_policy 1 48 100000 100)"
  by (simp add: refund_policy_for_def hours_until_def sample_settled_db_def sample_paid_db_def sample_defs)

theorem refund_outcome_witness:
  "\<exists>w'. cancel sample_stripe 1 1 (world_of sample_settled_db) =
      (Inr (sample_reservation\<lparr>res_status := CANCELLED\<rparr>), w') \<and> \<not> seat_active (db w') 1 1"
proof -
  have "startTime sample_screening = 360000000" "pay_now sample_stripe = 1000" "refundPercent (sample_policy 1 48 100000 100) = 100"
    by (simp_all add: sample_defs sample_stripe_def)
  then have "(100 :: rat) = (case refund_policy_for (hours_until (startTime sample_screening) (pay_now sample_stripe))
      (db (world_of sample_settled_db)) of None \<Rightarrow> 0 | Some pol \<Rightarrow> refundPercent pol)"
    by (simp add: world_of_def sample_policy_full)
  from refund_outcome [OF sample_settled _ _ this, of "Inr (Some ''re'')"] show ?thesis
    by (auto simp: sample_stripe_def sample_reservation_def truthy_def)
qed

theorem refund_retry_skips_stripe_witness:
  "\<exists>w1 w2. cancel (sample_stripe\<lparr>pay_fault := (\<lambda>x. if x = AtFinalize then Some POther else None)\<rparr>) 1 1
       (world_of sample_settled_db) = (Inl (Prisma POther), w1) \<and>
     cancel (sample_stripe\<lparr>create_refund := (\<lambda>_. Inl ''down'')\<rparr>) 1 1 w1 =
       (Inr (sample_reservation\<lparr>res_status := CANCELLED\<rparr>), w2)"
  using refund_retry_skips_stripe [OF sample_settled _ refl, where ?env0.0 = sample_stripe and f = POther
      and env' = "sample_stripe\<lparr>create_refund := (\<lambda>_. Inl ''down'')\<rparr>"]
  by (auto simp: sample_stripe_def sample_reservation_def)

subsection \<open>Reconciliation\<close>

text \<open>What Stripe says of a payment, and what a run makes of it.\<close>

definition settled_payment :: "stripe_env \<Rightarrow> payment \<Rightarrow> payment" where
  "settled_payment env p = (case retrieve_session env (stripeSessionId p) of
       Inr s \<Rightarrow> if cs_payment_status s = ''paid'' then p\<lparr>pay_status := SUCCEEDED, stripePaymentId := cs_payment_intent s\<rparr>
         else p\<lparr>pay_status := DECLINED\<rparr>
     | Inl _ \<Rightarrow> p)"

definition settled_res :: "stripe_env \<Rightarrow> payment \<Rightarrow> reservation \<Rightarrow> reservation" where
  "settled_res env p r = (case retrieve_session env (stripeSessionId p) of
       Inr s \<Rightarrow> if cs_payment_status s = ''paid'' then confirmed_res r else cancelled_res r
     | Inl _ \<Rightarrow> r)"

definition intent_of :: "stripe_env \<Rightarrow> payment \<Rightarrow> string option" where
  "intent_of env p = (case retrieve_session env (stripeSessionId p) of
       Inr s \<Rightarrow> if cs_payment_status s = ''paid'' then cs_payment_intent s else None | Inl _ \<Rightarrow> None)"

text \<open>
  The payments \<open>ps\<close> can be settled: Stripe answers for each, its reservation is still active, and no two
  payments get the same payment intent.
\<close>

definition settleable :: "stripe_env \<Rightarrow> db \<Rightarrow> payment list \<Rightarrow> bool" where
  "settleable env d ps \<longleftrightarrow> distinct (map rid ps) \<and> distinct (map pay_reservationId ps) \<and>
     (\<forall>p \<in> set ps. find_row (rid p) (payments d) = Some p \<and> (\<exists>s. retrieve_session env (stripeSessionId p) = Inr s) \<and>
       (\<exists>r. find_row (pay_reservationId p) (reservations d) = Some r \<and> active_res r) \<and>
       (\<forall>q \<in> set (rows (payments d)). rid q \<noteq> rid p \<longrightarrow> intent_of env p \<noteq> None \<longrightarrow>
          stripePaymentId q \<noteq> intent_of env p \<and> (q \<in> set ps \<longrightarrow> intent_of env q \<noteq> intent_of env p)))"

definition settle :: "stripe_env \<Rightarrow> payment \<Rightarrow> db \<Rightarrow> db" where
  "settle env p d = d\<lparr>payments := update_row (rid p) (\<lambda>_. settled_payment env p) (payments d),
     reservations := update_row (pay_reservationId p) (settled_res env p) (reservations d)\<rparr>"

lemma settled_simps [simp]:
  "rid (settled_payment env p) = rid p" "pay_reservationId (settled_payment env p) = pay_reservationId p"
  "stripeEventId (settled_payment env p) = stripeEventId p"
  "rid (settled_res env p r) = rid r" "res_seatId (settled_res env p r) = res_seatId r"
  "res_screeningId (settled_res env p r) = res_screeningId r" "res_userId (settled_res env p r) = res_userId r"
  by (simp_all add: settled_payment_def settled_res_def confirmed_res_def cancelled_res_def split: sum.split)

lemma settled_intent: "stripePaymentId (settled_payment env p) = intent_of env p \<or>
    stripePaymentId (settled_payment env p) = stripePaymentId p"
  by (simp add: settled_payment_def intent_of_def split: sum.split)

lemma update_row_cong:
  "(\<And>x. x \<in> set (rows t) \<Longrightarrow> rid x = i \<Longrightarrow> f x = g x) \<Longrightarrow> update_row i f t = update_row i g t"
  by (auto simp: update_row_def)

lemma run_both_updates:
  assumes d: "db_ok d" and p: "find_row (rid p) (payments d) = Some p"
    and r: "find_row (pay_reservationId p) (reservations d) = Some r" "active_res r"
    and f: "\<And>x. rid (f x) = rid x" "\<And>x. pay_reservationId (f x) = pay_reservationId x" "f p = settled_payment env p"
    and c: "no_clash d (rid p) (f p)"
  shows "both_updates (rid p) f (pay_reservationId p) (settled_res env p) d =
    Inr ((f p, settled_res env p r), settle env p d)"
proof -
  have u: "update_payment (rid p) f d = Inr (f p, d\<lparr>payments := update_row (rid p) f (payments d)\<rparr>)"
    by (rule update_payment_run [OF d p f(1,2) c])
  let ?d = "d\<lparr>payments := update_row (rid p) f (payments d)\<rparr>"
  have ok: "db_ok ?d" by (rule db_ok_update_payment [OF d f(1) u])
  have "update_reservation (pay_reservationId p) (settled_res env p) ?d = Inr (settled_res env p r,
      ?d\<lparr>reservations := update_row (pay_reservationId p) (settled_res env p) (reservations ?d)\<rparr>)"
    using r by (intro update_reservation_run ok) simp_all
  moreover have "update_row (rid p) f (payments d) = update_row (rid p) (\<lambda>_. settled_payment env p) (payments d)"
  proof (rule update_row_cong)
    fix x
    assume x: "x \<in> set (rows (payments d))" "rid x = rid p"
    have "find_row (rid p) (payments d) = Some x" using payment_at [OF d x(1)] unfolding x(2) .
    with p have "x = p" by (metis option.inject)
    with f(3) show "f x = settled_payment env p" by (simp only:)
  qed
  ultimately show ?thesis by (simp add: both_updates_def u settle_def)
qed

lemma recordFailure_up:
  assumes "redis_up (redis w)"
  shows "\<exists>w'. recordFailure t u uid w = (Inr (), w') \<and> db w' = db w \<and> redis_up (redis w')"
  using assms by (auto simp: recordFailure_def Let_def)

lemma reconcile_one_run:
  assumes d: "db_ok (db w)" and p: "find_row (rid p) (payments (db w)) = Some p"
    and r: "find_row (pay_reservationId p) (reservations (db w)) = Some r" "active_res r"
    and s: "retrieve_session env (stripeSessionId p) = Inr s" and up: "redis_up (redis w)"
    and c: "no_clash (db w) (rid p) (settled_payment env p)" and nf: "pay_fault env AtReconcile = None"
  shows "\<exists>w'. reconcile_one env p w = (Inr (), w') \<and> db w' = settle env p (db w) \<and> redis_up (redis w')"
proof (cases "cs_payment_status s = ''paid''")
  case True
  let ?f = "\<lambda>x. x\<lparr>pay_status := SUCCEEDED, stripePaymentId := cs_payment_intent s\<rparr>"
  have fp: "?f p = settled_payment env p" by (simp add: settled_payment_def s True)
  have g: "settled_res env p = (\<lambda>r. r\<lparr>res_status := CONFIRMED, heldUntil := None\<rparr>)"
    by (rule ext) (simp add: settled_res_def s True confirmed_res_def)
  have "both_updates (rid p) ?f (pay_reservationId p) (settled_res env p) (db w) =
      Inr ((?f p, settled_res env p r), settle env p (db w))"
    using c fp by (intro run_both_updates [OF d p r]) simp_all
  then have "confirmWithReservation None (rid p) (pay_reservationId p) (cs_payment_intent s) w =
      (Inr (?f p, settled_res env p r), w\<lparr>db := settle env p (db w)\<rparr>)"
    by (simp add: confirmWithReservation_def run_stmt_def g)
  then show ?thesis
    using up by (simp add: reconcile_one_def await_def from_stripe_run s True nf inc_def modify_run publish_event_run)
next
  case False
  let ?f = "\<lambda>x. x\<lparr>pay_status := DECLINED\<rparr>"
  have fp: "?f p = settled_payment env p" by (simp add: settled_payment_def s False)
  have g: "settled_res env p = (\<lambda>r. r\<lparr>res_status := CANCELLED\<rparr>)"
    by (rule ext) (simp add: settled_res_def s False cancelled_res_def)
  have "both_updates (rid p) ?f (pay_reservationId p) (settled_res env p) (db w) =
      Inr ((?f p, settled_res env p r), settle env p (db w))"
    using c fp by (intro run_both_updates [OF d p r]) simp_all
  then have dec: "declineWithReservation None (rid p) (pay_reservationId p) w =
      (Inr (?f p, settled_res env p r), w\<lparr>db := settle env p (db w)\<rparr>)"
    by (simp add: declineWithReservation_def run_stmt_def g)
  let ?w = "snd (publish_event (ReservationCancelled (res_screeningId r) [res_seatId r])
    (w\<lparr>db := settle env p (db w), metrics := (metrics w)\<lparr>payments_declined_total := payments_declined_total (metrics w) + 1\<rparr>\<rparr>))"
  have "redis_up (redis ?w)" "db ?w = settle env p (db w)" using up by (simp_all add: publish_event_run)
  with recordFailure_up [of ?w "pay_now env" "pay_uuid env (rid p)" "res_userId r"]
  obtain w' where w': "recordFailure (pay_now env) (pay_uuid env (rid p)) (res_userId r) ?w = (Inr (), w')"
      "db w' = settle env p (db w)" "redis_up (redis w')" by auto
  have "reconcile_one env p w = recordFailure (pay_now env) (pay_uuid env (rid p)) (res_userId r) ?w"
    by (simp add: reconcile_one_def await_def from_stripe_run s False nf dec inc_def modify_run publish_event_run)
  with w' show ?thesis by simp
qed

lemma find_settle:
  "find_row i (payments (settle env p d)) =
     (if i = rid p then map_option (\<lambda>_. settled_payment env p) (find_row i (payments d)) else find_row i (payments d))"
  "find_row i (reservations (settle env p d)) =
     (if i = pay_reservationId p then map_option (settled_res env p) (find_row i (reservations d))
      else find_row i (reservations d))"
proof -
  have "List.find (\<lambda>r. rid r = i) (map (\<lambda>r. if rid r = rid p then settled_payment env p else r) xs) =
      (if i = rid p then map_option (\<lambda>_. settled_payment env p) (List.find (\<lambda>r. rid r = i) xs)
       else List.find (\<lambda>r. rid r = i) xs)" for xs
    by (induction xs) auto
  then show "find_row i (payments (settle env p d)) =
     (if i = rid p then map_option (\<lambda>_. settled_payment env p) (find_row i (payments d)) else find_row i (payments d))"
    by (simp add: settle_def find_row_def rows_update_row)
  show "find_row i (reservations (settle env p d)) =
     (if i = pay_reservationId p then map_option (settled_res env p) (find_row i (reservations d))
      else find_row i (reservations d))"
    by (simp add: settle_def find_update_row)
qed

lemma settle_no_clash:
  assumes "db_ok d" and "settleable env d (p # ps)"
  shows "no_clash d (rid p) (settled_payment env p)"
proof -
  from assms(2) have p: "find_row (rid p) (payments d) = Some p" by (simp add: settleable_def)
  have same: "no_clash d (rid p) p" by (rule no_clash_same [OF assms(1) p]) simp_all
  show ?thesis
    unfolding no_clash_def
  proof (intro ballI impI conjI)
    fix q
    assume q: "q \<in> set (rows (payments d))" "rid q \<noteq> rid p"
    show "stripeEventId q \<noteq> stripeEventId (settled_payment env p)" if "stripeEventId (settled_payment env p) \<noteq> None"
      using same q that unfolding no_clash_def by simp
    show "stripePaymentId q \<noteq> stripePaymentId (settled_payment env p)"
      if n: "stripePaymentId (settled_payment env p) \<noteq> None"
      using settled_intent [of env p]
    proof
      assume "stripePaymentId (settled_payment env p) = intent_of env p"
      with n q assms(2) show ?thesis unfolding settleable_def by auto
    next
      assume "stripePaymentId (settled_payment env p) = stripePaymentId p"
      with n q same show ?thesis unfolding no_clash_def by auto
    qed
  qed
qed

lemma settleable_intents:
  assumes s: "settleable env d (p # ps)" and q: "q \<in> set ps" "intent_of env q \<noteq> None"
    and x: "x \<in> set (rows (payments (settle env p d)))" "rid x \<noteq> rid q"
  shows "stripePaymentId x \<noteq> intent_of env q \<and> (x \<in> set ps \<longrightarrow> intent_of env x \<noteq> intent_of env q)"
proof -
  obtain y where y: "y \<in> set (rows (payments d))" "x = (if rid y = rid p then settled_payment env p else y)"
    using x(1) by (auto simp: settle_def rows_update_row)
  have "q \<in> set (p # ps)" using q(1) by simp
  then have all: "stripePaymentId z \<noteq> intent_of env q \<and> (z \<in> set (p # ps) \<longrightarrow> intent_of env z \<noteq> intent_of env q)"
    if "z \<in> set (rows (payments d))" "rid z \<noteq> rid q" for z
    using s q(2) that unfolding settleable_def by blast
  show ?thesis
  proof (cases "rid y = rid p")
    case False
    with y x(2) all [of y] show ?thesis by auto
  next
    case True
    have p: "p \<in> set (rows (payments d))" using s find_row_mem by (fastforce simp: settleable_def)
    have xs: "x = settled_payment env p" using y(2) True by simp
    have "rid p \<notin> rid ` set ps" using s by (simp add: settleable_def)
    moreover have "rid x = rid p" by (simp add: xs)
    ultimately have "x \<notin> set ps" by (metis imageI)
    with xs x(2) all [OF p] settled_intent [of env p] show ?thesis by auto
  qed
qed

lemma settleable_rest:
  assumes "settleable env d (p # ps)"
  shows "settleable env (settle env p d) ps"
proof -
  have ds: "rid p \<notin> rid ` set ps" "pay_reservationId p \<notin> pay_reservationId ` set ps"
      "distinct (map rid ps)" "distinct (map pay_reservationId ps)"
    using assms by (simp_all add: settleable_def)
  moreover have "find_row (rid q) (payments (settle env p d)) = Some q \<and>
      (\<exists>s. retrieve_session env (stripeSessionId q) = Inr s) \<and>
      (\<exists>r. find_row (pay_reservationId q) (reservations (settle env p d)) = Some r \<and> active_res r)" if q: "q \<in> set ps" for q
  proof -
    have ne: "rid q \<noteq> rid p" "pay_reservationId q \<noteq> pay_reservationId p"
      using ds(1,2) q by (metis imageI)+
    from assms q have "find_row (rid q) (payments d) = Some q" "\<exists>s. retrieve_session env (stripeSessionId q) = Inr s"
      "\<exists>r. find_row (pay_reservationId q) (reservations d) = Some r \<and> active_res r"
      unfolding settleable_def by auto
    with ne show ?thesis unfolding find_settle by simp
  qed
  moreover note settleable_intents [OF assms]
  ultimately show ?thesis unfolding settleable_def by blast
qed

lemma reconcile_all_run:
  assumes "db_ok (db w)" and "settleable env (db w) ps" and "redis_up (redis w)" and "\<And>x. pay_fault env x = None"
  shows "\<exists>w'. reconcile_all env ps w = (Inr (), w') \<and> db w' = fold (settle env) ps (db w)"
  using assms(1-3)
proof (induction ps arbitrary: w)
  case (Cons p ps)
  from Cons.prems(2) obtain r s where pr: "find_row (rid p) (payments (db w)) = Some p"
      "find_row (pay_reservationId p) (reservations (db w)) = Some r" "active_res r"
      "retrieve_session env (stripeSessionId p) = Inr s"
    by (auto simp: settleable_def)
  obtain w1 where w1: "reconcile_one env p w = (Inr (), w1)" "db w1 = settle env p (db w)" "redis_up (redis w1)"
    using reconcile_one_run [OF Cons.prems(1) pr Cons.prems(3) settle_no_clash [OF Cons.prems(1,2)] assms(4)] by blast
  have "db_ok (db w1)" using keeps_dbD [OF keeps_reconcile(1) Cons.prems(1), of env p] w1 by simp
  with Cons.IH [of w1] settleable_rest [OF Cons.prems(2)] w1 show ?case by (simp add: await_def)
qed (simp add: ret_run)

lemma find_fold_payments:
  "distinct (map rid ps) \<Longrightarrow> find_row i (payments (fold (settle env) ps d)) = (case List.find (\<lambda>p. rid p = i) ps of
      None \<Rightarrow> find_row i (payments d) | Some p \<Rightarrow> map_option (\<lambda>_. settled_payment env p) (find_row i (payments d)))"
proof (induction ps arbitrary: d)
  case (Cons p ps)
  have "List.find (\<lambda>x. rid x = i) ps = None" if "i = rid p" using Cons.prems that by (auto simp: find_None_iff) (metis image_eqI)
  with Cons show ?case by (auto simp: find_settle split: option.split)
qed simp

lemma find_fold_reservations:
  "distinct (map pay_reservationId ps) \<Longrightarrow> find_row i (reservations (fold (settle env) ps d)) =
     (case List.find (\<lambda>p. pay_reservationId p = i) ps of
        None \<Rightarrow> find_row i (reservations d) | Some p \<Rightarrow> map_option (settled_res env p) (find_row i (reservations d)))"
proof (induction ps arbitrary: d)
  case (Cons p ps)
  have "List.find (\<lambda>x. pay_reservationId x = i) ps = None" if "i = pay_reservationId p"
    using Cons.prems that by (auto simp: find_None_iff) (metis image_eqI)
  with Cons show ?case by (auto simp: find_settle split: option.split)
qed simp

text \<open>C20. A reconciliation run settles everything it finds: when Stripe answers for every payment stuck in
  TIMED_OUT for longer than the grace of ten minutes and their reservations are still active, each becomes
  SUCCEEDED with its reservation CONFIRMED or DECLINED with its reservation CANCELLED, as Stripe says,
  every other payment and reservation is as before, and the next run at the same time finds none.\<close>

theorem reconcile_settles_all:
  assumes "db_ok (db w)" and "stuck = stuck_timed_out (pay_now env - 600000) (db w)" and "settleable env (db w) stuck"
    and "redis_up (redis w)" and "\<And>x. pay_fault env x = None"
  shows "\<exists>w'. reconcileTimedOutPayments env w = (Inr (), w') \<and>
    stuck_timed_out (pay_now env - 600000) (db w') = [] \<and>
    (\<forall>i. find_row i (payments (db w')) = (case List.find (\<lambda>p. rid p = i) stuck of
       None \<Rightarrow> find_row i (payments (db w)) | Some p \<Rightarrow> Some (settled_payment env p))) \<and>
    (\<forall>i. find_row i (reservations (db w')) = (case List.find (\<lambda>p. pay_reservationId p = i) stuck of
       None \<Rightarrow> find_row i (reservations (db w))
     | Some p \<Rightarrow> map_option (settled_res env p) (find_row i (reservations (db w)))))"
proof -
  obtain w' where w': "reconcile_all env stuck w = (Inr (), w')" "db w' = fold (settle env) stuck (db w)"
    using reconcile_all_run [OF assms(1,3,4,5)] by blast
  have run: "reconcileTimedOutPayments env w = (Inr (), w')"
    using w'(1) assms(2)
    by (simp add: reconcileTimedOutPayments_def payments_findStuckTimedOut_def await_query RECONCILE_GRACE_MINUTES_def)
  have ids: "distinct (map rid stuck)" "distinct (map pay_reservationId stuck)"
    using assms(3) by (simp_all add: settleable_def)
  have pays: "find_row i (payments (db w')) = (case List.find (\<lambda>p. rid p = i) stuck of
       None \<Rightarrow> find_row i (payments (db w)) | Some p \<Rightarrow> Some (settled_payment env p))" for i
  proof (cases "List.find (\<lambda>p. rid p = i) stuck")
    case (Some p)
    with find_Some_mem [OF Some] assms(3) have "find_row i (payments (db w)) = Some p" by (auto simp: settleable_def)
    with Some show ?thesis unfolding w'(2) find_fold_payments [OF ids(1)] by simp
  qed (simp add: w'(2) find_fold_payments [OF ids(1)])
  have ok: "db_ok (db w')"
    using keeps_dbD [OF keeps_reconcile(2) assms(1), of env stuck] w'(1) by simp
  have "\<not> (pay_status x = TIMED_OUT \<and> pay_createdAt x < pay_now env - 600000)" if x: "x \<in> set (rows (payments (db w')))" for x
  proof (cases "List.find (\<lambda>p. rid p = rid x) stuck")
    case None
    with pays [of "rid x"] payment_at [OF ok x] have "find_row (rid x) (payments (db w)) = Some x" by simp
    then have "x \<in> set (rows (payments (db w)))" by (rule find_row_mem)
    with None show ?thesis unfolding assms(2) stuck_timed_out_def by (auto simp: find_None_iff)
  next
    case (Some p)
    with pays [of "rid x"] payment_at [OF ok x] have "x = settled_payment env p" by simp
    moreover from find_Some_mem [OF Some] assms(3) obtain s where "retrieve_session env (stripeSessionId p) = Inr s"
      by (auto simp: settleable_def)
    ultimately show ?thesis by (simp add: settled_payment_def)
  qed
  then have "stuck_timed_out (pay_now env - 600000) (db w') = []"
    unfolding stuck_timed_out_def filter_empty_conv by blast
  with run pays show ?thesis
    using find_fold_reservations [OF ids(2), of _ env "db w"] w'(2) by (intro exI [of _ w']) simp
qed

text \<open>One payment blocks all: when Stripe fails for the first stuck payment, the run changes nothing,
  whatever other payments are stuck, and the scheduled job hides the error, so the next run meets it again.\<close>

theorem reconcile_head_of_line:
  assumes "stuck_timed_out (pay_now env - 600000) (db w) = p # ps" and "retrieve_session env (stripeSessionId p) = Inl m"
  shows "reconcileTimedOutPayments env w = (Inl (StripeError m), w) \<and> handleReconcilePayments env w = (Inr (), w)"
proof -
  have "reconcileTimedOutPayments env w = (Inl (StripeError m), w)"
    using assms by (simp add: reconcileTimedOutPayments_def payments_findStuckTimedOut_def await_query
        RECONCILE_GRACE_MINUTES_def reconcile_one_def) (simp add: await_def from_stripe_run)
  then show ?thesis by (simp add: handleReconcilePayments_def catch_err_def ret_run)
qed

definition sample_stuck_db :: db where
  "sample_stuck_db = (sample_paid_db HELD)\<lparr>payments := \<lparr>rows = [sample_payment\<lparr>pay_status := TIMED_OUT\<rparr>], next_id = 2\<rparr>\<rparr>"

lemma sample_stuck_ok: "db_ok sample_stuck_db"
  by (simp add: sample_stuck_db_def db_ok_defs fk_defs sample_defs sample_pay_defs wf_table_def ids_def user_unique_def
      seat_unique_def reservation_unique_def active_res_def payment_unique_def policy_unique_def unique_nullable_def
      map_filter_simps2)

lemma sample_stuck: "stuck_timed_out 400000 sample_stuck_db = [sample_payment\<lparr>pay_status := TIMED_OUT\<rparr>]"
  by (simp add: stuck_timed_out_def sample_stuck_db_def sample_payment_def new_payment_def)

theorem reconcile_settles_all_witness:
  "\<exists>w'. reconcileTimedOutPayments (sample_stripe\<lparr>pay_now := 1000000\<rparr>) (world_of sample_stuck_db) = (Inr (), w') \<and>
     stuck_timed_out 400000 (db w') = []"
proof -
  let ?env = "sample_stripe\<lparr>pay_now := 1000000\<rparr>"
  have "settleable ?env sample_stuck_db [sample_payment\<lparr>pay_status := TIMED_OUT\<rparr>]"
    by (simp add: settleable_def find_row_def sample_stuck_db_def sample_pay_defs active_res_def sample_defs)
  moreover have "pay_fault ?env x = None" for x by (simp add: sample_stripe_def)
  moreover have "db (world_of sample_stuck_db) = sample_stuck_db" "redis_up (redis (world_of sample_stuck_db))"
    by (simp_all add: world_of_def empty_redis_def)
  ultimately show ?thesis
    using reconcile_settles_all [of "world_of sample_stuck_db" "[sample_payment\<lparr>pay_status := TIMED_OUT\<rparr>]" ?env]
      sample_stuck_ok sample_stuck by auto
qed

theorem reconcile_head_of_line_witness:
  "handleReconcilePayments (sample_stripe\<lparr>pay_now := 1000000, retrieve_session := (\<lambda>_. Inl ''gone'')\<rparr>)
     (world_of sample_stuck_db) = (Inr (), world_of sample_stuck_db)"
  using reconcile_head_of_line [of "sample_stripe\<lparr>pay_now := 1000000, retrieve_session := (\<lambda>_. Inl ''gone'')\<rparr>"
      "world_of sample_stuck_db"] sample_stuck
  by (simp add: world_of_def)

end
