(* ===== verification/Settlement.thy ===== *)
theory Settlement
  imports Ownership Refunds
begin

text \<open>
  What makes a reservation CONFIRMED: only Stripe's word that its payment was made. And what a Stripe event does that
  comes again after another event of the same payment took its place.
\<close>

subsection \<open>A reservation that stays unconfirmed\<close>

definition unconfirmed :: "int \<Rightarrow> db \<Rightarrow> bool" where
  "unconfirmed i d \<longleftrightarrow> (\<forall>r \<in> set (rows (reservations d)). rid r = i \<longrightarrow> res_status r \<noteq> CONFIRMED)"

lemma unconfirmed_same: "reservations d' = reservations d \<Longrightarrow> unconfirmed i d' = unconfirmed i d"
  by (simp add: unconfirmed_def)

lemma unconfirmed_update:
  assumes "unconfirmed i d" and "update_reservation j f d = Inr (x, d')" and "\<And>r. rid (f r) = rid r"
    and "j = i \<Longrightarrow> (\<And>r. res_status (f r) = CONFIRMED \<Longrightarrow> res_status r = CONFIRMED)"
  shows "unconfirmed i d'"
proof -
  have "d' = d\<lparr>reservations := update_row j f (reservations d)\<rparr>"
    using assms(2) unfolding update_reservation_def by (rule update_stmtE)
  with assms(1,3,4) show ?thesis by (auto simp: unconfirmed_def rows_update_row)
qed

lemma keeps_unconfirmed_update:
  assumes "\<And>r. rid (f r) = rid r" and "j = i \<Longrightarrow> (\<And>r. res_status (f r) = CONFIRMED \<Longrightarrow> res_status r = CONFIRMED)"
  shows "keeps_db (unconfirmed i) (run_stmt fault (update_reservation j f))"
  by (rule keeps_db_stmt) (use unconfirmed_update [OF _ _ assms] in blast)

lemma keeps_unconfirmed_payments:
  "keeps_db (unconfirmed i) (payments_updateById fault j f)" "keeps_db (unconfirmed i) (payments_create fault now k amt cur)"
  "keeps_db (unconfirmed i) (payments_delete fault q)"
proof -
  have "insert_payment mk d = Inr (x, d') \<Longrightarrow> reservations d' = reservations d"
    "update_payment j f d = Inr (x, d') \<Longrightarrow> reservations d' = reservations d"
    "delete_payment j d = Inr (x, d') \<Longrightarrow> reservations d' = reservations d" for mk d x d' j f
    by (auto simp: insert_payment_def update_payment_def delete_payment_def dest!: on_table_InrD)
  note stmt = keeps_db_stmt [of "unconfirmed i"] unconfirmed_same [OF this(1)] unconfirmed_same [OF this(2)] unconfirmed_same [OF this(3)]
  show "keeps_db (unconfirmed i) (payments_updateById fault j f)" "keeps_db (unconfirmed i) (payments_create fault now k amt cur)"
    "keeps_db (unconfirmed i) (payments_delete fault q)"
    unfolding payments_updateById_def payments_create_def payments_delete_def
    by (intro keeps_rules stmt(1); simp add: stmt(2-))+
qed

lemma keeps_unconfirmed_both:
  assumes "\<And>r. rid (g r) = rid r" and "j = i \<Longrightarrow> (\<And>r. res_status (g r) = CONFIRMED \<Longrightarrow> res_status r = CONFIRMED)"
  shows "keeps_db (unconfirmed i) (run_stmt fault (both_updates q f j g))"
proof (rule keeps_db_stmt)
  fix d x d' assume "unconfirmed i d" and "both_updates q f j g d = Inr (x, d')"
  then obtain p d1 r where u: "update_payment q f d = Inr (p, d1)" "update_reservation j g d1 = Inr (r, d')"
    by (auto simp: both_updates_def split: sum.splits prod.splits)
  then have "reservations d1 = reservations d" by (auto simp: update_payment_def dest!: on_table_InrD)
  from unconfirmed_same [OF this] \<open>unconfirmed i d\<close> have "unconfirmed i d1" by blast
  from unconfirmed_update [OF this u(2) assms] show "unconfirmed i d'" by blast
qed

lemma keeps_unconfirmed_stmts:
  "keeps_db (unconfirmed i) (reservations_extendHold fault j t)" "st \<noteq> CONFIRMED \<Longrightarrow> keeps_db (unconfirmed i) (reservations_setStatus fault j st)"
  "j \<noteq> i \<Longrightarrow> keeps_db (unconfirmed i) (reservations_confirm fault j)"
  "keeps_db (unconfirmed i) (declineWithReservation fault q j)"
  "j \<noteq> i \<Longrightarrow> keeps_db (unconfirmed i) (confirmWithReservation fault q j x)"
  unfolding reservations_extendHold_def reservations_setStatus_def reservations_confirm_def declineWithReservation_def
    confirmWithReservation_def
  subgoal by (rule keeps_unconfirmed_update) simp_all
  subgoal by (rule keeps_unconfirmed_update) simp_all
  subgoal by (rule keeps_unconfirmed_update) simp_all
  subgoal by (rule keeps_unconfirmed_both) simp_all
  subgoal by (rule keeps_unconfirmed_both) simp_all
  done

lemma keeps_unconfirmed_hold: "keeps_db (unconfirmed i) (breaker_holdSeat f fault now p)"
proof -
  have unc: "unconfirmed i d'" if u: "unconfirmed i d" and ins: "insert_reservation (hold_row now p) d = Inr (r, d')" for d r d'
  proof -
    obtain t where t: "insert_row (hold_row now p) (reservations d) = (r, t)" and d': "d' = d\<lparr>reservations := t\<rparr>"
      using ins unfolding insert_reservation_def by (rule insert_stmtE)
    have "res_status r = HELD" using insert_row_val [OF t] by (simp add: hold_row_def)
    with u show ?thesis by (auto simp: unconfirmed_def d' rows_insert_row [OF t])
  qed
  have "unconfirmed i d'" if "unconfirmed i d" "holdSeat_body now p d = Inr (r, d')" for d r d'
    using that unc by (auto simp: holdSeat_body_def split: if_splits option.splits sum.splits)
  then have "keeps_db (unconfirmed i) (holdSeat_tx fault now p)"
    by (intro keepsI) (auto simp: holdSeat_tx_def db_inv_def split: option.split hold_fault.split sum.split prod.split)
  then show ?thesis unfolding breaker_holdSeat_def by (intro keeps_rules)
qed

lemma keeps_unconfirmed_sweep: "keeps_db (unconfirmed i) (releaseExpiredHolds fault t)"
  by (auto simp: keeps_def db_inv_def releaseExpiredHolds_def run_stmt_def release_expired_def unconfirmed_def split: option.split)

lemmas unconfirmed_rules = keeps_unconfirmed_payments keeps_unconfirmed_stmts keeps_unconfirmed_hold keeps_unconfirmed_sweep

lemma keeps_unconfirmed_services:
  "keeps_db (unconfirmed i) (reserve renv u dto)" "keeps_db (unconfirmed i) (handleExpireHolds fault t)"
  "keeps_db (unconfirmed i) (cancel env u j)" "keeps_db (unconfirmed i) (createCheckoutSession env u j)"
  unfolding reserve_def handleExpireHolds_def expireHolds_def cancel_def refundReservation_def finalizeCancel_def findOwned_def
    getById_def reservations_findById_def createCheckoutSession_def extendHold_def screenings_findById_def Let_def
  by (intro keeps_rules unconfirmed_rules; simp)+

subsection \<open>Stripe's word\<close>

text \<open>The operation is Stripe's word that reservation \<open>i\<close> was paid: a signed event of a completed checkout whose session is paid,
  for a payment of the reservation, or the paid session that a reconciliation of its payment fetched.\<close>

definition says_paid :: "seat_op \<Rightarrow> int \<Rightarrow> db \<Rightarrow> bool" where
  "says_paid op i d \<longleftrightarrow> (case op of
      Hooking env raw sig \<Rightarrow> (case construct_event env raw sig of Inl _ \<Rightarrow> False | Inr e \<Rightarrow> (case ev_data e of
          CheckoutCompleted s \<Rightarrow> cs_payment_status s = ''paid'' \<and> (case paymentIdFrom s of None \<Rightarrow> False
            | Some q \<Rightarrow> (case find_row q (payments d) of None \<Rightarrow> False | Some p \<Rightarrow> pay_reservationId p = i))
        | _ \<Rightarrow> False))
    | Reconciling env p \<Rightarrow> pay_reservationId p = i \<and>
        (case retrieve_session env (stripeSessionId p) of Inl _ \<Rightarrow> False | Inr s \<Rightarrow> cs_payment_status s = ''paid'')
    | _ \<Rightarrow> False)"

lemma unconfirmed_completed:
  assumes "unconfirmed i (db w)"
    and "\<And>q p. paymentIdFrom s = Some q \<Longrightarrow> find_row q (payments (db w)) = Some p \<Longrightarrow> cs_payment_status s = ''paid'' \<Longrightarrow> pay_reservationId p \<noteq> i"
  shows "unconfirmed i (db (snd (handleCheckoutCompleted env e s w)))"
proof (cases "\<exists>q p. paymentIdFrom s = Some q \<and> find_row q (payments (db w)) = Some p \<and> cs_payment_status s = ''paid''")
  case True
  then obtain q p where p: "paymentIdFrom s = Some q" "find_row q (payments (db w)) = Some p" "cs_payment_status s = ''paid''" by blast
  then have "pay_reservationId p \<noteq> i" by (rule assms(2))
  then have "keeps_db (unconfirmed i) (await (confirmPayment f (pay_reservationId p)) (\<lambda>_. await (payments_updateById g (Some q) h) (\<lambda>_.
      await (inc k) (\<lambda>_. record_audit a))))" for f g h k a
    unfolding confirmPayment_def by (intro keeps_rules unconfirmed_rules)
  from keeps_dbD [OF this assms(1)] show ?thesis
    using p by (simp add: handleCheckoutCompleted_def payments_findById_def await_query Let_def)
next
  case False
  have "keeps_db (unconfirmed i) (await (payments_updateById f q h) (\<lambda>_. ret ()))" for f q h
    by (intro keeps_rules unconfirmed_rules)
  from keeps_dbD [OF this assms(1)] False show ?thesis
    using assms(1) by (auto simp: handleCheckoutCompleted_def payments_findById_def await_query Let_def act_simps split: option.split)
qed

lemma keeps_unconfirmed_handlers:
  "keeps_db (unconfirmed i) (handleAsyncPaymentFailed env e s)" "keeps_db (unconfirmed i) (handleCheckoutExpired env e s)"
  "keeps_db (unconfirmed i) (handleDisputeCreated env e dp)"
  unfolding handleAsyncPaymentFailed_def handleCheckoutExpired_def handleDisputeCreated_def
  by (intro keeps_rules unconfirmed_rules)+

lemma unconfirmed_webhook:
  assumes "unconfirmed i (db w)" and "\<not> says_paid (Hooking env raw sig) i (db w)"
  shows "unconfirmed i (db (snd (handleWebhookEvent env raw sig w)))"
proof (cases "construct_event env raw sig")
  case (Inl m)
  then show ?thesis using assms(1) by (simp add: handleWebhookEvent_def throw_run)
next
  case (Inr e)
  have "unconfirmed i (db (snd (dispatch_event env e w)))"
  proof (cases "ev_data e")
    case (CheckoutCompleted s)
    have "pay_reservationId p \<noteq> i" if "paymentIdFrom s = Some q" "find_row q (payments (db w)) = Some p" "cs_payment_status s = ''paid''" for q p
      using assms(2) that Inr CheckoutCompleted by (simp add: says_paid_def)
    from unconfirmed_completed [OF assms(1) this] CheckoutCompleted show ?thesis by (simp add: dispatch_event_def)
  qed (simp_all add: dispatch_event_def assms(1) ret_run keeps_dbD [OF keeps_unconfirmed_handlers(1) assms(1)]
    keeps_dbD [OF keeps_unconfirmed_handlers(2) assms(1)] keeps_dbD [OF keeps_unconfirmed_handlers(3) assms(1)])
  then show ?thesis using assms(1) by (auto simp: webhook_run [OF Inr] split: prod.split sum.split)
qed

lemma unconfirmed_reconcile:
  assumes "unconfirmed i (db w)" and "\<not> says_paid (Reconciling env p) i (db w)"
  shows "unconfirmed i (db (snd (reconcile_one env p w)))"
proof (cases "retrieve_session env (stripeSessionId p)")
  case (Inl m)
  then show ?thesis using assms(1) by (simp add: reconcile_one_def await_def from_stripe_run)
next
  case (Inr s)
  show ?thesis
  proof (cases "cs_payment_status s = ''paid''")
    case True
    then have "pay_reservationId p \<noteq> i" using assms(2) Inr by (simp add: says_paid_def)
    then have "keeps_db (unconfirmed i) (reconcile_one env p)"
      unfolding reconcile_one_def Inr by (simp add: from_stripe_def True await_pure) (intro keeps_rules unconfirmed_rules)
    from keeps_dbD [OF this assms(1)] show ?thesis .
  next
    case False
    have "keeps_db (unconfirmed i) (reconcile_one env p)"
      unfolding reconcile_one_def Inr by (simp add: from_stripe_def False await_pure) (intro keeps_rules unconfirmed_rules)
    from keeps_dbD [OF this assms(1)] show ?thesis .
  qed
qed

lemma unconfirmed_step:
  assumes "seat_step op w w'" and "unconfirmed i (db w)" and "\<not> says_paid op i (db w)"
  shows "unconfirmed i (db w')"
  using assms(1)
proof cases
  case (hooking env raw sig)
  then show ?thesis using unconfirmed_webhook assms(2,3) by blast
next
  case (reconciling env p)
  then show ?thesis using unconfirmed_reconcile assms(2,3) by blast
next
  case elsewhere
  then show ?thesis using unconfirmed_same [of "db w'" "db w" i] assms(2) by simp
qed (simp only: keeps_dbD [OF keeps_unconfirmed_services(1) assms(2)] keeps_dbD [OF keeps_unconfirmed_services(2) assms(2)]
    keeps_dbD [OF keeps_unconfirmed_services(3) assms(2)] keeps_dbD [OF keeps_unconfirmed_services(4) assms(2)])+

text \<open>Nobody sits for free: if, over any run of operations, a reservation that was not CONFIRMED ends up CONFIRMED, then one of the
  operations was Stripe's word that it was paid, either a verified event of a paid checkout session for a payment of this very
  reservation, or a paid session that the reconciliation of its payment fetched; and at that operation it was still unconfirmed.\<close>

theorem confirmed_only_if_paid:
  assumes "run_of seat_step ops w w'" and "unconfirmed i (db w)" and "r \<in> set (rows (reservations (db w')))"
    and "rid r = i" and "res_status r = CONFIRMED"
  shows "\<exists>ops1 op ops2 w1. ops = ops1 @ op # ops2 \<and> run_of seat_step ops1 w w1 \<and> unconfirmed i (db w1) \<and>
    says_paid op i (db w1)"
proof -
  have "\<not> unconfirmed i (db w')" using assms(3-5) by (auto simp: unconfirmed_def)
  from run_breaks [OF assms(1), of "\<lambda>w. unconfirmed i (db w)", OF assms(2) this]
  obtain ops1 op ops2 w1 w2 where "ops = ops1 @ op # ops2" "run_of seat_step ops1 w w1" "unconfirmed i (db w1)" "seat_step op w1 w2"
    "\<not> unconfirmed i (db w2)" by blast
  with unconfirmed_step [OF \<open>seat_step op w1 w2\<close>, of i] show ?thesis by blast
qed

subsection \<open>An event that comes again later\<close>

definition disputed_payment :: "string \<Rightarrow> dispute \<Rightarrow> ms \<Rightarrow> payment \<Rightarrow> payment" where
  "disputed_payment e dp now p = p\<lparr>disputed := Some True, disputeReason := Some (dp_reason dp), disputedAt := Some now,
     stripeEventId := Some e\<rparr>"

lemma dispute_delivery_run:
  assumes ok: "db_ok (db w)" and e: "construct_event env raw sig = Inr e" "ev_data e = DisputeCreated dp"
    and t: "dp_payment_intent dp = Some t" "find_row (rid p) (payments (db w)) = Some p" "stripePaymentId p = Some t"
    and fresh: "\<not> event_marked (ev_id e) (db w)" and nf: "pay_fault env AtPaymentUpdate = None"
  shows "handleWebhookEvent env raw sig w = (Inr True, w\<lparr>db := (db w)\<lparr>payments :=
      update_row (rid p) (disputed_payment (ev_id e) dp (pay_now env)) (payments (db w))\<rparr>,
    audit_log := audit_log w @ [(on_target ''payment.dispute'' ''payment'' (rid p))\<lparr>ae_metadata := [(''reason'', Some (dp_reason dp))]\<rparr>]\<rparr>)"
proof -
  let ?f = "disputed_payment (ev_id e) dp (pay_now env)"
  have mem: "p \<in> set (rows (payments (db w)))" by (rule find_row_mem [OF t(2)])
  obtain q where q: "List.find (\<lambda>p. stripePaymentId p = Some t) (rows (payments (db w))) = Some q"
    using mem t(3) by (cases "List.find (\<lambda>p. stripePaymentId p = Some t) (rows (payments (db w)))") (auto simp: find_None_iff)
  have "unique_nullable stripePaymentId (rows (payments (db w)))" using ok by (simp add: db_ok_defs payment_unique_def)
  then have "q = p" using unique_nullable_eq [OF _ mem, of stripePaymentId q t] find_Some_mem [OF q] t(3) by simp
  then have found: "await (payments_findByStripePaymentId (dp_payment_intent dp)) k w = k (Some p) w" for k :: "payment option \<Rightarrow> unit service"
    by (simp add: payments_findByStripePaymentId_def t(1) await_query q)
  have upd: "payments_updateById None (Some (rid p)) ?f w =
      (Inr (?f p), w\<lparr>db := (db w)\<lparr>payments := update_row (rid p) ?f (payments (db w))\<rparr>\<rparr>)"
  proof (rule run_payment_update [OF ok t(2)])
    show "no_clash (db w) (rid p) (?f p)"
      using no_clash_same [OF ok t(2), of p] fresh by (auto simp: no_clash_def disputed_payment_def event_marked_def)
  qed (simp_all add: disputed_payment_def)
  have "handleDisputeCreated env (ev_id e) dp w = (Inr (), w\<lparr>db := (db w)\<lparr>payments := update_row (rid p) ?f (payments (db w))\<rparr>,
      audit_log := audit_log w @ [(on_target ''payment.dispute'' ''payment'' (rid p))\<lparr>ae_metadata := [(''reason'', Some (dp_reason dp))]\<rparr>]\<rparr>)"
    using upd by (simp add: handleDisputeCreated_def found nf disputed_payment_def [abs_def] await_Inr record_audit_run)
  then show ?thesis using fresh by (simp add: webhook_run [OF e(1)] dispatch_event_def e(2))
qed

lemma seat_clear_update:
  assumes "seat_clear d r" and "rows (reservations d') = rows (update_row (rid r) f (reservations d))"
    and "rid r' = rid r" "res_seatId r' = res_seatId r" "res_screeningId r' = res_screeningId r" and "\<And>r. rid (f r) = rid r"
  shows "seat_clear d' r'"
  using assms unfolding seat_clear_def by (auto simp: rows_update_row split: if_splits)

lemma paid_delivery_db:
  assumes "paid_delivery env raw sig e s w p r" and "seat_clear (db w) r" and "\<And>x. pay_fault env x = None"
  obtains w1 where "handleWebhookEvent env raw sig w = (Inr True, w1)" and "db_ok (db w1)"
    and "db w1 = (db w)\<lparr>reservations := update_row (rid r) confirmed_res (reservations (db w)),
      payments := update_row (rid p) (paid_payment (ev_id e) (cs_payment_intent s)) (payments (db w))\<rparr>"
proof
  let ?w1 = "snd (handleWebhookEvent env raw sig w)"
  show "handleWebhookEvent env raw sig w = (Inr True, ?w1)"
    "db ?w1 = (db w)\<lparr>reservations := update_row (rid r) confirmed_res (reservations (db w)),
      payments := update_row (rid p) (paid_payment (ev_id e) (cs_payment_intent s)) (payments (db w))\<rparr>"
    by (simp_all add: paid_delivery_run [OF assms] assms(3) Let_def)
  show "db_ok (db ?w1)"
    by (rule keeps_dbD [OF keeps_payment_services(1)]) (use assms(1) in \<open>simp add: paid_delivery_def\<close>)
qed

lemma cancel_paid_db:
  assumes "paid_reservation w uid r p s" and "pay_status p \<noteq> REFUNDED" and "\<And>x. pay_fault env x = None"
    and "\<And>q. \<exists>i. create_refund env q = Inr i"
  obtains w' i where "cancel env uid (rid r) w = (Inr (cancelled_res r), w')" and "db_ok (db w')"
    and "db w' = (db w)\<lparr>payments := update_row (rid p) (refunded (pay_now env) i) (payments (db w)),
      reservations := update_row (rid r) cancelled_res (reservations (db w))\<rparr>"
proof -
  note a = assms(1) [unfolded paid_reservation_def]
  obtain i where i: "(if 0 < refund_percent env (db w) s \<and> truthy (stripePaymentId p)
      then map_sum id Some (create_refund env (refund_request_for env (db w) s p)) else Inr None) = Inr i"
    using assms(4) by (metis map_sum.simps(2))
  let ?d = "(db w)\<lparr>payments := update_row (rid p) (refunded (pay_now env) i) (payments (db w))\<rparr>"
  let ?w = "count_refund (rid p) i (w\<lparr>db := ?d\<rparr>)"
  have row: "find_row (rid p) (payments (db w)) = Some p" using payment_at a by blast
  have "update_payment (rid p) (refunded (pay_now env) i) (db w) = Inr (refunded (pay_now env) i p, ?d)"
    using a by (subst update_payment_run [OF _ row]) (auto simp: refunded_def intro: no_clash_same [OF _ row])
  from db_ok_update_payment [OF _ _ this] have ok: "db_ok (db ?w)" using a by (simp add: refunded_def count_refund_def)
  have mem: "find_row (rid r) (reservations (db ?w)) = Some r" using a by (simp add: count_refund_def)
  have run: "cancel env uid (rid r) w = finalizeCancel None r ?w"
    unfolding refund_run [OF assms(1,2,3)] i sum.case assms(3) ..
  show thesis
  proof (rule that)
    let ?w' = "snd (finalizeCancel None r ?w)"
    show "cancel env uid (rid r) w = (Inr (cancelled_res r), ?w')"
      "db ?w' = ?d\<lparr>reservations := update_row (rid r) cancelled_res (reservations (db w))\<rparr>"
      by (simp_all add: run run_finalizeCancel [OF ok mem] publish_event_run, simp add: count_refund_def)
    show "db_ok (db ?w')" by (rule keeps_dbD [where P = db_ok, OF _ ok]) (intro keeps_rules)
  qed
qed

lemma event_update_ids:
  "rid (paid_payment e x p) = rid p" "rid (disputed_payment e dp n p) = rid p" "rid (refunded n i p) = rid p"
  "rid (confirmed_res y) = rid y" "rid (cancelled_res y) = rid y"
  by (simp_all add: paid_payment_def disputed_payment_def refunded_def confirmed_res_def cancelled_res_def)

text \<open>A payment made and then disputed: both events are handled, and the payment has only the id of the dispute.\<close>

lemma paid_then_disputed:
  assumes del: "paid_delivery env raw sig e s w p r" and clear: "seat_clear (db w) r" and nf: "\<And>x. pay_fault env x = None"
    and dis: "construct_event env raw' sig' = Inr e'" "ev_data e' = DisputeCreated dp" "dp_payment_intent dp = cs_payment_intent s"
      "cs_payment_intent s = Some t" "\<not> event_marked (ev_id e') (db w)" "ev_id e' \<noteq> ev_id e"
  obtains w1 w2 where "handleWebhookEvent env raw sig w = (Inr True, w1)" and "handleWebhookEvent env raw' sig' w1 = (Inr True, w2)"
    and "db_ok (db w2)" and "reservations (db w2) = update_row (rid r) confirmed_res (reservations (db w))"
    and "payments (db w2) = update_row (rid p) (disputed_payment (ev_id e') dp (pay_now env))
      (update_row (rid p) (paid_payment (ev_id e) (cs_payment_intent s)) (payments (db w)))"
    and "screenings (db w2) = screenings (db w)"
proof -
  let ?f1 = "paid_payment (ev_id e) (cs_payment_intent s)"
  obtain w1 where w1: "handleWebhookEvent env raw sig w = (Inr True, w1)" "db_ok (db w1)"
    "db w1 = (db w)\<lparr>reservations := update_row (rid r) confirmed_res (reservations (db w)),
      payments := update_row (rid p) ?f1 (payments (db w))\<rparr>"
    by (rule paid_delivery_db [OF del clear nf])
  have p1: "find_row (rid p) (payments (db w1)) = Some (?f1 p)"
    using del by (simp add: paid_delivery_def w1(3) find_update_row event_update_ids)
  have "\<not> event_marked (ev_id e') (db w1)"
    using dis(5,6) by (auto simp: event_marked_def w1(3) rows_update_row paid_payment_def split: if_splits)
  then obtain w2 where w2: "handleWebhookEvent env raw' sig' w1 = (Inr True, w2)"
    "db w2 = (db w1)\<lparr>payments := update_row (rid p) (disputed_payment (ev_id e') dp (pay_now env)) (payments (db w1))\<rparr>"
    using dispute_delivery_run [OF w1(2) dis(1,2), of t "?f1 p"] p1 dis(3,4) nf by (simp add: event_update_ids paid_payment_def)
  have "db_ok (db w2)" using keeps_dbD [OF keeps_payment_services(1) w1(2), of env raw' sig'] w2(1) by simp
  with w1(1) w2(1) show thesis by (rule that) (simp_all add: w2(2) w1(3))
qed

text \<open>C39. The same event can be handled twice. The payment keeps only the id of its last event, so a dispute of the payment makes the
  service forget the event that settled it. When the user then cancels, with the refund paid out, and Stripe delivers that first event
  again, the reservation is CONFIRMED once more and the payment SUCCEEDED, though the money went back.\<close>

theorem replay_after_dispute:
  assumes del: "paid_delivery env raw sig e s w p r" and clear: "seat_clear (db w) r" and nf: "\<And>x. pay_fault env x = None"
    and dis: "construct_event env raw' sig' = Inr e'" "ev_data e' = DisputeCreated dp" "dp_payment_intent dp = cs_payment_intent s"
      "cs_payment_intent s = Some t" "\<not> event_marked (ev_id e') (db w)" "ev_id e' \<noteq> ev_id e"
    and refund: "\<And>q. \<exists>i. create_refund env q = Inr i"
  shows "\<exists>w1 w2 w3 w4 p4. handleWebhookEvent env raw sig w = (Inr True, w1) \<and>
    handleWebhookEvent env raw' sig' w1 = (Inr True, w2) \<and>
    cancel env (res_userId r) (rid r) w2 = (Inr (r\<lparr>res_status := CANCELLED, heldUntil := None\<rparr>), w3) \<and>
    handleWebhookEvent env raw sig w3 = (Inr True, w4) \<and>
    find_row (rid r) (reservations (db w4)) = Some (r\<lparr>res_status := CONFIRMED, heldUntil := None\<rparr>) \<and>
    find_row (rid p) (payments (db w4)) = Some p4 \<and> pay_status p4 = SUCCEEDED \<and> refundedAt p4 = Some (pay_now env)"
proof -
  note a = del [unfolded paid_delivery_def]
  have ri: "pay_reservationId p = rid r" using a find_row_key by fastforce
  let ?f1 = "paid_payment (ev_id e) (cs_payment_intent s)" and ?f2 = "disputed_payment (ev_id e') dp (pay_now env)"
  note ids = event_update_ids
  obtain w1 w2 where w1: "handleWebhookEvent env raw sig w = (Inr True, w1)" and w2: "handleWebhookEvent env raw' sig' w1 = (Inr True, w2)"
    and ok2: "db_ok (db w2)" and res2: "reservations (db w2) = update_row (rid r) confirmed_res (reservations (db w))"
    and pay2: "payments (db w2) = update_row (rid p) ?f2 (update_row (rid p) ?f1 (payments (db w)))"
    by (rule paid_then_disputed [OF del clear nf dis])
  have r2: "find_row (rid r) (reservations (db w2)) = Some (confirmed_res r)" using a ri by (simp add: res2 find_update_row ids)
  have p2: "find_row (rid p) (payments (db w2)) = Some (?f2 (?f1 p))" using a by (simp add: pay2 find_update_row ids)
  obtain sc where "find_row (res_screeningId r) (screenings (db w2)) = Some sc"
    using ok2 find_row_mem [OF r2] by (fastforce simp: db_ok_defs reservation_fk_def confirmed_res_def find_row_ids [symmetric])
  with ok2 r2 p2 find_row_mem [OF p2] ri have paid: "paid_reservation w2 (res_userId r) (confirmed_res r) (?f2 (?f1 p)) sc"
    by (simp add: paid_reservation_def ids) (simp add: confirmed_res_def disputed_payment_def paid_payment_def)
  obtain w3 i where w3: "cancel env (res_userId r) (rid r) w2 = (Inr (cancelled_res (confirmed_res r)), w3)" "db_ok (db w3)"
    "db w3 = (db w2)\<lparr>payments := update_row (rid p) (refunded (pay_now env) i) (payments (db w2)),
      reservations := update_row (rid r) cancelled_res (reservations (db w2))\<rparr>"
    by (rule cancel_paid_db [OF paid _ nf refund]) (simp_all add: ids disputed_payment_def paid_payment_def)
  let ?p3 = "refunded (pay_now env) i (?f2 (?f1 p))" and ?r3 = "cancelled_res (confirmed_res r)"
  have res3: "reservations (db w3) = update_row (rid r) cancelled_res (update_row (rid r) confirmed_res (reservations (db w)))"
    and pay3: "payments (db w3) = update_row (rid p) (refunded (pay_now env) i) (update_row (rid p) ?f2 (update_row (rid p) ?f1 (payments (db w))))"
    by (simp_all add: w3(3) res2 pay2)
  have find3: "find_row (rid p) (payments (db w3)) = Some ?p3" "find_row (rid r) (reservations (db w3)) = Some ?r3"
    using a ri by (simp_all add: res3 pay3 find_update_row ids)
  have "\<not> event_marked (ev_id e) (db w3)"
    using a dis(6) by (auto simp: event_marked_def pay3 rows_update_row ids refunded_def disputed_payment_def)
  moreover have "stripePaymentId q \<noteq> cs_payment_intent s" if "q \<in> set (rows (payments (db w3)))" "rid q \<noteq> rid p" for q
    using a dis(4) that by (auto simp: pay3 rows_update_row ids paid_payment_def split: if_splits)
  ultimately have "paid_delivery env raw sig e s w3 ?p3 ?r3"
    using a w3(2) find3 ri by (simp add: paid_delivery_def ids) (simp add: refunded_def disputed_payment_def paid_payment_def)
  moreover have "seat_clear (db w3) ?r3"
  proof (rule seat_clear_update [OF clear])
    show "rows (reservations (db w3)) = rows (update_row (rid r) (\<lambda>r. cancelled_res (confirmed_res r)) (reservations (db w)))"
      by (auto simp: res3 rows_update_row ids)
  qed (simp_all add: ids, simp_all add: cancelled_res_def confirmed_res_def)
  ultimately obtain w4 where w4: "handleWebhookEvent env raw sig w3 = (Inr True, w4)"
    "db w4 = (db w3)\<lparr>reservations := update_row (rid r) confirmed_res (reservations (db w3)),
      payments := update_row (rid p) ?f1 (payments (db w3))\<rparr>"
    using paid_delivery_db [OF _ _ nf, of raw sig e s w3 ?p3 ?r3] by (auto simp: ids)
  have "find_row (rid r) (reservations (db w4)) = Some (confirmed_res ?r3)" "find_row (rid p) (payments (db w4)) = Some (?f1 ?p3)"
    by (simp_all add: w4(2) find_update_row ids find3)
  with w1 w2 w3(1) w4(1) show ?thesis
    by (intro exI [of _ w1] exI [of _ w2] exI [of _ w3] exI [of _ w4] exI [of _ "?f1 ?p3"])
      (simp add: confirmed_res_def cancelled_res_def paid_payment_def refunded_def disputed_payment_def)
qed

subsection \<open>The properties on the sample database\<close>

lemma sample_webhook_confirms:
  "reservations (db (snd (handleWebhookEvent sample_stripe ''e1'' ''ok'' (world_of (sample_paid_db HELD))))) =
     \<lparr>rows = [sample_reservation\<lparr>res_status := CONFIRMED, heldUntil := None\<rparr>], next_id = 2\<rparr>"
  by code_simp

theorem confirmed_only_if_paid_witness:
  "\<exists>w1. says_paid (Hooking sample_stripe ''e1'' ''ok'') 1 (db w1) \<and> unconfirmed 1 (db w1) \<and>
     run_of seat_step [] (world_of (sample_paid_db HELD)) w1"
proof -
  let ?w = "world_of (sample_paid_db HELD)"
  let ?w' = "snd (handleWebhookEvent sample_stripe ''e1'' ''ok'' ?w)"
  let ?r = "sample_reservation\<lparr>res_status := CONFIRMED, heldUntil := None\<rparr>"
  have run: "run_of seat_step [Hooking sample_stripe ''e1'' ''ok''] ?w ?w'"
    by (rule run_of.run_Cons, rule seat_step.hooking, rule run_of.run_Nil)
  have "unconfirmed 1 (db ?w)" by (simp add: unconfirmed_def world_of_def sample_paid_db_def)
  moreover have "?r \<in> set (rows (reservations (db ?w')))" by (simp only: sample_webhook_confirms) simp
  moreover have "rid ?r = 1" "res_status ?r = CONFIRMED" by (simp_all add: sample_reservation_def)
  ultimately obtain ops1 op ops2 w1 where o: "[Hooking sample_stripe ''e1'' ''ok''] = ops1 @ op # ops2"
    "run_of seat_step ops1 ?w w1" "unconfirmed 1 (db w1)" "says_paid op 1 (db w1)"
    using confirmed_only_if_paid [OF run] by blast
  then have "ops1 = []" "op = Hooking sample_stripe ''e1'' ''ok''" by (simp_all add: Cons_eq_append_conv)
  with o show ?thesis by blast
qed

text \<open>A Stripe that also reports a dispute, with the body \<open>d1\<close>.\<close>

definition dispute_stripe :: stripe_env where
  "dispute_stripe = sample_stripe\<lparr>construct_event := (\<lambda>raw sig.
     if raw = ''d1'' then Inr \<lparr>ev_id = raw, ev_data = DisputeCreated \<lparr>dp_payment_intent = Some ''pi'', dp_reason = ''fraudulent''\<rparr>\<rparr>
     else construct_event sample_stripe raw sig)\<rparr>"

theorem replay_after_dispute_witness:
  "\<exists>w1 w2 w3 w4. handleWebhookEvent dispute_stripe ''e1'' ''ok'' (world_of (sample_paid_db HELD)) = (Inr True, w1) \<and>
     handleWebhookEvent dispute_stripe ''d1'' ''ok'' w1 = (Inr True, w2) \<and>
     cancel dispute_stripe 1 1 w2 = (Inr (sample_reservation\<lparr>res_status := CANCELLED, heldUntil := None\<rparr>), w3) \<and>
     handleWebhookEvent dispute_stripe ''e1'' ''ok'' w3 = (Inr True, w4)"
proof -
  let ?e = "\<lparr>ev_id = ''e1'', ev_data = CheckoutCompleted sample_session\<rparr>" and ?r = "sample_reservation\<lparr>res_status := HELD\<rparr>"
  let ?dp = "\<lparr>dp_payment_intent = Some ''pi'', dp_reason = ''fraudulent''\<rparr>"
  have del: "paid_delivery dispute_stripe ''e1'' ''ok'' ?e sample_session (world_of (sample_paid_db HELD)) sample_payment ?r"
    using sample_delivery [of "sample_paid_db HELD" HELD] by (simp add: paid_delivery_def dispute_stripe_def)
  have "seat_clear (db (world_of (sample_paid_db HELD))) ?r"
    unfolding world_of_def by (simp, rule active_clear [OF sample_paid_ok]) (simp_all add: sample_paid_db_def active_res_def)
  from replay_after_dispute [OF del this, of "''d1''" "''ok''" "\<lparr>ev_id = ''d1'', ev_data = DisputeCreated ?dp\<rparr>" ?dp "''pi''"]
  show ?thesis
    by (fastforce simp: dispute_stripe_def sample_stripe_def sample_session_def event_marked_def world_of_def sample_paid_db_def
        sample_payment_def new_payment_def sample_reservation_def)
qed

end
