(* ===== verification/PaymentRaces.thy ===== *)
theory PaymentRaces
  imports Settlement
begin

text \<open>
  Cancellation, refund and checkout while other requests run: the methods cut at the calls between which other
  requests get a turn (\<open>cancel\<close> and \<open>refundReservation\<close> after their reads and around the call of Stripe,
  \<open>createCheckoutSession\<close> at the call of Stripe), with the equations that the parts run in turn are the method.
\<close>

subsection \<open>The parts of a cancellation\<close>

definition cancel_begin :: "int \<Rightarrow> int \<Rightarrow> reservation service" where
  "cancel_begin userId i =
     await (findOwned userId i) (\<lambda>r.
     if res_status r \<noteq> CONFIRMED \<and> res_status r \<noteq> HELD then throw cannot_cancel else ret r)"

definition refund_begin :: "stripe_env \<Rightarrow> reservation \<Rightarrow> (payment \<times> rat) option service" where
  "refund_begin env r =
     await (payments_findByReservationId (rid r)) (\<lambda>payment. case payment of
       None \<Rightarrow> throw (NotFoundException (''No payment found for reservation '' @ string_of_int (rid r)))
     | Some p \<Rightarrow>
         if pay_status p = REFUNDED then ret None
         else await (screenings_findById (res_screeningId r)) (\<lambda>screening. case screening of
           None \<Rightarrow> throw screening_gone
         | Some s \<Rightarrow>
             await (payments_findRefundPolicy (hours_until (startTime (fst s)) (pay_now env))) (\<lambda>policy.
             ret (Some (p, case policy of None \<Rightarrow> 0 | Some pol \<Rightarrow> refundPercent pol)))))"

definition refund_save :: "stripe_env \<Rightarrow> payment \<Rightarrow> string option \<Rightarrow> unit service" where
  "refund_save env p refund =
     await (payments_updateById (pay_fault env AtRefundSave) (Some (rid p))
         (\<lambda>p. p\<lparr>pay_status := REFUNDED,
                refundId := (case refund of None \<Rightarrow> refundId p | Some i \<Rightarrow> Some i),
                refundedAt := Some (pay_now env)\<rparr>)) (\<lambda>_.
     await (inc (\<lambda>m. m\<lparr>payments_refunded_total := payments_refunded_total m + 1\<rparr>)) (\<lambda>_.
     record_audit ((on_target ''payment.refunded'' ''payment'' (rid p))\<lparr>ae_metadata := [(''refundId'', refund)]\<rparr>)))"

definition cancel_rest :: "stripe_env \<Rightarrow> reservation \<Rightarrow> reservation service" where
  "cancel_rest env r = (if res_status r = CONFIRMED then refundReservation env r else finalizeCancel (pay_fault env AtFinalize) r)"

lemma await_cong: "(\<And>x. k x = k' x) \<Longrightarrow> await m k = await m k'"
  by (rule arg_cong [where f = "await m"]) (rule ext)

lemma cancel_split: "cancel env u i = await (cancel_begin u i) (cancel_rest env)"
  unfolding cancel_def cancel_begin_def await_assoc cancel_rest_def
  by (rule await_cong) (auto simp: await_pure)

lemma refund_split:
  "refundReservation env r = await (refund_begin env r) (\<lambda>x. case x of
      None \<Rightarrow> finalizeCancel (pay_fault env AtFinalize) r
    | Some (p, percent) \<Rightarrow> await (stripe_refund env p percent) (\<lambda>refund.
        await (refund_save env p refund) (\<lambda>_. finalizeCancel (pay_fault env AtFinalize) r)))"
  unfolding refundReservation_def refund_begin_def refund_save_def await_assoc Let_def
  by (rule await_cong) (auto simp: await_pure await_assoc split: option.split intro!: await_cong)

subsection \<open>Cancellations of one reservation at the same time\<close>

text \<open>Where a request is. Its next part runs in one go.\<close>

datatype stage = Starting | Reading reservation | Asking reservation payment rat | Saving reservation payment "string option"
  | Finishing reservation | Over

fun advance :: "stripe_env \<Rightarrow> int \<Rightarrow> int \<Rightarrow> stage \<Rightarrow> world \<Rightarrow> stage \<times> world" where
  "advance env u i Starting w = (case cancel_begin u i w of (Inl _, w') \<Rightarrow> (Over, w') | (Inr r, w') \<Rightarrow> (Reading r, w'))"
| "advance env u i (Reading r) w =
     (if res_status r \<noteq> CONFIRMED then (Finishing r, w)
      else case refund_begin env r w of
          (Inl _, w') \<Rightarrow> (Over, w')
        | (Inr None, w') \<Rightarrow> (Finishing r, w')
        | (Inr (Some (p, percent)), w') \<Rightarrow> (Asking r p percent, w'))"
| "advance env u i (Asking r p percent) w =
     (case stripe_refund env p percent w of (Inl _, w') \<Rightarrow> (Over, w') | (Inr refund, w') \<Rightarrow> (Saving r p refund, w'))"
| "advance env u i (Saving r p refund) w =
     (case refund_save env p refund w of (Inl _, w') \<Rightarrow> (Over, w') | (Inr _, w') \<Rightarrow> (Finishing r, w'))"
| "advance env u i (Finishing r) w = (Over, snd (finalizeCancel (pay_fault env AtFinalize) r w))"
| "advance env u i Over w = (Over, w)"

text \<open>A request that nobody disturbs does what \<open>cancel\<close> does.\<close>

lemma advance_alone:
  "((\<lambda>(st, w). advance env u i st w) ^^ 5) (Starting, w) = (Over, snd (cancel env u i w))"
proof -
  have five: "(f ^^ 5) x = f (f (f (f (f x))))" for f :: "stage \<times> world \<Rightarrow> stage \<times> world" and x
    by (simp add: numeral_eq_Suc)
  show ?thesis
    unfolding five cancel_split refund_split cancel_rest_def
    by (auto simp: await_def split: prod.split sum.split option.split)
qed

text \<open>The request that is sent to Stripe on the way.\<close>

fun sends :: "stage \<Rightarrow> refund_request list" where
  "sends (Asking r p percent) = (if asks_refund p percent then [refund_call p percent] else [])"
| "sends _ = []"

lemma refund_answer:
  "advance env u i (Asking r p percent) w = (case sends (Asking r p percent) of
      [] \<Rightarrow> (Saving r p None, w)
    | q # _ \<Rightarrow> (case create_refund env q of Inl _ \<Rightarrow> (Over, w) | Inr x \<Rightarrow> (Saving r p (Some x), w)))"
  by (simp add: stripe_refund_def await_def from_stripe_run ret_run split: sum.split)

record race =
  rw :: world
  asked :: "refund_request list"
  stage_of :: "nat \<Rightarrow> stage"

text \<open>What other work leaves alone while the requests run: the amount and the intent of the payment, its reservation's screening, the screenings
  and the policies. Statuses, deadlines and events may change in any way.\<close>

definition same_deal :: "payment \<Rightarrow> payment \<Rightarrow> bool" where
  "same_deal p q \<longleftrightarrow> rid q = rid p \<and> pay_reservationId q = pay_reservationId p \<and> amount q = amount p \<and>
     stripePaymentId q = stripePaymentId p"

definition deal :: "payment \<Rightarrow> reservation \<Rightarrow> db \<Rightarrow> db \<Rightarrow> bool" where
  "deal p r d0 d \<longleftrightarrow> db_ok d \<and> screenings d = screenings d0 \<and> policies d = policies d0 \<and>
     (\<exists>q. find_row (rid p) (payments d) = Some q \<and> same_deal p q) \<and>
     (\<exists>x. find_row (rid r) (reservations d) = Some x \<and> res_screeningId x = res_screeningId r)"

datatype race_label = Turn nat | Others

text \<open>Any number of cancellations of the reservation \<open>r\<close> with the payment \<open>p\<close>; each has its own clock, Stripe and faults.\<close>

inductive race_step :: "(nat \<Rightarrow> stripe_env) \<Rightarrow> int \<Rightarrow> payment \<Rightarrow> reservation \<Rightarrow> db \<Rightarrow> race_label \<Rightarrow> race \<Rightarrow> race \<Rightarrow> bool"
  for envs uid p r d0 where
  turn: "advance (envs t) uid (rid r) (stage_of c t) (rw c) = (st, w') \<Longrightarrow> race_step envs uid p r d0 (Turn t) c
    \<lparr>rw = w', asked = asked c @ sends (stage_of c t), stage_of = (stage_of c)(t := st)\<rparr>"
| others: "deal p r d0 (db w') \<Longrightarrow> race_step envs uid p r d0 Others c (c\<lparr>rw := w'\<rparr>)"

subsection \<open>What every request knows\<close>

lemma deal_update_payment:
  assumes "deal p r d0 d" and "update_payment j f d = Inr (x, d')" and "\<And>q. same_deal q (f q)"
  shows "deal p r d0 d'"
proof -
  have f: "rid (f q) = rid q" "pay_reservationId (f q) = pay_reservationId q" "amount (f q) = amount q"
    "stripePaymentId (f q) = stripePaymentId q" for q
    using assms(3) [of q] by (simp_all add: same_deal_def)
  have d': "d' = d\<lparr>payments := update_row j f (payments d)\<rparr>"
    using assms(2) unfolding update_payment_def by (rule update_stmtE)
  have "db_ok d'" using assms(1,2) db_ok_update_payment [of d f j x d'] f(1) by (simp add: deal_def)
  with assms(1) show ?thesis by (auto simp: deal_def d' find_update_row f same_deal_def)
qed

lemma deal_update_reservation:
  assumes "deal p r d0 d" and "update_reservation j f d = Inr (x, d')" and "\<And>y. rid (f y) = rid y"
    and "\<And>y. res_screeningId (f y) = res_screeningId y"
  shows "deal p r d0 d'"
proof -
  have d': "d' = d\<lparr>reservations := update_row j f (reservations d)\<rparr>"
    using assms(2) unfolding update_reservation_def by (rule update_stmtE)
  have "db_ok d'" using assms(1,2,3) db_ok_update_reservation [of d f j x d'] by (simp add: deal_def)
  with assms show ?thesis by (auto simp: deal_def d' find_update_row)
qed

lemma keeps_deal:
  "keeps_db (deal p r d0) (finalizeCancel f x)" "keeps_db (deal p r d0) (refund_save env q y)"
proof -
  have "keeps_db (deal p r d0) (reservations_setStatus f j st)" for j st
    unfolding reservations_setStatus_def by (rule keeps_db_stmt) (erule (1) deal_update_reservation; simp)
  then show "keeps_db (deal p r d0) (finalizeCancel f x)" unfolding finalizeCancel_def by (intro keeps_rules)
  have "keeps_db (deal p r d0) (payments_updateById f j g)" if "\<And>q. same_deal q (g q)" for f j g
    unfolding payments_updateById_def
    by (intro keeps_rules keeps_db_stmt) (rule deal_update_payment [OF _ _ that])
  then show "keeps_db (deal p r d0) (refund_save env q y)"
    unfolding refund_save_def by (intro keeps_rules) (simp add: same_deal_def)
qed

lemma cancel_begin_run:
  "snd (cancel_begin u i w) = w"
  "cancel_begin u i w = (Inr x, w') \<Longrightarrow> find_row i (reservations (db w)) = Some x"
  by (auto simp: cancel_begin_def findOwned_def getById_def reservations_findById_def await_def query_run ret_run throw_run
      split: option.splits if_splits)

lemma refund_begin_run:
  assumes d: "deal p r d0 (db w)" and p: "pay_reservationId p = rid r" and s: "find_row (res_screeningId r) (screenings d0) = Some s"
    and x: "rid x = rid r" "res_screeningId x = res_screeningId r"
  shows "snd (refund_begin env x w) = w"
    and "refund_begin env x w = (Inr (Some (q, percent)), w') \<Longrightarrow> same_deal p q \<and> percent = refund_percent env d0 s"
proof -
  show "snd (refund_begin env x w) = w"
    by (auto simp: refund_begin_def payments_findByReservationId_def screenings_findById_def payments_findRefundPolicy_def await_query
        throw_run ret_run split: option.split)
  obtain q0 where q0: "find_row (rid p) (payments (db w)) = Some q0" "same_deal p q0" using d by (auto simp: deal_def)
  have "db_ok (db w)" using d by (simp add: deal_def)
  from payment_of_reservation [OF this find_row_mem [OF q0(1)]]
  have f: "List.find (\<lambda>q. pay_reservationId q = rid x) (rows (payments (db w))) = Some q0"
    using q0(2) p x(1) by (simp add: same_deal_def)
  have j: "fst sc = s" if "screening_join (res_screeningId x) (db w) = Some sc" for sc
    using that s x(2) d by (auto simp: screening_join_def deal_def split: option.splits)
  have pol: "refund_policy_for h (db w) = refund_policy_for h d0" for h
    using d by (simp add: refund_policy_for_def deal_def)
  show "refund_begin env x w = (Inr (Some (q, percent)), w') \<Longrightarrow> same_deal p q \<and> percent = refund_percent env d0 s"
    using q0(2) j
    by (auto simp: refund_begin_def payments_findByReservationId_def screenings_findById_def payments_findRefundPolicy_def await_query
        throw_run ret_run f pol refund_percent_def split: option.splits if_splits)
qed

definition stage_ok :: "payment \<Rightarrow> reservation \<Rightarrow> rat \<Rightarrow> stage \<Rightarrow> bool" where
  "stage_ok p r pct st \<longleftrightarrow> (case st of
      Reading x \<Rightarrow> rid x = rid r \<and> res_screeningId x = res_screeningId r
    | Asking x q percent \<Rightarrow> same_deal p q \<and> percent = pct
    | _ \<Rightarrow> True)"

lemma advance_ok:
  assumes d: "deal p r d0 (db w)" and p: "pay_reservationId p = rid r" and s: "find_row (res_screeningId r) (screenings d0) = Some s"
    and st: "stage_ok p r pct st" and pct: "refund_percent env d0 s = pct" and run: "advance env u (rid r) st w = (st', w')"
  shows "deal p r d0 (db w') \<and> stage_ok p r pct st'"
proof (cases st)
  case Starting
  obtain y where y: "find_row (rid r) (reservations (db w)) = Some y" "res_screeningId y = res_screeningId r" using d by (auto simp: deal_def)
  have "rid x = rid r \<and> res_screeningId x = res_screeningId r" if "cancel_begin u (rid r) w = (Inr x, v)" for x v
    using cancel_begin_run(2) [OF that] y find_row_key [OF y(1)] by simp
  with run d cancel_begin_run(1) [of u "rid r" w] show ?thesis
    by (auto simp: Starting stage_ok_def split: prod.splits sum.splits)
next
  case (Reading x)
  then have x: "rid x = rid r" "res_screeningId x = res_screeningId r" using st by (simp_all add: stage_ok_def)
  with run d refund_begin_run [OF d p s x, of env] pct show ?thesis
    by (auto simp: Reading stage_ok_def split: prod.splits sum.splits if_splits option.splits)
next
  case (Asking x q percent)
  have "db (snd (stripe_refund env q percent w)) = db w"
    by (simp add: stripe_refund_def await_def from_stripe_run ret_run split: sum.split)
  with run d show ?thesis by (auto simp: Asking stage_ok_def split: prod.splits sum.splits)
next
  case (Saving x q refund)
  have "deal p r d0 (db (snd (refund_save env q refund w)))" by (rule keeps_dbD [OF keeps_deal(2) d])
  with run show ?thesis by (auto simp: Saving stage_ok_def split: prod.splits sum.splits)
next
  case (Finishing x)
  have "deal p r d0 (db (snd (finalizeCancel (pay_fault env AtFinalize) x w)))" by (rule keeps_dbD [OF keeps_deal(1) d])
  with run show ?thesis by (auto simp: Finishing stage_ok_def)
qed (use run d in \<open>simp_all add: stage_ok_def\<close>)

text \<open>The one request, and what Stripe pays: requests with the same idempotency key count once.\<close>

definition the_refund :: "payment \<Rightarrow> rat \<Rightarrow> refund_request" where
  "the_refund p pct = \<lparr>rr_payment_intent = the (stripePaymentId p), rr_amount = refund_amount (amount p) pct,
     rr_idempotencyKey = ''refund-'' @ string_of_int (rid p)\<rparr>"

fun paid_out :: "string list \<Rightarrow> refund_request list \<Rightarrow> int" where
  "paid_out seen [] = 0"
| "paid_out seen (q # qs) = (if rr_idempotencyKey q \<in> set seen then paid_out seen qs
     else rr_amount q + paid_out (rr_idempotencyKey q # seen) qs)"

definition race_ok :: "(nat \<Rightarrow> stripe_env) \<Rightarrow> payment \<Rightarrow> reservation \<Rightarrow> db \<Rightarrow> screening \<Rightarrow> rat \<Rightarrow> race \<Rightarrow> bool" where
  "race_ok envs p r d0 s pct c \<longleftrightarrow> pay_reservationId p = rid r \<and> find_row (res_screeningId r) (screenings d0) = Some s \<and>
     (\<forall>t. refund_percent (envs t) d0 s = pct) \<and> deal p r d0 (db (rw c)) \<and> (\<forall>t. stage_ok p r pct (stage_of c t)) \<and>
     set (asked c) \<subseteq> {the_refund p pct}"

lemma sends_ok: "stage_ok p r pct st \<Longrightarrow> set (sends st) \<subseteq> {the_refund p pct}"
  by (cases st) (auto simp: stage_ok_def same_deal_def the_refund_def refund_call_def)

interpretation rf: invariant_steps "race_step envs uid p r d0" UNIV "race_ok envs p r d0 s pct" for envs uid p r d0 s pct
proof
  fix c l c' assume ok: "race_ok envs p r d0 s pct c" and "race_step envs uid p r d0 l c c'"
  from this(2) show "race_ok envs p r d0 s pct c'"
  proof cases
    case (turn t st w')
    have "deal p r d0 (db w') \<and> stage_ok p r pct st"
      using ok unfolding race_ok_def by (intro advance_ok [OF _ _ _ _ _ turn(3)]) blast+
    with ok sends_ok [of p r pct "stage_of c t"] turn show ?thesis by (auto simp: race_ok_def)
  next
    case (others w')
    with ok show ?thesis by (simp add: race_ok_def)
  qed
qed

lemma paid_out_seen: "set qs \<subseteq> {q} \<Longrightarrow> rr_idempotencyKey q \<in> set seen \<Longrightarrow> paid_out seen qs = 0"
  by (induction qs) auto

lemma paid_out_same: "set qs \<subseteq> {q} \<Longrightarrow> paid_out [] qs = (if qs = [] then 0 else rr_amount q)"
  by (cases qs) (auto simp: paid_out_seen)

text \<open>C19. The money goes back once: let any number of cancellations of a paid reservation run at the same time, in any order of their
  parts, with errors of Stripe and of the database wherever they fall, and with any other work in between that leaves the payment's amount
  and intent, the screening and the policies alone. While they all fall into one tier of the policy, every refund that any of them asks Stripe
  for is one and the same request under one idempotency key, so that Stripe pays nothing or the share of the tier, never more.\<close>

theorem refund_paid_once:
  assumes "paid_reservation w uid r p s" and "\<And>t. refund_percent (envs t) (db w) s = pct"
    and "reaches (race_step envs uid p r (db w)) UNIV \<lparr>rw = w, asked = [], stage_of = (\<lambda>_. Starting)\<rparr> c"
  shows "set (asked c) \<subseteq> {\<lparr>rr_payment_intent = the (stripePaymentId p), rr_amount = refund_amount (amount p) pct,
      rr_idempotencyKey = ''refund-'' @ string_of_int (rid p)\<rparr>} \<and>
    paid_out [] (asked c) \<in> {0, refund_amount (amount p) pct}"
proof -
  note a = assms(1) [unfolded paid_reservation_def]
  have "find_row (rid p) (payments (db w)) = Some p" using payment_at a by blast
  then have "race_ok envs p r (db w) s pct \<lparr>rw = w, asked = [], stage_of = (\<lambda>_. Starting)\<rparr>"
    using a assms(2) by (simp add: race_ok_def deal_def same_deal_def stage_ok_def)
  from rf.holds_everywhere [OF assms(3) this] have "set (asked c) \<subseteq> {the_refund p pct}" by (simp add: race_ok_def)
  from this paid_out_same [OF this] show ?thesis by (simp add: the_refund_def)
qed

subsection \<open>A payment that arrives during a cancellation\<close>

lemma cancel_begin_own:
  assumes "find_row i (reservations (db w)) = Some r" and "res_userId r = u"
  shows "cancel_begin u i w = (if res_status r = CONFIRMED \<or> res_status r = HELD then Inr r else Inl cannot_cancel, w)"
  using findOwned_run [OF assms] by (auto simp: cancel_begin_def await_def throw_run ret_run)

text \<open>C38. A cancellation can keep the money. It looks at the status once, at its start: when the reservation is HELD then and Stripe's
  paid session is handled before its write, the reservation ends up CANCELLED with its seat free while the payment is SUCCEEDED; nothing was
  asked back from Stripe, and another cancellation, the only way to a refund, is refused.\<close>

theorem cancel_loses_payment:
  assumes "paid_delivery env raw sig e s w p r" and "res_status r = HELD" and "\<And>x. pay_fault env x = None"
    and "pay_fault env' AtFinalize = None"
  shows "cancel env' (res_userId r) (rid r) = await (cancel_begin (res_userId r) (rid r)) (cancel_rest env') \<and>
    (\<exists>w1 w2. cancel_begin (res_userId r) (rid r) w = (Inr r, w) \<and>
      handleWebhookEvent env raw sig w = (Inr True, w1) \<and>
      cancel_rest env' r w1 = (Inr (r\<lparr>res_status := CANCELLED, heldUntil := None\<rparr>), w2) \<and>
      find_row (rid r) (reservations (db w2)) = Some (r\<lparr>res_status := CANCELLED, heldUntil := None\<rparr>) \<and>
      find_row (rid p) (payments (db w2)) = Some (p\<lparr>pay_status := SUCCEEDED, stripeEventId := Some (ev_id e),
        stripePaymentId := cs_payment_intent s\<rparr>) \<and>
      (\<forall>env'' u. \<exists>x. cancel env'' u (rid r) w2 = (Inl x, w2)))"
proof -
  note a = assms(1) [unfolded paid_delivery_def]
  have ri: "pay_reservationId p = rid r" using a find_row_key by fastforce
  have row: "find_row (rid r) (reservations (db w)) = Some r" using a ri by simp
  have "seat_clear (db w) r" using a assms(2) find_row_mem [OF row] by (intro active_clear) (simp_all add: active_res_def)
  from paid_delivery_db [OF assms(1) this assms(3)] obtain w1 where w1: "handleWebhookEvent env raw sig w = (Inr True, w1)" "db_ok (db w1)"
    "db w1 = (db w)\<lparr>reservations := update_row (rid r) confirmed_res (reservations (db w)),
      payments := update_row (rid p) (paid_payment (ev_id e) (cs_payment_intent s)) (payments (db w))\<rparr>" .
  have row1: "find_row (rid r) (reservations (db w1)) = Some (confirmed_res r)"
    using row by (simp add: w1(3) find_update_row confirmed_res_def)
  let ?w2 = "snd (finalizeCancel None r w1)" and ?r = "cancelled_res (confirmed_res r)"
  have run: "cancel_rest env' r w1 = (Inr ?r, ?w2)"
    using assms(2,4) by (simp add: cancel_rest_def run_finalizeCancel [OF w1(2) row1] publish_event_run)
  have d2: "db ?w2 = (db w1)\<lparr>reservations := update_row (rid r) cancelled_res (reservations (db w1))\<rparr>"
    by (simp add: run_finalizeCancel [OF w1(2) row1] publish_event_run)
  have row2: "find_row (rid r) (reservations (db ?w2)) = Some ?r"
    using row1 by (simp add: d2 find_update_row cancelled_res_def)
  have "\<exists>x. cancel env'' u (rid r) ?w2 = (Inl x, ?w2)" for env'' u
  proof -
    have "\<exists>x. cancel_begin u (rid r) ?w2 = (Inl x, ?w2)"
      using row2 by (auto simp: cancel_begin_def findOwned_def getById_def reservations_findById_def await_def query_run ret_run throw_run
          cancelled_res_def)
    then show ?thesis by (auto simp: cancel_split await_def)
  qed
  moreover have "find_row (rid p) (payments (db ?w2)) = Some (paid_payment (ev_id e) (cs_payment_intent s) p)"
    using a by (simp add: d2 w1(3) find_update_row paid_payment_def)
  moreover have "cancel_begin (res_userId r) (rid r) w = (Inr r, w)"
    by (subst cancel_begin_own [OF row refl]) (simp add: assms(2))
  ultimately show ?thesis
    using w1(1) run row2 cancel_split
    by (intro conjI exI [of _ w1] exI [of _ ?w2]) (simp_all add: confirmed_res_def cancelled_res_def paid_payment_def)
qed

subsection \<open>A hold that ends during a checkout\<close>

definition checkout_begin :: "stripe_env \<Rightarrow> int \<Rightarrow> int \<Rightarrow> payment service" where
  "checkout_begin env userId reservationId =
     await (findOwned userId reservationId) (\<lambda>reservation.
     if res_status reservation \<noteq> HELD then throw not_held
     else await (payments_findByReservationId reservationId) (\<lambda>existing. case existing of
       Some _ \<Rightarrow> throw has_payment
     | None \<Rightarrow>
         await (screenings_findById (res_screeningId reservation)) (\<lambda>screening. case screening of
           None \<Rightarrow> throw screening_gone
         | Some s \<Rightarrow>
             catch_err
               (payments_create (pay_fault env AtCreate) (pay_now env) reservationId (price (fst s) * 100) CURRENCY)
               (\<lambda>e. if e = Prisma P2002 then throw has_payment else throw e))))"

definition checkout_rest :: "stripe_env \<Rightarrow> int \<Rightarrow> payment \<Rightarrow> string + string \<times> string option \<Rightarrow> string option service" where
  "checkout_rest env reservationId payment answer =
     catch_err
       (await (from_stripe answer) (\<lambda>session.
        await (payments_updateById (pay_fault env AtSessionSave) (Some (rid payment))
            (\<lambda>p. p\<lparr>stripeSessionId := fst session\<rparr>)) (\<lambda>_.
        await (extendHold (pay_fault env AtExtend) reservationId (expires_at (pay_now env) * 1000)) (\<lambda>_.
        ret (snd session)))))
       (\<lambda>e. await (payments_delete (pay_fault env AtDelete) (rid payment)) (\<lambda>_. throw e))"

lemma checkout_split:
  "createCheckoutSession env u i = await (checkout_begin env u i)
     (\<lambda>p. checkout_rest env i p (create_session env (session_request_for (pay_now env) i p)))"
  unfolding createCheckoutSession_def checkout_begin_def checkout_rest_def await_assoc Let_def
  by (rule await_cong) (auto simp: await_pure await_assoc split: option.split intro!: await_cong)

lemma checkout_begin_run:
  assumes "checkout_ready w u i r s" and "pay_fault env AtCreate = None"
  shows "checkout_begin env u i w = (Inr (first_payment env w i s), w\<lparr>db := with_payment (first_payment env w i s) (db w)\<rparr>)"
proof -
  note a = assms(1) [unfolded checkout_ready_def]
  obtain m h where j: "screening_join (res_screeningId r) (db w) = Some (s, m, h)"
    using screening_of_reservation a by metis
  let ?p = "first_payment env w i s"
  have "i \<in> set (ids (reservations (db w)))" using a by (simp add: find_row_ids [symmetric])
  then have "insert_payment (new_payment (pay_now env) i (price s * 100) ''usd'') (db w) = Inr (?p, with_payment ?p (db w))"
    unfolding with_payment_def first_payment_def using a by (intro insert_payment_run) (auto simp: new_payment_def)
  moreover have "List.find (\<lambda>p. pay_reservationId p = i) (rows (payments (db w))) = None" using a by (simp add: find_None_iff)
  ultimately show ?thesis
    using findOwned_run [of i w r u] a j assms(2)
    by (simp add: checkout_begin_def await_def payments_findByReservationId_def screenings_findById_def query_run catch_err_def
        payments_create_def run_stmt_def CURRENCY_def)
qed

lemma checkout_rest_run:
  assumes ok: "db_ok (db w)" and p: "find_row (rid p) (payments (db w)) = Some q" and x: "find_row i (reservations (db w)) = Some x"
    and nf: "\<And>k. pay_fault env k = None"
  shows "checkout_rest env i p (Inr (session, url)) w = (Inr url, w\<lparr>db := (db w)
    \<lparr>payments := update_row (rid p) (\<lambda>p. p\<lparr>stripeSessionId := session\<rparr>) (payments (db w)),
     reservations := update_row i (\<lambda>r. r\<lparr>heldUntil := Some (expires_at (pay_now env) * 1000)\<rparr>) (reservations (db w))\<rparr>\<rparr>)"
proof -
  let ?f = "\<lambda>p :: payment. p\<lparr>stripeSessionId := session\<rparr>"
  let ?d = "(db w)\<lparr>payments := update_row (rid p) ?f (payments (db w))\<rparr>"
  have nc: "no_clash (db w) (rid p) (?f q)" by (rule no_clash_same [OF ok p]) simp_all
  have u: "payments_updateById None (Some (rid p)) ?f w = (Inr (?f q), w\<lparr>db := ?d\<rparr>)"
    by (rule run_payment_update [where f = ?f, OF ok p _ _ nc]) simp_all
  have "update_payment (rid p) ?f (db w) = Inr (?f q, ?d)"
    by (rule update_payment_run [where f = ?f, OF ok p _ _ nc]) simp_all
  from db_ok_update_payment [OF ok _ this] have "db_ok ?d" by simp
  with run_extendHold [of "w\<lparr>db := ?d\<rparr>" i x "expires_at (pay_now env) * 1000"] x u nf show ?thesis
    by (simp add: checkout_rest_def catch_err_def await_def from_stripe_run ret_run)
qed

text \<open>The sweep on a seat whose hold ran out: its reservation is CANCELLED and the seat free.\<close>

lemma sweep_frees:
  assumes "db_ok d" and "find_row i (reservations d) = Some r" and "hold_expired t r" and "db w = d"
  shows "find_row i (reservations (db (snd (expireHolds None t w)))) = Some (r\<lparr>res_status := CANCELLED, heldUntil := None\<rparr>)"
    and "payments (db (snd (expireHolds None t w))) = payments d"
    and "\<And>x. x \<in> set (rows (reservations (db (snd (expireHolds None t w))))) \<Longrightarrow> active_res x \<Longrightarrow>
      \<not> (res_screeningId x = res_screeningId r \<and> res_seatId x = res_seatId r)"
proof -
  let ?d = "db (snd (expireHolds None t w))"
  have d: "?d = snd (release_expired t d)" using publish_all_run assms(4) by (simp add: expireHolds_run)
  have "find_row i (reservations ?d) = map_option (expire_row t) (find_row i (reservations d))"
    unfolding d by (intro find_row_map) (simp_all add: release_expired_rows expire_row_def)
  then show "find_row i (reservations ?d) = Some (r\<lparr>res_status := CANCELLED, heldUntil := None\<rparr>)"
    using assms(2,3) by (simp add: expire_row_def)
  show "payments ?d = payments d" by (simp add: d release_expired_def)
  have u: "reservation_unique (reservations d)" using assms(1) by (simp add: db_ok_defs)
  have "active_res r" using assms(3) by (simp add: hold_expired_def active_res_def)
  fix x assume x: "x \<in> set (rows (reservations ?d))" "active_res x"
  then obtain y where y: "y \<in> set (rows (reservations d))" "x = expire_row t y" by (auto simp: d release_expired_rows)
  with x(2) have "\<not> hold_expired t y" "x = y" by (auto simp: expire_row_def active_res_def split: if_splits)
  with active_unique_eq [OF u y(1) find_row_mem [OF assms(2)]] \<open>active_res r\<close> x(2) assms(3)
  show "\<not> (res_screeningId x = res_screeningId r \<and> res_seatId x = res_seatId r)" by auto
qed

text \<open>A checkout does not notice that its hold ended: when the sweep runs while the checkout waits for Stripe and the hold has run out
  by then, the reservation is CANCELLED and its seat free, yet the checkout answers with the address to pay at. Its last write only sets
  the deadline of the cancelled reservation, which no longer keeps the seat.\<close>

theorem checkout_outlives_hold:
  assumes "checkout_ready w uid i r s" and "\<And>x. pay_fault env x = None" and "heldUntil r = Some t" and "t < now"
    and "create_session env (session_request_for (pay_now env) i (first_payment env w i s)) = Inr (session, url)"
  shows "createCheckoutSession env uid i = await (checkout_begin env uid i)
      (\<lambda>p. checkout_rest env i p (create_session env (session_request_for (pay_now env) i p))) \<and>
    (\<exists>w1 w3 p. checkout_begin env uid i w = (Inr p, w1) \<and>
      checkout_rest env i p (create_session env (session_request_for (pay_now env) i p)) (snd (expireHolds None now w1)) = (Inr url, w3) \<and>
      find_row (rid p) (payments (db w3)) = Some (p\<lparr>stripeSessionId := session\<rparr>) \<and> pay_status p = PENDING \<and>
      find_row i (reservations (db w3)) = Some (r\<lparr>res_status := CANCELLED, heldUntil := Some (expires_at (pay_now env) * 1000)\<rparr>) \<and>
      find_taken (res_screeningId r) (res_seatId r) (db w3) = None)"
proof -
  note a = assms(1) [unfolded checkout_ready_def]
  let ?p = "first_payment env w i s"
  let ?w1 = "w\<lparr>db := with_payment ?p (db w)\<rparr>"
  let ?w2 = "snd (expireHolds None now ?w1)"
  have start: "checkout_begin env uid i w = (Inr ?p, ?w1)" by (rule checkout_begin_run [OF assms(1,2)])
  have ok1: "db_ok (with_payment ?p (db w))" by (rule checkout_start(2) [OF assms(1,2)])
  have pay: "find_row (rid ?p) (payments (with_payment ?p (db w))) = Some ?p" using a by (intro find_with_payment) simp_all
  have exp: "hold_expired now r" using a assms(3,4) by (simp add: hold_expired_def)
  have "find_row i (reservations (with_payment ?p (db w))) = Some r" using a by simp
  note sw = sweep_frees [OF ok1 this exp, of ?w1, simplified]
  have ok2: "db_ok (db ?w2)" by (rule keeps_dbD [OF keeps_reservation_services(2)]) (simp add: ok1)
  have "find_row (rid ?p) (payments (db ?w2)) = Some ?p" using pay by (simp add: sw(2))
  note run = checkout_rest_run [OF ok2 this sw(1) assms(2), of session url]
  let ?w3 = "snd (checkout_rest env i ?p (Inr (session, url)) ?w2)"
  have "find_taken (res_screeningId r) (res_seatId r) (db ?w3) = None"
    using sw(3) by (auto simp: run find_taken_def find_None_iff rows_update_row active_res_def)
  then show ?thesis
    using start pay sw(1,2) checkout_split assms(5) run
    by (intro conjI exI [of _ ?w1] exI [of _ ?w3] exI [of _ ?p])
      (simp_all add: find_update_row first_payment_def new_payment_def)
qed

subsection \<open>The properties on the sample database\<close>

theorem cancel_loses_payment_witness:
  "\<exists>w1 w2. handleWebhookEvent sample_stripe ''e1'' ''ok'' (world_of (sample_paid_db HELD)) = (Inr True, w1) \<and>
     cancel_rest sample_stripe sample_reservation w1 = (Inr (sample_reservation\<lparr>res_status := CANCELLED, heldUntil := None\<rparr>), w2)"
proof -
  have "sample_reservation\<lparr>res_status := HELD\<rparr> = sample_reservation" by (simp add: sample_reservation_def)
  moreover have "pay_fault sample_stripe x = None" for x by (simp add: sample_stripe_def)
  ultimately show ?thesis
    using cancel_loses_payment [OF sample_delivery [of "sample_paid_db HELD" HELD], of sample_stripe]
    by (auto simp: sample_reservation_def)
qed

theorem checkout_outlives_hold_witness:
  "\<exists>w1 w3. checkout_begin sample_stripe 1 1 (world_of sample_db) = (Inr sample_payment, w1) \<and>
     checkout_rest sample_stripe 1 sample_payment (Inr (''cs'', Some ''url'')) (snd (expireHolds None 700000 w1)) = (Inr (Some ''url''), w3) \<and>
     find_taken 1 1 (db w3) = None"
proof -
  have "checkout_ready (world_of sample_db) 1 1 sample_reservation sample_screening"
    using sample_db_ok by (simp add: checkout_ready_def world_of_def find_row_def sample_defs empty_table_def fits_int32_def)
  moreover have "first_payment sample_stripe (world_of sample_db) 1 sample_screening = sample_payment"
    by (simp add: first_payment_def world_of_def sample_defs empty_table_def sample_payment_def sample_stripe_def)
  moreover have "pay_fault sample_stripe x = None" "create_session sample_stripe q = Inr (''cs'', Some ''url'')" for x q
    by (simp_all add: sample_stripe_def)
  moreover have "heldUntil sample_reservation = Some 600000" "res_screeningId sample_reservation = 1" "res_seatId sample_reservation = 1"
    by (simp_all add: sample_reservation_def)
  ultimately show ?thesis
    using checkout_outlives_hold [of "world_of sample_db" 1 1 sample_reservation sample_screening sample_stripe 600000 700000 "''cs''" "Some ''url''"]
      checkout_begin_run [of "world_of sample_db" 1 1 sample_reservation sample_screening sample_stripe] by auto
qed

text \<open>Two cancellations that both asked Stripe.\<close>

lemma take_turn:
  assumes "reaches (race_step envs u p r d0) UNIV c0 \<lparr>rw = w, asked = qs, stage_of = f\<rparr>"
    and "advance (envs t) u (rid r) (f t) w = (st, w')"
  shows "reaches (race_step envs u p r d0) UNIV c0 \<lparr>rw = w', asked = qs @ sends (f t), stage_of = f(t := st)\<rparr>"
  using reaches.move [OF assms(1) UNIV_I race_step.turn [of envs t u r "\<lparr>rw = w, asked = qs, stage_of = f\<rparr>" st w' p d0]] assms(2) by simp

lemma sample_advance:
  defines "p \<equiv> sample_payment\<lparr>pay_status := SUCCEEDED, stripePaymentId := Some ''pi''\<rparr>"
    and "r \<equiv> sample_reservation\<lparr>res_status := CONFIRMED\<rparr>" and "w \<equiv> world_of sample_settled_db"
  shows "advance sample_stripe 1 (rid r) Starting w = (Reading r, w)"
    and "advance sample_stripe 1 (rid r) (Reading r) w = (Asking r p 100, w)"
    and "advance sample_stripe 1 (rid r) (Asking r p 100) w = (Saving r p (Some ''re''), w)"
    and "refund_percent sample_stripe (db w) sample_screening = 100"
proof -
  note a = sample_settled [unfolded paid_reservation_def, folded p_def r_def w_def]
  have st: "res_status r = CONFIRMED" "pay_status p = SUCCEEDED" "truthy (stripePaymentId p)"
    by (simp_all add: r_def p_def truthy_def)
  then have ask: "asks_refund p 100" by (simp add: asks_refund_def)
  show pc: "refund_percent sample_stripe (db w) sample_screening = 100"
    using sample_policy_full by (simp add: refund_percent_def w_def world_of_def sample_defs sample_stripe_def)
  show "advance sample_stripe 1 (rid r) Starting w = (Reading r, w)"
    using cancel_begin_own [of "rid r" w r 1] a by simp
  have "List.find (\<lambda>q. pay_reservationId q = rid r) (rows (payments (db w))) = Some p"
    using payment_of_reservation [of "db w" p] a by simp
  moreover obtain m h where "screening_join (res_screeningId r) (db w) = Some (sample_screening, m, h)"
    using screening_of_reservation a by metis
  ultimately have "refund_begin sample_stripe r w = (Inr (Some (p, 100)), w)"
    using pc st(2) by (simp add: refund_begin_def payments_findByReservationId_def screenings_findById_def payments_findRefundPolicy_def
        await_query ret_run refund_percent_def)
  then show "advance sample_stripe 1 (rid r) (Reading r) w = (Asking r p 100, w)" using st(1) by simp
  show "advance sample_stripe 1 (rid r) (Asking r p 100) w = (Saving r p (Some ''re''), w)"
    using ask by (simp add: refund_answer del: advance.simps) (simp add: sample_stripe_def)
qed

theorem refund_paid_once_witness:
  "\<exists>c. reaches (race_step (\<lambda>_. sample_stripe) 1 (sample_payment\<lparr>pay_status := SUCCEEDED, stripePaymentId := Some ''pi''\<rparr>)
       (sample_reservation\<lparr>res_status := CONFIRMED\<rparr>) sample_settled_db) UNIV
       \<lparr>rw = world_of sample_settled_db, asked = [], stage_of = (\<lambda>_. Starting)\<rparr> c \<and>
     length (asked c) = 2 \<and> paid_out [] (asked c) \<in> {0, refund_amount 50000 100}"
proof -
  let ?p = "sample_payment\<lparr>pay_status := SUCCEEDED, stripePaymentId := Some ''pi''\<rparr>"
  let ?r = "sample_reservation\<lparr>res_status := CONFIRMED\<rparr>"
  let ?w = "world_of sample_settled_db"
  let ?R = "reaches (race_step (\<lambda>_. sample_stripe) 1 ?p ?r sample_settled_db) UNIV \<lparr>rw = ?w, asked = [], stage_of = (\<lambda>_. Starting)\<rparr>"
  have "?R \<lparr>rw = ?w, asked = [], stage_of = (\<lambda>_. Starting)\<rparr>" by (rule reaches.start)
  from take_turn [OF this sample_advance(1), of 0] have "?R \<lparr>rw = ?w, asked = [], stage_of = (\<lambda>_. Starting)(0 := Reading ?r)\<rparr>" by simp
  from take_turn [OF this, of 1] sample_advance(1)
  have "?R \<lparr>rw = ?w, asked = [], stage_of = (\<lambda>_. Starting)(0 := Reading ?r, 1 := Reading ?r)\<rparr>" by simp
  from take_turn [OF this, of 0] sample_advance(2)
  have "?R \<lparr>rw = ?w, asked = [], stage_of = (\<lambda>_. Starting)(0 := Asking ?r ?p 100, 1 := Reading ?r)\<rparr>" by (simp add: fun_upd_twist)
  from take_turn [OF this, of 1] sample_advance(2)
  have "?R \<lparr>rw = ?w, asked = [], stage_of = (\<lambda>_. Starting)(0 := Asking ?r ?p 100, 1 := Asking ?r ?p 100)\<rparr>" by simp
  from take_turn [OF this, of 0] sample_advance(3)
  have "?R \<lparr>rw = ?w, asked = sends (Asking ?r ?p 100), stage_of = (\<lambda>_. Starting)(0 := Saving ?r ?p (Some ''re''), 1 := Asking ?r ?p 100)\<rparr>"
    by (simp add: fun_upd_twist)
  from take_turn [OF this, of 1] sample_advance(3)
  have R: "?R \<lparr>rw = ?w, asked = sends (Asking ?r ?p 100) @ sends (Asking ?r ?p 100),
      stage_of = (\<lambda>_. Starting)(0 := Saving ?r ?p (Some ''re''), 1 := Saving ?r ?p (Some ''re''))\<rparr>" by simp
  have d: "db ?w = sample_settled_db" by (simp add: world_of_def)
  from refund_paid_once [OF sample_settled, of "\<lambda>_. sample_stripe" 100, unfolded d, OF _ R] sample_advance(4)
  have "paid_out [] (sends (Asking ?r ?p 100) @ sends (Asking ?r ?p 100)) \<in> {0, refund_amount 50000 100}"
    by (simp add: d sample_payment_def new_payment_def)
  moreover have "length (sends (Asking ?r ?p 100)) = 1" by (simp add: asks_refund_def truthy_def)
  ultimately show ?thesis using R by fastforce
qed

end
