(* ===== verification/Seed.thy ===== *)
theory Seed
  imports Refunds
begin

text \<open>
  \<open>prisma/seed.ts\<close>: the script that puts the three refund tiers into the database, and what a cancellation gets back then.
  \<open>upsert\<close> is the database client's: the row with the given unique key is updated, or a new one created. Closing the connections and the exit code
  are left out.
\<close>

definition policy_key :: "refund_policy \<Rightarrow> int \<times> int" where
  "policy_key p = (hoursFrom p, hoursTo p)"

definition tier_of :: "int \<times> int \<Rightarrow> db \<Rightarrow> refund_policy option" where
  "tier_of k d = List.find (\<lambda>p. policy_key p = k) (rows (policies d))"

definition upsert_policy :: "int \<Rightarrow> int \<Rightarrow> rat \<Rightarrow> refund_policy stmt" where
  "upsert_policy a b pct d =
     (case tier_of (a, b) d of
        Some p \<Rightarrow> on_table (\<lambda>t. d\<lparr>policies := t\<rparr>)
          (try_update policy_unique (\<lambda>_. True) (rid p) (\<lambda>p. p\<lparr>refundPercent := pct\<rparr>) (policies d))
      | None \<Rightarrow> insert_policy (\<lambda>n. \<lparr>rid = n, hoursFrom = a, hoursTo = b, refundPercent = pct\<rparr>) d)"

definition seed_main :: "(nat \<Rightarrow> prisma_error option) \<Rightarrow> unit service" where
  "seed_main fault =
     await (run_stmt (fault 0) (upsert_policy 48 100000 100)) (\<lambda>_.
     await (run_stmt (fault 1) (upsert_policy 24 48 50)) (\<lambda>_.
     await (run_stmt (fault 2) (upsert_policy 0 24 0)) (\<lambda>_.
     ret ())))"

subsection \<open>One upsert\<close>

lemma policy_unique_keys: "policy_unique t = distinct (map policy_key (rows t))"
  by (simp add: policy_unique_def policy_key_def [abs_def])

lemma find_key: "distinct (map policy_key xs) \<Longrightarrow> p \<in> set xs \<Longrightarrow> List.find (\<lambda>q. policy_key q = policy_key p) xs = Some p"
  by (induction xs) (auto simp: image_iff)

lemma tier_of_row: "db_ok d \<Longrightarrow> p \<in> set (rows (policies d)) \<Longrightarrow> tier_of (policy_key p) d = Some p"
  unfolding tier_of_def by (rule find_key) (simp_all add: db_ok_defs policy_unique_keys)

lemma tier_of_Some: "tier_of k d = Some p \<Longrightarrow> p \<in> set (rows (policies d)) \<and> policy_key p = k"
  unfolding tier_of_def by (rule find_Some_mem)

lemma upsert_new:
  assumes ok: "db_ok d" and none: "tier_of (a, b) d = None"
  shows "\<exists>p d'. upsert_policy a b pct d = Inr (p, d') \<and> db_ok d' \<and> d' = d\<lparr>policies := policies d'\<rparr> \<and>
    (\<forall>k. map_option refundPercent (tier_of k d') = (if k = (a, b) then Some pct else map_option refundPercent (tier_of k d)))"
proof -
  let ?p = "\<lparr>rid = next_id (policies d), hoursFrom = a, hoursTo = b, refundPercent = pct\<rparr>"
  obtain t where t: "insert_row (\<lambda>n. \<lparr>rid = n, hoursFrom = a, hoursTo = b, refundPercent = pct\<rparr>) (policies d) = (?p, t)"
    by (simp add: insert_row_def Let_def)
  have rows_t: "rows t = rows (policies d) @ [?p]" by (rule rows_insert_row [OF t])
  have "policy_unique t"
    using ok none by (auto simp: policy_unique_keys rows_t db_ok_defs tier_of_def find_None_iff policy_key_def)
  then have run: "upsert_policy a b pct d = Inr (?p, d\<lparr>policies := t\<rparr>)"
    using none t by (simp add: upsert_policy_def insert_policy_def on_table_def try_insert_def)
  moreover have "db_ok (d\<lparr>policies := t\<rparr>)"
    using none run by (intro db_ok_insert_policy [OF ok]) (simp_all add: upsert_policy_def)
  moreover have "tier_of k (d\<lparr>policies := t\<rparr>) = (if k = (a, b) then Some ?p else tier_of k d)" for k
    using none by (auto simp: tier_of_def rows_t find_append policy_key_def split: option.split)
  ultimately show ?thesis by (intro exI [of _ ?p] exI [of _ "d\<lparr>policies := t\<rparr>"]) simp
qed

lemma find_key_map:
  "(\<And>q. policy_key (f q) = policy_key q) \<Longrightarrow>
     List.find (\<lambda>q. policy_key q = k) (map f xs) = map_option f (List.find (\<lambda>q. policy_key q = k) xs)"
  by (induction xs) simp_all

lemma upsert_old:
  assumes ok: "db_ok d" and some: "tier_of (a, b) d = Some p"
  shows "\<exists>p d'. upsert_policy a b pct d = Inr (p, d') \<and> db_ok d' \<and> d' = d\<lparr>policies := policies d'\<rparr> \<and>
    (\<forall>k. map_option refundPercent (tier_of k d') = (if k = (a, b) then Some pct else map_option refundPercent (tier_of k d)))"
proof -
  let ?f = "\<lambda>p :: refund_policy. p\<lparr>refundPercent := pct\<rparr>"
  let ?g = "\<lambda>q. if rid q = rid p then ?f q else q" and ?t = "update_row (rid p) ?f (policies d)"
  have p: "p \<in> set (rows (policies d))" "policy_key p = (a, b)" using tier_of_Some [OF some] by simp_all
  have wf: "wf_table (policies d)" using ok by (simp add: db_ok_defs)
  have key: "policy_key (?g q) = policy_key q" for q by (simp add: policy_key_def)
  have un: "policy_unique ?t"
    using ok by (simp add: policy_unique_keys rows_update_row db_ok_defs key comp_def)
  have run: "upsert_policy a b pct d = Inr (?f p, d\<lparr>policies := ?t\<rparr>)"
    using un by (simp add: upsert_policy_def some on_table_def try_update_def mem_find_row [OF wf p(1)])
  moreover have "db_ok (d\<lparr>policies := ?t\<rparr>)"
    using ok un by (auto simp: db_ok_defs fk_defs wf_update_row)
  moreover have "tier_of k (d\<lparr>policies := ?t\<rparr>) = map_option ?g (tier_of k d)" for k
    by (simp add: tier_of_def rows_update_row find_key_map [of ?g, OF key])
  moreover have "map_option refundPercent (map_option ?g (tier_of k d)) =
      (if k = (a, b) then Some pct else map_option refundPercent (tier_of k d))" for k
  proof (cases "tier_of k d")
    case (Some q)
    then have "rid q = rid p \<longleftrightarrow> k = (a, b)"
      using tier_of_Some [OF Some] p mem_find_row [OF wf] some by (metis option.inject)
    then show ?thesis using Some by simp
  qed (use some in auto)
  ultimately show ?thesis
    by (intro exI [of _ "?f p"] exI [of _ "d\<lparr>policies := ?t\<rparr>"]) simp
qed

lemma upsert_run:
  assumes "db_ok d"
  shows "\<exists>p d'. upsert_policy a b pct d = Inr (p, d') \<and> db_ok d' \<and> d' = d\<lparr>policies := policies d'\<rparr> \<and>
    (\<forall>k. map_option refundPercent (tier_of k d') = (if k = (a, b) then Some pct else map_option refundPercent (tier_of k d)))"
  using upsert_new [OF assms, of a b pct] upsert_old [OF assms, of a b _ pct] by (cases "tier_of (a, b) d") blast+

lemma upsert_again:
  assumes ok: "db_ok d" and t: "map_option refundPercent (tier_of (a, b) d) = Some pct"
  shows "\<exists>p. upsert_policy a b pct d = Inr (p, d)"
proof -
  obtain p where p: "tier_of (a, b) d = Some p" "refundPercent p = pct" using t by auto
  have mem: "p \<in> set (rows (policies d))" using tier_of_Some [OF p(1)] by simp
  have wf: "wf_table (policies d)" using ok by (simp add: db_ok_defs)
  have "(if rid q = rid p then q\<lparr>refundPercent := pct\<rparr> else q) = q" if "q \<in> set (rows (policies d))" for q
    using mem_find_row [OF wf mem] mem_find_row [OF wf that] p(2) by auto
  then have "update_row (rid p) (\<lambda>p. p\<lparr>refundPercent := pct\<rparr>) (policies d) = policies d"
    by (simp add: update_row_def map_idI)
  then show ?thesis
    using ok p mem_find_row [OF wf mem] by (simp add: upsert_policy_def on_table_def try_update_def db_ok_defs)
qed

subsection \<open>The three tiers\<close>

definition tier_keys :: "(int \<times> int) set" where
  "tier_keys = {(48, 100000), (24, 48), (0, 24)}"

definition percent_at :: "rat \<Rightarrow> db \<Rightarrow> rat" where
  "percent_at h d = (case refund_policy_for h d of None \<Rightarrow> 0 | Some p \<Rightarrow> refundPercent p)"

lemma percent_of_tiers:
  assumes ok: "db_ok d" and keys: "\<And>p. p \<in> set (rows (policies d)) \<Longrightarrow> policy_key p \<in> tier_keys"
    and t: "map_option refundPercent (tier_of (48, 100000) d) = Some 100" "map_option refundPercent (tier_of (24, 48) d) = Some 50"
      "map_option refundPercent (tier_of (0, 24) d) = Some 0"
  shows "percent_at h d = (if 48 \<le> h \<and> h < 100000 then 100 else if 24 \<le> h \<and> h < 48 then 50 else 0)"
proof (cases "refund_policy_for h d")
  case None
  have out: "\<not> (of_int a \<le> h \<and> h < of_int b)" if x: "map_option refundPercent (tier_of (a, b) d) = Some x" for a b x
  proof -
    obtain p where "tier_of (a, b) d = Some p" using x by auto
    from tier_of_Some [OF this] have "p \<in> set (rows (policies d))" "hoursFrom p = a" "hoursTo p = b" by (simp_all add: policy_key_def)
    with None show ?thesis by (auto simp: refund_policy_for_def find_None_iff)
  qed
  from out [OF t(1)] out [OF t(2)] show ?thesis by (simp add: percent_at_def None)
next
  case (Some p)
  then have p: "p \<in> set (rows (policies d))" and h: "of_int (hoursFrom p) \<le> h" "h < of_int (hoursTo p)"
    using find_Some_mem unfolding refund_policy_for_def by fast+
  have "map_option refundPercent (tier_of (policy_key p) d) = Some (refundPercent p)" by (simp add: tier_of_row [OF ok p])
  with t keys [OF p] h show ?thesis by (auto simp: percent_at_def Some tier_keys_def policy_key_def)
qed

text \<open>After the seed script the refund of a cancellation depends on the time left as the tiers say: all of the price from 48 hours on,
  half of it from 24 hours on, and nothing later (nor after the screening began). This holds whatever part of the tiers was in the database
  before, with whatever percentages, so a script that broke off is repaired by running it again; a second run changes nothing.\<close>

theorem seed_tiers:
  assumes "db_ok (db w)" and "\<And>p. p \<in> set (rows (policies (db w))) \<Longrightarrow> policy_key p \<in> tier_keys" and "\<And>n. fault n = None"
  shows "\<exists>w'. seed_main fault w = (Inr (), w') \<and> db_ok (db w') \<and> db w' = (db w)\<lparr>policies := policies (db w')\<rparr> \<and>
    (\<forall>h. percent_at h (db w') = (if 48 \<le> h \<and> h < 100000 then 100 else if 24 \<le> h \<and> h < 48 then 50 else 0)) \<and>
    seed_main fault w' = (Inr (), w')"
proof -
  obtain p1 d1 where 1: "upsert_policy 48 100000 100 (db w) = Inr (p1, d1)" "db_ok d1" "d1 = (db w)\<lparr>policies := policies d1\<rparr>"
    "\<And>k. map_option refundPercent (tier_of k d1) = (if k = (48, 100000) then Some 100 else map_option refundPercent (tier_of k (db w)))"
    using upsert_run [OF assms(1), of 48 100000 100] by blast
  obtain p2 d2 where 2: "upsert_policy 24 48 50 d1 = Inr (p2, d2)" "db_ok d2" "d2 = d1\<lparr>policies := policies d2\<rparr>"
    "\<And>k. map_option refundPercent (tier_of k d2) = (if k = (24, 48) then Some 50 else map_option refundPercent (tier_of k d1))"
    using upsert_run [OF 1(2), of 24 48 50] by blast
  obtain p3 d3 where 3: "upsert_policy 0 24 0 d2 = Inr (p3, d3)" "db_ok d3" "d3 = d2\<lparr>policies := policies d3\<rparr>"
    "\<And>k. map_option refundPercent (tier_of k d3) = (if k = (0, 24) then Some 0 else map_option refundPercent (tier_of k d2))"
    using upsert_run [OF 2(2), of 0 24 0] by blast
  have t: "map_option refundPercent (tier_of (48, 100000) d3) = Some 100" "map_option refundPercent (tier_of (24, 48) d3) = Some 50"
    "map_option refundPercent (tier_of (0, 24) d3) = Some 0"
    by (simp_all add: 1(4) 2(4) 3(4))
  have "policy_key p \<in> tier_keys" if "p \<in> set (rows (policies d3))" for p
  proof (rule ccontr)
    assume new: "policy_key p \<notin> tier_keys"
    have "map_option refundPercent (tier_of (policy_key p) d3) \<noteq> None" using tier_of_row [OF 3(2) that] by simp
    then have "tier_of (policy_key p) (db w) \<noteq> None" using new by (simp add: 1(4) 2(4) 3(4) tier_keys_def split: if_splits)
    with tier_of_Some [of "policy_key p" "db w"] assms(2) new show False by fastforce
  qed
  note pc = percent_of_tiers [OF 3(2) this t]
  have run: "seed_main fault w = (Inr (), w\<lparr>db := d3\<rparr>)"
    by (simp add: seed_main_def assms(3) await_def run_stmt_def 1(1) 2(1) 3(1) ret_run)
  have "seed_main fault (w\<lparr>db := d3\<rparr>) = (Inr (), w\<lparr>db := d3\<rparr>)"
    using upsert_again [OF 3(2) t(1)] upsert_again [OF 3(2) t(2)] upsert_again [OF 3(2) t(3)]
    by (auto simp: seed_main_def assms(3) await_def run_stmt_def ret_run)
  moreover have "d3 = (db w)\<lparr>policies := policies d3\<rparr>" using 1(3) 2(3) 3(3) by (metis db.surjective db.update_convs(8))
  ultimately show ?thesis using run pc 3(2) by (intro exI [of _ "w\<lparr>db := d3\<rparr>"]) simp
qed

text \<open>A database with a stale tier.\<close>

theorem seed_tiers_witness:
  "\<exists>w'. seed_main (\<lambda>_. None) (world_of (sample_db\<lparr>policies := \<lparr>rows = [sample_policy 1 24 48 70], next_id = 2\<rparr>\<rparr>)) = (Inr (), w') \<and>
     percent_at 30 (db w') = 50 \<and> percent_at 48 (db w') = 100 \<and> percent_at (47 / 2) (db w') = 0"
proof -
  let ?d = "sample_db\<lparr>policies := \<lparr>rows = [sample_policy 1 24 48 70], next_id = 2\<rparr>\<rparr>"
  have "db_ok ?d"
    using sample_db_ok by (simp add: db_ok_defs fk_defs policy_unique_def wf_table_def ids_def sample_policy_def)
  then show ?thesis
    using seed_tiers [of "world_of ?d" "\<lambda>_. None"] by (auto simp: world_of_def policy_key_def tier_keys_def sample_policy_def)
qed

end
