(* ===== verification/Tokens.thy ===== *)
theory Tokens
  imports World Transition
begin

text \<open>
  \<open>auth/token.service.ts\<close> and the two JWT strategies: access tokens that carry a version, refresh tokens
  that are used once, and the revocation of both.

  Signing and verifying a JWT belong to a library: the functions of \<open>jwt_env\<close>, arguments of the handlers
  (the secrets and lifetimes are fixed in them). A token store command throws when Redis is down; the
  Lua script and the \<open>MULTI\<close> blocks are atomic. A session set is a list without repetitions.
\<close>

subsection \<open>Payloads and environment\<close>

record auth_user =
  au_id :: int
  au_name :: string
  au_email :: string
  au_role :: user_role

record access_payload =
  ap_sub :: int
  ap_name :: string
  ap_email :: string
  ap_role :: user_role
  ap_ver :: int

record refresh_payload =
  rp_sub :: int
  rp_jti :: string

record jwt_env =
  sign_access :: "access_payload \<Rightarrow> ms \<Rightarrow> string"
  sign_refresh :: "refresh_payload \<Rightarrow> ms \<Rightarrow> string"
  sign_link :: "int \<Rightarrow> ms \<Rightarrow> string"
  verify_access :: "string \<Rightarrow> ms \<Rightarrow> access_payload option"
  verify_refresh :: "string \<Rightarrow> ms \<Rightarrow> refresh_payload option"
  verify_link :: "string \<Rightarrow> ms \<Rightarrow> int option"
  production :: bool          \<comment> \<open>\<open>NODE_ENV === 'production'\<close>\<close>
  cookieDomain :: string

definition ACCESS_MAX_AGE_MS :: ms where "ACCESS_MAX_AGE_MS = 15 * 60 * 1000"

definition REFRESH_MAX_AGE_MS :: ms where "REFRESH_MAX_AGE_MS = 7 * 24 * 60 * 60 * 1000"

definition REFRESH_TTL_SECONDS :: int where "REFRESH_TTL_SECONDS = 7 * 24 * 60 * 60"

definition REFRESH_COOKIE_PATH :: string where "REFRESH_COOKIE_PATH = ''/api/v1/auth/refresh''"

text \<open>A \<open>Set-Cookie\<close> of the response; no \<open>maxAge\<close> clears the cookie.\<close>

record cookie =
  ck_name :: string
  ck_value :: string
  ck_httpOnly :: bool
  ck_secure :: bool
  ck_sameSite :: string
  ck_domain :: string
  ck_path :: "string option"
  ck_maxAge :: "ms option"

definition base_cookie :: "jwt_env \<Rightarrow> string \<Rightarrow> string \<Rightarrow> cookie" where
  "base_cookie env n v = \<lparr>ck_name = n, ck_value = v, ck_httpOnly = True, ck_secure = production env,
     ck_sameSite = ''strict'', ck_domain = cookieDomain env, ck_path = None, ck_maxAge = None\<rparr>"

definition setAuthCookies :: "jwt_env \<Rightarrow> string \<Rightarrow> string \<Rightarrow> cookie list" where
  "setAuthCookies env access refresh =
     [(base_cookie env ''access_token'' access)\<lparr>ck_maxAge := Some ACCESS_MAX_AGE_MS\<rparr>,
      (base_cookie env ''refresh_token'' refresh)\<lparr>ck_path := Some REFRESH_COOKIE_PATH, ck_maxAge := Some REFRESH_MAX_AGE_MS\<rparr>]"

definition clearAuthCookies :: "jwt_env \<Rightarrow> cookie list" where
  "clearAuthCookies env =
     [base_cookie env ''access_token'' [],
      (base_cookie env ''refresh_token'' [])\<lparr>ck_path := Some REFRESH_COOKIE_PATH\<rparr>]"

subsection \<open>Redis commands\<close>

text \<open>A command that throws when Redis is down.\<close>

definition on_redis :: "(auth_keys \<Rightarrow> 'a \<times> auth_keys) \<Rightarrow> 'a service" where
  "on_redis f w =
     (if redis_up (redis w)
      then case f (auth (redis w)) of (x, k) \<Rightarrow> (Inr x, w\<lparr>redis := (redis w)\<lparr>auth := k\<rparr>\<rparr>)
      else (Inl RedisError, w))"

definition smembers :: "int \<Rightarrow> (int, string list) keys \<Rightarrow> string list" where
  "smembers k m = (case m k of None \<Rightarrow> [] | Some e \<Rightarrow> fst e)"

definition sadd :: "int \<Rightarrow> string \<Rightarrow> (int, string list) keys \<Rightarrow> (int, string list) keys" where
  "sadd k j m = m(k \<mapsto> (filter (\<lambda>x. x \<noteq> j) (smembers k m) @ [j], None))"

definition srem :: "int \<Rightarrow> string \<Rightarrow> (int, string list) keys \<Rightarrow> (int, string list) keys" where
  "srem k j m =
     (let js = filter (\<lambda>x. x \<noteq> j) (smembers k m) in if js = [] then m(k := None) else m(k \<mapsto> (js, None)))"

subsection \<open>TokenService\<close>

definition getAccessVersion :: "ms \<Rightarrow> int \<Rightarrow> int service" where
  "getAccessVersion now userId = on_redis (\<lambda>k.
     (case key_get now userId (access_versions k) of None \<Rightarrow> 0 | Some v \<Rightarrow> v, k))"

definition incrementAccessVersion :: "ms \<Rightarrow> int \<Rightarrow> unit service" where
  "incrementAccessVersion now userId = on_redis (\<lambda>k.
     let v = (case key_get now userId (access_versions k) of None \<Rightarrow> 0 | Some v \<Rightarrow> v) + 1
     in ((), k\<lparr>access_versions := key_set_ex now userId v REFRESH_TTL_SECONDS (access_versions k)\<rparr>))"

definition signAccess :: "jwt_env \<Rightarrow> ms \<Rightarrow> auth_user \<Rightarrow> string service" where
  "signAccess env now user =
     await (getAccessVersion now (au_id user)) (\<lambda>ver.
     ret (sign_access env \<lparr>ap_sub = au_id user, ap_name = au_name user, ap_email = au_email user,
       ap_role = au_role user, ap_ver = ver\<rparr> now))"

definition signRefresh :: "jwt_env \<Rightarrow> ms \<Rightarrow> string \<Rightarrow> int \<Rightarrow> string \<times> string" where
  "signRefresh env now jti userId = (sign_refresh env \<lparr>rp_sub = userId, rp_jti = jti\<rparr> now, jti)"

definition store_session :: "ms \<Rightarrow> int \<Rightarrow> string \<Rightarrow> auth_keys \<Rightarrow> auth_keys" where
  "store_session now userId jti k = k\<lparr>
     refresh_keys := key_set_ex now (userId, jti) ''1'' REFRESH_TTL_SECONDS (refresh_keys k),
     refresh_sessions := sadd userId jti (refresh_sessions k)\<rparr>"

definition issueAuthCookies :: "jwt_env \<Rightarrow> ms \<Rightarrow> string \<Rightarrow> auth_user \<Rightarrow> cookie list service" where
  "issueAuthCookies env now uuid user =
     await (signAccess env now user) (\<lambda>access.
     let (refresh, jti) = signRefresh env now uuid (au_id user) in
     await (on_redis (\<lambda>k. ((), store_session now (au_id user) jti k))) (\<lambda>_.
     ret (setAuthCookies env access refresh)))"

text \<open>\<open>ROTATE_SCRIPT\<close>: the old key, the session set, the new key and the two ids.\<close>

definition rotate_script :: "ms \<Rightarrow> int \<times> string \<Rightarrow> int \<Rightarrow> int \<times> string \<Rightarrow> string \<Rightarrow> string \<Rightarrow> auth_keys \<Rightarrow> int \<times> auth_keys" where
  "rotate_script now oldKey setKey newKey oldJti newJti k =
     (if \<not> key_exists now oldKey (refresh_keys k) then (0, k)
      else (1, k\<lparr>
        refresh_keys := key_set_ex now newKey ''1'' REFRESH_TTL_SECONDS (key_del oldKey (refresh_keys k)),
        refresh_sessions := sadd setKey newJti (srem setKey oldJti (refresh_sessions k))\<rparr>))"

definition refresh_revoked :: err where
  "refresh_revoked = UnauthorizedException ''Refresh token revoked or expired''"

definition rotateAuthCookies :: "jwt_env \<Rightarrow> ms \<Rightarrow> string \<Rightarrow> refresh_payload \<Rightarrow> auth_user \<Rightarrow> cookie list service" where
  "rotateAuthCookies env now uuid payload user =
     (let oldKey = (rp_sub payload, rp_jti payload);
          (newRefresh, newJti) = signRefresh env now uuid (au_id user);
          newKey = (au_id user, newJti)
      in await (on_redis (rotate_script now oldKey (au_id user) newKey (rp_jti payload) newJti)) (\<lambda>result.
         if result = 0 then throw refresh_revoked
         else await (signAccess env now user) (\<lambda>access. ret (setAuthCookies env access newRefresh))))"

definition signLinkState :: "jwt_env \<Rightarrow> ms \<Rightarrow> int \<Rightarrow> string" where
  "signLinkState env now userId = sign_link env userId now"

definition verifyLinkState :: "jwt_env \<Rightarrow> ms \<Rightarrow> string option \<Rightarrow> int service" where
  "verifyLinkState env now token =
     (case token of
        None \<Rightarrow> throw (UnauthorizedException ''Missing link state'')
      | Some t \<Rightarrow>
          if t = [] then throw (UnauthorizedException ''Missing link state'')
          else case verify_link env t now of
            None \<Rightarrow> throw (UnauthorizedException ''Invalid or expired link state'')
          | Some i \<Rightarrow> ret i)"

text \<open>\<open>revokeAllSessions\<close> reads the session set and then deletes in a second command.\<close>

definition read_sessions :: "int \<Rightarrow> string list service" where
  "read_sessions userId = on_redis (\<lambda>k. (smembers userId (refresh_sessions k), k))"

definition delete_sessions :: "int \<Rightarrow> string list \<Rightarrow> unit service" where
  "delete_sessions userId jtis = on_redis (\<lambda>k. ((), k\<lparr>
     refresh_keys := (\<lambda>u. if fst u = userId \<and> snd u \<in> set jtis then None else refresh_keys k u),
     refresh_sessions := key_del userId (refresh_sessions k)\<rparr>))"

definition end_revoke :: "int \<Rightarrow> string list \<Rightarrow> unit service" where
  "end_revoke userId jtis = (if length jtis > 0 then delete_sessions userId jtis else ret ())"

definition revokeAllSessions :: "int \<Rightarrow> unit service" where
  "revokeAllSessions userId = await (read_sessions userId) (end_revoke userId)"

subsection \<open>The strategies\<close>

text \<open>The dash of the message is an em dash in the code.\<close>

definition token_revoked :: err where
  "token_revoked = UnauthorizedException ''Token revoked - please log in again''"

definition jwt_validate :: "ms \<Rightarrow> access_payload \<Rightarrow> auth_user service" where
  "jwt_validate now payload =
     await (getAccessVersion now (ap_sub payload)) (\<lambda>currentVersion.
     if ap_ver payload < currentVersion then throw token_revoked
     else ret \<lparr>au_id = ap_sub payload, au_name = ap_name payload, au_email = ap_email payload, au_role = ap_role payload\<rparr>)"

text \<open>\<open>JwtAuthGuard\<close>: the cookie must hold a token the library accepts; then the strategy decides.\<close>

definition unauthorized :: err where
  "unauthorized = UnauthorizedException ''Unauthorized''"

definition jwtAuthGuard :: "jwt_env \<Rightarrow> ms \<Rightarrow> string option \<Rightarrow> auth_user service" where
  "jwtAuthGuard env now token =
     (case token of
        None \<Rightarrow> throw unauthorized
      | Some t \<Rightarrow> (case verify_access env t now of None \<Rightarrow> throw unauthorized | Some p \<Rightarrow> jwt_validate now p))"

definition jwtRefreshGuard :: "jwt_env \<Rightarrow> ms \<Rightarrow> string option \<Rightarrow> refresh_payload service" where
  "jwtRefreshGuard env now token =
     (case token of
        None \<Rightarrow> throw unauthorized
      | Some t \<Rightarrow> (case verify_refresh env t now of None \<Rightarrow> throw unauthorized | Some p \<Rightarrow> ret p))"

lemmas token_defs [handler_defs] = getAccessVersion_def incrementAccessVersion_def signAccess_def issueAuthCookies_def
  rotateAuthCookies_def verifyLinkState_def read_sessions_def delete_sessions_def end_revoke_def revokeAllSessions_def
  jwt_validate_def jwtAuthGuard_def jwtRefreshGuard_def

subsection \<open>Running the parts\<close>

lemma on_redis_up: "redis_up (redis w) \<Longrightarrow>
  on_redis f w = (Inr (fst (f (auth (redis w)))), w\<lparr>redis := (redis w)\<lparr>auth := snd (f (auth (redis w)))\<rparr>\<rparr>)"
  by (simp add: on_redis_def split: prod.split)

lemma on_redis_down: "\<not> redis_up (redis w) \<Longrightarrow> on_redis f w = (Inl RedisError, w)"
  by (simp add: on_redis_def)

lemma keeps_db_on_redis [keeps_rules]: "keeps_db P (on_redis f)"
  by (auto simp: keeps_def db_inv_def on_redis_def split: prod.split)

lemma keeps_db_tokens [keeps_rules]:
  "keeps_db P (getAccessVersion now i)"
  "keeps_db P (incrementAccessVersion now i)"
  "keeps_db P (issueAuthCookies env now u a)"
  "keeps_db P (rotateAuthCookies env now u p a)"
  "keeps_db P (verifyLinkState env now t)"
  "keeps_db P (revokeAllSessions i)"
  "keeps_db P (jwtAuthGuard env now t)"
  "keeps_db P (jwtRefreshGuard env now t)"
  unfolding token_defs Let_def signRefresh_def prod.case by (intro keeps_rules)+

lemma smembers_sadd: "set (smembers k (sadd k' j m)) = (if k = k' then insert j (set (smembers k m)) else set (smembers k m))"
  by (auto simp: smembers_def sadd_def)

lemma smembers_srem: "set (smembers k (srem k' j m)) = (if k = k' then set (smembers k m) - {j} else set (smembers k m))"
  by (auto simp: smembers_def srem_def Let_def filter_empty_conv split: option.splits)

lemma smembers_del: "set (smembers k (key_del k' m)) = (if k = k' then {} else set (smembers k m))"
  by (simp add: smembers_def key_del_def)

subsection \<open>Sessions\<close>

definition session_live :: "ms \<Rightarrow> int \<Rightarrow> string \<Rightarrow> world \<Rightarrow> bool" where
  "session_live t u j w \<longleftrightarrow> key_exists t (u, j) (refresh_keys (auth (redis w)))"

lemma getAccessVersion_up: "redis_up (redis w) \<Longrightarrow> getAccessVersion t u w =
    (Inr (case key_get t u (access_versions (auth (redis w))) of None \<Rightarrow> 0 | Some v \<Rightarrow> v), w)"
  by (simp add: getAccessVersion_def on_redis_up)

lemma signAccess_up: "redis_up (redis w) \<Longrightarrow> \<exists>t. signAccess env now user w = (Inr t, w)"
  by (simp add: signAccess_def await_def getAccessVersion_up ret_run)

text \<open>What a rotation does: nothing but a 401 without the old session, otherwise it swaps the sessions.\<close>

definition rotated :: "ms \<Rightarrow> refresh_payload \<Rightarrow> string \<Rightarrow> int \<Rightarrow> world \<Rightarrow> world" where
  "rotated t p uuid u w = w\<lparr>redis := (redis w)\<lparr>auth := (auth (redis w))\<lparr>
     refresh_keys := key_set_ex t (u, uuid) ''1'' REFRESH_TTL_SECONDS
       (key_del (rp_sub p, rp_jti p) (refresh_keys (auth (redis w)))),
     refresh_sessions := sadd u uuid (srem u (rp_jti p) (refresh_sessions (auth (redis w))))\<rparr>\<rparr>\<rparr>"

lemma rotate_run:
  assumes "redis_up (redis w)"
  shows "rotateAuthCookies env t uuid p user w =
    (if session_live t (rp_sub p) (rp_jti p) w
     then (Inr (setAuthCookies env
       (sign_access env \<lparr>ap_sub = au_id user, ap_name = au_name user, ap_email = au_email user, ap_role = au_role user,
          ap_ver = (case key_get t (au_id user) (access_versions (auth (redis w))) of None \<Rightarrow> 0 | Some v \<Rightarrow> v)\<rparr> t)
       (sign_refresh env \<lparr>rp_sub = au_id user, rp_jti = uuid\<rparr> t)), rotated t p uuid (au_id user) w)
     else (Inl refresh_revoked, w))"
  using assms
  by (simp add: rotateAuthCookies_def signRefresh_def await_def on_redis_up rotate_script_def throw_run signAccess_def
      getAccessVersion_up ret_run session_live_def rotated_def Let_def)

lemma live_rotated:
  "session_live t2 u2 j (rotated t p uuid u w) \<longleftrightarrow>
     (if u2 = u \<and> j = uuid then t2 \<le> t + REFRESH_TTL_SECONDS * 1000
      else (u2, j) \<noteq> (rp_sub p, rp_jti p) \<and> session_live t2 u2 j w)"
  by (auto simp: session_live_def rotated_def key_exists_def key_simps)

text \<open>C23. A refresh token works once: a successful rotation sets a fresh pair of cookies, from then on the
  old token is a 401 that changes nothing at any time and for any request, and the new one can be rotated
  for seven days.\<close>

theorem refresh_single_use:
  assumes "rotateAuthCookies env t uuid p user w = (Inr cs, w')" and "rp_sub p = au_id user" and "uuid \<noteq> rp_jti p"
  shows "(\<forall>env2 t2 uuid2 user2. rotateAuthCookies env2 t2 uuid2 p user2 w' = (Inl refresh_revoked, w')) \<and>
    (\<forall>t2. t2 \<le> t + 7 * 24 * 60 * 60 * 1000 \<longrightarrow>
       (\<exists>cs2 w2. rotateAuthCookies env t2 uuid2 \<lparr>rp_sub = au_id user, rp_jti = uuid\<rparr> user w' = (Inr cs2, w2))) \<and>
    map ck_name cs = [''access_token'', ''refresh_token''] \<and>
    map ck_value cs ! 1 = sign_refresh env \<lparr>rp_sub = au_id user, rp_jti = uuid\<rparr> t"
proof -
  have up: "redis_up (redis w)"
    using assms(1) by (cases "redis_up (redis w)") (auto simp: rotateAuthCookies_def signRefresh_def await_def on_redis_down)
  with assms(1) have w': "w' = rotated t p uuid (au_id user) w"
      and cs: "map ck_name cs = [''access_token'', ''refresh_token'']"
        "map ck_value cs ! 1 = sign_refresh env \<lparr>rp_sub = au_id user, rp_jti = uuid\<rparr> t"
    by (auto simp: rotate_run setAuthCookies_def base_cookie_def split: if_splits)
  have up': "redis_up (redis w')" using up by (simp add: w' rotated_def)
  have "\<not> session_live t2 (rp_sub p) (rp_jti p) w'" for t2
    unfolding w' live_rotated using assms(2,3) by simp
  moreover have "session_live t2 (au_id user) uuid w'" if "t2 \<le> t + 7 * 24 * 60 * 60 * 1000" for t2
    unfolding w' live_rotated using that by (simp add: REFRESH_TTL_SECONDS_def)
  ultimately show ?thesis using cs by (simp add: rotate_run [OF up'])
qed

subsection \<open>Every live session is in its user's set\<close>

text \<open>The sessions of the user are in the user's set, and in what every revocation of the user that is under way has read.\<close>

definition user_listed :: "int \<Rightarrow> world \<Rightarrow> bool" where
  "user_listed u w \<longleftrightarrow> (\<forall>j. refresh_keys (auth (redis w)) (u, j) \<noteq> None \<longrightarrow> j \<in> set (smembers u (refresh_sessions (auth (redis w)))))"

text \<open>
  The token store while requests run: a revocation is cut between its two commands, and what it has read is remembered until its
  second one. A grant (a new session or a rotation) says in its label whether a revocation of its user is under way. The
  controller rotates for the user the token names (\<open>auth.controller.ts\<close>, \<open>refresh\<close>).
\<close>

record token_state =
  tw :: world
  revoking :: "(int \<times> string list) list"

definition under_revocation :: "int \<Rightarrow> token_state \<Rightarrow> bool" where
  "under_revocation u s \<longleftrightarrow> u \<in> fst ` set (revoking s)"

datatype token_op =
    Issue bool jwt_env ms string auth_user
  | Rotate bool jwt_env ms string refresh_payload auth_user
  | BeginRevoke int
  | EndRevoke int "string list"
  | Bump ms int
  | RedisGoes bool

inductive token_step :: "token_op \<Rightarrow> token_state \<Rightarrow> token_state \<Rightarrow> bool" where
  issue: "b = under_revocation (au_id user) s \<Longrightarrow>
    token_step (Issue b env t uuid user) s (s\<lparr>tw := snd (issueAuthCookies env t uuid user (tw s))\<rparr>)"
| rotate: "b = under_revocation (au_id user) s \<Longrightarrow> rp_sub p = au_id user \<Longrightarrow>
    token_step (Rotate b env t uuid p user) s (s\<lparr>tw := snd (rotateAuthCookies env t uuid p user (tw s))\<rparr>)"
| begin_revoke: "read_sessions u (tw s) = (Inr js, w) \<Longrightarrow>
    token_step (BeginRevoke u) s (s\<lparr>tw := w, revoking := (u, js) # revoking s\<rparr>)"
| end_revoke: "(u, js) \<in> set (revoking s) \<Longrightarrow>
    token_step (EndRevoke u js) s (s\<lparr>tw := snd (end_revoke u js (tw s)), revoking := remove1 (u, js) (revoking s)\<rparr>)"
| bump: "token_step (Bump t u) s (s\<lparr>tw := snd (incrementAccessVersion t u (tw s))\<rparr>)"
| redis_goes: "token_step (RedisGoes b) s (s\<lparr>tw := (tw s)\<lparr>redis := (redis (tw s))\<lparr>redis_up := b\<rparr>\<rparr>\<rparr>)"

text \<open>No session of the user is granted while a revocation of the user is under way.\<close>

fun undisturbed :: "int \<Rightarrow> token_op \<Rightarrow> bool" where
  "undisturbed u (Issue b env t uuid user) \<longleftrightarrow> \<not> (b \<and> au_id user = u)"
| "undisturbed u (Rotate b env t uuid p user) \<longleftrightarrow> \<not> (b \<and> au_id user = u)"
| "undisturbed u _ \<longleftrightarrow> True"

definition sessions_listed :: "int \<Rightarrow> token_state \<Rightarrow> bool" where
  "sessions_listed u s \<longleftrightarrow> user_listed u (tw s) \<and> (\<forall>js j. (u, js) \<in> set (revoking s) \<longrightarrow>
     refresh_keys (auth (redis (tw s))) (u, j) \<noteq> None \<longrightarrow> j \<in> set js)"

definition token_start :: "db \<Rightarrow> token_state" where
  "token_start d = \<lparr>tw = world_of d, revoking = []\<rparr>"

lemma issue_run:
  assumes "redis_up (redis w)"
  shows "issueAuthCookies env t uuid user w =
    (Inr (setAuthCookies env
       (sign_access env \<lparr>ap_sub = au_id user, ap_name = au_name user, ap_email = au_email user, ap_role = au_role user,
          ap_ver = (case key_get t (au_id user) (access_versions (auth (redis w))) of None \<Rightarrow> 0 | Some v \<Rightarrow> v)\<rparr> t)
       (sign_refresh env \<lparr>rp_sub = au_id user, rp_jti = uuid\<rparr> t)),
     w\<lparr>redis := (redis w)\<lparr>auth := store_session t (au_id user) uuid (auth (redis w))\<rparr>\<rparr>)"
  using assms
  by (simp add: issueAuthCookies_def signAccess_def signRefresh_def await_def getAccessVersion_up ret_run on_redis_up)

lemma end_revoke_run:
  assumes "redis_up (redis w)"
  shows "end_revoke u js w = (Inr (), if js = [] then w else w\<lparr>redis := (redis w)\<lparr>auth := (auth (redis w))\<lparr>
      refresh_keys := (\<lambda>v. if fst v = u \<and> snd v \<in> set js then None else refresh_keys (auth (redis w)) v),
      refresh_sessions := key_del u (refresh_sessions (auth (redis w)))\<rparr>\<rparr>\<rparr>)"
  using assms by (simp add: end_revoke_def delete_sessions_def on_redis_up ret_run)

lemma read_sessions_up: "redis_up (redis w) \<Longrightarrow> read_sessions u w = (Inr (smembers u (refresh_sessions (auth (redis w)))), w)"
  by (simp add: read_sessions_def on_redis_up)

lemma revoke_run:
  assumes "redis_up (redis w)"
  shows "revokeAllSessions u w = (Inr (),
    if smembers u (refresh_sessions (auth (redis w))) = [] then w
    else w\<lparr>redis := (redis w)\<lparr>auth := (auth (redis w))\<lparr>
      refresh_keys := (\<lambda>v. if fst v = u \<and> snd v \<in> set (smembers u (refresh_sessions (auth (redis w))))
        then None else refresh_keys (auth (redis w)) v),
      refresh_sessions := key_del u (refresh_sessions (auth (redis w)))\<rparr>\<rparr>\<rparr>)"
  using assms by (simp add: revokeAllSessions_def await_def read_sessions_up end_revoke_run)

lemma read_sessions_InrD: "read_sessions u w = (Inr js, w') \<Longrightarrow> w' = w \<and> js = smembers u (refresh_sessions (auth (redis w)))"
  by (cases "redis_up (redis w)") (auto simp: read_sessions_def on_redis_up on_redis_down)

lemma tokens_down:
  assumes "\<not> redis_up (redis w)"
  shows "snd (issueAuthCookies env t uuid user w) = w" "snd (rotateAuthCookies env t uuid p user w) = w" "snd (end_revoke u js w) = w"
    "snd (incrementAccessVersion t u w) = w"
  using assms by (simp_all add: issueAuthCookies_def signAccess_def getAccessVersion_def rotateAuthCookies_def signRefresh_def
      end_revoke_def delete_sessions_def incrementAccessVersion_def await_def on_redis_down ret_run)

lemma bump_sessions:
  "refresh_keys (auth (redis (snd (incrementAccessVersion t u w)))) = refresh_keys (auth (redis w))"
  "refresh_sessions (auth (redis (snd (incrementAccessVersion t u w)))) = refresh_sessions (auth (redis w))"
  by (cases "redis_up (redis w)"; simp add: incrementAccessVersion_def on_redis_up on_redis_down Let_def)+

text \<open>What a grant leaves of the sessions of a user.\<close>

lemma listed_issue:
  assumes "redis_up (redis w)" and "user_listed u w"
  shows "user_listed u (snd (issueAuthCookies env t uuid user w))"
    and "au_id user \<noteq> u \<Longrightarrow> refresh_keys (auth (redis (snd (issueAuthCookies env t uuid user w)))) (u, j) = refresh_keys (auth (redis w)) (u, j)"
  using assms(2) unfolding issue_run [OF assms(1)] user_listed_def
  by (auto simp: store_session_def key_set_ex_def key_set_px_def smembers_sadd)

lemma listed_rotate:
  assumes "redis_up (redis w)" and "user_listed u w" and "rp_sub p = au_id user"
  shows "user_listed u (snd (rotateAuthCookies env t uuid p user w))"
    and "au_id user \<noteq> u \<Longrightarrow> refresh_keys (auth (redis (snd (rotateAuthCookies env t uuid p user w)))) (u, j) = refresh_keys (auth (redis w)) (u, j)"
  using assms(2,3) unfolding rotate_run [OF assms(1)] user_listed_def
  by (auto simp: rotated_def key_set_ex_def key_set_px_def key_del_def smembers_sadd smembers_srem)

lemma listed_grant:
  assumes "sessions_listed u s" and "user_listed u w" and "under_revocation u s \<Longrightarrow> v \<noteq> u"
    and "\<And>j. v \<noteq> u \<Longrightarrow> refresh_keys (auth (redis w)) (u, j) = refresh_keys (auth (redis (tw s))) (u, j)"
  shows "sessions_listed u (s\<lparr>tw := w\<rparr>)"
  using assms by (cases "v = u") (force simp: sessions_listed_def under_revocation_def)+

lemma listed_step:
  assumes "sessions_listed u s" and "undisturbed u l" and "token_step l s s'"
  shows "sessions_listed u s'"
proof -
  have listed: "user_listed u (tw s)" using assms(1) by (simp add: sessions_listed_def)
  show ?thesis
    using assms(3)
  proof cases
    case (issue b user env t uuid)
    show ?thesis
      using assms(1,2) issue listed listed_issue [OF _ listed] unfolding issue(2)
      by (cases "redis_up (redis (tw s))") (auto simp: tokens_down intro: listed_grant [where v = "au_id user"])
  next
    case (rotate b user p env t uuid)
    show ?thesis
      using assms(1,2) rotate listed listed_rotate [OF _ listed rotate(4)] unfolding rotate(2)
      by (cases "redis_up (redis (tw s))") (auto simp: tokens_down intro: listed_grant [where v = "au_id user"])
  next
    case (begin_revoke v js w)
    with assms(1) listed read_sessions_InrD [OF begin_revoke(3)] show ?thesis
      by (auto simp: sessions_listed_def user_listed_def)
  next
    case (end_revoke v js)
    show ?thesis
    proof (cases "redis_up (redis (tw s))")
      case True
      with assms(1) listed end_revoke show ?thesis
        by (cases "js = []") (auto simp: sessions_listed_def user_listed_def end_revoke_run smembers_del dest: notin_set_remove1)
    qed (use assms(1) end_revoke in \<open>auto simp: sessions_listed_def tokens_down dest: notin_set_remove1\<close>)
  next
    case (bump t v)
    with assms(1) show ?thesis by (simp add: sessions_listed_def user_listed_def bump_sessions)
  next
    case (redis_goes b)
    with assms(1) show ?thesis by (simp add: sessions_listed_def user_listed_def)
  qed
qed

interpretation tk: invariant_steps token_step "{l. undisturbed u l}" "sessions_listed u" for u
  by unfold_locales (simp add: listed_step)

lemma listed_start: "sessions_listed u (token_start d)"
  by (simp add: sessions_listed_def user_listed_def token_start_def world_of_def empty_redis_def empty_auth_def)

text \<open>A second command of a revocation that deletes every session of the user.\<close>

lemma end_revoke_ends:
  assumes "redis_up (redis w)" and "\<And>j. refresh_keys (auth (redis w)) (u, j) \<noteq> None \<Longrightarrow> j \<in> set js"
  shows "\<exists>w'. end_revoke u js w = (Inr (), w') \<and>
    (\<forall>env t uuid j user. rotateAuthCookies env t uuid \<lparr>rp_sub = u, rp_jti = j\<rparr> user w' = (Inl refresh_revoked, w')) \<and>
    (\<forall>t u2 j. u2 \<noteq> u \<longrightarrow> session_live t u2 j w' = session_live t u2 j w)"
proof -
  let ?w' = "snd (end_revoke u js w)"
  have up: "redis_up (redis ?w')" and run: "end_revoke u js w = (Inr (), ?w')" using assms(1) by (simp_all add: end_revoke_run)
  have "\<not> session_live t u j ?w'" for t j
    using assms(2) [of j] unfolding session_live_def
    by (fastforce simp: end_revoke_run [OF assms(1)] key_exists_def key_get_def split: option.splits if_splits)
  moreover have "session_live t u2 j ?w' = session_live t u2 j w" if "u2 \<noteq> u" for t u2 j
    using that by (simp add: end_revoke_run [OF assms(1)] session_live_def key_exists_def key_get_def)
  moreover have "rotateAuthCookies env t uuid \<lparr>rp_sub = u, rp_jti = j\<rparr> user ?w' = (Inl refresh_revoked, ?w')" for env t uuid j user
    using calculation(1) by (simp add: rotate_run [OF up])
  ultimately show ?thesis using run by blast
qed

text \<open>C27. Logging out everywhere works, as long as it is not raced: after any history of sign-ins, rotations, version bumps, Redis
  outages and revocations from an empty token store, the commands of concurrent requests in any order, but with no session of the
  user granted while a revocation of the user is between its two commands, the second command of a revocation, and a revocation
  that runs in one go, leave no refresh token of the user that can be rotated, at any later time, and every other user's sessions as they were.
  (\<open>revoke_race_leaves_session\<close> below is the race that is excluded.)\<close>

theorem revoke_ends_every_session:
  assumes "reaches token_step {l. undisturbed u l} (token_start d) s" and "redis_up (redis (tw s))"
  shows "\<forall>m. (m = revokeAllSessions u \<or> (\<exists>js. (u, js) \<in> set (revoking s) \<and> m = end_revoke u js)) \<longrightarrow>
    (\<exists>w'. m (tw s) = (Inr (), w') \<and>
      (\<forall>env t uuid j user. rotateAuthCookies env t uuid \<lparr>rp_sub = u, rp_jti = j\<rparr> user w' = (Inl refresh_revoked, w')) \<and>
      (\<forall>t u2 j. u2 \<noteq> u \<longrightarrow> session_live t u2 j w' = session_live t u2 j (tw s)))"
proof -
  have listed: "sessions_listed u s" by (rule tk.holds_everywhere [OF assms(1) listed_start])
  have "revokeAllSessions u (tw s) = end_revoke u (smembers u (refresh_sessions (auth (redis (tw s))))) (tw s)"
    using assms(2) by (simp add: revokeAllSessions_def await_def read_sessions_up)
  moreover have "refresh_keys (auth (redis (tw s))) (u, j) \<noteq> None \<Longrightarrow> j \<in> set (smembers u (refresh_sessions (auth (redis (tw s)))))" for j
    using listed unfolding sessions_listed_def user_listed_def by blast
  moreover have "(u, js) \<in> set (revoking s) \<Longrightarrow> refresh_keys (auth (redis (tw s))) (u, j) \<noteq> None \<Longrightarrow> j \<in> set js" for js j
    using listed unfolding sessions_listed_def by blast
  ultimately show ?thesis using end_revoke_ends [OF assms(2), of u] by metis
qed

text \<open>The revocation is two commands: a rotation that runs between reading the session set and deleting
  it survives, and since the set is gone no later revocation ends the new session either.\<close>

theorem revoke_race_leaves_session:
  assumes "redis_up (redis w)" and "session_live t u j w" and "u = au_id user"
    and "j \<in> set (smembers u (refresh_sessions (auth (redis w))))"
    and "uuid \<notin> set (smembers u (refresh_sessions (auth (redis w))))"
  shows "\<exists>jtis cs w1 w2. read_sessions u w = (Inr jtis, w) \<and>
    rotateAuthCookies env t uuid \<lparr>rp_sub = u, rp_jti = j\<rparr> user w = (Inr cs, w1) \<and>
    delete_sessions u jtis w1 = (Inr (), w2) \<and> revokeAllSessions u w2 = (Inr (), w2) \<and>
    (\<forall>t2. t2 \<le> t + 7 * 24 * 60 * 60 * 1000 \<longrightarrow> session_live t2 u uuid w2)"
proof -
  let ?js = "smembers u (refresh_sessions (auth (redis w)))"
  let ?w1 = "rotated t \<lparr>rp_sub = u, rp_jti = j\<rparr> uuid u w"
  let ?w2 = "snd (delete_sessions u ?js ?w1)"
  have up1: "redis_up (redis ?w1)" using assms(1) by (simp add: rotated_def)
  have del: "delete_sessions u ?js ?w1 = (Inr (), ?w2)" by (simp add: delete_sessions_def on_redis_up [OF up1])
  have up2: "redis_up (redis ?w2)" using up1 by (simp add: delete_sessions_def on_redis_up)
  have "smembers u (refresh_sessions (auth (redis ?w2))) = []"
    by (simp add: delete_sessions_def on_redis_up [OF up1] smembers_def key_del_def)
  then have "revokeAllSessions u ?w2 = (Inr (), ?w2)" by (simp add: revoke_run [OF up2])
  moreover have "session_live t2 u uuid ?w2" if "t2 \<le> t + 7 * 24 * 60 * 60 * 1000" for t2
  proof -
    have "session_live t2 u uuid ?w1" using that by (simp add: live_rotated REFRESH_TTL_SECONDS_def)
    with assms(5) show ?thesis
      by (simp add: session_live_def delete_sessions_def on_redis_up [OF up1] key_exists_def key_get_def)
  qed
  moreover have "read_sessions u w = (Inr ?js, w)" by (simp add: read_sessions_def on_redis_up [OF assms(1)])
  ultimately show ?thesis
    using assms(2,3) del
    by (intro exI [of _ ?js] exI [of _ ?w1] exI [of _ ?w2] exI) (simp add: rotate_run [OF assms(1)])
qed

subsection \<open>Access versions\<close>

text \<open>A version bump revokes: once it ran, every access token of the user signed before it, with a
  version no newer than the one in force, is a 401 for the seven days the counter lives (longer than any
  access token), and tokens signed afterwards are accepted.\<close>

theorem bump_revokes_access:
  assumes "redis_up (redis w)" and "getAccessVersion t1 u w = (Inr v, w)" and "ap_sub p = u" and "ap_ver p \<le> v"
    and "incrementAccessVersion t1 u w = (Inr (), w')" and "t2 \<le> t1 + 7 * 24 * 60 * 60 * 1000"
    and "ap_sub p2 = u" and "getAccessVersion t2 u w' = (Inr (ap_ver p2), w')"
  shows "jwt_validate t2 p w' = (Inl token_revoked, w') \<and>
    jwt_validate t2 p2 w' = (Inr \<lparr>au_id = u, au_name = ap_name p2, au_email = ap_email p2, au_role = ap_role p2\<rparr>, w')"
proof -
  from assms(1,5) have w': "w' = w\<lparr>redis := (redis w)\<lparr>auth := (auth (redis w))\<lparr>access_versions :=
      key_set_ex t1 u ((case key_get t1 u (access_versions (auth (redis w))) of None \<Rightarrow> 0 | Some v \<Rightarrow> v) + 1)
        REFRESH_TTL_SECONDS (access_versions (auth (redis w)))\<rparr>\<rparr>\<rparr>"
    by (simp add: incrementAccessVersion_def on_redis_up Let_def)
  have up: "redis_up (redis w')" using assms(1) by (simp add: w')
  have "getAccessVersion t2 u w' = (Inr (v + 1), w')"
    using assms(1,2,6) by (simp add: getAccessVersion_up [OF up]) (simp add: w' key_simps REFRESH_TTL_SECONDS_def getAccessVersion_up)
  with assms(3,4,7,8) show ?thesis by (simp add: jwt_validate_def await_def throw_run ret_run)
qed

text \<open>The counter forgets: a token signed while the user's version was \<open>v\<close> but not yet expired, just
  before the version key runs out, outlives the next bump, because the counter restarts at one.\<close>

theorem version_reset_keeps_token:
  assumes "redis_up (redis w)" and "access_versions (auth (redis w)) u = Some (v, Some e)" and "1 \<le> v"
    and "t0 \<le> e" and "e < t1" and "t1 \<le> t2" and "ap_sub p = u"
    and "getAccessVersion t0 u w = (Inr (ap_ver p), w)"
  shows "\<exists>w'. incrementAccessVersion t1 u w = (Inr (), w') \<and>
    jwt_validate t2 p w' = (Inr \<lparr>au_id = u, au_name = ap_name p, au_email = ap_email p, au_role = ap_role p\<rparr>, w')"
proof -
  let ?w' = "snd (incrementAccessVersion t1 u w)"
  have ver: "ap_ver p = v"
    using assms(1,2,4,8) by (simp add: getAccessVersion_up key_get_def expired_def)
  have run: "incrementAccessVersion t1 u w = (Inr (), ?w')" and up: "redis_up (redis ?w')"
    using assms(1) by (simp_all add: incrementAccessVersion_def on_redis_up Let_def)
  have "access_versions (auth (redis ?w')) = key_set_ex t1 u 1 REFRESH_TTL_SECONDS (access_versions (auth (redis w)))"
    using assms(1,2,5) by (simp add: incrementAccessVersion_def on_redis_up Let_def key_get_def expired_def)
  then have "(case key_get t2 u (access_versions (auth (redis ?w'))) of None \<Rightarrow> 0 | Some v \<Rightarrow> v) \<le> (1 :: int)"
    by (simp add: key_simps)
  with ver assms(3,7) run show ?thesis
    by (intro exI [of _ ?w']) (simp add: jwt_validate_def await_def getAccessVersion_up [OF up] ret_run throw_run)
qed

subsection \<open>The properties on the sample database\<close>

definition sample_jwt :: jwt_env where
  "sample_jwt = \<lparr>sign_access = (\<lambda>p _. ''A''), sign_refresh = (\<lambda>p _. ''R'' @ rp_jti p), sign_link = (\<lambda>_ _. ''L''),
     verify_access = (\<lambda>t _. if t = ''A'' then Some \<lparr>ap_sub = 1, ap_name = ''u'', ap_email = ''a'', ap_role = USER, ap_ver = 0\<rparr> else None),
     verify_refresh = (\<lambda>t _. case t of [] \<Rightarrow> None | _ # j \<Rightarrow> Some \<lparr>rp_sub = 1, rp_jti = j\<rparr>),
     verify_link = (\<lambda>_ _. Some 1), production = False, cookieDomain = ''localhost''\<rparr>"

definition sample_auth_user :: auth_user where
  "sample_auth_user = \<lparr>au_id = 1, au_name = ''u'', au_email = ''a'', au_role = USER\<rparr>"

text \<open>User 1 has signed in at time 0.\<close>

definition signed_in :: world where
  "signed_in = snd (issueAuthCookies sample_jwt 0 ''j'' sample_auth_user (world_of sample_db))"

lemma signed_in_facts:
  "redis_up (redis signed_in)" "session_live 0 1 ''j'' signed_in"
  "smembers 1 (refresh_sessions (auth (redis signed_in))) = [''j'']" "access_versions (auth (redis signed_in)) = Map.empty"
  by (simp_all add: signed_in_def issue_run world_of_def empty_redis_def empty_auth_def store_session_def session_live_def
      key_exists_def key_simps sample_auth_user_def smembers_def sadd_def REFRESH_TTL_SECONDS_def)

theorem refresh_single_use_witness:
  "\<exists>cs w'. rotateAuthCookies sample_jwt 0 ''k'' \<lparr>rp_sub = 1, rp_jti = ''j''\<rparr> sample_auth_user signed_in = (Inr cs, w') \<and>
     rotateAuthCookies sample_jwt 5 ''l'' \<lparr>rp_sub = 1, rp_jti = ''j''\<rparr> sample_auth_user w' = (Inl refresh_revoked, w')"
proof -
  let ?p = "\<lparr>rp_sub = 1, rp_jti = ''j''\<rparr>"
  obtain cs w' where r: "rotateAuthCookies sample_jwt 0 ''k'' ?p sample_auth_user signed_in = (Inr cs, w')"
    using signed_in_facts by (simp add: rotate_run)
  from refresh_single_use [OF r] have "rotateAuthCookies sample_jwt 5 ''l'' ?p sample_auth_user w' = (Inl refresh_revoked, w')"
    by (simp add: sample_auth_user_def)
  with r show ?thesis by blast
qed

text \<open>A second session starts before the first command of a revocation; then the revocation ends both.\<close>

theorem revoke_ends_every_session_witness:
  "\<exists>s w'. reaches token_step {l. undisturbed 1 l} (token_start sample_db) s \<and> revoking s = [(1, [''j''])] \<and>
     end_revoke 1 [''j''] (tw s) = (Inr (), w') \<and>
     rotateAuthCookies sample_jwt 0 ''k'' \<lparr>rp_sub = 1, rp_jti = ''j''\<rparr> sample_auth_user w' = (Inl refresh_revoked, w')"
proof -
  let ?s1 = "(token_start sample_db)\<lparr>tw := signed_in\<rparr>" and ?L = "{l. undisturbed 1 l}"
  let ?s2 = "?s1\<lparr>tw := signed_in, revoking := [(1, [''j''])]\<rparr>"
  have "token_step (Issue False sample_jwt 0 ''j'' sample_auth_user) (token_start sample_db) ?s1"
    using token_step.issue [of False sample_auth_user "token_start sample_db" sample_jwt 0 "''j''"]
    by (simp add: token_start_def signed_in_def under_revocation_def)
  then have one: "reaches token_step ?L (token_start sample_db) ?s1"
    by (rule reaches.move [OF reaches.start, rotated]) simp
  have "token_step (BeginRevoke 1) ?s1 ?s2"
    using token_step.begin_revoke [of 1 ?s1 "[''j'']" signed_in] signed_in_facts by (simp add: read_sessions_up token_start_def)
  then have two: "reaches token_step ?L (token_start sample_db) ?s2"
    by (rule reaches.move [OF one, rotated]) simp
  obtain w' where "end_revoke 1 [''j''] (tw ?s2) = (Inr (), w')"
    "rotateAuthCookies sample_jwt 0 ''k'' \<lparr>rp_sub = 1, rp_jti = ''j''\<rparr> sample_auth_user w' = (Inl refresh_revoked, w')"
    using revoke_ends_every_session [OF two] signed_in_facts(1) by auto
  with two show ?thesis by (intro exI [of _ ?s2] exI [of _ w']) simp
qed

theorem revoke_race_leaves_session_witness:
  "\<exists>w2. revokeAllSessions 1 w2 = (Inr (), w2) \<and> session_live 1000 1 ''k'' w2"
proof -
  have "\<exists>jtis cs w1 w2. read_sessions 1 signed_in = (Inr jtis, signed_in) \<and>
    rotateAuthCookies sample_jwt 0 ''k'' \<lparr>rp_sub = 1, rp_jti = ''j''\<rparr> sample_auth_user signed_in = (Inr cs, w1) \<and>
    delete_sessions 1 jtis w1 = (Inr (), w2) \<and> revokeAllSessions 1 w2 = (Inr (), w2) \<and>
    (\<forall>t2. t2 \<le> 0 + 7 * 24 * 60 * 60 * 1000 \<longrightarrow> session_live t2 1 ''k'' w2)"
    by (rule revoke_race_leaves_session [OF signed_in_facts(1,2)]) (simp_all add: signed_in_facts sample_auth_user_def)
  then obtain w2 where "revokeAllSessions 1 w2 = (Inr (), w2)"
      and "\<forall>t2. t2 \<le> 0 + 7 * 24 * 60 * 60 * 1000 \<longrightarrow> session_live t2 1 ''k'' w2" by blast
  then show ?thesis by (intro exI [of _ w2]) simp
qed

theorem bump_revokes_access_witness:
  "\<exists>w'. incrementAccessVersion 5 1 signed_in = (Inr (), w') \<and>
     jwt_validate 10 \<lparr>ap_sub = 1, ap_name = ''u'', ap_email = ''a'', ap_role = USER, ap_ver = 0\<rparr> w' = (Inl token_revoked, w')"
proof -
  let ?p = "\<lparr>ap_sub = 1, ap_name = ''u'', ap_email = ''a'', ap_role = USER, ap_ver = 0\<rparr>"
  obtain w' where b: "incrementAccessVersion 5 1 signed_in = (Inr (), w')" and up: "redis_up (redis w')"
    using signed_in_facts(1) by (simp add: incrementAccessVersion_def on_redis_up Let_def)
  have v: "getAccessVersion 5 1 signed_in = (Inr 0, signed_in)"
    using signed_in_facts by (simp add: getAccessVersion_up key_simps)
  obtain n where n: "getAccessVersion 10 1 w' = (Inr n, w')" by (simp add: getAccessVersion_up [OF up])
  from bump_revokes_access [OF signed_in_facts(1) v, of ?p w' 10 "?p\<lparr>ap_ver := n\<rparr>"] b n show ?thesis by auto
qed

definition counting_world :: world where
  "counting_world = (world_of sample_db)\<lparr>redis := empty_redis\<lparr>auth := empty_auth\<lparr>access_versions := [1 \<mapsto> (1, Some 1000)]\<rparr>\<rparr>\<rparr>"

theorem version_reset_keeps_token_witness:
  "\<exists>w'. incrementAccessVersion 1001 1 counting_world = (Inr (), w') \<and>
     fst (jwt_validate 1002 \<lparr>ap_sub = 1, ap_name = ''u'', ap_email = ''a'', ap_role = USER, ap_ver = 1\<rparr> w') =
       Inr \<lparr>au_id = 1, au_name = ''u'', au_email = ''a'', au_role = USER\<rparr>"
proof -
  have "redis_up (redis counting_world)" "access_versions (auth (redis counting_world)) 1 = Some (1, Some 1000)"
    by (simp_all add: counting_world_def empty_redis_def)
  from version_reset_keeps_token [OF this, of 999 1001 1002
      "\<lparr>ap_sub = 1, ap_name = ''u'', ap_email = ''a'', ap_role = USER, ap_ver = 1\<rparr>"] this
  show ?thesis by (auto simp: getAccessVersion_up key_get_def expired_def)
qed

end
