(* ===== verification/Otp.thy ===== *)
theory Otp
  imports Tokens
begin

text \<open>
  One-time codes, \<open>auth/otp.service.ts\<close>: a code per address with a lifetime, a limit on the attempts and a
  cooldown between codes. The random code and the clock are arguments; the limits are those of
  \<open>auth-env.config.ts\<close>.
\<close>

subsection \<open>Configuration\<close>

text \<open>
  \<open>auth-env.config.ts\<close> reads a variable or, under test only, its fallback, and refuses to start without
  one; a limit has to be a positive integer.
\<close>

definition env_value :: "(string \<Rightarrow> string option) \<Rightarrow> string \<Rightarrow> string option \<Rightarrow> string option" where
  "env_value env name fallback =
     (case env name of Some v \<Rightarrow> Some v | None \<Rightarrow> if env ''NODE_ENV'' = Some ''test'' then fallback else None)"

definition requireString :: "(string \<Rightarrow> string option) \<Rightarrow> string \<Rightarrow> string option \<Rightarrow> string + string" where
  "requireString env name fallback =
     (case env_value env name fallback of
        None \<Rightarrow> Inl (''Missing required env var: '' @ name)
      | Some v \<Rightarrow> if v = [] then Inl (''Missing required env var: '' @ name) else Inr v)"

text \<open>\<open>parse\<close> is JavaScript's \<open>Number\<close> on text, without a value for \<open>NaN\<close> and the infinities.\<close>

definition requirePositiveInt ::
  "(string \<Rightarrow> rat option) \<Rightarrow> (string \<Rightarrow> string option) \<Rightarrow> string \<Rightarrow> int option \<Rightarrow> string + int" where
  "requirePositiveInt parse env name fallback =
     (case env_value env name (map_option string_of_int fallback) of
        None \<Rightarrow> Inl (''Missing required env var: '' @ name)
      | Some raw \<Rightarrow>
          if raw = [] then Inl (''Missing required env var: '' @ name)
          else (case parse raw of
            None \<Rightarrow> Inl (''Env var '' @ name @ '' must be a positive integer, got: '' @ raw)
          | Some q \<Rightarrow>
              if of_int \<lfloor>q\<rfloor> \<noteq> q \<or> q \<le> 0
              then Inl (''Env var '' @ name @ '' must be a positive integer, got: '' @ raw) else Inr \<lfloor>q\<rfloor>))"

record otp_config =
  otpTtlSeconds :: int
  otpMaxAttempts :: int
  otpResendCooldownSeconds :: int

text \<open>The settings are read in the order of the object literal; the first that fails stops the start.\<close>

definition and_then :: "string + 'a \<Rightarrow> ('a \<Rightarrow> string + 'b) \<Rightarrow> string + 'b" where
  "and_then m f = (case m of Inl e \<Rightarrow> Inl e | Inr x \<Rightarrow> f x)"

lemma and_then [simp]: "and_then (Inr x) f = f x" "and_then (Inl e) f = Inl e"
  by (simp_all add: and_then_def)

lemma and_then_Inr: "and_then m f = Inr y \<longleftrightarrow> (\<exists>x. m = Inr x \<and> f x = Inr y)"
  by (simp add: and_then_def split: sum.split)

definition otp_config_of :: "(string \<Rightarrow> rat option) \<Rightarrow> (string \<Rightarrow> string option) \<Rightarrow> string + otp_config" where
  "otp_config_of parse env =
     and_then (requirePositiveInt parse env ''OTP_TTL_SECONDS'' (Some 600)) (\<lambda>ttl.
     and_then (requirePositiveInt parse env ''OTP_MAX_ATTEMPTS'' (Some 5)) (\<lambda>mx.
     and_then (requirePositiveInt parse env ''OTP_RESEND_COOLDOWN_SECONDS'' (Some 60)) (\<lambda>cd.
     Inr \<lparr>otpTtlSeconds = ttl, otpMaxAttempts = mx, otpResendCooldownSeconds = cd\<rparr>)))"

record auth_settings =
  jwtAccessSecret :: string
  jwtAccessExpiresIn :: string
  jwtRefreshSecret :: string
  jwtRefreshExpiresIn :: string
  linkStateSecret :: string
  cookieDomainSetting :: string
  nodeEnv :: string
  googleClientId :: string
  googleClientSecret :: string
  googleCallbackUrl :: string
  googleLinkCallbackUrl :: string
  otpSettings :: otp_config
  frontendUrlSetting :: string

definition authEnv :: "(string \<Rightarrow> rat option) \<Rightarrow> (string \<Rightarrow> string option) \<Rightarrow> string + auth_settings" where
  "authEnv parse env =
     and_then (requireString env ''JWT_ACCESS_SECRET'' (Some ''test_access_secret'')) (\<lambda>accessSecret.
     and_then (requireString env ''JWT_ACCESS_EXPIRES_IN'' (Some ''15m'')) (\<lambda>accessExpires.
     and_then (requireString env ''JWT_REFRESH_SECRET'' (Some ''test_refresh_secret'')) (\<lambda>refreshSecret.
     and_then (requireString env ''JWT_REFRESH_EXPIRES_IN'' (Some ''7d'')) (\<lambda>refreshExpires.
     and_then (requireString env ''LINK_STATE_SECRET'' (Some ''test_link_state_secret'')) (\<lambda>linkSecret.
     and_then (requireString env ''COOKIE_DOMAIN'' (Some ''localhost'')) (\<lambda>domain.
     and_then (requireString env ''NODE_ENV'' (Some ''test'')) (\<lambda>mode.
     and_then (requireString env ''GOOGLE_CLIENT_ID'' (Some ''test_google_client_id'')) (\<lambda>clientId.
     and_then (requireString env ''GOOGLE_CLIENT_SECRET'' (Some ''test_google_client_secret'')) (\<lambda>clientSecret.
     and_then (requireString env ''GOOGLE_CALLBACK_URL''
       (Some ''http://localhost:3000/api/v1/auth/google/callback'')) (\<lambda>callbackUrl.
     and_then (requireString env ''GOOGLE_LINK_CALLBACK_URL''
       (Some ''http://localhost:3000/api/v1/auth/link-google/callback'')) (\<lambda>linkCallbackUrl.
     and_then (otp_config_of parse env) (\<lambda>otp.
     and_then (requireString env ''FRONTEND_URL'' (Some ''http://localhost:5173'')) (\<lambda>frontend.
     Inr \<lparr>jwtAccessSecret = accessSecret, jwtAccessExpiresIn = accessExpires, jwtRefreshSecret = refreshSecret,
       jwtRefreshExpiresIn = refreshExpires, linkStateSecret = linkSecret, cookieDomainSetting = domain, nodeEnv = mode,
       googleClientId = clientId, googleClientSecret = clientSecret, googleCallbackUrl = callbackUrl,
       googleLinkCallbackUrl = linkCallbackUrl, otpSettings = otp, frontendUrlSetting = frontend\<rparr>)))))))))))))"

lemma requirePositiveInt_pos: "requirePositiveInt parse env name fb = Inr n \<Longrightarrow> 0 < n"
  by (auto simp: requirePositiveInt_def split: option.splits if_splits)

lemma otp_config_positive:
  assumes "otp_config_of parse env = Inr cfg"
  shows "0 < otpTtlSeconds cfg" and "0 < otpMaxAttempts cfg" and "0 < otpResendCooldownSeconds cfg"
  using assms by (auto simp: otp_config_of_def and_then_Inr dest: requirePositiveInt_pos)

lemma authEnv_otp: "authEnv parse env = Inr s \<Longrightarrow> otp_config_of parse env = Inr (otpSettings s)"
  by (auto simp: authEnv_def and_then_Inr)

text \<open>What a variable must be outside test mode.\<close>

definition is_set :: "(string \<Rightarrow> string option) \<Rightarrow> string \<Rightarrow> bool" where
  "is_set env name \<longleftrightarrow> (\<exists>v. env name = Some v \<and> v \<noteq> [])"

definition is_limit :: "(string \<Rightarrow> rat option) \<Rightarrow> (string \<Rightarrow> string option) \<Rightarrow> string \<Rightarrow> bool" where
  "is_limit parse env name \<longleftrightarrow> is_set env name \<and> (\<exists>n > 0. parse (the (env name)) = Some (of_int n))"

lemma requireString_set:
  assumes "env ''NODE_ENV'' \<noteq> Some ''test''"
  shows "(\<exists>v. requireString env name fb = Inr v) \<longleftrightarrow> is_set env name"
  using assms by (auto simp: requireString_def env_value_def is_set_def split: option.split)

lemma requirePositiveInt_set:
  assumes "env ''NODE_ENV'' \<noteq> Some ''test''"
  shows "(\<exists>n. requirePositiveInt parse env name fb = Inr n) \<longleftrightarrow> is_limit parse env name"
proof
  assume "\<exists>n. requirePositiveInt parse env name fb = Inr n"
  then obtain v q where "env name = Some v" "v \<noteq> []" "parse v = Some q" "of_int \<lfloor>q\<rfloor> = q" "0 < q"
    using assms by (auto simp: requirePositiveInt_def env_value_def split: option.splits if_splits)
  then show "is_limit parse env name"
    unfolding is_limit_def is_set_def by (metis option.sel of_int_0_less_iff)
qed (use assms in \<open>auto simp: requirePositiveInt_def env_value_def is_limit_def is_set_def split: option.split\<close>)

lemma starts_step: "(\<exists>y. and_then m f = Inr y) \<longleftrightarrow> (\<exists>x. m = Inr x \<and> (\<exists>y. f x = Inr y))"
  by (auto simp: and_then_Inr)

lemma otp_config_starts:
  assumes "env ''NODE_ENV'' \<noteq> Some ''test''"
  shows "(\<exists>c. otp_config_of parse env = Inr c) \<longleftrightarrow> is_limit parse env ''OTP_TTL_SECONDS'' \<and>
    is_limit parse env ''OTP_MAX_ATTEMPTS'' \<and> is_limit parse env ''OTP_RESEND_COOLDOWN_SECONDS''"
  by (simp add: otp_config_of_def starts_step requirePositiveInt_set [of env, OF assms])

definition required_names :: "string list" where
  "required_names = [''JWT_ACCESS_SECRET'', ''JWT_ACCESS_EXPIRES_IN'', ''JWT_REFRESH_SECRET'', ''JWT_REFRESH_EXPIRES_IN'',
     ''LINK_STATE_SECRET'', ''COOKIE_DOMAIN'', ''NODE_ENV'', ''GOOGLE_CLIENT_ID'', ''GOOGLE_CLIENT_SECRET'',
     ''GOOGLE_CALLBACK_URL'', ''GOOGLE_LINK_CALLBACK_URL'', ''FRONTEND_URL'']"

lemma authEnv_starts:
  assumes "env ''NODE_ENV'' \<noteq> Some ''test''"
  shows "(\<exists>s. authEnv parse env = Inr s) \<longleftrightarrow> (\<forall>n \<in> set required_names. is_set env n) \<and>
    is_limit parse env ''OTP_TTL_SECONDS'' \<and> is_limit parse env ''OTP_MAX_ATTEMPTS'' \<and>
    is_limit parse env ''OTP_RESEND_COOLDOWN_SECONDS''"
proof -
  have "(\<exists>s. authEnv parse env = Inr s) \<longleftrightarrow> (\<forall>n \<in> set required_names. is_set env n) \<and> (\<exists>c. otp_config_of parse env = Inr c)"
    by (simp add: authEnv_def starts_step required_names_def requireString_set [of env, OF assms] conj_ac)
  then show ?thesis using otp_config_starts [of env, OF assms] by simp
qed

subsection \<open>OtpService\<close>

definition otp_wait :: err where
  "otp_wait = BadRequestException ''Please wait before requesting another code''"

definition otp_missing :: err where
  "otp_missing = BadRequestException ''Code expired or not found''"

definition otp_too_many :: err where
  "otp_too_many = BadRequestException ''Too many attempts, request a new code''"

text \<open>The value \<open>randomInt(100000, 999999)\<close> drew, as text.\<close>

definition gen :: "int \<Rightarrow> string" where
  "gen drawn = string_of_int drawn"

definition otp_issue :: "otp_config \<Rightarrow> ms \<Rightarrow> int \<Rightarrow> string \<Rightarrow> string service" where
  "otp_issue cfg now drawn addr =
     await (on_redis (\<lambda>k. (key_get now addr (otp_cooldowns k), k))) (\<lambda>cooldown.
     if cooldown \<noteq> None then throw otp_wait
     else
       let code = gen drawn in
       await (on_redis (\<lambda>k. ((), k\<lparr>
           otp_codes := key_set_ex now addr code (otpTtlSeconds cfg) (otp_codes k),
           otp_attempts := key_del addr (otp_attempts k),
           otp_cooldowns := key_set_ex now addr ''1'' (otpResendCooldownSeconds cfg) (otp_cooldowns k)\<rparr>))) (\<lambda>_.
       ret code))"

definition bump_attempts :: "otp_config \<Rightarrow> ms \<Rightarrow> string \<Rightarrow> int service" where
  "bump_attempts cfg now addr = on_redis (\<lambda>k.
     let n = (case key_get now addr (otp_attempts k) of None \<Rightarrow> 0 | Some n \<Rightarrow> n) + 1
     in (n, k\<lparr>otp_attempts := key_set_ex now addr n (otpTtlSeconds cfg) (otp_attempts k)\<rparr>))"

definition otp_verify :: "otp_config \<Rightarrow> ms \<Rightarrow> string \<Rightarrow> string \<Rightarrow> bool service" where
  "otp_verify cfg now addr code =
     await (on_redis (\<lambda>k. (key_get now addr (otp_codes k), k))) (\<lambda>stored. case stored of
       None \<Rightarrow> throw otp_missing
     | Some stored \<Rightarrow>
         if stored = [] then throw otp_missing
         else await (bump_attempts cfg now addr) (\<lambda>attempts.
           if attempts > otpMaxAttempts cfg then
             await (on_redis (\<lambda>k. ((), k\<lparr>otp_codes := key_del addr (otp_codes k)\<rparr>))) (\<lambda>_. throw otp_too_many)
           else if stored \<noteq> code then ret False
           else await (on_redis (\<lambda>k. ((), k\<lparr>otp_codes := key_del addr (otp_codes k)\<rparr>))) (\<lambda>_.
                await (on_redis (\<lambda>k. ((), k\<lparr>otp_attempts := key_del addr (otp_attempts k)\<rparr>))) (\<lambda>_.
                ret True))))"

lemmas otp_defs [handler_defs] = otp_issue_def bump_attempts_def otp_verify_def

lemma keeps_db_otp [keeps_rules]:
  "keeps_db P (otp_issue cfg now n e)" "keeps_db P (otp_verify cfg now e c)"
  unfolding otp_defs Let_def by (intro keeps_rules)+

subsection \<open>Running the parts\<close>

definition code_at :: "ms \<Rightarrow> string \<Rightarrow> world \<Rightarrow> string option" where
  "code_at t e w = key_get t e (otp_codes (auth (redis w)))"

definition attempts_at :: "ms \<Rightarrow> string \<Rightarrow> world \<Rightarrow> int" where
  "attempts_at t e w = (case key_get t e (otp_attempts (auth (redis w))) of None \<Rightarrow> 0 | Some n \<Rightarrow> n)"

definition counted :: "otp_config \<Rightarrow> ms \<Rightarrow> string \<Rightarrow> world \<Rightarrow> world" where
  "counted cfg t e w = w\<lparr>redis := (redis w)\<lparr>auth := (auth (redis w))\<lparr>otp_attempts :=
     key_set_ex t e (attempts_at t e w + 1) (otpTtlSeconds cfg) (otp_attempts (auth (redis w)))\<rparr>\<rparr>\<rparr>"

definition code_dropped :: "string \<Rightarrow> world \<Rightarrow> world" where
  "code_dropped e w = w\<lparr>redis := (redis w)\<lparr>auth := (auth (redis w))\<lparr>otp_codes := key_del e (otp_codes (auth (redis w)))\<rparr>\<rparr>\<rparr>"

definition attempts_dropped :: "string \<Rightarrow> world \<Rightarrow> world" where
  "attempts_dropped e w =
     w\<lparr>redis := (redis w)\<lparr>auth := (auth (redis w))\<lparr>otp_attempts := key_del e (otp_attempts (auth (redis w)))\<rparr>\<rparr>\<rparr>"

lemma verify_run:
  assumes "redis_up (redis w)"
  shows "otp_verify cfg t e c w =
    (case code_at t e w of
       None \<Rightarrow> (Inl otp_missing, w)
     | Some s \<Rightarrow>
         if s = [] then (Inl otp_missing, w)
         else if attempts_at t e w + 1 > otpMaxAttempts cfg then (Inl otp_too_many, code_dropped e (counted cfg t e w))
         else if s \<noteq> c then (Inr False, counted cfg t e w)
         else (Inr True, attempts_dropped e (code_dropped e (counted cfg t e w))))"
  using assms
  by (simp add: otp_verify_def bump_attempts_def await_def on_redis_up throw_run ret_run Let_def code_at_def
      attempts_at_def counted_def code_dropped_def attempts_dropped_def split: option.split)

lemma counted_facts [simp]:
  "redis_up (redis (counted cfg t e w)) = redis_up (redis w)" "code_at t2 e2 (counted cfg t e w) = code_at t2 e2 w"
  "redis_up (redis (code_dropped e w)) = redis_up (redis w)"
  "code_at t2 e2 (code_dropped e w) = (if e2 = e then None else code_at t2 e2 w)"
  "attempts_at t2 e2 (code_dropped e w) = attempts_at t2 e2 w"
  "redis_up (redis (attempts_dropped e w)) = redis_up (redis w)" "code_at t2 e2 (attempts_dropped e w) = code_at t2 e2 w"
  by (simp_all add: counted_def code_dropped_def attempts_dropped_def code_at_def attempts_at_def key_simps)

lemma attempts_counted: "attempts_at t2 e (counted cfg t e w) =
    (if t + otpTtlSeconds cfg * 1000 < t2 then 0 else attempts_at t e w + 1)"
  by (simp add: attempts_at_def counted_def key_simps)

definition issued :: "otp_config \<Rightarrow> ms \<Rightarrow> string \<Rightarrow> string \<Rightarrow> world \<Rightarrow> world" where
  "issued cfg t code e w = w\<lparr>redis := (redis w)\<lparr>auth := (auth (redis w))\<lparr>
     otp_codes := key_set_ex t e code (otpTtlSeconds cfg) (otp_codes (auth (redis w))),
     otp_attempts := key_del e (otp_attempts (auth (redis w))),
     otp_cooldowns := key_set_ex t e ''1'' (otpResendCooldownSeconds cfg) (otp_cooldowns (auth (redis w)))\<rparr>\<rparr>\<rparr>"

lemma issue_otp_run:
  assumes "redis_up (redis w)"
  shows "otp_issue cfg t n e w =
    (if key_get t e (otp_cooldowns (auth (redis w))) \<noteq> None then (Inl otp_wait, w)
     else (Inr (gen n), issued cfg t (gen n) e w))"
  using assms by (simp add: otp_issue_def await_def on_redis_up throw_run ret_run Let_def issued_def)

lemma issued_facts:
  "redis_up (redis (issued cfg t c e w)) = redis_up (redis w)"
  "code_at t2 e (issued cfg t c e w) = (if t + otpTtlSeconds cfg * 1000 < t2 then None else Some c)"
  "attempts_at t2 e (issued cfg t c e w) = 0"
  "key_get t2 e (otp_cooldowns (auth (redis (issued cfg t c e w)))) =
     (if t + otpResendCooldownSeconds cfg * 1000 < t2 then None else Some ''1'')"
  by (simp_all add: issued_def code_at_def attempts_at_def key_simps)

subsection \<open>Guessing\<close>

text \<open>A run of guesses for one address: the answer of each.\<close>

fun guesses :: "otp_config \<Rightarrow> string \<Rightarrow> (ms \<times> string) list \<Rightarrow> world \<Rightarrow> (err + bool) list" where
  "guesses cfg e [] w = []"
| "guesses cfg e ((t, c) # gs) w = fst (otp_verify cfg t e c w) # guesses cfg e gs (snd (otp_verify cfg t e c w))"

definition compared :: "(err + bool) list \<Rightarrow> nat" where
  "compared rs = length (filter (\<lambda>r. \<not> isl r) rs)"

lemma no_code_no_compare:
  "redis_up (redis w) \<Longrightarrow> (\<And>t. code_at t e w = None) \<Longrightarrow> compared (guesses cfg e gs w) = 0"
  by (induction gs) (auto simp: compared_def verify_run)

lemma guesses_left:
  assumes "redis_up (redis w)" and "\<And>t. fin < t \<Longrightarrow> code_at t e w = None"
    and "\<And>t. lo \<le> t \<Longrightarrow> t \<le> fin \<Longrightarrow> attempts_at t e w = n" and "fin \<le> lo + otpTtlSeconds cfg * 1000"
    and "sorted (map fst gs)" and "\<forall>g \<in> set gs. lo \<le> fst g" and "0 \<le> n"
  shows "int (compared (guesses cfg e gs w)) \<le> max 0 (otpMaxAttempts cfg - n)"
  using assms
proof (induction gs arbitrary: w n lo)
  case (Cons g gs)
  obtain t c where g: "g = (t, c)" by fastforce
  have t: "lo \<le> t" using Cons.prems(6) g by simp
  have later: "sorted (map fst gs)" "\<forall>g \<in> set gs. t \<le> fst g" using Cons.prems(5) g by auto
  have rest: "int (compared (guesses cfg e gs w)) \<le> max 0 (otpMaxAttempts cfg - n)"
    using Cons.prems later by (intro Cons.IH [where lo = lo]) auto
  consider "code_at t e w = None \<or> code_at t e w = Some []" | s where "code_at t e w = Some s" "s \<noteq> []"
    by (cases "code_at t e w") blast+
  then show ?case
  proof cases
    case 1
    then have "otp_verify cfg t e c w = (Inl otp_missing, w)" by (auto simp: verify_run [OF Cons.prems(1)])
    with rest show ?thesis by (simp add: g compared_def)
  next
    case (2 s)
    then have within: "t \<le> fin" using Cons.prems(2) [of t] by (cases "t \<le> fin") auto
    have n: "attempts_at t e w = n" by (rule Cons.prems(3) [OF t within])
    let ?w = "counted cfg t e w"
    have gone: "compared (guesses cfg e gs (code_dropped e ?w)) = 0" "compared (guesses cfg e gs (attempts_dropped e (code_dropped e ?w))) = 0"
      using Cons.prems(1) by (intro no_code_no_compare; simp)+
    have "int (compared (guesses cfg e gs ?w)) \<le> max 0 (otpMaxAttempts cfg - (n + 1))"
    proof (rule Cons.IH [where lo = t])
      show "fin < t' \<Longrightarrow> code_at t' e ?w = None" for t' using Cons.prems(2) by simp
      show "t \<le> t' \<Longrightarrow> t' \<le> fin \<Longrightarrow> attempts_at t' e ?w = n + 1" for t'
        using Cons.prems(4) t n by (simp add: attempts_counted)
    qed (use Cons.prems(1,4,7) t later in simp_all)
    with 2 n gone show ?thesis
      by (cases "n + 1 > otpMaxAttempts cfg"; cases "s = c") (simp_all add: g verify_run [OF Cons.prems(1)] compared_def)
  qed
qed (simp add: compared_def)

text \<open>C24. A code can be guessed at most \<open>OTP_MAX_ATTEMPTS\<close> times: in any run of guesses after a code was
  issued, at any times from then on, right or wrong, no more than that many are compared with the code;
  every other is an error. Restarting the attempt counter needs a new code, which the cooldown delays.\<close>

theorem otp_guess_bound:
  assumes "redis_up (redis w)" and "otp_issue cfg t0 drawn e w = (Inr code, w1)" and "otp_config_of parse env = Inr cfg"
    and "sorted (map fst gs)" and "\<forall>g \<in> set gs. t0 \<le> fst g"
  shows "int (compared (guesses cfg e gs w1)) \<le> otpMaxAttempts cfg \<and>
    (\<forall>t n. t \<le> t0 + otpResendCooldownSeconds cfg * 1000 \<longrightarrow> otp_issue cfg t n e w1 = (Inl otp_wait, w1))"
proof -
  from assms(1,2) have w1: "w1 = issued cfg t0 (gen drawn) e w"
    by (auto simp: issue_otp_run split: if_splits)
  have up: "redis_up (redis w1)" using assms(1) by (simp add: w1 issued_facts)
  have "int (compared (guesses cfg e gs w1)) \<le> max 0 (otpMaxAttempts cfg - 0)"
    using assms(4,5) up
    by (intro guesses_left [where lo = t0 and fin = "t0 + otpTtlSeconds cfg * 1000"]) (simp_all add: w1 issued_facts)
  moreover have "otp_issue cfg t n e w1 = (Inl otp_wait, w1)" if "t \<le> t0 + otpResendCooldownSeconds cfg * 1000" for t n
    using that by (simp add: issue_otp_run [OF up]) (simp add: w1 issued_facts)
  ultimately show ?thesis using otp_config_positive(2) [OF assms(3)] by simp
qed

text \<open>A code is good once and only for its address: within its lifetime the right code is accepted, a
  second use of it is an error, and codes of other addresses are untouched.\<close>

theorem otp_single_use:
  assumes "redis_up (redis w)" and "otp_issue cfg t0 drawn e w = (Inr code, w1)" and "otp_config_of parse env = Inr cfg"
    and "t \<le> t0 + otpTtlSeconds cfg * 1000" and "100000 \<le> drawn"
  shows "\<exists>w2. otp_verify cfg t e code w1 = (Inr True, w2) \<and>
    (\<forall>t2 c. otp_verify cfg t2 e c w2 = (Inl otp_missing, w2)) \<and>
    (\<forall>e2 t2. e2 \<noteq> e \<longrightarrow> code_at t2 e2 w2 = code_at t2 e2 w)"
proof -
  from assms(1,2) have w1: "w1 = issued cfg t0 (gen drawn) e w" and code: "code = gen drawn"
    by (auto simp: issue_otp_run split: if_splits)
  have up: "redis_up (redis w1)" using assms(1) by (simp add: w1 issued_facts)
  have ne: "gen drawn \<noteq> []" by (simp add: gen_def string_of_int_def string_of_nat_nonempty)
  let ?w2 = "attempts_dropped e (code_dropped e (counted cfg t e w1))"
  have "code_at t e w1 = Some code" "attempts_at t e w1 = 0" using assms(4) by (simp_all add: w1 code issued_facts)
  then have "otp_verify cfg t e code w1 = (Inr True, ?w2)"
    using otp_config_positive(2) [OF assms(3)] ne code by (simp add: verify_run [OF up])
  moreover have "otp_verify cfg t2 e c ?w2 = (Inl otp_missing, ?w2)" for t2 c
    using up by (simp add: verify_run)
  moreover have "code_at t2 e2 ?w2 = code_at t2 e2 w" if "e2 \<noteq> e" for t2 e2
    using that by simp (simp add: w1 issued_def code_at_def key_simps)
  ultimately show ?thesis by blast
qed

subsection \<open>The properties on the sample database\<close>

definition sample_otp :: otp_config where
  "sample_otp = \<lparr>otpTtlSeconds = 600, otpMaxAttempts = 5, otpResendCooldownSeconds = 60\<rparr>"

definition test_env :: "string \<Rightarrow> string option" where
  "test_env name = (if name = ''NODE_ENV'' then Some ''test'' else None)"

lemma sample_config: "otp_config_of (\<lambda>s. map_option of_int (number_of_string s)) test_env = Inr sample_otp"
  by (simp add: otp_config_of_def requirePositiveInt_def env_value_def test_env_def sample_otp_def number_of_string_of_int
      string_of_int_def string_of_nat_nonempty number_of_string_of_int [unfolded string_of_int_def, of 600, simplified]
      number_of_string_of_int [unfolded string_of_int_def, of 5, simplified]
      number_of_string_of_int [unfolded string_of_int_def, of 60, simplified])

lemma sample_issue:
  "otp_issue sample_otp 0 123456 ''a'' (world_of sample_db) =
     (Inr (gen 123456), issued sample_otp 0 (gen 123456) ''a'' (world_of sample_db))"
  by (simp add: issue_otp_run world_of_def empty_redis_def empty_auth_def key_simps)

lemma sample_up: "redis_up (redis (world_of sample_db))"
  by (simp add: world_of_def empty_redis_def)

theorem otp_guess_bound_witness:
  "int (compared (guesses sample_otp ''a'' (map (\<lambda>i. (i, ''000000'')) [1..10])
     (issued sample_otp 0 (gen 123456) ''a'' (world_of sample_db)))) \<le> 5"
  using otp_guess_bound [OF sample_up sample_issue sample_config, of "map (\<lambda>i. (i, ''000000'')) [1..10]"]
  by (simp add: sample_otp_def comp_def)

theorem otp_single_use_witness:
  "\<exists>w2. otp_verify sample_otp 5 ''a'' (gen 123456) (issued sample_otp 0 (gen 123456) ''a'' (world_of sample_db)) =
     (Inr True, w2) \<and> otp_verify sample_otp 6 ''a'' (gen 123456) w2 = (Inl otp_missing, w2)"
  using otp_single_use [OF sample_up sample_issue sample_config, of 5] by (auto simp: sample_otp_def)

end
