(* ===== verification/Auth.thy ===== *)
theory Auth
  imports Otp
begin

text \<open>
  Accounts: \<open>auth/auth.repository.ts\<close>, \<open>auth/auth.service.ts\<close>, the handlers of \<open>auth/auth.controller.ts\<close>
  with the guards in front of them, and the DTO checks.

  Password hashing, the mailer and Google's profile come from outside: \<open>auth_env\<close> holds the functions
  and the draws of the request. What a handler answers is its result with the cookies it sets.
\<close>

subsection \<open>Requests\<close>

record register_dto =
  rg_name :: string
  rg_email :: string
  rg_password :: string

text \<open>
  \<open>Matches(/(?=.*[a-z])(?=.*[A-Z])(?=.*\d)/)\<close>: from one position on, before the end of the line, there are
  a lower case letter, an upper case letter and a digit. \<open>IsEmail\<close> is the validator library's.
\<close>

definition line_end :: "char \<Rightarrow> bool" where
  "line_end c \<longleftrightarrow> c = CHR 0x0A \<or> c = CHR 0x0D"

definition in_range :: "char \<Rightarrow> char \<Rightarrow> char \<Rightarrow> bool" where
  "in_range a b c \<longleftrightarrow> of_char a \<le> (of_char c :: nat) \<and> of_char c \<le> (of_char b :: nat)"

definition strong_from :: "string \<Rightarrow> bool" where
  "strong_from s \<longleftrightarrow> (let l = takeWhile (\<lambda>c. \<not> line_end c) s in
     (\<exists>c \<in> set l. in_range (CHR ''a'') (CHR ''z'') c) \<and> (\<exists>c \<in> set l. in_range (CHR ''A'') (CHR ''Z'') c) \<and>
     (\<exists>c \<in> set l. in_range (CHR ''0'') (CHR ''9'') c))"

definition strong_password :: "string \<Rightarrow> bool" where
  "strong_password s \<longleftrightarrow> (\<exists>n \<in> set [0..<length s + 1]. strong_from (drop n s))"

definition valid_register_dto :: "(string \<Rightarrow> bool) \<Rightarrow> register_dto \<Rightarrow> bool" where
  "valid_register_dto isEmail d \<longleftrightarrow> 2 \<le> length (rg_name d) \<and> isEmail (rg_email d) \<and>
     8 \<le> length (rg_password d) \<and> strong_password (rg_password d)"

definition valid_verify_otp :: "(string \<Rightarrow> bool) \<Rightarrow> string \<Rightarrow> string \<Rightarrow> bool" where
  "valid_verify_otp isEmail addr code \<longleftrightarrow> isEmail addr \<and> length code = 6"

definition valid_login :: "(string \<Rightarrow> bool) \<Rightarrow> string \<Rightarrow> string \<Rightarrow> bool" where
  "valid_login isEmail addr pw \<longleftrightarrow> isEmail addr \<and> 8 \<le> length pw"

subsection \<open>Environment\<close>

datatype user_site = AtCreateUser | AtSetGoogle | AtVerify | AtName | AtEmail | AtPassword

text \<open>A message for the mailer.\<close>

record mail =
  mail_from :: "string option"
  mail_to :: string
  mail_subject :: string
  mail_text :: string
  mail_html :: string

record auth_env =
  jwt :: jwt_env
  otp_cfg :: otp_config
  clock :: ms
  uuid :: string
  drawn :: int
  argon2_hash :: "string \<Rightarrow> string"
  argon2_verify :: "string \<Rightarrow> string \<Rightarrow> err + bool"   \<comment> \<open>hash, password; it may throw\<close>
  bcrypt_hash :: "string \<Rightarrow> string"
  bcrypt_compare :: "string \<Rightarrow> string \<Rightarrow> bool"          \<comment> \<open>password, hash\<close>
  mailFrom :: "string option"                           \<comment> \<open>\<open>MAIL_FROM\<close>\<close>
  sendMail :: "mail \<Rightarrow> err option"
  frontendUrl :: string
  callbackUrl :: string                                 \<comment> \<open>of the sign-in with Google\<close>
  linkCallbackUrl :: string
  authorize :: "string \<Rightarrow> string option \<Rightarrow> string"       \<comment> \<open>Google's consent page for a callback and a state\<close>
  user_fault :: "user_site \<Rightarrow> prisma_error option"

text \<open>What Google tells of a user, and what the strategies make of it.\<close>

record google_account =
  ga_emails :: "string list"
  ga_displayName :: string
  ga_id :: string

record google_profile =
  gp_email :: string
  gp_name :: string
  gp_id :: string

subsection \<open>AuthRepository\<close>

definition user_by_email :: "string \<Rightarrow> db \<Rightarrow> user option" where
  "user_by_email addr d = List.find (\<lambda>u. email u = addr) (rows (users d))"

definition user_by_google :: "string \<Rightarrow> db \<Rightarrow> user option" where
  "user_by_google g d = List.find (\<lambda>u. googleId u = Some g) (rows (users d))"

definition auth_findByEmail :: "string \<Rightarrow> user option service" where
  "auth_findByEmail addr = query (user_by_email addr)"

definition auth_findById :: "int \<Rightarrow> user option service" where
  "auth_findById i = query (\<lambda>d. find_row i (users d))"

definition auth_findByGoogleId :: "string \<Rightarrow> user option service" where
  "auth_findByGoogleId g = query (user_by_google g)"

definition new_user :: "string \<Rightarrow> string \<Rightarrow> string option \<Rightarrow> string option \<Rightarrow> bool \<Rightarrow> int \<Rightarrow> user" where
  "new_user nm addr pw g verified i = \<lparr>rid = i, user_name = nm, email = addr, password = pw,
     emailVerified = verified, googleId = g, role = USER\<rparr>"

definition auth_createUser :: "prisma_error option \<Rightarrow> string \<Rightarrow> string \<Rightarrow> string \<Rightarrow> user service" where
  "auth_createUser fault nm addr hash = run_stmt fault (insert_user (new_user nm addr (Some hash) None False))"

definition auth_createGoogleUser :: "prisma_error option \<Rightarrow> google_profile \<Rightarrow> user service" where
  "auth_createGoogleUser fault p =
     run_stmt fault (insert_user (new_user (gp_name p) (gp_email p) None (Some (gp_id p)) True))"

definition auth_setGoogleId :: "prisma_error option \<Rightarrow> int \<Rightarrow> string \<Rightarrow> user service" where
  "auth_setGoogleId fault i g = run_stmt fault (update_user i (\<lambda>u. u\<lparr>googleId := Some g\<rparr>))"

definition auth_markEmailVerified :: "prisma_error option \<Rightarrow> int \<Rightarrow> user service" where
  "auth_markEmailVerified fault i = run_stmt fault (update_user i (\<lambda>u. u\<lparr>emailVerified := True\<rparr>))"

subsection \<open>AuthService\<close>

definition auth_user_of :: "user \<Rightarrow> auth_user" where
  "auth_user_of u = \<lparr>au_id = rid u, au_name = user_name u, au_email = email u, au_role = role u\<rparr>"

definition sent_if_eligible :: string where
  "sent_if_eligible = ''If eligible, a verification code was sent''"

definition otp_mail :: "string option \<Rightarrow> string \<Rightarrow> string \<Rightarrow> mail" where
  "otp_mail sender addr code = \<lparr>mail_from = sender, mail_to = addr, mail_subject = ''Your verification code'',
     mail_text = ''Your verification code is '' @ code @ ''. It expires in 10 minutes.'',
     mail_html = ''<p>Your verification code is <b>'' @ code @ ''</b>. It expires in 10 minutes.</p>''\<rparr>"

definition sendOtpEmail :: "auth_env \<Rightarrow> string \<Rightarrow> string \<Rightarrow> unit service" where
  "sendOtpEmail env addr code =
     (case sendMail env (otp_mail (mailFrom env) addr code) of None \<Rightarrow> ret () | Some e \<Rightarrow> throw e)"

definition register :: "auth_env \<Rightarrow> register_dto \<Rightarrow> string service" where
  "register env dto = catch_err
     (await (auth_findByEmail (rg_email dto)) (\<lambda>existing.
      if existing \<noteq> None then ret sent_if_eligible
      else await (auth_createUser (user_fault env AtCreateUser) (rg_name dto) (rg_email dto)
             (argon2_hash env (rg_password dto))) (\<lambda>user.
        await (otp_issue (otp_cfg env) (clock env) (drawn env) (email user)) (\<lambda>code.
        await (sendOtpEmail env (email user) code) (\<lambda>_.
        await (record_audit (on_target ''user.registered'' ''user'' (rid user))) (\<lambda>_.
        ret sent_if_eligible))))))
     (\<lambda>e. if e = Prisma P2002 then ret sent_if_eligible else throw e)"

definition verifyOtp :: "auth_env \<Rightarrow> string \<Rightarrow> string \<Rightarrow> user service" where
  "verifyOtp env addr code =
     await (auth_findByEmail addr) (\<lambda>user. case user of
       None \<Rightarrow> throw (BadRequestException ''Invalid email'')
     | Some u \<Rightarrow>
         if emailVerified u then throw (BadRequestException ''Already verified'')
         else await (otp_verify (otp_cfg env) (clock env) addr code) (\<lambda>ok.
           if \<not> ok then throw (BadRequestException ''Invalid code'')
           else auth_markEmailVerified (user_fault env AtVerify) (rid u)))"

definition invalid_login :: err where
  "invalid_login = UnauthorizedException ''Invalid email or password''"

definition not_verified :: err where
  "not_verified = ForbiddenException ''Email not verified''"

definition validateUser :: "auth_env \<Rightarrow> string \<Rightarrow> string \<Rightarrow> auth_user service" where
  "validateUser env addr pw =
     await (auth_findByEmail addr) (\<lambda>user. case user of
       None \<Rightarrow> throw invalid_login
     | Some u \<Rightarrow>
         (case password u of
            None \<Rightarrow> throw invalid_login
          | Some h \<Rightarrow>
              if h = [] then throw invalid_login
              else (case argon2_verify env h pw of
                Inl e \<Rightarrow> throw e
              | Inr matches \<Rightarrow>
                  if \<not> matches then
                    await (record_audit ((by_actor ''login.failed'' (rid u))\<lparr>ae_metadata := [(''reason'', Some ''wrong_password'')]\<rparr>))
                      (\<lambda>_. throw invalid_login)
                  else if \<not> emailVerified u then throw not_verified
                  else ret (auth_user_of u))))"

definition getAuthUser :: "int \<Rightarrow> auth_user service" where
  "getAuthUser i =
     await (auth_findById i) (\<lambda>user. case user of
       None \<Rightarrow> throw (UnauthorizedException ''User no longer exists'') | Some u \<Rightarrow> ret (auth_user_of u))"

definition account_exists :: err where
  "account_exists = ConflictException (''An account with this email already exists. '' @
     ''Log in with your password and link Google in settings.'')"

definition resolveGoogleUser :: "auth_env \<Rightarrow> google_profile \<Rightarrow> auth_user service" where
  "resolveGoogleUser env p =
     await (auth_findByGoogleId (gp_id p)) (\<lambda>byGoogle. case byGoogle of
       Some u \<Rightarrow> await (record_audit (by_actor ''login.google.success'' (rid u))) (\<lambda>_. ret (auth_user_of u))
     | None \<Rightarrow>
         await (auth_findByEmail (gp_email p)) (\<lambda>byEmail.
         if byEmail \<noteq> None then throw account_exists
         else await (auth_createGoogleUser (user_fault env AtCreateUser) p) (\<lambda>user.
           await (record_audit (on_target ''user.google.created'' ''user'' (rid user))) (\<lambda>_.
           ret (auth_user_of user)))))"

definition already_linked :: err where
  "already_linked = ConflictException ''This Google account is already linked to another user''"

definition linkGoogle :: "auth_env \<Rightarrow> int \<Rightarrow> string \<Rightarrow> user service" where
  "linkGoogle env userId g =
     await (auth_findByGoogleId g) (\<lambda>owner. case owner of
       Some u \<Rightarrow> if rid u = userId then ret u else throw already_linked
     | None \<Rightarrow>
         await (auth_setGoogleId (user_fault env AtSetGoogle) userId g) (\<lambda>updated.
         await (record_audit (by_actor_on ''user.google.linked'' userId ''user'' userId)) (\<lambda>_.
         ret updated)))"

definition resendOtp :: "auth_env \<Rightarrow> string \<Rightarrow> string service" where
  "resendOtp env addr =
     await (auth_findByEmail addr) (\<lambda>user. case user of
       None \<Rightarrow> ret ''If eligible, a code was sent''
     | Some u \<Rightarrow>
         if emailVerified u then ret ''If eligible, a code was sent''
         else await (otp_issue (otp_cfg env) (clock env) (drawn env) (email u)) (\<lambda>code.
           await (sendOtpEmail env (email u) code) (\<lambda>_. ret ''Verification code sent'')))"

subsection \<open>AuthController\<close>

definition issue_for :: "auth_env \<Rightarrow> auth_user \<Rightarrow> cookie list service" where
  "issue_for env user = issueAuthCookies (jwt env) (clock env) (uuid env) user"

definition auth_verifyOtp :: "auth_env \<Rightarrow> string \<Rightarrow> string \<Rightarrow> (auth_user \<times> cookie list) service" where
  "auth_verifyOtp env addr code =
     await (verifyOtp env addr code) (\<lambda>user.
     await (issue_for env (auth_user_of user)) (\<lambda>cookies.
     ret (auth_user_of user, cookies)))"

text \<open>\<open>LocalAuthGuard\<close> runs the strategy first. Without an address or a password the strategy is not asked: passport-local
  refuses the request.\<close>

definition localStrategy :: "auth_env \<Rightarrow> string \<Rightarrow> string \<Rightarrow> auth_user service" where
  "localStrategy env addr pw = (if addr = [] \<or> pw = [] then throw unauthorized else validateUser env addr pw)"

definition auth_login :: "auth_env \<Rightarrow> string \<Rightarrow> string \<Rightarrow> (auth_user \<times> cookie list) service" where
  "auth_login env addr pw =
     await (localStrategy env addr pw) (\<lambda>user.
     await (issue_for env user) (\<lambda>cookies.
     await (record_audit (by_actor ''login.success'' (au_id user))) (\<lambda>_.
     ret (user, cookies))))"

text \<open>A redirect is the path below the frontend's address.\<close>

definition is_conflict :: "err \<Rightarrow> bool" where
  "is_conflict e \<longleftrightarrow> (case e of ConflictException _ \<Rightarrow> True | _ \<Rightarrow> False)"

definition auth_googleCallback :: "auth_env \<Rightarrow> google_profile \<Rightarrow> (string \<times> cookie list) service" where
  "auth_googleCallback env p = catch_err
     (await (resolveGoogleUser env p) (\<lambda>user.
      await (issue_for env user) (\<lambda>cookies.
      ret (frontendUrl env @ ''/auth/google/callback'', cookies))))
     (\<lambda>e. if is_conflict e then ret (frontendUrl env @ ''/login?error=account_exists'', []) else throw e)"

definition auth_linkGoogleCallback :: "auth_env \<Rightarrow> google_profile \<Rightarrow> string option \<Rightarrow> string service" where
  "auth_linkGoogleCallback env p state =
     await (verifyLinkState (jwt env) (clock env) state) (\<lambda>i. catch_err
       (await (linkGoogle env i (gp_id p)) (\<lambda>_. ret (frontendUrl env @ ''/settings?linked=google'')))
       (\<lambda>e. if is_conflict e then ret (frontendUrl env @ ''/settings?error=google_already_linked'') else throw e))"

text \<open>\<open>GoogleLinkAuthGuard\<close>: the state of the link flow is bound to the signed-in user, if there is one.\<close>

definition getAuthenticateOptions :: "auth_env \<Rightarrow> auth_user option \<Rightarrow> string option" where
  "getAuthenticateOptions env user = map_option (\<lambda>u. signLinkState (jwt env) (clock env) (au_id u)) user"

text \<open>The verification of the two Google strategies: the first address, if any. The guard refuses a request whose exchange
  with Google failed (\<open>Inl\<close>) or whose account has no address.\<close>

definition google_validate :: "google_account \<Rightarrow> err + google_profile" where
  "google_validate profile =
     (case ga_emails profile of
        [] \<Rightarrow> Inl (UnauthorizedException ''Google account has no email'')
      | addr # _ \<Rightarrow>
          if addr = [] then Inl (UnauthorizedException ''Google account has no email'')
          else Inr \<lparr>gp_email = addr, gp_name = ga_displayName profile, gp_id = ga_id profile\<rparr>)"

definition googleStrategy :: "err + google_account \<Rightarrow> google_profile service" where
  "googleStrategy answer = (case answer of Inl e \<Rightarrow> throw e
     | Inr profile \<Rightarrow> (case google_validate profile of Inl e \<Rightarrow> throw e | Inr p \<Rightarrow> ret p))"

lemmas auth_repo_defs = auth_findByEmail_def auth_findById_def auth_findByGoogleId_def auth_createUser_def
  auth_createGoogleUser_def auth_setGoogleId_def auth_markEmailVerified_def

lemmas auth_service_defs [handler_defs] = sendOtpEmail_def register_def verifyOtp_def validateUser_def localStrategy_def getAuthUser_def
  resolveGoogleUser_def linkGoogle_def resendOtp_def issue_for_def auth_verifyOtp_def auth_login_def
  auth_googleCallback_def auth_linkGoogleCallback_def

lemma keeps_auth_repo [keeps_rules]:
  "keeps_db P (auth_findByEmail a)" "keeps_db P (auth_findById i)" "keeps_db P (auth_findByGoogleId g)"
  "keeps_db db_ok (auth_createUser f n a h)" "keeps_db db_ok (auth_createGoogleUser f p)"
  "keeps_db db_ok (auth_setGoogleId f i g)" "keeps_db db_ok (auth_markEmailVerified f i)"
  unfolding auth_repo_defs
  by (intro keeps_rules keeps_db_stmt; erule (1) db_ok_intros [rotated -1]; simp add: new_user_def)+

lemma keeps_auth [keeps_rules]:
  "keeps_db db_ok (register env dto)" "keeps_db db_ok (resendOtp env a)" "keeps_db P (getAuthUser i)"
  "keeps_db db_ok (auth_verifyOtp env a c)" "keeps_db db_ok (auth_login env a p)"
  "keeps_db db_ok (auth_googleCallback env g)" "keeps_db db_ok (auth_linkGoogleCallback env g s)"
  unfolding auth_service_defs Let_def by (intro keeps_rules)+

subsection \<open>Accounts are found by their unique columns\<close>

lemma user_email_None: "user_by_email a d = None \<longleftrightarrow> (\<forall>u \<in> set (rows (users d)). email u \<noteq> a)"
  by (auto simp: user_by_email_def find_None_iff)

lemma user_google_None: "user_by_google g d = None \<longleftrightarrow> (\<forall>u \<in> set (rows (users d)). googleId u \<noteq> Some g)"
  by (auto simp: user_by_google_def find_None_iff)

definition with_user :: "user \<Rightarrow> db \<Rightarrow> db" where
  "with_user u d = d\<lparr>users := \<lparr>rows = rows (users d) @ [u], next_id = next_id (users d) + 1\<rparr>\<rparr>"

lemma insert_user_run:
  assumes d: "db_ok d" and n: "\<And>n. rid (mk n) = n" and u: "u = mk (next_id (users d))"
    and fresh: "user_by_email (email u) d = None" "\<And>g. googleId u = Some g \<Longrightarrow> user_by_google g d = None"
  shows "insert_user mk d = Inr (u, with_user u d)" and "db_ok (with_user u d)"
proof -
  have un: "unique_nullable googleId (xs @ [x])" if "unique_nullable googleId xs"
      "\<And>g. googleId x = Some g \<Longrightarrow> \<forall>y \<in> set xs. googleId y \<noteq> Some g" for xs and x :: user
    using that by (auto simp: unique_nullable_def map_filter_append map_filter_simps2 set_map_filter2 split: option.split)
  have old: "user_unique (users d)" using d by (simp add: db_ok_defs)
  have "distinct (map email (rows (users d) @ [u]))"
    using old fresh(1) by (auto simp: user_unique_def user_email_None)
  moreover have "unique_nullable googleId (rows (users d) @ [u])"
    using old fresh(2) by (intro un) (simp_all add: user_unique_def user_google_None)
  ultimately show run: "insert_user mk d = Inr (u, with_user u d)"
    unfolding u
    by (cases "users d") (simp add: insert_user_def on_table_def try_insert_def insert_row_def Let_def with_user_def
        user_unique_def)
  show "db_ok (with_user u d)" by (rule db_ok_insert_user [OF d n run])
qed

text \<open>An update that leaves the unique columns alone completes.\<close>

lemma update_user_run:
  assumes "db_ok d" and "find_row i (users d) = Some u"
    and "\<And>u. rid (f u) = rid u" and "\<And>u. email (f u) = email u" and "\<And>u. googleId (f u) = googleId u"
  shows "update_user i f d = Inr (f u, d\<lparr>users := update_row i f (users d)\<rparr>)"
proof -
  have "map email (map (\<lambda>r. if rid r = i then f r else r) xs) = map email xs" for xs using assms(4) by simp
  moreover have "List.map_filter googleId (map (\<lambda>r. if rid r = i then f r else r) xs) = List.map_filter googleId xs" for xs
    using assms(5) by (induction xs) (simp_all add: map_filter_simps2 split: option.split)
  moreover have "user_unique (users d)" using assms(1) by (simp add: db_ok_defs)
  ultimately show ?thesis
    using assms(2) by (simp add: update_user_def on_table_def try_update_def user_unique_def rows_update_row
        unique_nullable_def del: map_map)
qed

lemma find_with_user:
  assumes "user_by_email a d = None" and "email u = a"
  shows "user_by_email a (with_user u d) = Some u"
  using assms by (simp add: user_by_email_def with_user_def find_append)

text \<open>Registering tells nothing about accounts: for an address that is taken, and for one that another request
  takes at the same moment, the answer is the one a new address gets, and nothing changed.\<close>

theorem register_hides_accounts:
  assumes "user_by_email (rg_email dto) (db w) \<noteq> None \<or> user_fault env AtCreateUser = Some P2002"
  shows "register env dto w = (Inr ''If eligible, a verification code was sent'', w)"
proof (cases "user_by_email (rg_email dto) (db w)")
  case (Some u)
  then show ?thesis
    by (simp add: register_def catch_err_def auth_findByEmail_def await_query ret_run sent_if_eligible_def)
next
  case None
  with assms have f: "user_fault env AtCreateUser = Some P2002" by simp
  have "await (auth_createUser (Some P2002) a b c) k w = (Inl (Prisma P2002), w)" for a b c and k :: "user \<Rightarrow> string service"
    by (simp add: auth_createUser_def await_def run_stmt_Some)
  then show ?thesis
    by (simp add: register_def catch_err_def auth_findByEmail_def await_query ret_run sent_if_eligible_def None f)
qed

subsection \<open>Signing up and in\<close>

text \<open>The state after an audit record.\<close>

definition logged :: "audit_event \<Rightarrow> world \<Rightarrow> world" where
  "logged e w = w\<lparr>audit_log := audit_log w @ [e]\<rparr>"

lemma logged_run: "record_audit e w = (Inr (), logged e w)" "await (record_audit e) k w = k () (logged e w)"
  by (simp_all add: logged_def record_audit_run await_record_audit)

lemma logged [simp]: "db (logged e w) = db w" "redis (logged e w) = redis w" "metrics (logged e w) = metrics w"
  "emitted (logged e w) = emitted w" "audit_log (logged e w) = audit_log w @ [e]"
  by (simp_all add: logged_def)

lemma logged_otp [simp]: "code_at t a (logged e w) = code_at t a w" "attempts_at t a (logged e w) = attempts_at t a w"
  by (simp_all add: code_at_def attempts_at_def)

text \<open>The account a registration makes, and the record of it.\<close>

definition reg_user :: "auth_env \<Rightarrow> register_dto \<Rightarrow> db \<Rightarrow> user" where
  "reg_user env dto d = new_user (rg_name dto) (rg_email dto) (Some (argon2_hash env (rg_password dto))) None False
     (next_id (users d))"

definition registered :: "user \<Rightarrow> audit_event" where
  "registered u = on_target ''user.registered'' ''user'' (rid u)"

definition wrong_password :: "user \<Rightarrow> audit_event" where
  "wrong_password u = (by_actor ''login.failed'' (rid u))\<lparr>ae_metadata := [(''reason'', Some ''wrong_password'')]\<rparr>"

lemma register_run:
  assumes "db_ok (db w)" and "user_by_email (rg_email dto) (db w) = None" and "redis_up (redis w)"
    and "key_get (clock env) (rg_email dto) (otp_cooldowns (auth (redis w))) = None"
    and "\<And>m. sendMail env m = None" and "user_fault env AtCreateUser = None"
  shows "register env dto w = (Inr sent_if_eligible, logged (registered (reg_user env dto (db w)))
    (issued (otp_cfg env) (clock env) (gen (drawn env)) (rg_email dto) (w\<lparr>db := with_user (reg_user env dto (db w)) (db w)\<rparr>)))"
    and "db_ok (with_user (reg_user env dto (db w)) (db w))"
proof -
  let ?u = "reg_user env dto (db w)"
  let ?w = "w\<lparr>db := with_user ?u (db w)\<rparr>"
  have ins: "insert_user (new_user (rg_name dto) (rg_email dto) (Some (argon2_hash env (rg_password dto))) None False) (db w) =
      Inr (?u, with_user ?u (db w))" and ok: "db_ok (with_user ?u (db w))"
    by (rule insert_user_run [OF assms(1)]; simp add: reg_user_def new_user_def assms(2))+
  from ok show "db_ok (with_user (reg_user env dto (db w)) (db w))" .
  have create: "auth_createUser None (rg_name dto) (rg_email dto) (argon2_hash env (rg_password dto)) w = (Inr ?u, ?w)"
    by (simp add: auth_createUser_def run_stmt_def ins)
  have mail: "email ?u = rg_email dto" by (simp add: reg_user_def new_user_def)
  have iss: "otp_issue (otp_cfg env) (clock env) (drawn env) (rg_email dto) ?w =
      (Inr (gen (drawn env)), issued (otp_cfg env) (clock env) (gen (drawn env)) (rg_email dto) ?w)"
    using assms(3,4) by (simp add: issue_otp_run)
  have "await (auth_createUser None (rg_name dto) (rg_email dto) (argon2_hash env (rg_password dto))) k w = k ?u ?w"
    for k :: "user \<Rightarrow> string service" by (simp add: await_def create)
  then show "register env dto w = (Inr sent_if_eligible, logged (registered ?u)
      (issued (otp_cfg env) (clock env) (gen (drawn env)) (rg_email dto) ?w))"
    by (simp add: register_def catch_err_def auth_findByEmail_def await_query assms(2,6) mail)
      (simp add: await_def iss sendOtpEmail_def assms(5) ret_run logged_run registered_def)
qed

lemma validate_run:
  "validateUser env a pw w = (case user_by_email a (db w) of None \<Rightarrow> (Inl invalid_login, w) | Some u \<Rightarrow>
     (case password u of None \<Rightarrow> (Inl invalid_login, w) | Some h \<Rightarrow>
        if h = [] then (Inl invalid_login, w) else (case argon2_verify env h pw of
          Inl e \<Rightarrow> (Inl e, w)
        | Inr b \<Rightarrow> if \<not> b then (Inl invalid_login, logged (wrong_password u) w) else if \<not> emailVerified u then (Inl not_verified, w)
            else (Inr (auth_user_of u), w))))"
  by (simp add: validateUser_def auth_findByEmail_def await_query throw_run ret_run logged_run
      wrong_password_def split: option.split sum.split)

lemma issued_frame [simp]: "db (issued cfg t c e w) = db w"
  by (simp add: issued_def)

lemma find_verified:
  "user_by_email a d = Some u \<Longrightarrow> user_by_email a (d\<lparr>users := update_row (rid u) (\<lambda>u. u\<lparr>emailVerified := True\<rparr>) (users d)\<rparr>) =
     Some (u\<lparr>emailVerified := True\<rparr>)"
proof -
  let ?f = "\<lambda>r. if rid r = rid u then r\<lparr>emailVerified := True\<rparr> else r :: user"
  have "List.find (\<lambda>u. email u = a) (map ?f xs) = map_option ?f (List.find (\<lambda>u. email u = a) xs)" for xs by (induction xs) auto
  then show "user_by_email a d = Some u \<Longrightarrow> ?thesis" by (simp add: user_by_email_def rows_update_row)
qed

text \<open>The live code of an unverified account verifies it.\<close>

lemma verifyOtp_live:
  assumes ok: "db_ok (db w)" and u: "user_by_email a (db w) = Some u" "\<not> emailVerified u"
    and c: "code_at (clock env) a w = Some c" "attempts_at (clock env) a w = 0" "c \<noteq> []" "0 < otpMaxAttempts (otp_cfg env)"
    and up: "redis_up (redis w)" and nf: "user_fault env AtVerify = None"
  obtains w' where "verifyOtp env a c w = (Inr (u\<lparr>emailVerified := True\<rparr>), w')" and "redis_up (redis w')"
    and "user_by_email a (db w') = Some (u\<lparr>emailVerified := True\<rparr>)"
proof
  let ?f = "\<lambda>u :: user. u\<lparr>emailVerified := True\<rparr>"
  let ?w = "attempts_dropped a (code_dropped a (counted (otp_cfg env) (clock env) a w))"
  let ?d = "(db w)\<lparr>users := update_row (rid u) ?f (users (db w))\<rparr>"
  have ver: "otp_verify (otp_cfg env) (clock env) a c w = (Inr True, ?w)"
    using c up by (simp add: verify_run)
  have frame: "db ?w = db w" "redis_up (redis ?w)"
    using up by (simp_all add: attempts_dropped_def code_dropped_def counted_def)
  have "u \<in> set (rows (users (db w)))" using u(1) find_Some_mem unfolding user_by_email_def by fast
  then have row: "find_row (rid u) (users (db w)) = Some u" using ok by (simp add: db_ok_defs mem_find_row)
  have upd: "update_user (rid u) ?f (db w) = Inr (?f u, ?d)"
    by (rule update_user_run [OF ok row]) simp_all
  have "await (otp_verify (otp_cfg env) (clock env) a c) k w = k True ?w" for k :: "bool \<Rightarrow> user service"
    by (simp add: await_def ver)
  then show "verifyOtp env a c w = (Inr (?f u), ?w\<lparr>db := ?d\<rparr>)"
    by (simp add: verifyOtp_def auth_findByEmail_def await_query u nf auth_markEmailVerified_def run_stmt_def frame upd)
  show "redis_up (redis (?w\<lparr>db := ?d\<rparr>))" using frame by simp
  show "user_by_email a (db (?w\<lparr>db := ?d\<rparr>)) = Some (?f u)" using find_verified [OF u(1)] by simp
qed

text \<open>C29. Signing up: a new address gets an ordinary, unverified account with the hashed password; the
  right password is a 403 until the code that was mailed comes back within its lifetime; then the account is
  verified, the user is signed in, and the password signs in too.\<close>

theorem signup_flow:
  assumes "db_ok (db w)" and "user_by_email (rg_email dto) (db w) = None" and "redis_up (redis w)"
    and "key_get (clock env) (rg_email dto) (otp_cooldowns (auth (redis w))) = None"
    and "\<And>m. sendMail env m = None" and "\<And>x. user_fault env x = None"
    and "argon2_hash env (rg_password dto) \<noteq> []"
    and "argon2_verify env (argon2_hash env (rg_password dto)) (rg_password dto) = Inr True"
    and "otp_config_of parse ev = Inr (otp_cfg env)" and "env2 = env\<lparr>clock := t2\<rparr>"
    and "t2 \<le> clock env + otpTtlSeconds (otp_cfg env) * 1000" and "100000 \<le> drawn env"
    and "rg_email dto \<noteq> []" and "rg_password dto \<noteq> []"
  shows "\<exists>w1 w2 c2 w3 c3. register env dto w = (Inr ''If eligible, a verification code was sent'', w1) \<and>
    rows (users (db w1)) = rows (users (db w)) @ [\<lparr>rid = next_id (users (db w)), user_name = rg_name dto,
      email = rg_email dto, password = Some (argon2_hash env (rg_password dto)), emailVerified = False,
      googleId = None, role = USER\<rparr>] \<and>
    auth_login env (rg_email dto) (rg_password dto) w1 = (Inl (ForbiddenException ''Email not verified''), w1) \<and>
    auth_verifyOtp env2 (rg_email dto) (gen (drawn env)) w1 =
      (Inr (\<lparr>au_id = next_id (users (db w)), au_name = rg_name dto, au_email = rg_email dto, au_role = USER\<rparr>, c2), w2) \<and>
    auth_login env2 (rg_email dto) (rg_password dto) w2 =
      (Inr (\<lparr>au_id = next_id (users (db w)), au_name = rg_name dto, au_email = rg_email dto, au_role = USER\<rparr>, c3), w3)"
proof -
  let ?a = "rg_email dto"
  let ?u = "reg_user env dto (db w)"
  let ?d1 = "with_user ?u (db w)"
  let ?w1 = "logged (registered ?u) (issued (otp_cfg env) (clock env) (gen (drawn env)) ?a (w\<lparr>db := ?d1\<rparr>))"
  let ?f = "\<lambda>u :: user. u\<lparr>emailVerified := True\<rparr>"
  let ?au = "\<lparr>au_id = next_id (users (db w)), au_name = rg_name dto, au_email = rg_email dto, au_role = USER\<rparr>"
  have reg: "register env dto w = (Inr sent_if_eligible, ?w1)" and ok1: "db_ok ?d1"
    using register_run [OF assms(1-4)] assms(5,6) by auto
  have d1: "db ?w1 = ?d1" by (simp add: issued_frame)
  have up1: "redis_up (redis ?w1)" using assms(3) by (simp add: issued_facts)
  have u1: "user_by_email ?a ?d1 = Some ?u"
    by (rule find_with_user [OF assms(2)]) (simp add: reg_user_def new_user_def)
  have fields: "password ?u = Some (argon2_hash env (rg_password dto))" "\<not> emailVerified ?u" "auth_user_of ?u = ?au"
      "rid ?u = next_id (users (db w))" "email ?u = ?a"
    by (simp_all add: reg_user_def new_user_def auth_user_of_def)
  have blocked: "auth_login env ?a (rg_password dto) ?w1 = (Inl not_verified, ?w1)"
    using assms(7,8,13,14) by (simp add: auth_login_def await_def localStrategy_def validate_run d1 u1 fields)
  have "code_at t2 ?a ?w1 = Some (gen (drawn env))" "attempts_at t2 ?a ?w1 = 0"
    using assms(11) by (simp_all add: issued_facts)
  moreover have "gen (drawn env) \<noteq> []" by (simp add: gen_def string_of_int_def string_of_nat_nonempty)
  ultimately obtain w3 where verify: "verifyOtp env2 ?a (gen (drawn env)) ?w1 = (Inr (?f ?u), w3)" and up3: "redis_up (redis w3)"
      and u3: "user_by_email ?a (db w3) = Some (?f ?u)"
    using otp_config_positive(2) [OF assms(9)] assms(6,10) up1 ok1 u1 fields(2)
    by (elim verifyOtp_live [of ?w1 ?a ?u env2 "gen (drawn env)", rotated -1]) (simp_all add: d1)
  have au3: "auth_user_of (?f ?u) = ?au" using fields(3) by (simp add: auth_user_of_def)
  obtain c2 w4 where signed: "issue_for env2 ?au w3 = (Inr c2, w4)" and w4: "db w4 = db w3" "redis_up (redis w4)"
    using up3 by (simp add: issue_for_def issue_run)
  have first: "auth_verifyOtp env2 ?a (gen (drawn env)) ?w1 = (Inr (?au, c2), w4)"
    by (simp add: auth_verifyOtp_def await_def verify au3 signed ret_run)
  obtain c3 w5 where "issue_for env2 ?au w4 = (Inr c3, w5)" using w4(2) by (simp add: issue_for_def issue_run)
  then have second: "auth_login env2 ?a (rg_password dto) w4 =
      (Inr (?au, c3), logged (by_actor ''login.success'' (au_id ?au)) w5)"
    using assms(7,8,10,13,14) fields(1) au3 u3
    by (simp add: auth_login_def await_def localStrategy_def validate_run w4(1) ret_run logged_run)
  have "rows (users (db ?w1)) = rows (users (db w)) @ [?u]" unfolding d1 by (simp add: with_user_def)
  with reg blocked first second show ?thesis
    unfolding sent_if_eligible_def not_verified_def reg_user_def new_user_def by blast
qed

text \<open>C30. Google never takes over an account: a profile signs in the account linked to its Google id, else, if the
  address has an account, is refused with a 409 that changes nothing, else makes a new, verified, ordinary
  account without a password. Whoever is signed in has that Google id.\<close>

theorem google_never_takes_over:
  assumes "db_ok (db w)" and "user_fault env AtCreateUser = None"
  shows "case user_by_google (gp_id p) (db w) of
      Some u \<Rightarrow> resolveGoogleUser env p w = (Inr (auth_user_of u), logged (by_actor ''login.google.success'' (rid u)) w) \<and> googleId u = Some (gp_id p)
    | None \<Rightarrow>
        if user_by_email (gp_email p) (db w) \<noteq> None
        then (\<exists>m. resolveGoogleUser env p w = (Inl (ConflictException m), w)) \<and>
          auth_googleCallback env p w = (Inr (frontendUrl env @ ''/login?error=account_exists'', []), w)
        else \<exists>u w'. resolveGoogleUser env p w = (Inr (auth_user_of u), w') \<and>
          rows (users (db w')) = rows (users (db w)) @ [u] \<and> googleId u = Some (gp_id p) \<and> role u = USER \<and>
          password u = None \<and> emailVerified u \<and> db_ok (db w') \<and>
          audit_log w' = audit_log w @ [on_target ''user.google.created'' ''user'' (rid u)]"
proof (cases "user_by_google (gp_id p) (db w)")
  case (Some u)
  then have "googleId u = Some (gp_id p)" using find_Some_mem unfolding user_by_google_def by fast
  with Some show ?thesis by (simp add: resolveGoogleUser_def auth_findByGoogleId_def await_query ret_run logged_run)
next
  case none: None
  show ?thesis
  proof (cases "user_by_email (gp_email p) (db w)")
    case (Some u)
    then have "resolveGoogleUser env p w = (Inl account_exists, w)"
      using none by (simp add: resolveGoogleUser_def auth_findByGoogleId_def auth_findByEmail_def await_query throw_run)
    then show ?thesis
      using none Some by (simp add: auth_googleCallback_def catch_err_def await_def account_exists_def is_conflict_def ret_run)
  next
    case None
    let ?u = "new_user (gp_name p) (gp_email p) None (Some (gp_id p)) True (next_id (users (db w)))"
    have ins: "insert_user (new_user (gp_name p) (gp_email p) None (Some (gp_id p)) True) (db w) =
        Inr (?u, with_user ?u (db w))" and ok: "db_ok (with_user ?u (db w))"
      by (rule insert_user_run [OF assms(1)]; simp add: new_user_def None none)+
    have "await (auth_createGoogleUser None p) k w = k ?u (w\<lparr>db := with_user ?u (db w)\<rparr>)" for k :: "user \<Rightarrow> auth_user service"
      by (simp add: auth_createGoogleUser_def run_stmt_def ins await_def)
    then have "resolveGoogleUser env p w = (Inr (auth_user_of ?u),
        logged (on_target ''user.google.created'' ''user'' (rid ?u)) (w\<lparr>db := with_user ?u (db w)\<rparr>))"
      using none None assms(2)
      by (simp add: resolveGoogleUser_def auth_findByGoogleId_def auth_findByEmail_def await_query ret_run logged_run)
    moreover have "rows (users (with_user ?u (db w))) = rows (users (db w)) @ [?u]" by (simp add: with_user_def)
    moreover have "googleId ?u = Some (gp_id p)" "role ?u = USER" "password ?u = None" "emailVerified ?u"
      by (simp_all add: new_user_def)
    ultimately show ?thesis
      using ok none None by simp
  qed
qed

subsection \<open>The properties on the sample database\<close>

text \<open>A hash that marks the password, as the library's encoded hashes carry their algorithm.\<close>

definition sample_auth :: auth_env where
  "sample_auth = \<lparr>jwt = sample_jwt, otp_cfg = sample_otp, clock = 0, uuid = ''j'', drawn = 123456,
     argon2_hash = (\<lambda>p. ''$argon2id$'' @ p), argon2_verify = (\<lambda>h p. if take 10 h = ''$argon2id$'' then Inr (drop 10 h = p) else Inr False),
     bcrypt_hash = (\<lambda>p. ''$2b$'' @ p), bcrypt_compare = (\<lambda>p h. h = ''$2b$'' @ p),
     mailFrom = None, sendMail = (\<lambda>_. None), frontendUrl = ''http://f'', callbackUrl = ''http://b/google'',
     linkCallbackUrl = ''http://b/link'', authorize = (\<lambda>url state. url @ (case state of None \<Rightarrow> [] | Some t \<Rightarrow> t)), user_fault = (\<lambda>_. None)\<rparr>"

definition sample_register :: register_dto where
  "sample_register = \<lparr>rg_name = ''new'', rg_email = ''n@x'', rg_password = ''Secret123''\<rparr>"

lemma sample_char: "char_of (97 :: nat) = CHR ''a''" "char_of (98 :: nat) = CHR ''b''" "char_of (99 :: nat) = CHR ''c''"
  by code_simp+

lemma sample_emails: "user_by_email ''n@x'' sample_db = None" "user_by_email ''a'' sample_db = Some (sample_user 1)"
  "user_by_google ''g'' sample_db = None"
  by (simp_all add: user_by_email_def user_by_google_def sample_defs sample_char)

theorem register_hides_accounts_witness:
  "register sample_auth (sample_register\<lparr>rg_email := ''a''\<rparr>) (world_of sample_db) =
     (Inr ''If eligible, a verification code was sent'', world_of sample_db)"
  by (rule register_hides_accounts) (simp add: world_of_def sample_register_def sample_emails)

theorem signup_flow_witness:
  "\<exists>w1 w2 c2. register sample_auth sample_register (world_of sample_db) = (Inr ''If eligible, a verification code was sent'', w1) \<and>
     auth_verifyOtp (sample_auth\<lparr>clock := 1000\<rparr>) ''n@x'' (gen 123456) w1 =
       (Inr (\<lparr>au_id = 4, au_name = ''new'', au_email = ''n@x'', au_role = USER\<rparr>, c2), w2)"
proof -
  have "next_id (users sample_db) = 4" by (simp add: sample_defs)
  moreover have "db (world_of sample_db) = sample_db" "redis (world_of sample_db) = empty_redis"
    "redis_up empty_redis" "otp_cooldowns (auth empty_redis) = Map.empty"
    by (simp_all add: world_of_def empty_redis_def empty_auth_def)
  moreover have "otp_config_of (\<lambda>s. map_option of_int (number_of_string s)) test_env = Inr (otp_cfg sample_auth)"
    using sample_config by (simp add: sample_auth_def)
  ultimately show ?thesis
    using signup_flow [of "world_of sample_db" sample_register sample_auth "\<lambda>s. map_option of_int (number_of_string s)" test_env
        "sample_auth\<lparr>clock := 1000\<rparr>" 1000] sample_db_ok sample_emails
    by (auto simp: sample_auth_def sample_register_def sample_otp_def key_simps)
qed

theorem google_never_takes_over_witness:
  "auth_googleCallback sample_auth \<lparr>gp_email = ''a'', gp_name = ''x'', gp_id = ''g''\<rparr> (world_of sample_db) =
     (Inr (''http://f/login?error=account_exists'', []), world_of sample_db)"
  using google_never_takes_over [of "world_of sample_db" sample_auth "\<lparr>gp_email = ''a'', gp_name = ''x'', gp_id = ''g''\<rparr>"]
  by (simp add: world_of_def sample_db_ok sample_emails sample_auth_def)

end
