(* ===== verification/Users.thy ===== *)
theory Users
  imports Auth
begin

text \<open>
  Account settings: \<open>users/users.repository.ts\<close>, \<open>users/users.service.ts\<close> and the DTO checks. The service
  hashes with \<open>bcrypt\<close> where sign-up and sign-in (Auth) use \<open>argon2\<close>. The lifetime of a pending address is
  \<open>OTP_TTL_SECONDS\<close>, which the service reads from the environment itself.
\<close>

definition valid_update_name :: "string \<Rightarrow> bool" where
  "valid_update_name nm \<longleftrightarrow> 2 \<le> length nm"

definition valid_email_change :: "(string \<Rightarrow> bool) \<Rightarrow> string \<Rightarrow> string \<Rightarrow> bool" where
  "valid_email_change isEmail newEmail pw \<longleftrightarrow> isEmail newEmail \<and> 8 \<le> length pw"

definition valid_confirm_email :: "string \<Rightarrow> bool" where
  "valid_confirm_email code \<longleftrightarrow> length code = 6"

definition valid_change_password :: "string \<Rightarrow> string \<Rightarrow> bool" where
  "valid_change_password cur new \<longleftrightarrow> 8 \<le> length cur \<and> 8 \<le> length new \<and> strong_password new"

subsection \<open>UsersRepository\<close>

definition users_findById :: "int \<Rightarrow> user option service" where
  "users_findById i = query (\<lambda>d. find_row i (users d))"

definition users_findByEmail :: "string \<Rightarrow> user option service" where
  "users_findByEmail addr = query (user_by_email addr)"

definition users_updateName :: "prisma_error option \<Rightarrow> int \<Rightarrow> string \<Rightarrow> user service" where
  "users_updateName fault i nm = run_stmt fault (update_user i (\<lambda>u. u\<lparr>user_name := nm\<rparr>))"

definition users_updateEmail :: "prisma_error option \<Rightarrow> int \<Rightarrow> string \<Rightarrow> user service" where
  "users_updateEmail fault i addr = run_stmt fault (update_user i (\<lambda>u. u\<lparr>email := addr\<rparr>))"

definition users_updatePassword :: "prisma_error option \<Rightarrow> int \<Rightarrow> string \<Rightarrow> user service" where
  "users_updatePassword fault i hash = run_stmt fault (update_user i (\<lambda>u. u\<lparr>password := Some hash\<rparr>))"

subsection \<open>UsersService\<close>

definition invalid_credentials :: err where
  "invalid_credentials = UnauthorizedException ''Invalid credentials''"

definition email_registered :: err where
  "email_registered = ConflictException ''Email already registered''"

definition no_pending :: err where
  "no_pending = BadRequestException ''No pending email change or it expired''"

definition updateName :: "auth_env \<Rightarrow> int \<Rightarrow> string \<Rightarrow> auth_user service" where
  "updateName env userId nm =
     await (users_updateName (user_fault env AtName) userId nm) (\<lambda>_. getAuthUser userId)"

text \<open>The two steps that every change of credentials starts with.\<close>

definition check_password :: "auth_env \<Rightarrow> int \<Rightarrow> string \<Rightarrow> unit service" where
  "check_password env userId cur =
     await (users_findById userId) (\<lambda>user. case user of
       None \<Rightarrow> throw invalid_credentials
     | Some u \<Rightarrow>
         (case password u of
            None \<Rightarrow> throw invalid_credentials
          | Some h \<Rightarrow>
              if h = [] then throw invalid_credentials
              else if \<not> bcrypt_compare env cur h then throw invalid_credentials else ret ()))"

definition requestEmailChange :: "auth_env \<Rightarrow> int \<Rightarrow> string \<Rightarrow> string \<Rightarrow> string service" where
  "requestEmailChange env userId newEmail cur =
     await (check_password env userId cur) (\<lambda>_.
     await (users_findByEmail newEmail) (\<lambda>existing.
     if existing \<noteq> None then throw email_registered
     else
       await (on_redis (\<lambda>k. ((), k\<lparr>pending_emails :=
           key_set_ex (clock env) userId newEmail (otpTtlSeconds (otp_cfg env)) (pending_emails k)\<rparr>))) (\<lambda>_.
       await (otp_issue (otp_cfg env) (clock env) (drawn env) newEmail) (\<lambda>code.
       await (sendOtpEmail env newEmail code) (\<lambda>_.
       await (record_audit ((by_actor ''email.change.requested'' userId)\<lparr>ae_metadata := [(''newEmail'', Some newEmail)]\<rparr>)) (\<lambda>_.
       ret ''Verification code sent to new email''))))))"

definition get_pending :: "auth_env \<Rightarrow> int \<Rightarrow> string option service" where
  "get_pending env userId = on_redis (\<lambda>k. (key_get (clock env) userId (pending_emails k), k))"

definition confirmEmailChange :: "auth_env \<Rightarrow> int \<Rightarrow> string \<Rightarrow> auth_user service" where
  "confirmEmailChange env userId code =
     await (get_pending env userId) (\<lambda>pendingEmail. case pendingEmail of
       None \<Rightarrow> throw no_pending
     | Some addr \<Rightarrow>
         if addr = [] then throw no_pending
         else await (otp_verify (otp_cfg env) (clock env) addr code) (\<lambda>ok.
           if \<not> ok then throw (BadRequestException ''Invalid code'')
           else await (users_updateEmail (user_fault env AtEmail) userId addr) (\<lambda>_.
             await (on_redis (\<lambda>k. ((), k\<lparr>pending_emails := key_del userId (pending_emails k)\<rparr>))) (\<lambda>_.
             getAuthUser userId))))"

definition getPendingEmailChange :: "auth_env \<Rightarrow> int \<Rightarrow> string option service" where
  "getPendingEmailChange env userId =
     await (get_pending env userId) (\<lambda>newEmail. ret (if newEmail = Some [] then None else newEmail))"

definition changePassword :: "auth_env \<Rightarrow> int \<Rightarrow> string \<Rightarrow> string \<Rightarrow> cookie list service" where
  "changePassword env userId cur new =
     await (check_password env userId cur) (\<lambda>_.
     await (users_updatePassword (user_fault env AtPassword) userId (bcrypt_hash env new)) (\<lambda>_.
     await (incrementAccessVersion (clock env) userId) (\<lambda>_.
     await (revokeAllSessions userId) (\<lambda>_.
     await (getAuthUser userId) (\<lambda>authUser.
     await (issue_for env authUser) (\<lambda>cookies.
     await (record_audit (by_actor ''password.changed'' userId)) (\<lambda>_.
     ret cookies)))))))"

lemmas users_defs [handler_defs] = users_findById_def users_findByEmail_def users_updateName_def users_updateEmail_def
  users_updatePassword_def updateName_def check_password_def requestEmailChange_def get_pending_def
  confirmEmailChange_def getPendingEmailChange_def changePassword_def

lemma keeps_users_repo [keeps_rules]:
  "keeps_db P (users_findById i)" "keeps_db P (users_findByEmail a)"
  "keeps_db db_ok (users_updateName f i n)" "keeps_db db_ok (users_updateEmail f i a)"
  "keeps_db db_ok (users_updatePassword f i h)"
  unfolding users_findById_def users_findByEmail_def users_updateName_def users_updateEmail_def users_updatePassword_def
  by (intro keeps_rules keeps_db_stmt; erule (1) db_ok_intros [rotated -1]; simp)+

lemma keeps_users [keeps_rules]:
  "keeps_db db_ok (updateName env i n)" "keeps_db db_ok (requestEmailChange env i a p)"
  "keeps_db db_ok (confirmEmailChange env i c)" "keeps_db P (getPendingEmailChange env i)"
  "keeps_db db_ok (changePassword env i p q)"
  unfolding updateName_def check_password_def requestEmailChange_def get_pending_def confirmEmailChange_def
    getPendingEmailChange_def changePassword_def sendOtpEmail_def issue_for_def
  by (intro keeps_rules)+

subsection \<open>Credentials\<close>

lemma check_password_run:
  "check_password env i cur w = (case find_row i (users (db w)) of
     Some u \<Rightarrow> (case password u of
         Some h \<Rightarrow> if h \<noteq> [] \<and> bcrypt_compare env cur h then (Inr (), w) else (Inl invalid_credentials, w)
       | None \<Rightarrow> (Inl invalid_credentials, w))
   | None \<Rightarrow> (Inl invalid_credentials, w))"
  by (simp add: check_password_def users_findById_def await_query throw_run ret_run split: option.split)

lemma foreign_hash_refused:
  assumes "find_row i (users (db w)) = Some u" and "password u = Some h" and "\<not> bcrypt_compare env pw h"
  shows "changePassword env i pw new w = (Inl invalid_credentials, w)"
    and "requestEmailChange env i addr pw w = (Inl invalid_credentials, w)"
  using assms by (simp_all add: changePassword_def requestEmailChange_def await_def check_password_run)

lemma confirm_started:
  assumes "confirmEmailChange env i code w = (Inr a, w')"
  obtains addr w1 where "redis_up (redis w)" and "key_get (clock env) i (pending_emails (auth (redis w))) = Some addr"
    and "otp_verify (otp_cfg env) (clock env) addr code w = (Inr True, w1)"
    and "await (users_updateEmail (user_fault env AtEmail) i addr) (\<lambda>_.
      await (on_redis (\<lambda>k. ((), k\<lparr>pending_emails := key_del i (pending_emails k)\<rparr>))) (\<lambda>_. getAuthUser i)) w1 = (Inr a, w')"
proof -
  have up: "redis_up (redis w)"
    using assms by (cases "redis_up (redis w)") (auto simp: confirmEmailChange_def get_pending_def await_def on_redis_down)
  have pend: "get_pending env i w = (Inr (key_get (clock env) i (pending_emails (auth (redis w)))), w)"
    using up by (simp add: get_pending_def on_redis_up)
  obtain addr where addr: "key_get (clock env) i (pending_emails (auth (redis w))) = Some addr" "addr \<noteq> []"
    using assms by (cases "key_get (clock env) i (pending_emails (auth (redis w)))")
      (auto simp: confirmEmailChange_def await_def pend throw_run split: if_splits)
  from assms addr have "await (otp_verify (otp_cfg env) (clock env) addr code) (\<lambda>ok.
      if \<not> ok then throw (BadRequestException ''Invalid code'')
      else await (users_updateEmail (user_fault env AtEmail) i addr) (\<lambda>_.
        await (on_redis (\<lambda>k. ((), k\<lparr>pending_emails := key_del i (pending_emails k)\<rparr>))) (\<lambda>_. getAuthUser i))) w = (Inr a, w')"
    unfolding confirmEmailChange_def await_def pend by simp
  then show thesis by (rule await_returnsE) (auto simp: throw_run intro: that [OF up addr(1)] split: if_splits)
qed

text \<open>C32. An address changes hands only against its code: when a change is confirmed, the address was the
  one pending for this user, the given code was the live code of that address, the user now has it, nothing
  of any other user changed, and neither the code nor the pending change can be used again.\<close>

theorem email_change_needs_code:
  assumes "db_ok (db w)" and "confirmEmailChange env i code w = (Inr a, w')"
  shows "\<exists>addr u. key_get (clock env) i (pending_emails (auth (redis w))) = Some addr \<and>
    code_at (clock env) addr w = Some code \<and> attempts_at (clock env) addr w < otpMaxAttempts (otp_cfg env) \<and>
    find_row i (users (db w)) = Some u \<and> find_row i (users (db w')) = Some (u\<lparr>email := addr\<rparr>) \<and>
    (\<forall>j. j \<noteq> i \<longrightarrow> find_row j (users (db w')) = find_row j (users (db w))) \<and> au_email a = addr \<and>
    confirmEmailChange env2 i code w' = (Inl no_pending, w')"
proof -
  obtain addr w1 where up: "redis_up (redis w)" and addr: "key_get (clock env) i (pending_emails (auth (redis w))) = Some addr"
      and ver: "otp_verify (otp_cfg env) (clock env) addr code w = (Inr True, w1)"
      and rest: "await (users_updateEmail (user_fault env AtEmail) i addr) (\<lambda>_.
        await (on_redis (\<lambda>k. ((), k\<lparr>pending_emails := key_del i (pending_emails k)\<rparr>))) (\<lambda>_. getAuthUser i)) w1 = (Inr a, w')"
    by (rule confirm_started [OF assms(2)])
  from ver have c: "code_at (clock env) addr w = Some code" "attempts_at (clock env) addr w < otpMaxAttempts (otp_cfg env)"
      and w1: "w1 = attempts_dropped addr (code_dropped addr (counted (otp_cfg env) (clock env) addr w))"
    by (auto simp: verify_run [OF up] split: option.splits if_splits)
  have d1: "db w1 = db w" and up1: "redis_up (redis w1)"
    using up by (simp_all add: w1 attempts_dropped_def code_dropped_def counted_def)
  from rest obtain u1 w2 where upd: "users_updateEmail (user_fault env AtEmail) i addr w1 = (Inr u1, w2)"
      and rest2: "await (on_redis (\<lambda>k. ((), k\<lparr>pending_emails := key_del i (pending_emails k)\<rparr>))) (\<lambda>_. getAuthUser i) w2 = (Inr a, w')"
    by (rule await_returnsE)
  from upd obtain d2 where d2: "update_user i (\<lambda>u. u\<lparr>email := addr\<rparr>) (db w) = Inr (u1, d2)" and w2: "w2 = w1\<lparr>db := d2\<rparr>"
    by (auto simp: users_updateEmail_def run_stmt_def d1 split: option.splits sum.splits)
  from d2 obtain u where u: "find_row i (users (db w)) = Some u"
      and d2v: "d2 = (db w)\<lparr>users := update_row i (\<lambda>u. u\<lparr>email := addr\<rparr>) (users (db w))\<rparr>"
    unfolding update_user_def by (rule update_stmtE) auto
  have up2: "redis_up (redis w2)" using up1 by (simp add: w2)
  let ?w3 = "w2\<lparr>redis := (redis w2)\<lparr>auth := (auth (redis w2))\<lparr>pending_emails := key_del i (pending_emails (auth (redis w2)))\<rparr>\<rparr>\<rparr>"
  have "getAuthUser i ?w3 = (Inr a, w')"
    using rest2 by (simp add: await_def on_redis_up [OF up2])
  then have fin: "w' = ?w3" "au_email a = addr"
    using u by (auto simp: getAuthUser_def auth_findById_def await_query ret_run w2 d2v find_update_row auth_user_of_def)
  have users': "users (db w') = update_row i (\<lambda>u. u\<lparr>email := addr\<rparr>) (users (db w))"
    by (simp add: fin(1) w2 d2v)
  have "redis_up (redis w')" "pending_emails (auth (redis w')) i = None"
    using up2 by (simp_all add: fin(1) key_del_def)
  then have "confirmEmailChange env2 i code w' = (Inl no_pending, w')"
    by (simp add: confirmEmailChange_def get_pending_def await_def on_redis_up key_get_def throw_run)
  with addr c u fin(2) show ?thesis
    unfolding users' by (intro exI [of _ addr] exI [of _ u]) (simp add: find_update_row)
qed

lemma all_revoked:
  assumes "user_listed i w" and "redis_up (redis w)" and "redis w2 = (redis w)\<lparr>auth := (auth (redis w))\<lparr>access_versions := vs\<rparr>\<rparr>"
  obtains w3 where "revokeAllSessions i w2 = (Inr (), w3)" and "redis_up (redis w3)" and "db w3 = db w2"
    and "access_versions (auth (redis w3)) = vs" and "\<And>j. refresh_keys (auth (redis w3)) (i, j) = None"
proof
  let ?w3 = "snd (revokeAllSessions i w2)"
  have up: "redis_up (redis w2)" using assms(2,3) by simp
  show "revokeAllSessions i w2 = (Inr (), ?w3)" "redis_up (redis ?w3)" "db ?w3 = db w2" "access_versions (auth (redis ?w3)) = vs"
    using up by (simp_all add: revoke_run assms(3))
  show "refresh_keys (auth (redis ?w3)) (i, j) = None" for j
  proof (cases "refresh_keys (auth (redis w)) (i, j)")
    case None
    then show ?thesis unfolding revoke_run [OF up] by (simp add: assms(3))
  next
    case (Some x)
    then have "j \<in> set (smembers i (refresh_sessions (auth (redis w))))" using assms(1) unfolding user_listed_def by blast
    then show ?thesis unfolding revoke_run [OF up] by (auto simp: assms(3))
  qed
qed

text \<open>C28. A new password signs out: when the user's session set lists the user's sessions (as it does in every state that an
  undisturbed run of the token store reaches, see Tokens), a successful change with no other request in between leaves the session just
  issued as the user's only one, stores the new hash, and makes every access token of the user whose version is at most the one in
  force a 401 for the seven days the counter lives. (A token with a higher version, signed before the counter last ran out, is not
  covered: \<open>version_reset_keeps_token\<close>.)\<close>

theorem change_password_signs_out:
  assumes "db_ok (db w)" and "user_listed i w" and "redis_up (redis w)"
    and "find_row i (users (db w)) = Some u" and "password u = Some h" and "h \<noteq> []" and "bcrypt_compare env cur h"
    and "user_fault env AtPassword = None" and "getAccessVersion (clock env) i w = (Inr v, w)"
  shows "\<exists>cs w'. changePassword env i cur new w = (Inr cs, w') \<and>
    (\<forall>t j. session_live t i j w' \<longrightarrow> j = uuid env) \<and>
    find_row i (users (db w')) = Some (u\<lparr>password := Some (bcrypt_hash env new)\<rparr>) \<and>
    (\<forall>t p. ap_sub p = i \<and> ap_ver p \<le> v \<and> clock env \<le> t \<and> t \<le> clock env + 7 * 24 * 60 * 60 * 1000 \<longrightarrow>
      jwt_validate t p w' = (Inl token_revoked, w'))"
proof -
  let ?t = "clock env"
  let ?f = "\<lambda>u :: user. u\<lparr>password := Some (bcrypt_hash env new)\<rparr>"
  let ?d = "(db w)\<lparr>users := update_row i ?f (users (db w))\<rparr>"
  let ?k = "auth (redis w)"
  have "update_user i ?f (db w) = Inr (?f u, ?d)" by (rule update_user_run [OF assms(1,4)]) simp_all
  then have save: "users_updatePassword None i (bcrypt_hash env new) w = (Inr (?f u), w\<lparr>db := ?d\<rparr>)"
    by (simp add: users_updatePassword_def run_stmt_def)
  have check: "check_password env i cur w = (Inr (), w)" using assms(4-7) by (simp add: check_password_run)
  have v: "(case key_get ?t i (access_versions ?k) of None \<Rightarrow> 0 | Some v \<Rightarrow> v) = v"
    using assms(3,9) by (simp add: getAccessVersion_up)
  let ?k2 = "?k\<lparr>access_versions := key_set_ex ?t i (v + 1) REFRESH_TTL_SECONDS (access_versions ?k)\<rparr>"
  let ?w2 = "w\<lparr>db := ?d, redis := (redis w)\<lparr>auth := ?k2\<rparr>\<rparr>"
  have bump: "incrementAccessVersion ?t i (w\<lparr>db := ?d\<rparr>) = (Inr (), ?w2)"
    using assms(3) v by (simp add: incrementAccessVersion_def on_redis_up Let_def)
  obtain w3 where revoke: "revokeAllSessions i ?w2 = (Inr (), w3)" and up3: "redis_up (redis w3)" and db3: "db w3 = ?d"
      and ver3: "access_versions (auth (redis w3)) = access_versions ?k2" and none3: "\<And>j. refresh_keys (auth (redis w3)) (i, j) = None"
    by (rule all_revoked [OF assms(2,3), of ?w2 "access_versions ?k2"]) simp_all
  let ?au = "auth_user_of (?f u)"
  have id: "au_id ?au = i" using find_row_key [OF assms(4)] by (simp add: auth_user_of_def)
  have row: "find_row i (users ?d) = Some (?f u)" using assms(4) by (simp add: find_update_row)
  have who: "getAuthUser i w3 = (Inr ?au, w3)"
    using row by (simp add: getAuthUser_def auth_findById_def await_query db3 ret_run)
  let ?w4 = "w3\<lparr>redis := (redis w3)\<lparr>auth := store_session ?t i (uuid env) (auth (redis w3))\<rparr>\<rparr>"
  obtain cs where iss: "issue_for env ?au w3 = (Inr cs, ?w4)" using up3 id by (simp add: issue_for_def issue_run)
  let ?w5 = "logged (by_actor ''password.changed'' i) ?w4"
  have "changePassword env i cur new w = (Inr cs, ?w5)"
    by (simp add: changePassword_def await_def check save assms(8) bump revoke who iss logged_run ret_run)
  moreover have "session_live t i j ?w5 \<Longrightarrow> j = uuid env" for t j
    using none3 [of j]
    by (auto simp: session_live_def store_session_def key_exists_def key_get_def key_set_ex_def key_set_px_def split: if_splits)
  moreover have "jwt_validate t p ?w5 = (Inl token_revoked, ?w5)"
    if "ap_sub p = i" "ap_ver p \<le> v" "t \<le> ?t + 7 * 24 * 60 * 60 * 1000" for t p
    using that up3 by (simp add: jwt_validate_def await_def getAccessVersion_up store_session_def ver3 key_simps
        REFRESH_TTL_SECONDS_def throw_run)
  ultimately show ?thesis using row by (intro exI [of _ cs] exI [of _ ?w5]) (simp add: db3)
qed

subsection \<open>Witnesses\<close>

definition with_password :: "string option \<Rightarrow> world" where
  "with_password h = world_of (sample_db\<lparr>users := update_row 1 (\<lambda>u. u\<lparr>password := h\<rparr>) (users sample_db)\<rparr>)"

lemma with_password_db:
  "users (db (with_password h)) = \<lparr>rows = [(sample_user 1)\<lparr>password := h\<rparr>, sample_user 2, sample_user 3], next_id = 4\<rparr>"
  "redis (with_password h) = empty_redis"
  by (simp_all add: with_password_def world_of_def update_row_def sample_defs)

lemma with_password_ok: "db_ok (db (with_password h))"
proof -
  have "find_row 1 (users sample_db) = Some (sample_user 1)" by (simp add: sample_defs find_row_def)
  with sample_db_ok have "update_user 1 (\<lambda>u. u\<lparr>password := h\<rparr>) sample_db =
      Inr ((sample_user 1)\<lparr>password := h\<rparr>, sample_db\<lparr>users := update_row 1 (\<lambda>u. u\<lparr>password := h\<rparr>) (users sample_db)\<rparr>)"
    by (rule update_user_run) simp_all
  from db_ok_update_user [OF sample_db_ok _ this] show ?thesis by (simp add: with_password_def world_of_def)
qed

theorem change_password_signs_out_witness:
  "\<exists>cs w'. changePassword sample_auth 1 ''Secret123'' ''Secret456'' (with_password (Some ''$2b$Secret123'')) = (Inr cs, w') \<and>
     jwt_validate 1 \<lparr>ap_sub = 1, ap_name = ''u'', ap_email = ''a'', ap_role = USER, ap_ver = 0\<rparr> w' = (Inl token_revoked, w')"
proof -
  let ?w = "with_password (Some ''$2b$Secret123'')"
  have "getAccessVersion (clock sample_auth) 1 ?w = (Inr 0, ?w)"
    by (simp add: getAccessVersion_up with_password_db empty_redis_def empty_auth_def key_get_def)
  moreover have "user_listed 1 ?w" by (simp add: user_listed_def with_password_db empty_redis_def empty_auth_def)
  moreover have "find_row 1 (users (db ?w)) = Some ((sample_user 1)\<lparr>password := Some ''$2b$Secret123''\<rparr>)"
    by (simp add: with_password_db sample_user_def find_row_def)
  ultimately have "\<exists>cs w'. changePassword sample_auth 1 ''Secret123'' ''Secret456'' ?w = (Inr cs, w') \<and>
    (\<forall>t j. session_live t 1 j w' \<longrightarrow> j = uuid sample_auth) \<and>
    find_row 1 (users (db w')) = Some ((sample_user 1)\<lparr>password := Some (bcrypt_hash sample_auth ''Secret456'')\<rparr>) \<and>
    (\<forall>t p. ap_sub p = 1 \<and> ap_ver p \<le> 0 \<and> clock sample_auth \<le> t \<and> t \<le> clock sample_auth + 7 * 24 * 60 * 60 * 1000 \<longrightarrow>
      jwt_validate t p w' = (Inl token_revoked, w'))"
    using change_password_signs_out [of ?w 1 "(sample_user 1)\<lparr>password := Some ''$2b$Secret123''\<rparr>" "''$2b$Secret123''"
        sample_auth "''Secret123''" 0 "''Secret456''"] with_password_ok
    by (simp add: with_password_db empty_redis_def sample_auth_def)
  moreover have "clock sample_auth = 0" by (simp add: sample_auth_def)
  ultimately show ?thesis by fastforce
qed

theorem email_change_needs_code_witness:
  "\<exists>w a w'. confirmEmailChange sample_auth 1 (gen 123456) w = (Inr a, w') \<and> au_email a = ''z'' \<and>
     confirmEmailChange sample_auth 1 (gen 123456) w' = (Inl no_pending, w')"
proof -
  let ?r = "empty_redis\<lparr>auth := empty_auth\<lparr>pending_emails := key_set_ex 0 1 ''z'' 600 Map.empty,
      otp_codes := key_set_ex 0 ''z'' (gen 123456) 600 Map.empty\<rparr>\<rparr>"
  let ?w = "(world_of sample_db)\<lparr>redis := ?r\<rparr>"
  have up: "redis_up (redis ?w)" by (simp add: empty_redis_def)
  have pend: "get_pending sample_auth 1 ?w = (Inr (Some ''z''), ?w)"
    using up by (simp add: get_pending_def on_redis_up sample_auth_def key_simps)
  have live: "gen 123456 \<noteq> []" by (simp add: gen_def string_of_int_def string_of_nat_nonempty)
  have "code_at 0 ''z'' ?w = Some (gen 123456)" "attempts_at 0 ''z'' ?w = 0"
    by (simp_all add: code_at_def attempts_at_def key_simps empty_auth_def)
  then obtain w1 where ver: "otp_verify (otp_cfg sample_auth) (clock sample_auth) ''z'' (gen 123456) ?w = (Inr True, w1)"
      and w1': "w1 = attempts_dropped ''z'' (code_dropped ''z'' (counted sample_otp 0 ''z'' ?w))"
    using live by (simp add: verify_run [OF up] sample_auth_def sample_otp_def)
  have w1: "db w1 = sample_db" "redis_up (redis w1)"
    using up by (simp_all add: w1' attempts_dropped_def code_dropped_def counted_def world_of_def)
  let ?d = "sample_db\<lparr>users := update_row 1 (\<lambda>u. u\<lparr>email := ''z''\<rparr>) (users sample_db)\<rparr>"
  have "update_user 1 (\<lambda>u. u\<lparr>email := ''z''\<rparr>) sample_db = Inr ((sample_user 1)\<lparr>email := ''z''\<rparr>, ?d)"
    by (simp add: update_user_def on_table_def try_update_def find_row_def update_row_def user_unique_def unique_nullable_def
        sample_defs sample_char map_filter_simps2)
  then have upd: "users_updateEmail (user_fault sample_auth AtEmail) 1 ''z'' w1 = (Inr ((sample_user 1)\<lparr>email := ''z''\<rparr>), w1\<lparr>db := ?d\<rparr>)"
    using w1 by (simp add: users_updateEmail_def run_stmt_def sample_auth_def)
  have row: "find_row 1 (users ?d) = Some ((sample_user 1)\<lparr>email := ''z''\<rparr>)"
    by (simp add: find_row_def update_row_def sample_defs)
  obtain a w' where run: "confirmEmailChange sample_auth 1 (gen 123456) ?w = (Inr a, w')"
    unfolding confirmEmailChange_def await_def pend
    using w1(2) row by (simp add: ver upd on_redis_up await_def getAuthUser_def auth_findById_def query_def act_simps ret_run)
  then show ?thesis
    using email_change_needs_code [of ?w sample_auth 1 "gen 123456" a w' sample_auth] sample_db_ok
    by (auto simp: world_of_def key_simps sample_auth_def)
qed

end
