(* ===== verification/LoadSeed.thy ===== *)
theory LoadSeed
  imports Users Screenings
begin

text \<open>
  \<open>load-test/seed.ts\<close>: the data that the load tests run on. What one gets: users, a hall with its seats, a movie, one screening for
  all and twenty for the contention of seats. Parameters are the hash that \<open>bcrypt\<close> gives for the common password, the clock and the database faults;
  \<open>seed-output.json\<close> is the value returned. \<open>createMany\<close> is one statement: all rows go in or none.
\<close>

definition USER_COUNT :: nat where "USER_COUNT = 2500"
definition SEAT_COUNT :: nat where "SEAT_COUNT = 3000"
definition SEATS_PER_ROW :: nat where "SEATS_PER_ROW = 50"
definition HOT_SCREENING_COUNT :: nat where "HOT_SCREENING_COUNT = 20"
definition LOAD_TEST_PASSWORD :: string where "LOAD_TEST_PASSWORD = ''LoadTest123!''"

definition load_email :: "nat \<Rightarrow> string" where
  "load_email i = ''loadtest'' @ string_of_nat i @ ''@test.local''"

definition load_user :: "string \<Rightarrow> nat \<Rightarrow> int \<Rightarrow> user" where
  "load_user passwordHash i n = \<lparr>rid = n, user_name = ''Load Test User '' @ string_of_nat i, email = load_email i,
     password = Some passwordHash, emailVerified = True, googleId = None, role = USER\<rparr>"

definition load_seat :: "int \<Rightarrow> nat \<Rightarrow> position" where
  "load_seat hallId i = (hallId, ''R'' @ string_of_nat (i div SEATS_PER_ROW), string_of_nat (i mod SEATS_PER_ROW))"

definition load_movie :: "ms \<Rightarrow> int \<Rightarrow> movie" where
  "load_movie now n = \<lparr>rid = n, movie_name = ''Load Test Movie'',
     description = ''Seeded fixture for load testing '' @ [CHR 0xE2, CHR 0x80, CHR 0x94] @ '' not a real movie.'', duration = 120,
     posterImgUrl = ''https://example.com/load-test-poster.jpg'', movieType = ''2D'', rating = 0, language = ''en'', genre = ''Test'',
     movie_status = PUBLISHED, movie_createdAt = now\<rparr>"

definition load_screening :: "ms \<Rightarrow> int \<Rightarrow> int \<Rightarrow> int \<Rightarrow> screening" where
  "load_screening now hallId movieId n = \<lparr>rid = n, scr_hallId = hallId, scr_movieId = movieId,
     startTime = now + 24 * 60 * 60000, scr_status = SCHEDULED, price = 1000\<rparr>"

fun insert_users :: "(int \<Rightarrow> user) list \<Rightarrow> user list stmt" where
  "insert_users [] d = Inr ([], d)"
| "insert_users (mk # mks) d =
     (case insert_user mk d of
        Inl e \<Rightarrow> Inl e
      | Inr (u, d') \<Rightarrow> (case insert_users mks d' of Inl e \<Rightarrow> Inl e | Inr (us, d'') \<Rightarrow> Inr (u # us, d'')))"

record load_output =
  lo_screeningId :: int
  lo_hotSeatId :: int
  lo_hotScreenings :: "(int \<times> int) list"      \<comment> \<open>screening, seat\<close>

fun hot_screenings :: "(nat \<Rightarrow> ms) \<Rightarrow> (nat \<Rightarrow> prisma_error option) \<Rightarrow> int \<Rightarrow> int \<Rightarrow> nat \<Rightarrow> seat list \<Rightarrow> (int \<times> int) list service" where
  "hot_screenings clk fault hallId movieId k [] = ret []"
| "hot_screenings clk fault hallId movieId k (s # ss) =
     await (run_stmt (fault k) (insert_screening (load_screening (clk k) hallId movieId))) (\<lambda>hot.
     await (hot_screenings clk fault hallId movieId (k + 1) ss) (\<lambda>hots. ret ((rid hot, rid s) # hots)))"

definition first_seats :: "int \<Rightarrow> nat \<Rightarrow> db \<Rightarrow> seat list" where
  "first_seats hallId n d = take n (sort_key rid (filter (\<lambda>s. seat_hallId s = hallId) (rows (seats d))))"

text \<open>A missing first seat is a \<open>TypeError\<close>, at the end.\<close>

definition load_seed :: "string \<Rightarrow> (nat \<Rightarrow> ms) \<Rightarrow> (nat \<Rightarrow> prisma_error option) \<Rightarrow> load_output service" where
  "load_seed passwordHash clk fault =
     await (run_stmt (fault 0) (insert_users (map (load_user passwordHash) [0..<USER_COUNT]))) (\<lambda>_.
     await (run_stmt (fault 1) (insert_hall (\<lambda>n. \<lparr>rid = n, hall_name = ''Load Test Hall'', capacity = int SEAT_COUNT\<rparr>))) (\<lambda>hall.
     await (run_stmt (fault 2) (insert_seats (map (load_seat (rid hall)) [0..<SEAT_COUNT]))) (\<lambda>_.
     await (run_stmt (fault 3) (insert_movie (load_movie (clk 3)))) (\<lambda>movie.
     await (run_stmt (fault 4) (insert_screening (load_screening (clk 4) (rid hall) (rid movie)))) (\<lambda>screening.
     await (query (first_seats (rid hall) (HOT_SCREENING_COUNT + 1))) (\<lambda>seats.
     await (hot_screenings clk fault (rid hall) (rid movie) 5 (tl seats)) (\<lambda>hots. case seats of
       [] \<Rightarrow> throw (InternalServerErrorException ''Cannot read properties of undefined'')
     | s # _ \<Rightarrow> ret \<lparr>lo_screeningId = rid screening, lo_hotSeatId = rid s, lo_hotScreenings = hots\<rparr>)))))))"

subsection \<open>The rows go in\<close>

lemma load_user_simps [simp]:
  "rid (load_user h i n) = n" "email (load_user h i n) = load_email i" "password (load_user h i n) = Some h"
  "googleId (load_user h i n) = None"
  by (simp_all add: load_user_def)

lemma load_screening_simps [simp]:
  "rid (load_screening now h m n) = n" "scr_hallId (load_screening now h m n) = h" "scr_movieId (load_screening now h m n) = m"
  "scr_status (load_screening now h m n) = SCHEDULED" "startTime (load_screening now h m n) = now + 86400000"
  by (simp_all add: load_screening_def)

lemma load_email_inj: "load_email i = load_email j \<Longrightarrow> i = j"
  using string_of_nat_inj by (simp add: load_email_def)

lemma load_seat_inj: "load_seat h i = load_seat h j \<Longrightarrow> i = j"
  unfolding load_seat_def by (metis Pair_inject append_same_eq div_mult_mod_eq same_append_eq string_of_nat_inj)

lemma insert_users_run:
  assumes "db_ok d" and "distinct is" and "\<forall>i \<in> set is. load_email i \<notin> email ` set (rows (users d))"
  shows "\<exists>us t. insert_users (map (load_user h) is) d = Inr (us, d\<lparr>users := t\<rparr>) \<and> rows t = rows (users d) @ us \<and>
    map (\<lambda>u. (email u, password u)) us = map (\<lambda>i. (load_email i, Some h)) is"
  using assms
proof (induction "is" arbitrary: d)
  case Nil
  show ?case by (intro exI [of _ "[]"] exI [of _ "users d"]) simp
next
  case (Cons i js)
  let ?u = "load_user h i (next_id (users d))"
  have "user_by_email (email ?u) d = None" using Cons.prems(3) by (auto simp: user_email_None intro: rev_image_eqI)
  then have ins: "insert_user (load_user h i) d = Inr (?u, with_user ?u d)" "db_ok (with_user ?u d)"
    using insert_user_run [OF Cons.prems(1), of "load_user h i" ?u] by simp_all
  have "\<exists>us t. insert_users (map (load_user h) js) (with_user ?u d) = Inr (us, (with_user ?u d)\<lparr>users := t\<rparr>) \<and>
      rows t = rows (users (with_user ?u d)) @ us \<and> map (\<lambda>u. (email u, password u)) us = map (\<lambda>i. (load_email i, Some h)) js"
    using Cons.prems(2,3) ins(2) load_email_inj by (intro Cons.IH) (auto simp: with_user_def)
  then obtain us t where "insert_users (map (load_user h) js) (with_user ?u d) = Inr (us, d\<lparr>users := t\<rparr>)"
      "rows t = rows (users d) @ ?u # us" "map (\<lambda>u. (email u, password u)) us = map (\<lambda>i. (load_email i, Some h)) js"
    by (auto simp: with_user_def)
  with ins(1) show ?case
    by (intro exI [of _ "?u # us"] exI [of _ t]) simp
qed

lemma insert_screening_run:
  assumes "h \<in> set (ids (halls d))" and "m \<in> set (ids (movies d))"
  shows "insert_screening (load_screening now h m) d = Inr (load_screening now h m (next_id (screenings d)),
    d\<lparr>screenings := (screenings d)\<lparr>rows := rows (screenings d) @ [load_screening now h m (next_id (screenings d))],
      next_id := next_id (screenings d) + 1\<rparr>\<rparr>)"
  using assms by (simp add: insert_screening_def on_table_def try_insert_def insert_row_def Let_def screening_fk_def)

text \<open>The hot screenings get consecutive ids, one for each seat.\<close>

lemma hot_screenings_run:
  assumes "h \<in> set (ids (halls (db w)))" and "m \<in> set (ids (movies (db w)))"
  shows "\<exists>t. let n = next_id (screenings (db w)); ns = map (\<lambda>j. n + int j) [0..<length ss] in
    hot_screenings clk (\<lambda>_. None) h m k ss w = (Inr (zip ns (map rid ss)), w\<lparr>db := (db w)\<lparr>screenings := t\<rparr>\<rparr>) \<and>
    rows t = rows (screenings (db w)) @ map (\<lambda>j. load_screening (clk (k + j)) h m (n + int j)) [0..<length ss]"
  using assms
proof (induction ss arbitrary: k w)
  case Nil
  then show ?case by (intro exI [of _ "screenings (db w)"]) (simp add: Let_def ret_run)
next
  case (Cons s ss)
  let ?n = "next_id (screenings (db w))"
  let ?t1 = "(screenings (db w))\<lparr>rows := rows (screenings (db w)) @ [load_screening (clk k) h m ?n], next_id := ?n + 1\<rparr>"
  let ?w1 = "w\<lparr>db := (db w)\<lparr>screenings := ?t1\<rparr>\<rparr>"
  obtain t where t: "hot_screenings clk (\<lambda>_. None) h m (k + 1) ss ?w1 =
      (Inr (zip (map (\<lambda>j. ?n + 1 + int j) [0..<length ss]) (map rid ss)), w\<lparr>db := (db w)\<lparr>screenings := t\<rparr>\<rparr>)"
    "rows t = rows ?t1 @ map (\<lambda>j. load_screening (clk (k + 1 + j)) h m (?n + 1 + int j)) [0..<length ss]"
    using Cons.IH [of ?w1 "k + 1"] Cons.prems by (auto simp: Let_def)
  have up: "map f [0..<Suc l] = f 0 # map (\<lambda>j. f (Suc j)) [0..<l]" for f :: "nat \<Rightarrow> 'b" and l
    by (simp add: map_upt_Suc del: upt_Suc)
  with t show ?case
    using insert_screening_run [OF Cons.prems, of "clk k"]
    by (intro exI [of _ t]) (simp add: Let_def await_def run_stmt_def ret_run up add.assoc del: upt_Suc)
qed

lemma insert_users_ok: "db_ok d \<Longrightarrow> insert_users (map (load_user h) is) d = Inr (us, d') \<Longrightarrow> db_ok d'"
proof (induction "is" arbitrary: d us)
  case (Cons i js)
  from Cons.prems(2) obtain u d1 us1 where "insert_user (load_user h i) d = Inr (u, d1)" "insert_users (map (load_user h) js) d1 = Inr (us1, d')"
    by (auto split: sum.splits prod.splits)
  with Cons.IH db_ok_insert_user [OF Cons.prems(1)] show ?case by (metis load_user_simps(1))
qed simp

lemma keeps_hot_screenings: "keeps_db db_ok (hot_screenings clk fault h m k ss)"
proof (induction ss arbitrary: k)
  case (Cons s ss)
  have "keeps_db db_ok (run_stmt f (insert_screening (load_screening now h m)))" for f now
    by (rule keeps_db_stmt) (erule (1) db_ok_insert_screening [rotated -1], simp)
  with Cons show ?case by (auto intro!: keeps_rules)
qed (auto intro: keeps_rules)

lemma keeps_load_seed [keeps_rules]: "keeps_db db_ok (load_seed h clk fault)"
proof -
  note ins = db_ok_insert_hall [rotated -1] db_ok_insert_movie [rotated -1] db_ok_insert_screening [rotated -1]
  have case_ok: "keeps_db db_ok (case ss of [] \<Rightarrow> throw e | s # _ \<Rightarrow> ret (f s))" for e and f :: "seat \<Rightarrow> load_output" and ss
    by (cases ss) (simp_all, (rule keeps_rules)+)
  show ?thesis
    unfolding load_seed_def
    by (intro keeps_rules keeps_hot_screenings keeps_db_stmt case_ok;
        (erule (1) insert_users_ok | erule (1) db_ok_insert_seats | erule (1) ins, simp add: load_movie_def))
qed

lemma seat_hall_bound:
  assumes "db_ok d" and "s \<in> set (rows (seats d))"
  shows "seat_hallId s < next_id (halls d)"
proof -
  have "seat_hallId s \<in> set (ids (halls d))" and "wf_table (halls d)" using assms by (simp_all add: db_ok_defs fk_defs)
  then show ?thesis by (auto simp: wf_table_def ids_def)
qed

lemma load_seat_hall:
  assumes "map seat_position ss = map (load_seat h) is" and "s \<in> set ss"
  shows "seat_hallId s = h"
proof -
  have "seat_position s \<in> set (map (load_seat h) is)" unfolding assms(1) [symmetric] using assms(2) by simp
  then show ?thesis by (auto simp: seat_position_def load_seat_def)
qed

lemma load_seats_run:
  assumes "db_ok d" and "seats d2 = seats d" and "next_id (halls d) \<in> set (ids (halls d2))"
  shows "\<exists>ss t. insert_seats (map (load_seat (next_id (halls d))) [0..<n]) d2 = Inr (ss, d2\<lparr>seats := t\<rparr>) \<and>
    map seat_position ss = map (load_seat (next_id (halls d))) [0..<n] \<and> rows t = rows (seats d) @ ss"
proof -
  have "seat_unique (seats d)" using assms(1) by (simp add: db_ok_defs)
  moreover have "load_seat (next_id (halls d)) i \<notin> seat_position ` set (rows (seats d))" for i
    using seat_hall_bound [OF assms(1)] by (fastforce simp: seat_position_def load_seat_def)
  ultimately show ?thesis
    using insert_seats_new [of d2 "map (load_seat (next_id (halls d))) [0..<n]"] assms(2,3) load_seat_inj
    by (auto simp: distinct_map inj_on_def load_seat_def)
qed

text \<open>The hall is new, so that its seats are the new ones.\<close>

lemma new_hall_seats:
  assumes "db_ok d" and "rows (seats d') = rows (seats d) @ ss" and "map seat_position ss = map (load_seat (next_id (halls d))) is"
  shows "filter (\<lambda>s. seat_hallId s = next_id (halls d)) (rows (seats d')) = ss"
proof -
  have "filter (\<lambda>s. seat_hallId s = next_id (halls d)) (rows (seats d)) = []"
    using seat_hall_bound [OF assms(1)] by (fastforce simp: filter_empty_conv)
  moreover have "seat_hallId s = next_id (halls d)" if "s \<in> set ss" for s by (rule load_seat_hall [OF assms(3) that])
  ultimately show ?thesis by (simp add: assms(2) filter_id_conv)
qed

lemma load_seed_run:
  assumes ok: "db_ok (db w)" and free: "\<And>i. load_email i \<notin> email ` set (rows (users (db w)))"
  defines "d \<equiv> db w" and "H \<equiv> next_id (halls (db w))" and "M \<equiv> next_id (movies (db w))" and "n \<equiv> next_id (screenings (db w))"
  obtains us ss w' where "load_seed h clk (\<lambda>_. None) w = (Inr \<lparr>lo_screeningId = n, lo_hotSeatId = rid (hd (take 21 (sort_key rid ss))),
      lo_hotScreenings = zip (map (\<lambda>j. n + 1 + int j) [0..<20]) (map rid (tl (take 21 (sort_key rid ss))))\<rparr>, w')"
    and "rows (users (db w')) = rows (users d) @ us" and "map (\<lambda>u. (email u, password u)) us = map (\<lambda>i. (load_email i, Some h)) [0..<2500]"
    and "rows (seats (db w')) = rows (seats d) @ ss" and "map seat_position ss = map (load_seat H) [0..<3000]"
    and "rows (screenings (db w')) = rows (screenings d) @ load_screening (clk 4) H M n #
      map (\<lambda>j. load_screening (clk (5 + j)) H M (n + 1 + int j)) [0..<20]"
    and "rows (movies (db w')) = rows (movies d) @ [load_movie (clk 3) M]" and "reservations (db w') = reservations d" and "db_ok (db w')"
proof -
  let ?hall = "\<lambda>n. \<lparr>rid = n, hall_name = ''Load Test Hall'', capacity = int SEAT_COUNT\<rparr>"
  have okd: "db_ok d" and dH: "next_id (halls d) = H" using ok by (simp_all add: d_def H_def)
  obtain us t1 where u: "insert_users (map (load_user h) [0..<USER_COUNT]) d = Inr (us, d\<lparr>users := t1\<rparr>)" "rows t1 = rows (users d) @ us"
    "map (\<lambda>u. (email u, password u)) us = map (\<lambda>i. (load_email i, Some h)) [0..<USER_COUNT]"
    using insert_users_run [OF okd, of "[0..<USER_COUNT]" h] free by (auto simp: d_def)
  let ?t2 = "(halls d)\<lparr>rows := rows (halls d) @ [?hall H], next_id := H + 1\<rparr>"
  let ?d2 = "d\<lparr>users := t1, halls := ?t2\<rparr>"
  have hl: "insert_hall ?hall (d\<lparr>users := t1\<rparr>) = Inr (?hall H, ?d2)"
    by (simp add: insert_hall_def on_table_def try_insert_def insert_row_def Let_def H_def d_def)
  have H: "H \<in> set (ids (halls ?d2))" by (simp add: ids_def)
  obtain ss t3 where st: "insert_seats (map (load_seat H) [0..<SEAT_COUNT]) ?d2 = Inr (ss, ?d2\<lparr>seats := t3\<rparr>)"
      "map seat_position ss = map (load_seat H) [0..<SEAT_COUNT]" "rows t3 = rows (seats d) @ ss"
    using load_seats_run [of d ?d2 SEAT_COUNT, unfolded dH, OF okd _ H] by auto
  let ?t4 = "(movies d)\<lparr>rows := rows (movies d) @ [load_movie (clk 3) M], next_id := M + 1\<rparr>"
  let ?d4 = "?d2\<lparr>seats := t3, movies := ?t4\<rparr>"
  have mv: "insert_movie (load_movie (clk 3)) (?d2\<lparr>seats := t3\<rparr>) = Inr (load_movie (clk 3) M, ?d4)"
    by (simp add: insert_movie_def on_table_def try_insert_def insert_row_def Let_def M_def d_def)
  have M: "M \<in> set (ids (movies ?d4))" by (simp add: ids_def load_movie_def)
  let ?t5 = "(screenings d)\<lparr>rows := rows (screenings d) @ [load_screening (clk 4) H M n], next_id := n + 1\<rparr>"
  let ?d5 = "?d4\<lparr>screenings := ?t5\<rparr>"
  have sc: "insert_screening (load_screening (clk 4) H M) ?d4 = Inr (load_screening (clk 4) H M n, ?d5)"
    using insert_screening_run [of H ?d4 M "clk 4"] H M by (simp add: n_def d_def)
  let ?fs = "take 21 (sort_key rid ss)"
  have "length ss = 3000" using arg_cong [OF st(2), of length] by (simp add: SEAT_COUNT_def)
  then obtain s0 fs where fs: "?fs = s0 # fs" "length fs = 20"
    by (cases ?fs) (auto dest: arg_cong [of _ _ length])
  have first: "first_seats H (HOT_SCREENING_COUNT + 1) ?d5 = s0 # fs"
    using new_hall_seats [of d ?d5 ss "[0..<SEAT_COUNT]"] ok st(2,3) fs(1)
    by (simp add: first_seats_def HOT_SCREENING_COUNT_def d_def H_def)
  let ?w5 = "w\<lparr>db := ?d5\<rparr>"
  obtain t6 where hot: "hot_screenings clk (\<lambda>_. None) H M 5 fs ?w5 =
      (Inr (zip (map (\<lambda>j. n + 1 + int j) [0..<20]) (map rid fs)), w\<lparr>db := ?d5\<lparr>screenings := t6\<rparr>\<rparr>)"
    "rows t6 = rows ?t5 @ map (\<lambda>j. load_screening (clk (5 + j)) H M (n + 1 + int j)) [0..<20]"
    using hot_screenings_run [of H ?w5 M fs clk 5] H M fs(2) by (auto simp: Let_def ids_def)
  let ?w' = "w\<lparr>db := ?d5\<lparr>screenings := t6\<rparr>\<rparr>"
  have run: "load_seed h clk (\<lambda>_. None) w = (Inr \<lparr>lo_screeningId = n, lo_hotSeatId = rid s0,
      lo_hotScreenings = zip (map (\<lambda>j. n + 1 + int j) [0..<20]) (map rid fs)\<rparr>, ?w')"
    using u(1) hl st(1) mv sc first hot(1)
    by (simp add: load_seed_def await_def run_stmt_def query_run ret_run d_def [symmetric] load_movie_def)
  moreover have "db_ok (db ?w')" using keeps_dbD [OF keeps_load_seed ok, of h clk "\<lambda>_. None"] by (simp add: run)
  ultimately show thesis
    by (intro that [of ss ?w' us]) (use fs(1) u(2,3) st(2,3) hot(2) in \<open>simp_all add: USER_COUNT_def SEAT_COUNT_def\<close>)
qed

subsection \<open>What the load tests find\<close>

lemma set_firsts:
  assumes "distinct xs" and "take n (sort_key f xs) = y # ys"
  shows "set (y # ys) \<subseteq> set xs" and "distinct (y # ys)"
proof -
  have "set (y # ys) \<subseteq> set (sort_key f xs)" unfolding assms(2) [symmetric] by (rule set_take_subset)
  then show "set (y # ys) \<subseteq> set xs" by simp
  show "distinct (y # ys)" unfolding assms(2) [symmetric] using assms(1) by (simp add: distinct_take)
qed

lemma load_user_there:
  assumes "map (\<lambda>u. (email u, password u)) us = map (\<lambda>i. (load_email i, Some h)) [0..<2500]" and "i < 2500"
  shows "\<exists>u \<in> set us. email u = load_email i \<and> password u = Some h"
proof -
  have "(load_email i, Some h) \<in> set (map (\<lambda>u. (email u, password u)) us)" unfolding assms(1) using assms(2) by simp
  then show ?thesis by auto
qed

lemma found_by_email: "distinct (map email xs) \<Longrightarrow> u \<in> set xs \<Longrightarrow> List.find (\<lambda>v. email v = email u) xs = Some u"
  for u :: user
  by (induction xs) (auto simp: image_iff)

text \<open>The fixture is what the contention test needs: on a database without load-test users the script succeeds and leaves it
  well-formed; each of the 2500 users has the common hash; the common screening and the twenty hot ones are different screenings, each
  with a seat of its own in the one new hall, and no reservation is made.\<close>

theorem load_seed_outcome:
  assumes ok: "db_ok (db w)" and free: "\<And>i. load_email i \<notin> email ` set (rows (users (db w)))"
  shows "\<exists>out w'. load_seed h clk (\<lambda>_. None) w = (Inr out, w') \<and> db_ok (db w') \<and> reservations (db w') = reservations (db w) \<and>
    (\<forall>i < 2500. \<exists>u \<in> set (rows (users (db w'))). email u = load_email i \<and> password u = Some h) \<and>
    length (lo_hotScreenings out) = 20 \<and>
    distinct (lo_screeningId out # map fst (lo_hotScreenings out)) \<and> distinct (lo_hotSeatId out # map snd (lo_hotScreenings out)) \<and>
    (\<forall>i \<in> set (lo_screeningId out # map fst (lo_hotScreenings out)). \<exists>s \<in> set (rows (screenings (db w'))).
       rid s = i \<and> scr_hallId s = next_id (halls (db w)) \<and> scr_status s = SCHEDULED) \<and>
    (\<forall>i \<in> set (lo_hotSeatId out # map snd (lo_hotScreenings out)). \<exists>s \<in> set (rows (seats (db w'))).
       rid s = i \<and> seat_hallId s = next_id (halls (db w)))"
proof -
  let ?H = "next_id (halls (db w))" and ?M = "next_id (movies (db w))" and ?n = "next_id (screenings (db w))"
  obtain us ss w' where run: "load_seed h clk (\<lambda>_. None) w = (Inr \<lparr>lo_screeningId = ?n, lo_hotSeatId = rid (hd (take 21 (sort_key rid ss))),
      lo_hotScreenings = zip (map (\<lambda>j. ?n + 1 + int j) [0..<20]) (map rid (tl (take 21 (sort_key rid ss))))\<rparr>, w')"
    and us: "rows (users (db w')) = rows (users (db w)) @ us" "map (\<lambda>u. (email u, password u)) us = map (\<lambda>i. (load_email i, Some h)) [0..<2500]"
    and ss: "rows (seats (db w')) = rows (seats (db w)) @ ss" "map seat_position ss = map (load_seat ?H) [0..<3000]"
    and sc: "rows (screenings (db w')) = rows (screenings (db w)) @ load_screening (clk 4) ?H ?M ?n #
      map (\<lambda>j. load_screening (clk (5 + j)) ?H ?M (?n + 1 + int j)) [0..<20]"
    and res: "reservations (db w') = reservations (db w)" and ok': "db_ok (db w')"
    by (rule load_seed_run [OF ok free, where h = h and clk = clk]) blast
  have "length ss = 3000" using arg_cong [OF ss(2), of length] by simp
  then obtain s0 fs where fs: "take 21 (sort_key rid ss) = s0 # fs" "length fs = 20"
    by (cases "take 21 (sort_key rid ss)") (auto dest: arg_cong [of _ _ length])
  have inj: "distinct (map rid ss)" using ok' by (simp add: db_ok_defs wf_table_def ids_def ss(1))
  have firsts: "set (s0 # fs) \<subseteq> set ss" "distinct (s0 # fs)"
    using set_firsts [OF _ fs(1)] inj by (auto simp: distinct_map)
  have dr: "distinct (map rid (s0 # fs))"
    using inj firsts by (auto simp: distinct_map inj_on_def)
  note hall = load_seat_hall [OF ss(2)]
  have user: "\<exists>u \<in> set (rows (users (db w'))). email u = load_email i \<and> password u = Some h" if "i < 2500" for i
    using load_user_there [OF us(2) that] by (auto simp: us(1))
  let ?out = "\<lparr>lo_screeningId = ?n, lo_hotSeatId = rid s0, lo_hotScreenings = zip (map (\<lambda>j. ?n + 1 + int j) [0..<20]) (map rid fs)\<rparr>"
  have out: "map fst (lo_hotScreenings ?out) = map (\<lambda>j. ?n + 1 + int j) [0..<20]" "map snd (lo_hotScreenings ?out) = map rid fs"
    using fs(2) by simp_all
  show ?thesis
  proof (intro exI conjI)
    show "load_seed h clk (\<lambda>_. None) w = (Inr ?out, w')" using run by (simp add: fs(1))
    show "distinct (lo_screeningId ?out # map fst (lo_hotScreenings ?out))" unfolding out by (auto simp: distinct_map inj_on_def)
    show "distinct (lo_hotSeatId ?out # map snd (lo_hotScreenings ?out))" unfolding out using dr by simp
    show "\<forall>i \<in> set (lo_screeningId ?out # map fst (lo_hotScreenings ?out)). \<exists>s \<in> set (rows (screenings (db w'))).
       rid s = i \<and> scr_hallId s = ?H \<and> scr_status s = SCHEDULED"
      unfolding out by (auto simp: sc intro!: UnI2 imageI bexI [of _ "load_screening (clk (5 + j)) ?H ?M (?n + 1 + int j)" for j])
    show "\<forall>i \<in> set (lo_hotSeatId ?out # map snd (lo_hotScreenings ?out)). \<exists>s \<in> set (rows (seats (db w'))).
       rid s = i \<and> seat_hallId s = ?H" unfolding out using firsts(1) hall by (fastforce simp: ss(1))
  qed (use ok' res user fs(2) in simp_all)
qed

text \<open>But its schedule is one that the service itself refuses: all 21 screenings run in the one hall at the same time, as long as
  the script takes less than the two hours of the movie.\<close>

theorem load_schedule_overlaps:
  assumes ok: "db_ok (db w)" and free: "\<And>i. load_email i \<notin> email ` set (rows (users (db w)))" and "\<bar>clk 4 - clk 5\<bar> < 7200000"
  shows "\<exists>out w'. load_seed h clk (\<lambda>_. None) w = (Inr out, w') \<and> \<not> schedule_ok (db w')"
proof -
  let ?H = "next_id (halls (db w))" and ?M = "next_id (movies (db w))" and ?n = "next_id (screenings (db w))"
  obtain us ss w' out where run: "load_seed h clk (\<lambda>_. None) w = (Inr out, w')"
    and sc: "rows (screenings (db w')) = rows (screenings (db w)) @ load_screening (clk 4) ?H ?M ?n #
      map (\<lambda>j. load_screening (clk (5 + j)) ?H ?M (?n + 1 + int j)) [0..<20]"
    and mv: "rows (movies (db w')) = rows (movies (db w)) @ [load_movie (clk 3) ?M]" and ok': "db_ok (db w')"
    by (rule load_seed_run [OF ok free, where h = h and clk = clk]) blast
  let ?a = "load_screening (clk 4) ?H ?M ?n" and ?b = "load_screening (clk 5) ?H ?M (?n + 1)"
  have "find_row ?M (movies (db w')) = Some (load_movie (clk 3) ?M)"
    using ok' mv by (simp add: find_row_iff db_ok_defs load_movie_def)
  then have dur: "movie_duration (db w') ?M = 120" by (simp add: movie_duration_def load_movie_def)
  have "(\<lambda>j. load_screening (clk (5 + j)) ?H ?M (?n + 1 + int j)) 0 \<in> (\<lambda>j. load_screening (clk (5 + j)) ?H ?M (?n + 1 + int j)) ` {0..<20}"
    by (rule imageI) simp
  then have "?a \<in> set (rows (screenings (db w')))" "?b \<in> set (rows (screenings (db w')))" by (simp_all add: sc)
  moreover have "max (startTime ?a) (startTime ?b) \<in> slot (db w') ?a \<inter> slot (db w') ?b"
    using assms(3) by (auto simp: slot_def scr_end_def dur)
  ultimately have "\<not> schedule_ok (db w')"
    unfolding schedule_ok_def by (fastforce dest: bspec [of _ _ ?a] bspec [of _ _ ?b])
  with run show ?thesis by blast
qed

lemma load_login_refused:
  assumes "db_ok (db w)" and "\<And>i. load_email i \<notin> email ` set (rows (users (db w)))" and "i < 2500"
    and "argon2_verify env h LOAD_TEST_PASSWORD \<noteq> Inr True"
  shows "\<exists>out w' x w2. load_seed h clk (\<lambda>_. None) w = (Inr out, w') \<and> localStrategy env (load_email i) LOAD_TEST_PASSWORD w' = (Inl x, w2)"
proof -
  obtain us out w' where run: "load_seed h clk (\<lambda>_. None) w = (Inr out, w')" and ok: "db_ok (db w')"
    and us: "rows (users (db w')) = rows (users (db w)) @ us" "map (\<lambda>u. (email u, password u)) us = map (\<lambda>i. (load_email i, Some h)) [0..<2500]"
    by (rule load_seed_run [OF assms(1,2), where h = h and clk = clk]) blast
  obtain u where u: "u \<in> set (rows (users (db w')))" "email u = load_email i" "password u = Some h"
    using load_user_there [OF us(2) assms(3)] by (auto simp: us(1))
  have "distinct (map email (rows (users (db w'))))" using ok by (simp add: db_ok_defs user_unique_def)
  then have "user_by_email (load_email i) (db w') = Some u"
    unfolding user_by_email_def u(2) [symmetric] using u(1) by (intro found_by_email)
  then have "\<exists>x w2. validateUser env (load_email i) LOAD_TEST_PASSWORD w' = (Inl x, w2)"
    using assms(4) u(3) by (auto simp: validate_run split: sum.split)
  moreover have "load_email i \<noteq> []" "LOAD_TEST_PASSWORD \<noteq> []" by (simp_all add: load_email_def LOAD_TEST_PASSWORD_def)
  ultimately have "\<exists>x w2. localStrategy env (load_email i) LOAD_TEST_PASSWORD w' = (Inl x, w2)"
    by (simp add: localStrategy_def)
  with run show ?thesis by blast
qed

text \<open>And none of its users can sign in: \<open>processor.js\<close> starts every scenario with a login, but the service verifies passwords with argon2,
  which does not accept the hash of bcrypt.\<close>

theorem load_users_locked_out:
  assumes "db_ok (db w)" and "\<And>i. load_email i \<notin> email ` set (rows (users (db w)))" and "i < 2500"
    and "argon2_verify env h LOAD_TEST_PASSWORD \<noteq> Inr True"
  shows "\<exists>out w' x w2. load_seed h clk (\<lambda>_. None) w = (Inr out, w') \<and> auth_login env (load_email i) LOAD_TEST_PASSWORD w' = (Inl x, w2)"
proof -
  from load_login_refused [OF assms] obtain out w' x w2 where "load_seed h clk (\<lambda>_. None) w = (Inr out, w')"
    "localStrategy env (load_email i) LOAD_TEST_PASSWORD w' = (Inl x, w2)" by blast
  then show ?thesis by (auto simp: auth_login_def await_def)
qed

subsection \<open>The properties on the sample database\<close>

lemma sample_no_load_users: "load_email i \<notin> email ` set (rows (users (db (world_of sample_db))))"
  by (auto simp: world_of_def sample_db_def sample_user_def load_email_def sample_char)

theorem load_seed_outcome_witness:
  "\<exists>out w'. load_seed ''$2b$'' (\<lambda>_. 0) (\<lambda>_. None) (world_of sample_db) = (Inr out, w') \<and> length (lo_hotScreenings out) = 20"
  using load_seed_outcome [of "world_of sample_db" "''$2b$''" "\<lambda>_. 0"] sample_no_load_users sample_db_ok
  by (auto simp: world_of_def)

theorem load_schedule_overlaps_witness:
  "\<exists>out w'. load_seed ''$2b$'' (\<lambda>_. 0) (\<lambda>_. None) (world_of sample_db) = (Inr out, w') \<and> \<not> schedule_ok (db w')"
  using load_schedule_overlaps [of "world_of sample_db" "\<lambda>_. 0" "''$2b$''"] sample_no_load_users sample_db_ok
  by (auto simp: world_of_def)

theorem load_users_locked_out_witness:
  "\<exists>out w' x w2. load_seed ''$2b$LoadTest123!'' (\<lambda>_. 0) (\<lambda>_. None) (world_of sample_db) = (Inr out, w') \<and>
     auth_login sample_auth (load_email 7) LOAD_TEST_PASSWORD w' = (Inl x, w2)"
  using load_users_locked_out [of "world_of sample_db" 7 sample_auth "''$2b$LoadTest123!''" "\<lambda>_. 0"] sample_no_load_users sample_db_ok
  by (auto simp: world_of_def sample_auth_def)

end
