(* ===== verification/RateLimiter.thy ===== *)
theory RateLimiter
  imports KeyStore
begin

text \<open>
  Rate limiting: the Lua script and the service of \<open>redis/rate-limiter.service.ts\<close>, the per-user
  guard of \<open>common/guards/rate-limit.guard.ts\<close> and the per-address middleware of
  \<open>common/middleware/ip-rate-limit.middleware.ts\<close>.

  The state is the map from Redis keys to sorted sets. The script runs atomically, so a run of
  requests on one key is a list of \<open>(Date.now(), randomUUID())\<close> pairs; \<open>admitted\<close> is the list of the
  times it lets through. \<open>window_spec\<close> is the contract of a sliding window: a request passes when
  fewer than the maximum passed in the window that ends with it. The script is shown to implement
  that contract, its trimming and its \<open>PEXPIRE\<close> included.
\<close>

subsection \<open>The script and the service\<close>

record rate_result =
  allowed :: bool
  remaining :: int
  resetAfterMs :: int

type_synonym zkeys = "(string, zset) keys"

definition zget :: "ms \<Rightarrow> string \<Rightarrow> zkeys \<Rightarrow> zset" where
  "zget now key m = (case key_get now key m of None \<Rightarrow> [] | Some z \<Rightarrow> z)"

text \<open>A command that changes a sorted set leaves the expiry of its key; an empty set has no key.\<close>

definition zput :: "ms \<Rightarrow> string \<Rightarrow> zset \<Rightarrow> zkeys \<Rightarrow> zkeys" where
  "zput now key z m =
     (case m key of
        None \<Rightarrow> m
      | Some e \<Rightarrow> if expired now e \<or> z = [] then m(key := None) else m(key \<mapsto> (z, snd e)))"

definition rate_script ::
  "ms \<Rightarrow> int \<Rightarrow> int \<Rightarrow> string \<Rightarrow> string \<Rightarrow> zkeys \<Rightarrow> (int \<times> int \<times> int) \<times> zkeys" where
  "rate_script now windowSize maxRequests mem key m =
     (let windowStart = now - windowSize;
          z = zremrangebyscore 0 windowStart (zget now key m);
          count = zcard z
      in if count < maxRequests
         then ((1, maxRequests - count - 1, windowSize),
               m(key \<mapsto> (zadd now mem z, Some (now + windowSize))))
         else ((0, 0, (case zoldest z of
                         None \<Rightarrow> 0
                       | Some s \<Rightarrow> if s + windowSize - now < 0 then 0 else s + windowSize - now)),
               zput now key z m))"

definition rateLimiter ::
  "string \<Rightarrow> int \<Rightarrow> int \<Rightarrow> ms \<Rightarrow> string \<Rightarrow> zkeys \<Rightarrow> rate_result \<times> zkeys" where
  "rateLimiter key windowSize maxRequests now mem m =
     (case rate_script now windowSize maxRequests mem key m of
        ((flag, rem, reset), m') \<Rightarrow>
          (\<lparr>allowed = (flag = 1), remaining = rem, resetAfterMs = reset\<rparr>, m'))"

subsection \<open>The guard and the middleware\<close>

record rate_rule =
  points :: int
  rule_duration :: int
  rule_key :: string

datatype gate = Pass | Blocked int \<comment> \<open>429 with the value of the \<open>Retry-After\<close> header\<close>

text \<open>\<open>Math.ceil(ms / 1000)\<close>.\<close>

definition ceil_seconds :: "int \<Rightarrow> int" where
  "ceil_seconds n = - ((- n) div 1000)"

text \<open>The guard: \<open>config\<close> is the metadata of the route, \<open>uid\<close> the id of \<open>req.user\<close> when there is one.\<close>

definition user_rate_key :: "int option \<Rightarrow> string \<Rightarrow> string" where
  "user_rate_key uid k =
     ''rate_limit:user:'' @ (case uid of None \<Rightarrow> ''undefined'' | Some i \<Rightarrow> string_of_int i) @ '':'' @ k"

definition rate_guard ::
  "rate_rule option \<Rightarrow> int option \<Rightarrow> ms \<Rightarrow> string \<Rightarrow> zkeys \<Rightarrow> gate \<times> zkeys" where
  "rate_guard config uid now mem m =
     (case config of
        None \<Rightarrow> (Pass, m)
      | Some c \<Rightarrow>
          (case rateLimiter (user_rate_key uid (rule_key c)) (rule_duration c) (points c) now mem m of
             (r, m') \<Rightarrow> (if allowed r then Pass else Blocked (ceil_seconds (resetAfterMs r)), m')))"

text \<open>
  The rules of the middleware; \<open>login_limit\<close> is \<open>Number(process.env.LOGIN_RATE_LIMIT)\<close>, \<open>None\<close> for
  \<open>NaN\<close>, and \<open>|| 5\<close> replaces \<open>NaN\<close> and \<open>0\<close>.
\<close>

definition ip_rules :: "int option \<Rightarrow> (string \<times> rate_rule) list" where
  "ip_rules login_limit =
     [(''POST /auth/login'',
         \<lparr>points = (case login_limit of None \<Rightarrow> 5 | Some n \<Rightarrow> if n = 0 then 5 else n),
          rule_duration = 15 * 60000, rule_key = ''auth:login''\<rparr>),
      (''GET /movies'', \<lparr>points = 60, rule_duration = 60000, rule_key = ''movies:browse''\<rparr>),
      (''POST /auth/register'', \<lparr>points = 3, rule_duration = 60000, rule_key = ''auth:register''\<rparr>),
      (''POST /auth/verify-otp'', \<lparr>points = 10, rule_duration = 60000, rule_key = ''auth:verify-otp''\<rparr>),
      (''POST /auth/resend-otp'', \<lparr>points = 3, rule_duration = 60000, rule_key = ''auth:resend-otp''\<rparr>),
      (''POST /auth/refresh'', \<lparr>points = 10, rule_duration = 60000, rule_key = ''auth:refresh''\<rparr>)]"

definition route_path :: "string \<Rightarrow> string" where
  "route_path path =
     (if take (length ''/api/v1'') path = ''/api/v1'' then drop (length ''/api/v1'') path else path)"

definition ip_middleware ::
  "int option \<Rightarrow> string \<Rightarrow> string \<Rightarrow> string \<Rightarrow> ms \<Rightarrow> string \<Rightarrow> zkeys \<Rightarrow> gate \<times> zkeys" where
  "ip_middleware login_limit meth path ip now mem m =
     (case map_of (ip_rules login_limit) (meth @ '' '' @ route_path path) of
        None \<Rightarrow> (Pass, m)
      | Some rule \<Rightarrow>
          (case rateLimiter (''rate_limit:ip:'' @ ip @ '':'' @ rule_key rule)
                  (rule_duration rule) (points rule) now mem m of
             (r, m') \<Rightarrow> (if allowed r then Pass else Blocked (ceil_seconds (resetAfterMs r)), m')))"

subsection \<open>Runs and the contract\<close>

fun admitted :: "string \<Rightarrow> int \<Rightarrow> int \<Rightarrow> zkeys \<Rightarrow> (ms \<times> string) list \<Rightarrow> ms list" where
  "admitted key w mx m [] = []"
| "admitted key w mx m ((t, mem) # rs) =
     (case rateLimiter key w mx t mem m of
        (r, m') \<Rightarrow> (if allowed r then [t] else []) @ admitted key w mx m' rs)"

fun limiter_state :: "string \<Rightarrow> int \<Rightarrow> int \<Rightarrow> zkeys \<Rightarrow> (ms \<times> string) list \<Rightarrow> zkeys" where
  "limiter_state key w mx m [] = m"
| "limiter_state key w mx m ((t, mem) # rs) =
     limiter_state key w mx (snd (rateLimiter key w mx t mem m)) rs"

fun window_spec :: "int \<Rightarrow> int \<Rightarrow> ms list \<Rightarrow> ms list \<Rightarrow> ms list" where
  "window_spec w mx hist [] = []"
| "window_spec w mx hist (t # ts) =
     (if int (length (filter (\<lambda>s. t - w < s) hist)) < mx
      then t # window_spec w mx (hist @ [t]) ts
      else window_spec w mx hist ts)"

text \<open>A run: request times do not go back, and every request has its own member.\<close>

definition request_run :: "(ms \<times> string) list \<Rightarrow> bool" where
  "request_run rs \<longleftrightarrow> sorted (map fst rs) \<and> distinct (map snd rs) \<and> (\<forall>r \<in> set rs. 0 \<le> fst r)"

subsection \<open>The script implements the contract\<close>

definition scores :: "ms \<Rightarrow> string \<Rightarrow> zkeys \<Rightarrow> int list" where
  "scores now key m = map snd (zget now key m)"

text \<open>
  The relation between the key and the times admitted so far: whatever later moment one looks at,
  the live scores inside the window are the admitted times inside it.
\<close>

definition in_sync :: "string \<Rightarrow> int \<Rightarrow> ms \<Rightarrow> string set \<Rightarrow> zkeys \<Rightarrow> ms list \<Rightarrow> bool" where
  "in_sync key w t used m hist \<longleftrightarrow>
     (\<forall>t' \<ge> t. filter (\<lambda>s. t' - w < s) (scores t' key m) = filter (\<lambda>s. t' - w < s) hist) \<and>
     (\<forall>s \<in> set hist. s \<le> t) \<and>
     (\<forall>t' \<ge> t. \<forall>s \<in> set (scores t' key m). 0 \<le> s \<and> s \<le> t) \<and>
     (\<forall>e. m key = Some e \<longrightarrow> fst ` set (fst e) \<subseteq> used)"

lemma filter_later:
  "t \<le> (t'::int) \<Longrightarrow> filter (\<lambda>s. t - w < s \<and> t' - w < s) xs = filter (\<lambda>s. t' - w < s) xs"
  by (induction xs) auto

lemma trimmed_scores:
  assumes "in_sync key w t used m hist" and "t \<le> now"
  shows "map snd (zremrangebyscore 0 (now - w) (zget now key m)) = filter (\<lambda>s. now - w < s) hist"
proof -
  have "map snd (zremrangebyscore 0 (now - w) (zget now key m)) =
      filter (\<lambda>s. \<not> (0 \<le> s \<and> s \<le> now - w)) (scores now key m)"
    by (simp add: map_snd_zrem scores_def)
  also have "\<dots> = filter (\<lambda>s. now - w < s) (scores now key m)"
    using assms by (intro filter_cong) (auto simp: in_sync_def)
  finally show ?thesis using assms by (simp add: in_sync_def)
qed

lemma trimmed_count:
  assumes "in_sync key w t used m hist" and "t \<le> now"
  shows "zcard (zremrangebyscore 0 (now - w) (zget now key m)) =
    int (length (filter (\<lambda>s. now - w < s) hist))"
  using arg_cong [OF trimmed_scores [OF assms], of length] by (simp add: zcard_def)

lemma zget_used:
  assumes "in_sync key w t used m hist"
  shows "fst ` set (zget now key m) \<subseteq> used"
  using assms by (auto simp: in_sync_def zget_def key_get_def split: option.splits if_splits)

lemma trimmed_used:
  assumes "in_sync key w t used m hist"
  shows "fst ` set (zremrangebyscore 0 b (zget now key m)) \<subseteq> used"
  by (rule subset_trans [OF fst_zrem zget_used [OF assms]])

lemma in_sync_mono: "in_sync key w t used m hist \<Longrightarrow> used \<subseteq> used' \<Longrightarrow> in_sync key w t used' m hist"
  unfolding in_sync_def by (meson subset_trans)

lemma in_sync_empty: "in_sync key w t {} Map.empty []"
  by (simp add: in_sync_def scores_def zget_def key_simps)

lemma allowed_iff:
  assumes "in_sync key w t used m hist" and "t \<le> now"
  shows "allowed (fst (rateLimiter key w mx now mem m)) \<longleftrightarrow>
    int (length (filter (\<lambda>s. now - w < s) hist)) < mx"
  using trimmed_count [OF assms]
  by (simp add: rateLimiter_def rate_script_def Let_def)

lemma window_nonneg:
  assumes "in_sync key w t used m hist" and "t \<le> now"
  shows "\<forall>s \<in> set (filter (\<lambda>s. now - w < s) hist). 0 \<le> s"
proof -
  have "filter (\<lambda>s. now - w < s) hist = filter (\<lambda>s. now - w < s) (scores now key m)"
    and "\<forall>s \<in> set (scores now key m). 0 \<le> s"
    using assms by (simp_all add: in_sync_def)
  then show ?thesis by auto
qed

text \<open>What a reader sees later after a trimmed set was written back: the key keeps its expiry.\<close>

lemma scores_trimmed:
  assumes "now \<le> t'"
  shows "scores t' key (zput now key (zremrangebyscore 0 b (zget now key m)) m) =
    (if scores t' key m = [] then [] else map snd (zremrangebyscore 0 b (zget now key m)))"
proof (cases "m key")
  case None
  then show ?thesis by (simp add: scores_def zget_def zput_def key_get_def)
next
  case (Some e)
  show ?thesis
  proof (cases "expired now e")
    case True
    then have "expired t' e" using assms by (auto simp: expired_def split: option.splits)
    with Some True show ?thesis by (simp add: scores_def zget_def zput_def key_get_def)
  next
    case False
    with Some show ?thesis
      by (cases "fst e = []")
        (auto simp: scores_def zget_def zput_def key_get_def expired_def zremrangebyscore_def split: option.splits)
  qed
qed

lemma in_sync_admit:
  assumes sync: "in_sync key w t used m hist" and later: "t \<le> now" "0 \<le> now" and fresh: "mem \<notin> used"
    and ok: "int (length (filter (\<lambda>s. now - w < s) hist)) < mx"
  shows "in_sync key w now (insert mem used) (snd (rateLimiter key w mx now mem m)) (hist @ [now])"
proof -
  let ?z = "zremrangebyscore 0 (now - w) (zget now key m)"
  have st: "snd (rateLimiter key w mx now mem m) = m(key \<mapsto> (zadd now mem ?z, Some (now + w)))"
    using trimmed_count [OF sync later(1)] ok by (simp add: rateLimiter_def rate_script_def Let_def)
  have notin: "mem \<notin> fst ` set ?z"
    using fresh trimmed_used [OF sync] by blast
  have new: "map snd (zadd now mem ?z) = filter (\<lambda>s. now - w < s) hist @ [now]"
    using notin by (simp add: map_snd_zadd_fresh trimmed_scores [OF sync later(1)])
  have live: "scores t' key (m(key \<mapsto> (zadd now mem ?z, Some (now + w)))) =
      (if now + w < t' then [] else filter (\<lambda>s. now - w < s) hist @ [now])" for t'
    using new by (simp add: scores_def zget_def key_get_def expired_def)
  have old: "\<forall>s \<in> set hist. s \<le> t" using sync by (simp add: in_sync_def)
  note nonneg = window_nonneg [OF sync later(1)]
  show ?thesis
    unfolding in_sync_def st
  proof (intro conjI allI impI)
    fix t' assume t': "now \<le> t'"
    show "filter (\<lambda>s. t' - w < s) (scores t' key (m(key \<mapsto> (zadd now mem ?z, Some (now + w))))) =
      filter (\<lambda>s. t' - w < s) (hist @ [now])"
    proof (cases "now + w < t'")
      case True
      then have "filter (\<lambda>s. t' - w < s) (hist @ [now]) = []"
        using old later by (auto simp: filter_empty_conv)
      with True show ?thesis by (simp add: live)
    next
      case False
      with t' show ?thesis by (simp add: live filter_later)
    qed
    show "\<forall>s \<in> set (scores t' key (m(key \<mapsto> (zadd now mem ?z, Some (now + w))))). 0 \<le> s \<and> s \<le> now"
      using nonneg old later by (auto simp: live)
  next
    show "\<forall>s \<in> set (hist @ [now]). s \<le> now" using old later by auto
  next
    fix e assume "(m(key \<mapsto> (zadd now mem ?z, Some (now + w)))) key = Some e"
    then have "fst e = zadd now mem ?z" by auto
    then show "fst ` set (fst e) \<subseteq> insert mem used"
      using trimmed_used [OF sync, of "now - w" now] by (simp add: fst_zadd subset_insertI2)
  qed
qed

lemma in_sync_reject:
  assumes sync: "in_sync key w t used m hist" and later: "t \<le> now"
    and no: "\<not> int (length (filter (\<lambda>s. now - w < s) hist)) < mx"
  shows "in_sync key w now used (snd (rateLimiter key w mx now mem m)) hist"
proof -
  let ?z = "zremrangebyscore 0 (now - w) (zget now key m)"
  have st: "snd (rateLimiter key w mx now mem m) = zput now key ?z m"
    using trimmed_count [OF sync later] no by (simp add: rateLimiter_def rate_script_def Let_def)
  have live: "scores t' key (zput now key ?z m) =
      (if scores t' key m = [] then [] else filter (\<lambda>s. now - w < s) hist)" if t': "now \<le> t'" for t'
    by (simp only: scores_trimmed [OF t'] trimmed_scores [OF sync later])
  have old: "\<forall>s \<in> set hist. s \<le> t" using sync by (simp add: in_sync_def)
  note nonneg = window_nonneg [OF sync later]
  show ?thesis
    unfolding in_sync_def st
  proof (intro conjI allI impI)
    fix t' assume t': "now \<le> t'"
    have eq: "filter (\<lambda>s. t' - w < s) (scores t' key m) = filter (\<lambda>s. t' - w < s) hist"
      using sync t' later by (simp add: in_sync_def)
    show "filter (\<lambda>s. t' - w < s) (scores t' key (zput now key ?z m)) = filter (\<lambda>s. t' - w < s) hist"
      using eq t' by (cases "scores t' key m = []") (simp_all add: live filter_later)
    show "\<forall>s \<in> set (scores t' key (zput now key ?z m)). 0 \<le> s \<and> s \<le> now"
      using nonneg old later t' by (auto simp: live)
  next
    show "\<forall>s \<in> set hist. s \<le> now" using old later by auto
  next
    fix e assume "zput now key ?z m key = Some e"
    then have "fst e = ?z" by (auto simp: zput_def split: option.splits if_splits)
    then show "fst ` set (fst e) \<subseteq> used" using trimmed_used [OF sync] by simp
  qed
qed

lemma admitted_spec:
  assumes "in_sync key w t used m hist" and "sorted (map fst rs)" and "distinct (map snd rs)"
    and "\<forall>r \<in> set rs. t \<le> fst r \<and> 0 \<le> fst r \<and> snd r \<notin> used"
  shows "admitted key w mx m rs = window_spec w mx hist (map fst rs)"
  using assms
proof (induction rs arbitrary: t used m hist)
  case Nil
  then show ?case by simp
next
  case (Cons r rs)
  obtain now mem where r: "r = (now, mem)" by (cases r)
  let ?ok = "int (length (filter (\<lambda>s. now - w < s) hist)) < mx"
  let ?m' = "snd (rateLimiter key w mx now mem m)"
  have later: "t \<le> now" "0 \<le> now" "mem \<notin> used" using Cons.prems(4) r by auto
  have al: "allowed (fst (rateLimiter key w mx now mem m)) \<longleftrightarrow> ?ok"
    by (rule allowed_iff [OF Cons.prems(1) later(1)])
  have rest: "admitted key w mx ?m' rs = window_spec w mx (if ?ok then hist @ [now] else hist) (map fst rs)"
  proof (cases ?ok)
    case True
    have "in_sync key w now (insert mem used) ?m' (hist @ [now])"
      by (rule in_sync_admit [OF Cons.prems(1) later True])
    from Cons.IH [OF this] Cons.prems(2-4) r True show ?thesis by auto
  next
    case False
    have "in_sync key w now used ?m' hist"
      by (rule in_sync_reject [OF Cons.prems(1) later(1) False])
    from Cons.IH [OF this] Cons.prems(2-4) r False show ?thesis by auto
  qed
  from al rest show ?case by (auto simp: r split: prod.split)
qed

text \<open>The contract itself bounds every window, not only those that end at a request.\<close>

lemma window_spec_bound:
  assumes "\<And>u. int (length (filter (\<lambda>s. u - w < s \<and> s \<le> u) hist)) \<le> mx" and "0 \<le> mx"
    and "sorted ts" and "\<forall>s \<in> set hist. \<forall>t \<in> set ts. s \<le> t"
  shows "int (length (filter (\<lambda>s. u - w < s \<and> s \<le> u) (hist @ window_spec w mx hist ts))) \<le> mx"
  using assms
proof (induction ts arbitrary: hist)
  case Nil
  then show ?case by simp
next
  case (Cons t ts)
  show ?case
  proof (cases "int (length (filter (\<lambda>s. t - w < s) hist)) < mx")
    case True
    have bound: "int (length (filter (\<lambda>s. v - w < s \<and> s \<le> v) (hist @ [t]))) \<le> mx" for v
    proof (cases "v - w < t \<and> t \<le> v")
      case True
      have "length (filter (\<lambda>s. v - w < s \<and> s \<le> v) hist) \<le> length (filter (\<lambda>s. t - w < s) hist)"
        using True by (intro length_filter_mono) auto
      with \<open>int (length (filter (\<lambda>s. t - w < s) hist)) < mx\<close> True show ?thesis by simp
    next
      case False
      with Cons.prems(1) [of v] show ?thesis by auto
    qed
    have "int (length (filter (\<lambda>s. u - w < s \<and> s \<le> u)
      ((hist @ [t]) @ window_spec w mx (hist @ [t]) ts))) \<le> mx"
      by (rule Cons.IH [OF bound Cons.prems(2)]) (use Cons.prems(3,4) in auto)
    with True show ?thesis by simp
  next
    case False
    with Cons.IH [OF Cons.prems(1,2)] Cons.prems(3,4) show ?thesis by auto
  qed
qed

subsection \<open>States a run reaches\<close>

lemma in_sync_run:
  assumes "in_sync key w t used m hist" and "sorted (map fst rs)" and "distinct (map snd rs)"
    and "\<forall>r \<in> set rs. t \<le> fst r \<and> 0 \<le> fst r \<and> snd r \<notin> used"
    and "\<forall>r \<in> set rs. fst r \<le> b" and "t \<le> b"
  shows "in_sync key w (if rs = [] then t else fst (last rs)) (used \<union> snd ` set rs)
    (limiter_state key w mx m rs) (hist @ admitted key w mx m rs)"
  using assms
proof (induction rs arbitrary: t used m hist)
  case Nil
  then show ?case by simp
next
  case (Cons r rs)
  obtain now mem where r: "r = (now, mem)" by (cases r)
  let ?ok = "int (length (filter (\<lambda>s. now - w < s) hist)) < mx"
  let ?m' = "snd (rateLimiter key w mx now mem m)"
  let ?h' = "hist @ (if ?ok then [now] else [])"
  have later: "t \<le> now" "0 \<le> now" "mem \<notin> used" using Cons.prems(4) r by auto
  have al: "allowed (fst (rateLimiter key w mx now mem m)) \<longleftrightarrow> ?ok"
    by (rule allowed_iff [OF Cons.prems(1) later(1)])
  have sync: "in_sync key w now (insert mem used) ?m' ?h'"
  proof (cases ?ok)
    case True
    then show ?thesis using in_sync_admit [OF Cons.prems(1) later True] by simp
  next
    case False
    then have "in_sync key w now used ?m' hist"
      using in_sync_reject [OF Cons.prems(1) later(1) False] by simp
    then have "in_sync key w now (insert mem used) ?m' hist"
      by (rule in_sync_mono) blast
    with False show ?thesis by simp
  qed
  have "in_sync key w (if rs = [] then now else fst (last rs)) (insert mem used \<union> snd ` set rs)
    (limiter_state key w mx ?m' rs) (?h' @ admitted key w mx ?m' rs)"
    by (rule Cons.IH [OF sync]) (use Cons.prems r in auto)
  with al show ?case by (auto simp: r split: prod.splits)
qed

text \<open>A client that is turned away is told how long until the oldest admitted request leaves.\<close>

lemma retry_admitted:
  assumes sync: "in_sync key w t used m hist" and later: "t \<le> now"
    and count: "int (length (filter (\<lambda>s. now - w < s) hist)) \<le> mx" and mx: "1 \<le> mx"
    and no: "\<not> allowed (fst (rateLimiter key w mx now mem m))"
    and r: "reset = resetAfterMs (fst (rateLimiter key w mx now mem m))"
    and t2: "now + reset \<le> t2"
  shows "0 < reset \<and> reset \<le> w \<and>
    allowed (fst (rateLimiter key w mx t2 mem2 (snd (rateLimiter key w mx now mem m))))"
proof -
  let ?f = "filter (\<lambda>s. now - w < s) hist"
  let ?z = "zremrangebyscore 0 (now - w) (zget now key m)"
  have nok: "\<not> int (length ?f) < mx"
    using no allowed_iff [OF sync later] by simp
  have tr: "map snd ?z = ?f" by (rule trimmed_scores [OF sync later])
  have ne: "?f \<noteq> []" using nok mx by auto
  then have zne: "?z \<noteq> []" using tr by auto
  then obtain s where s: "zoldest ?z = Some s" using zoldest_None by fastforce
  have smem: "s \<in> set ?f" and smin: "\<forall>x \<in> set ?f. s \<le> x"
    using zoldest_Some [OF s] by (simp_all only: tr)
  have srange: "now - w < s" "s \<le> t"
    using smem sync by (auto simp: in_sync_def)
  have reset: "reset = s + w - now"
    using r nok trimmed_count [OF sync later] s srange
    by (simp add: rateLimiter_def rate_script_def Let_def)
  have t2': "s + w \<le> t2" "now \<le> t2" using t2 reset srange by auto
  have sync2: "in_sync key w now used (snd (rateLimiter key w mx now mem m)) hist"
    by (rule in_sync_reject [OF sync later nok])
  have "length (filter (\<lambda>x. t2 - w < x) hist) < length ?f"
  proof -
    have "filter (\<lambda>x. t2 - w < x) hist = filter (\<lambda>x. t2 - w < x) ?f"
      using t2' by (simp add: filter_later)
    moreover have "length (filter (\<lambda>x. t2 - w < x) ?f) < length ?f"
      using smem t2' by (intro length_filter_less [of s]) auto
    ultimately show ?thesis by simp
  qed
  then have "allowed (fst (rateLimiter key w mx t2 mem2 (snd (rateLimiter key w mx now mem m))))"
    using count allowed_iff [OF sync2 t2'(2)] by simp
  with reset srange later show ?thesis by simp
qed

lemma ceil_seconds_ge: "n \<le> 1000 * ceil_seconds n"
  unfolding ceil_seconds_def by linarith

lemma window_spec_le:
  assumes "sorted ts" and "\<forall>t \<in> set ts. t \<le> u" and "0 \<le> mx"
  shows "int (length (filter (\<lambda>s. u - w < s) (window_spec w mx [] ts))) \<le> mx"
proof -
  have sub: "set (window_spec w mx h ts) \<subseteq> set ts" for h
    by (induction ts arbitrary: h) auto
  then have "filter (\<lambda>s. u - w < s) (window_spec w mx [] ts) =
      filter (\<lambda>s. u - w < s \<and> s \<le> u) (window_spec w mx [] ts)"
    using assms(2) by (intro filter_cong) auto
  with window_spec_bound [of w "[]" mx ts u] assms show ?thesis by simp
qed

subsection \<open>Keys of different clients\<close>

lemma rateLimiter_other_key:
  "k' \<noteq> k \<Longrightarrow> (snd (rateLimiter k w mx now mem m)) k' = m k'"
  by (auto simp: rateLimiter_def rate_script_def Let_def zput_def split: option.split)

lemma rateLimiter_local:
  assumes "m k = m' k"
  shows "fst (rateLimiter k w mx now mem m) = fst (rateLimiter k w mx now mem m')"
proof -
  have "zget now k m = zget now k m'" using assms by (simp add: zget_def key_get_def)
  then show ?thesis by (simp add: rateLimiter_def rate_script_def Let_def)
qed

lemma split_at_colon:
  assumes "CHR '':'' \<notin> set a" and "CHR '':'' \<notin> set a'"
    and "a @ CHR '':'' # b = a' @ CHR '':'' # b'"
  shows "a = a' \<and> b = b'"
  using assms
proof (induction a arbitrary: a')
  case Nil
  then show ?case by (cases a') auto
next
  case (Cons x xs)
  then show ?case by (cases a') auto
qed

lemma no_colon_string_of_int: "CHR '':'' \<notin> set (string_of_int i)"
proof -
  have "CHR '':'' \<notin> set (string_of_nat n)" for n
    using digits_of_string_of_nat [of "CHR '':''" n] by (auto simp: digit_value_def)
  then show ?thesis by (simp add: string_of_int_def)
qed

lemma user_rate_key_inj:
  assumes "user_rate_key (Some i) k = user_rate_key (Some j) k'"
  shows "i = j \<and> k = k'"
proof -
  from assms have "string_of_int i @ CHR '':'' # k = string_of_int j @ CHR '':'' # k'"
    by (simp add: user_rate_key_def)
  from split_at_colon [OF no_colon_string_of_int no_colon_string_of_int this]
  show ?thesis using string_of_int_inj by blast
qed

subsection \<open>Properties\<close>

text \<open>C13. The Lua script is a sliding window: starting from an empty key, for every run of requests
  (clock not going back, a fresh UUID each) it admits exactly the requests that the contract
  admits. Trimming by score and the expiry set by \<open>PEXPIRE\<close> never change a decision.
\<close>

theorem rate_limiter_is_window_spec:
  assumes "request_run rs"
  shows "admitted key w mx Map.empty rs = window_spec w mx [] (map fst rs)"
proof (cases rs)
  case Nil
  then show ?thesis by simp
next
  case (Cons r rs')
  have "\<forall>x \<in> set rs. fst r \<le> fst x"
    using assms Cons by (auto simp: request_run_def)
  then show ?thesis
    using assms by (intro admitted_spec [OF in_sync_empty [of _ _ "fst r"]]) (auto simp: request_run_def)
qed

theorem rate_limiter_is_window_spec_witness:
  "admitted ''k'' 10 2 Map.empty [(0, ''a''), (4, ''b''), (9, ''c''), (10, ''d''), (13, ''e'')] = [0, 4, 10]"
proof -
  have run: "request_run [(0, ''a''), (4, ''b''), (9, ''c''), (10, ''d''), (13, ''e'')]"
    by (simp add: request_run_def)
  show ?thesis unfolding rate_limiter_is_window_spec [OF run] by simp
qed

text \<open>C14. No window of the configured length, wherever it ends, contains more admitted requests of a
  client than the configured maximum.
\<close>

theorem rate_limiter_window_bound:
  assumes "request_run rs" and "0 \<le> mx"
  shows "int (length (filter (\<lambda>s. u - w < s \<and> s \<le> u) (admitted key w mx Map.empty rs))) \<le> mx"
proof (cases rs)
  case Nil
  with assms(2) show ?thesis by simp
next
  case (Cons r rs')
  have first: "\<forall>x \<in> set rs. fst r \<le> fst x"
    using assms Cons by (auto simp: request_run_def)
  then have "admitted key w mx Map.empty rs = window_spec w mx [] (map fst rs)"
    using assms by (intro admitted_spec [OF in_sync_empty [of _ _ "fst r"]]) (auto simp: request_run_def)
  with window_spec_bound [of w "[]" mx "map fst rs" u] assms show ?thesis
    by (simp add: request_run_def)
qed

theorem rate_limiter_window_bound_witness:
  "int (length (filter (\<lambda>s. 12 - 10 < s \<and> s \<le> 12)
     (admitted ''k'' 10 2 Map.empty [(0, ''a''), (4, ''b''), (9, ''c''), (10, ''d'')]))) \<le> 2"
  by (rule rate_limiter_window_bound) (simp_all add: request_run_def)

text \<open>Waiting for the announced time is enough: when the guard rejects a request after any run of
  earlier requests of the same user on the same route, it answers with a positive \<open>Retry-After\<close>,
  and the next request sent that many seconds later or more is let through.
\<close>

theorem retry_after_suffices:
  assumes run: "request_run (rs @ [(now, mem)])"
    and c: "c = \<lparr>points = mx, rule_duration = w, rule_key = k\<rparr>" and mx: "1 \<le> mx"
    and m: "m = limiter_state (user_rate_key (Some uid) k) w mx Map.empty rs"
    and blocked: "rate_guard (Some c) (Some uid) now mem m = (Blocked secs, m')"
    and t2: "now + 1000 * secs \<le> t2"
  shows "0 < secs \<and> fst (rate_guard (Some c) (Some uid) t2 mem2 m') = Pass"
proof -
  let ?key = "user_rate_key (Some uid) k"
  let ?r = "rateLimiter ?key w mx now mem m"
  let ?b = "if rs = [] then now else fst (hd rs)"
  let ?t = "if rs = [] then ?b else fst (last rs)"
  have srt: "sorted (map fst rs)" "distinct (map snd rs)" "\<forall>x \<in> set rs. fst x \<le> now \<and> 0 \<le> fst x"
    using run by (auto simp: request_run_def sorted_append)
  have first: "\<forall>x \<in> set rs. ?b \<le> fst x"
    using srt(1) by (cases rs) auto
  have sync: "in_sync ?key w ?t (snd ` set rs) m (admitted ?key w mx Map.empty rs)"
    using in_sync_run [OF in_sync_empty [of ?key w ?b], of rs now mx] srt first m by auto
  have later: "?t \<le> now" using srt(3) by auto
  have spec: "admitted ?key w mx Map.empty rs = window_spec w mx [] (map fst rs)"
    using srt first by (intro admitted_spec [OF in_sync_empty [of _ _ ?b]]) auto
  have count: "int (length (filter (\<lambda>s. now - w < s) (admitted ?key w mx Map.empty rs))) \<le> mx"
    unfolding spec using srt mx by (intro window_spec_le) auto
  have no: "\<not> allowed (fst ?r)" and secs: "secs = ceil_seconds (resetAfterMs (fst ?r))" and m': "m' = snd ?r"
    using blocked by (auto simp: rate_guard_def c split: prod.splits if_splits)
  have wait: "now + resetAfterMs (fst ?r) \<le> t2"
    using t2 secs ceil_seconds_ge [of "resetAfterMs (fst ?r)"] by linarith
  have "0 < resetAfterMs (fst ?r)" and ok: "allowed (fst (rateLimiter ?key w mx t2 mem2 m'))"
    using retry_admitted [OF sync later count mx no refl wait] m' by auto
  then show ?thesis
    using secs ceil_seconds_ge [of "resetAfterMs (fst ?r)"]
    by (auto simp: rate_guard_def c split: prod.split)
qed

theorem retry_after_suffices_witness:
  "\<exists>secs m'. rate_guard (Some \<lparr>points = 1, rule_duration = 60000, rule_key = ''r''\<rparr>) (Some 7) 5000 ''b''
      (limiter_state (user_rate_key (Some 7) ''r'') 60000 1 Map.empty [(1000, ''a'')]) = (Blocked secs, m') \<and>
    fst (rate_guard (Some \<lparr>points = 1, rule_duration = 60000, rule_key = ''r''\<rparr>) (Some 7)
      (5000 + 1000 * secs) ''c'' m') = Pass"
proof -
  let ?c = "\<lparr>points = 1, rule_duration = 60000, rule_key = ''r''\<rparr>"
  let ?m = "limiter_state (user_rate_key (Some 7) ''r'') 60000 1 Map.empty [(1000, ''a'')]"
  obtain m' where b: "rate_guard (Some ?c) (Some 7) 5000 ''b'' ?m = (Blocked 56, m')"
    by (auto simp: rate_guard_def rateLimiter_def rate_script_def Let_def zget_def key_simps key_get_def
        expired_def zremrangebyscore_def zcard_def zadd_def zoldest_def ceil_seconds_def)
  have "0 < (56::int) \<and> fst (rate_guard (Some ?c) (Some 7) (5000 + 1000 * 56) ''c'' m') = Pass"
    by (rule retry_after_suffices [OF _ refl _ refl b]) (simp_all add: request_run_def)
  with b show ?thesis by blast
qed

text \<open>The per-user budgets are separate: whatever requests one user makes on any limited route, the
  decision on every request of another user is the same as without them.
\<close>

theorem rate_guard_users_independent:
  assumes "i \<noteq> j"
  shows "fst (rate_guard c (Some j) now mem (snd (rate_guard c' (Some i) now' mem' m))) =
    fst (rate_guard c (Some j) now mem m)"
proof (cases c; cases c')
  fix x y
  assume c: "c = Some x" and c': "c' = Some y"
  have "user_rate_key (Some j) (rule_key x) \<noteq> user_rate_key (Some i) (rule_key y)"
    using assms user_rate_key_inj by blast
  then have "(snd (rate_guard (Some y) (Some i) now' mem' m)) (user_rate_key (Some j) (rule_key x)) =
      m (user_rate_key (Some j) (rule_key x))"
    by (simp add: rate_guard_def rateLimiter_other_key split: prod.split)
      (metis rateLimiter_other_key snd_conv)
  then have "fst (rateLimiter (user_rate_key (Some j) (rule_key x)) w mx now mem
        (snd (rate_guard (Some y) (Some i) now' mem' m))) =
      fst (rateLimiter (user_rate_key (Some j) (rule_key x)) w mx now mem m)" for w mx
    by (rule rateLimiter_local)
  then show ?thesis
    by (simp add: c c' rate_guard_def [of "Some x"] split: prod.split) (metis fst_conv)
qed (simp_all add: rate_guard_def)

theorem rate_guard_users_independent_witness:
  "fst (rate_guard (Some \<lparr>points = 1, rule_duration = 60000, rule_key = ''r''\<rparr>) (Some 8) 6000 ''b''
     (snd (rate_guard (Some \<lparr>points = 1, rule_duration = 60000, rule_key = ''r''\<rparr>) (Some 7) 5000 ''a'' Map.empty)))
   = Pass"
proof -
  have "(7::int) \<noteq> 8" by simp
  show ?thesis
    unfolding rate_guard_users_independent [OF \<open>(7::int) \<noteq> 8\<close>]
    by (simp add: rate_guard_def rateLimiter_def rate_script_def Let_def zget_def key_simps zcard_def
        zremrangebyscore_def)
qed

text \<open>The rules of the middleware are keyed on the exact path: the same login endpoint written with
  a trailing slash (which Express routes to the same handler) is never counted, so the five
  attempts per fifteen minutes do not bind such a client.
\<close>

theorem ip_limit_skips_trailing_slash:
  "ip_middleware lim ''POST'' ''/api/v1/auth/login/'' ip now mem m = (Pass, m) \<and>
   (\<exists>rule. map_of (ip_rules lim) ''POST /auth/login'' = Some rule)"
  by (simp add: ip_middleware_def ip_rules_def route_path_def)

end
