(* ===== verification/Api.thy ===== *)
theory Api
  imports Users Refunds RateLimiter Movies Halls Screenings
begin

text \<open>
  The HTTP layer: the controllers, the guards in front of them (\<open>common/guards/roles.guard.ts\<close>, the JWT and
  rate-limit guards), the IP limit of \<open>app.module.ts\<close> and the audit log of the admin routes. A route is the
  handler with its checked parameters: path ids have passed \<open>ParseIntPipe\<close>, a body is a DTO. The order is
  Nest's: middleware, guards, then the validation of the body, then the handler.

  The state is the world of the services with the keys of the rate limiter and the metrics of the interceptor.
\<close>

subsection \<open>State and environment\<close>

record http_labels =
  hl_method :: string
  hl_route :: string
  hl_status_code :: string

record http_metrics =
  http_requests_total :: "http_labels \<Rightarrow> int"
  http_request_duration_seconds :: "(http_labels \<times> rat) list"
  http_response_size_bytes :: "(http_labels \<times> rat) list"

record server =
  app :: world
  limits :: zkeys
  http :: http_metrics

type_synonym 'a endpoint = "(server, 'a) act"

record http_env =
  accounts :: auth_env
  booking :: request_env
  stripe :: stripe_env
  isEmail :: "string \<Rightarrow> bool"
  members :: "string \<times> string"        \<comment> \<open>the random members of the two limiters\<close>
  login_limit :: "int option"
  elapsed_ns :: int                     \<comment> \<open>difference of the two readings of \<open>process.hrtime\<close>\<close>
  content_length :: "rat option"        \<comment> \<open>the header \<open>content-length\<close> as a number, if it is set\<close>

record caller =
  access_token :: "string option"
  refresh_token :: "string option"
  ip :: string

abbreviation now_of :: "http_env \<Rightarrow> ms" where
  "now_of env \<equiv> clock (accounts env)"

definition call :: "'a service \<Rightarrow> 'a endpoint" where
  "call m s = (case m (app s) of (r, w) \<Rightarrow> (r, s\<lparr>app := w\<rparr>))"

text \<open>The global \<open>ValidationPipe\<close>: a body its DTO refuses is a 400.\<close>

definition valid :: "bool \<Rightarrow> unit endpoint" where
  "valid ok = (if ok then ret () else throw (BadRequestException ''Bad Request''))"

subsection \<open>The metrics interceptor\<close>

text \<open>
  What \<open>record\<close> of \<open>common/interceptors/metrics.interceptor.ts\<close> does, and the interceptor around a handler: it
  records when the handler ends, with a value or with an error, under the status the response has then.
\<close>

definition record_metrics :: "http_env \<Rightarrow> string \<Rightarrow> string \<Rightarrow> int \<Rightarrow> http_metrics \<Rightarrow> http_metrics" where
  "record_metrics env meth routePath statusCode m =
     (let labels = \<lparr>hl_method = meth, hl_route = routePath, hl_status_code = string_of_int statusCode\<rparr>;
          durationSeconds = of_int (elapsed_ns env) / 1000000000;
          responseSize = (case content_length env of None \<Rightarrow> 0 | Some n \<Rightarrow> n)
      in m\<lparr>http_requests_total := (http_requests_total m)(labels := http_requests_total m labels + 1),
          http_request_duration_seconds := http_request_duration_seconds m @ [(labels, durationSeconds)],
          http_response_size_bytes := http_response_size_bytes m @ [(labels, responseSize)]\<rparr>)"

definition intercept :: "http_env \<Rightarrow> string \<Rightarrow> string \<times> string \<Rightarrow> int \<Rightarrow> 'a endpoint \<Rightarrow> 'a endpoint" where
  "intercept env contextType line statusCode next s =
     (if contextType \<noteq> ''http'' then next s
      else case next s of (r, s') \<Rightarrow> (r, s'\<lparr>http := record_metrics env (fst line) (snd line) statusCode (http s')\<rparr>))"

subsection \<open>Guards\<close>

definition insufficient_role :: err where
  "insufficient_role = ForbiddenException ''Insufficient role''"

definition rolesGuard :: "user_role list \<Rightarrow> auth_user option \<Rightarrow> unit endpoint" where
  "rolesGuard requiredRoles user =
     (if requiredRoles = [] then ret ()
      else case user of
        None \<Rightarrow> throw insufficient_role
      | Some u \<Rightarrow> if au_role u \<in> set requiredRoles then ret () else throw insufficient_role)"

definition too_many :: err where
  "too_many = TooManyRequestsException ''Too many requests, please try again later''"

definition gated :: "(zkeys \<Rightarrow> gate \<times> zkeys) \<Rightarrow> unit endpoint" where
  "gated g s = (case g (limits s) of
       (Pass, m) \<Rightarrow> (Inr (), s\<lparr>limits := m\<rparr>)
     | (Blocked _, m) \<Rightarrow> (Inl too_many, s\<lparr>limits := m\<rparr>))"

definition rateLimitGuard :: "http_env \<Rightarrow> rate_rule option \<Rightarrow> auth_user \<Rightarrow> unit endpoint" where
  "rateLimitGuard env config user = gated (rate_guard config (Some (au_id user)) (now_of env) (fst (members env)))"

definition authenticated :: "http_env \<Rightarrow> caller \<Rightarrow> auth_user endpoint" where
  "authenticated env c = call (jwtAuthGuard (jwt (accounts env)) (now_of env) (access_token c))"

definition admin :: "http_env \<Rightarrow> caller \<Rightarrow> auth_user endpoint" where
  "admin env c = await (authenticated env c) (\<lambda>user. await (rolesGuard [ADMIN] (Some user)) (\<lambda>_. ret user))"

subsection \<open>Responses\<close>

datatype body =
    MovieBody movie | MoviesBody "movie list" | BrowseBody "movie list \<times> movie list"
  | ScreeningBody screening | DetailBody screening_full | FutureBody "future_screening list" | SeatsBody "seat_map_entry list"
  | HallBody hall | HallSeatsBody "hall \<times> seat list" | HallsBody "hall list"
  | ReservationBody reservation | MineBody "(reservation \<times> seat \<times> screening \<times> movie) list"
  | CheckoutBody "string option" | ReceivedBody bool | StatusBody "reservation_status \<times> payment_status option"
  | UserBody auth_user | PendingBody "string option" | MessageBody string | RedirectBody string

type_synonym response = "body \<times> cookie list"

text \<open>The controllers below take the interceptor, which Nest runs after the guards, as their argument \<open>I\<close>.\<close>

type_synonym interceptor = "response endpoint \<Rightarrow> response endpoint"

definition plain :: "body \<Rightarrow> response" where
  "plain b = (b, [])"

definition answer :: "('a \<Rightarrow> body) \<Rightarrow> 'a service \<Rightarrow> response endpoint" where
  "answer f m = await (call m) (\<lambda>x. ret (plain (f x)))"

text \<open>An admin handler: the service, then the audit record, then the service's result.\<close>

definition audited :: "auth_user \<Rightarrow> string \<Rightarrow> string \<Rightarrow> ('a \<Rightarrow> int) \<Rightarrow> ('a \<Rightarrow> body) \<Rightarrow> 'a service \<Rightarrow> response endpoint" where
  "audited user action target targetId f m =
     await (call m) (\<lambda>x.
     await (call (record_audit (by_actor_on action (au_id user) target (targetId x)))) (\<lambda>_.
     ret (plain (f x))))"

subsection \<open>Movies\<close>

datatype movies_admin_route = CreateMovie movie_dto | UpdateMovie int movie_patch | PublishMovie int
  | UnpublishMovie int | RemoveMovie int | ListAllMovies

fun movies_admin :: "http_env \<Rightarrow> auth_user \<Rightarrow> movies_admin_route \<Rightarrow> response endpoint" where
  "movies_admin env user (CreateMovie dto) =
     await (valid (valid_movie_dto dto)) (\<lambda>_.
     audited user ''movie.created'' ''movie'' rid MovieBody (createMovie (now_of env) dto))"
| "movies_admin env user (UpdateMovie i dto) =
     await (valid (valid_movie_patch dto)) (\<lambda>_.
     audited user ''movie.updated'' ''movie'' (\<lambda>_. i) MovieBody (updateMovie i dto))"
| "movies_admin env user (PublishMovie i) = audited user ''movie.published'' ''movie'' (\<lambda>_. i) MovieBody (publish i)"
| "movies_admin env user (UnpublishMovie i) = audited user ''movie.unpublished'' ''movie'' (\<lambda>_. i) MovieBody (unpublish i)"
| "movies_admin env user (RemoveMovie i) = audited user ''movie.deleted'' ''movie'' (\<lambda>_. i) MovieBody (deleteMovie i)"
| "movies_admin env user ListAllMovies = answer MoviesBody listAllForAdmin"

definition MoviesAdminController :: "interceptor \<Rightarrow> http_env \<Rightarrow> caller \<Rightarrow> movies_admin_route \<Rightarrow> response endpoint" where
  "MoviesAdminController I env c r = await (admin env c) (\<lambda>user. I (movies_admin env user r))"

datatype movies_route = Browse | MovieDetail int

fun MoviesController :: "interceptor \<Rightarrow> http_env \<Rightarrow> movies_route \<Rightarrow> response endpoint" where
  "MoviesController I env Browse = I (answer BrowseBody (browseMovies (now_of env)))"
| "MoviesController I env (MovieDetail i) = I (answer MovieBody (getPublishedMovie (now_of env) i))"

subsection \<open>Screenings and halls\<close>

datatype screenings_admin_route = CreateScreening screening_dto | UpdateScreening int screening_patch
  | CancelScreening int | RemoveScreening int

fun screenings_admin :: "auth_user \<Rightarrow> screenings_admin_route \<Rightarrow> response endpoint" where
  "screenings_admin user (CreateScreening dto) =
     await (valid (valid_screening_dto dto)) (\<lambda>_.
     audited user ''screening.created'' ''screening'' rid ScreeningBody (createScreening dto))"
| "screenings_admin user (UpdateScreening i dto) =
     await (valid (valid_screening_patch dto)) (\<lambda>_.
     audited user ''screening.updated'' ''screening'' (\<lambda>_. i) ScreeningBody (updateScreening i dto))"
| "screenings_admin user (CancelScreening i) =
     audited user ''screening.cancelled'' ''screening'' (\<lambda>_. i) ScreeningBody (cancelScreening i)"
| "screenings_admin user (RemoveScreening i) =
     audited user ''screening.deleted'' ''screening'' (\<lambda>_. i) ScreeningBody (deleteScreening i)"

definition ScreeningsAdminController :: "interceptor \<Rightarrow> http_env \<Rightarrow> caller \<Rightarrow> screenings_admin_route \<Rightarrow> response endpoint" where
  "ScreeningsAdminController I env c r = await (admin env c) (\<lambda>user. I (screenings_admin user r))"

datatype screenings_route = MovieScreenings int | ScreeningDetail int | ScreeningSeats int

fun ScreeningsController :: "interceptor \<Rightarrow> http_env \<Rightarrow> screenings_route \<Rightarrow> response endpoint" where
  "ScreeningsController I env (MovieScreenings i) = I (answer FutureBody (getMovieScreenings (now_of env) i))"
| "ScreeningsController I env (ScreeningDetail i) = I (answer DetailBody (getScreeningDetail (now_of env) i))"
| "ScreeningsController I env (ScreeningSeats i) = I (answer SeatsBody (getSeatMap (now_of env) i))"

datatype halls_route = CreateHall hall_dto | ListHalls | GetHall int | RemoveHall int

fun HallsAdminController :: "interceptor \<Rightarrow> http_env \<Rightarrow> caller \<Rightarrow> halls_route \<Rightarrow> response endpoint" where
  "HallsAdminController I env c (CreateHall dto) =
     await (admin env c) (\<lambda>_. I (await (valid (valid_hall_dto dto)) (\<lambda>_. answer HallSeatsBody (createHall dto))))"
| "HallsAdminController I env c ListHalls = await (admin env c) (\<lambda>_. I (answer HallsBody (listHalls (now_of env))))"
| "HallsAdminController I env c (GetHall i) = I (answer HallSeatsBody (getHall i))"
| "HallsAdminController I env c (RemoveHall i) = await (admin env c) (\<lambda>_. I (answer HallBody (deleteHall i)))"

subsection \<open>Reservations and payments\<close>

definition per_minute :: "int \<Rightarrow> string \<Rightarrow> rate_rule" where
  "per_minute n k = \<lparr>points = n, rule_duration = 60000, rule_key = k\<rparr>"

datatype reservations_route = Reserve reservation_dto | ListMine | CancelReservation int

fun ReservationsController :: "interceptor \<Rightarrow> http_env \<Rightarrow> caller \<Rightarrow> reservations_route \<Rightarrow> response endpoint" where
  "ReservationsController I env c (Reserve dto) =
     await (authenticated env c) (\<lambda>user.
     await (rateLimitGuard env (Some (per_minute 3 ''reservations:create'')) user) (\<lambda>_.
     I (await (valid (valid_reservation_dto dto)) (\<lambda>_.
     answer ReservationBody (reserve (booking env) (au_id user) dto)))))"
| "ReservationsController I env c ListMine =
     await (authenticated env c) (\<lambda>user. I (answer MineBody (listMine (au_id user))))"
| "ReservationsController I env c (CancelReservation i) =
     await (authenticated env c) (\<lambda>user. I (answer ReservationBody (cancel (stripe env) (au_id user) i)))"

datatype payments_route =
    CheckoutSession int
  | Webhook "string option" string string       \<comment> \<open>content type, raw body, signature\<close>
  | PaymentStatus int

fun PaymentsController :: "interceptor \<Rightarrow> http_env \<Rightarrow> caller \<Rightarrow> payments_route \<Rightarrow> response endpoint" where
  "PaymentsController I env c (CheckoutSession reservationId) =
     await (authenticated env c) (\<lambda>user.
     await (rateLimitGuard env (Some (per_minute 5 ''payments:checkout'')) user) (\<lambda>_.
     I (await (valid (1 \<le> reservationId)) (\<lambda>_.
     answer CheckoutBody (createCheckoutSession (stripe env) (au_id user) reservationId)))))"
| "PaymentsController I env c (Webhook contentType rawBody signature) =
     I (let contentType = (case contentType of None \<Rightarrow> [] | Some t \<Rightarrow> t)
        in if \<not> contains_text ''application/json'' contentType then throw (BadRequestException ''Invalid content type'')
           else answer ReceivedBody (handleWebhookEvent (stripe env) rawBody signature))"
| "PaymentsController I env c (PaymentStatus reservationId) =
     await (authenticated env c) (\<lambda>user. I (answer StatusBody (getStatus (au_id user) reservationId)))"

subsection \<open>Users\<close>

definition per_hour :: "string \<Rightarrow> rate_rule" where
  "per_hour k = \<lparr>points = 10, rule_duration = 3600000, rule_key = k\<rparr>"

datatype users_route = UpdateName string | RequestEmail string string | ConfirmEmail string | PendingEmail
  | NewPassword string string

fun users_rule :: "users_route \<Rightarrow> rate_rule" where
  "users_rule (UpdateName _) = per_hour ''users:name''"
| "users_rule (RequestEmail _ _) = per_hour ''users:email-request''"
| "users_rule (ConfirmEmail _) = per_hour ''users:email-confirm''"
| "users_rule PendingEmail = per_hour ''users:email-pending''"
| "users_rule (NewPassword _ _) = per_hour ''users:password''"

fun users_me :: "http_env \<Rightarrow> auth_user \<Rightarrow> users_route \<Rightarrow> response endpoint" where
  "users_me env user (UpdateName nm) =
     await (valid (valid_update_name nm)) (\<lambda>_. answer UserBody (updateName (accounts env) (au_id user) nm))"
| "users_me env user (RequestEmail newEmail pw) =
     await (valid (valid_email_change (isEmail env) newEmail pw)) (\<lambda>_.
     answer MessageBody (requestEmailChange (accounts env) (au_id user) newEmail pw))"
| "users_me env user (ConfirmEmail code) =
     await (valid (valid_confirm_email code)) (\<lambda>_. answer UserBody (confirmEmailChange (accounts env) (au_id user) code))"
| "users_me env user PendingEmail = answer PendingBody (getPendingEmailChange (accounts env) (au_id user))"
| "users_me env user (NewPassword cur new) =
     await (valid (valid_change_password cur new)) (\<lambda>_.
     await (call (changePassword (accounts env) (au_id user) cur new)) (\<lambda>cookies.
     ret (MessageBody ''Password changed'', cookies)))"

definition UsersController :: "interceptor \<Rightarrow> http_env \<Rightarrow> caller \<Rightarrow> users_route \<Rightarrow> response endpoint" where
  "UsersController I env c r =
     await (authenticated env c) (\<lambda>user.
     await (rateLimitGuard env (Some (users_rule r)) user) (\<lambda>_.
     I (users_me env user r)))"

subsection \<open>Accounts\<close>

datatype auth_route = Register register_dto | VerifyOtp string string | ResendOtp string | Login string string
  | Refresh | Logout | Me | GoogleAuth | GoogleCallback "err + google_account"
  | LinkGoogle | LinkGoogleCallback "err + google_account" "string option"     \<comment> \<open>Google's answer, the state\<close>

definition with_cookies :: "('a \<Rightarrow> body) \<Rightarrow> ('a \<times> cookie list) service \<Rightarrow> response endpoint" where
  "with_cookies f m = await (call m) (\<lambda>(x, cookies). ret (f x, cookies))"

definition audit_user :: "string \<Rightarrow> int \<Rightarrow> unit endpoint" where
  "audit_user action i = call (record_audit (by_actor action i))"

text \<open>Google's guards answer the two initiation routes themselves, so the empty handlers and the interceptor do not run.\<close>

definition google_redirect :: "string \<Rightarrow> response endpoint" where
  "google_redirect url = ret (plain (RedirectBody url))"

fun AuthController :: "interceptor \<Rightarrow> http_env \<Rightarrow> caller \<Rightarrow> auth_route \<Rightarrow> response endpoint" where
  "AuthController I env c (Register dto) =
     I (await (valid (valid_register_dto (isEmail env) dto)) (\<lambda>_. answer MessageBody (register (accounts env) dto)))"
| "AuthController I env c (VerifyOtp addr code) =
     I (await (valid (valid_verify_otp (isEmail env) addr code)) (\<lambda>_.
     with_cookies UserBody (auth_verifyOtp (accounts env) addr code)))"
| "AuthController I env c (ResendOtp addr) =
     I (await (valid (isEmail env addr)) (\<lambda>_. answer MessageBody (resendOtp (accounts env) addr)))"
| "AuthController I env c (Login addr pw) =
     await (call (localStrategy (accounts env) addr pw)) (\<lambda>user.
     I (await (valid (valid_login (isEmail env) addr pw)) (\<lambda>_.
     await (call (issue_for (accounts env) user)) (\<lambda>cookies.
     await (audit_user ''login.success'' (au_id user)) (\<lambda>_.
     ret (UserBody user, cookies))))))"
| "AuthController I env c Refresh =
     await (call (jwtRefreshGuard (jwt (accounts env)) (now_of env) (refresh_token c))) (\<lambda>user.
     I (await (call (getAuthUser (rp_sub user))) (\<lambda>fresh.
     await (call (rotateAuthCookies (jwt (accounts env)) (now_of env) (uuid (accounts env)) user fresh)) (\<lambda>cookies.
     await (audit_user ''token.refreshed'' (rp_sub user)) (\<lambda>_.
     ret (MessageBody ''Token refreshed'', cookies))))))"
| "AuthController I env c Logout =
     await (authenticated env c) (\<lambda>user.
     I (await (call (revokeAllSessions (au_id user))) (\<lambda>_.
     await (audit_user ''user.logout'' (au_id user)) (\<lambda>_.
     ret (MessageBody ''Logged out'', clearAuthCookies (jwt (accounts env)))))))"
| "AuthController I env c Me = await (authenticated env c) (\<lambda>user. I (ret (plain (UserBody user))))"
| "AuthController I env c GoogleAuth = google_redirect (authorize (accounts env) (callbackUrl (accounts env)) None)"
| "AuthController I env c (GoogleCallback answer') =
     await (call (googleStrategy answer')) (\<lambda>profile.
     I (with_cookies RedirectBody (auth_googleCallback (accounts env) profile)))"
| "AuthController I env c LinkGoogle =
     await (authenticated env c) (\<lambda>user.
     google_redirect (authorize (accounts env) (linkCallbackUrl (accounts env)) (getAuthenticateOptions (accounts env) (Some user))))"
| "AuthController I env c (LinkGoogleCallback answer' state) =
     await (call (googleStrategy answer')) (\<lambda>profile.
     I (answer RedirectBody (auth_linkGoogleCallback (accounts env) profile state)))"

subsection \<open>Routes\<close>

datatype route =
    MoviesAdmin movies_admin_route | Movies movies_route
  | ScreeningsAdmin screenings_admin_route | Screenings screenings_route | Halls halls_route
  | Reservations reservations_route | Payments payments_route | Users users_route | Auth auth_route

text \<open>Method and path of a handler, as its decorators give them.\<close>

fun http_line :: "route \<Rightarrow> string \<times> string" where
  "http_line (MoviesAdmin (CreateMovie _)) = (''POST'', ''/movies'')"
| "http_line (MoviesAdmin (UpdateMovie _ _)) = (''PATCH'', ''/movies/:id'')"
| "http_line (MoviesAdmin (PublishMovie _)) = (''PATCH'', ''/movies/:id/publish'')"
| "http_line (MoviesAdmin (UnpublishMovie _)) = (''PATCH'', ''/movies/:id/unpublish'')"
| "http_line (MoviesAdmin (RemoveMovie _)) = (''DELETE'', ''/movies/:id'')"
| "http_line (MoviesAdmin ListAllMovies) = (''GET'', ''/admin/movies'')"
| "http_line (Movies Browse) = (''GET'', ''/movies'')"
| "http_line (Movies (MovieDetail _)) = (''GET'', ''/movies/:id'')"
| "http_line (ScreeningsAdmin (CreateScreening _)) = (''POST'', ''/screenings'')"
| "http_line (ScreeningsAdmin (UpdateScreening _ _)) = (''PATCH'', ''/screenings/:id'')"
| "http_line (ScreeningsAdmin (CancelScreening _)) = (''PATCH'', ''/screenings/:id/cancel'')"
| "http_line (ScreeningsAdmin (RemoveScreening _)) = (''DELETE'', ''/screenings/:id'')"
| "http_line (Screenings (MovieScreenings _)) = (''GET'', ''/movies/:id/screenings'')"
| "http_line (Screenings (ScreeningDetail _)) = (''GET'', ''/screenings/:id'')"
| "http_line (Screenings (ScreeningSeats _)) = (''GET'', ''/screenings/:id/seats'')"
| "http_line (Halls (CreateHall _)) = (''POST'', ''/halls'')"
| "http_line (Halls ListHalls) = (''GET'', ''/halls'')"
| "http_line (Halls (GetHall _)) = (''GET'', ''/halls/:id'')"
| "http_line (Halls (RemoveHall _)) = (''DELETE'', ''/halls/:id'')"
| "http_line (Reservations (Reserve _)) = (''POST'', ''/reservations'')"
| "http_line (Reservations ListMine) = (''GET'', ''/reservations/me'')"
| "http_line (Reservations (CancelReservation _)) = (''DELETE'', ''/reservations/:id'')"
| "http_line (Payments (CheckoutSession _)) = (''POST'', ''/payments/checkout-session'')"
| "http_line (Payments (Webhook _ _ _)) = (''POST'', ''/payments/webhook'')"
| "http_line (Payments (PaymentStatus _)) = (''GET'', ''/payments/reservations/:reservationId/status'')"
| "http_line (Users (UpdateName _)) = (''PATCH'', ''/users/me'')"
| "http_line (Users (RequestEmail _ _)) = (''POST'', ''/users/me/email'')"
| "http_line (Users (ConfirmEmail _)) = (''POST'', ''/users/me/email/confirm'')"
| "http_line (Users PendingEmail) = (''GET'', ''/users/me/email/pending'')"
| "http_line (Users (NewPassword _ _)) = (''POST'', ''/users/me/password'')"
| "http_line (Auth (Register _)) = (''POST'', ''/auth/register'')"
| "http_line (Auth (VerifyOtp _ _)) = (''POST'', ''/auth/verify-otp'')"
| "http_line (Auth (ResendOtp _)) = (''POST'', ''/auth/resend-otp'')"
| "http_line (Auth (Login _ _)) = (''POST'', ''/auth/login'')"
| "http_line (Auth Refresh) = (''POST'', ''/auth/refresh'')"
| "http_line (Auth Logout) = (''POST'', ''/auth/logout'')"
| "http_line (Auth Me) = (''GET'', ''/auth/me'')"
| "http_line (Auth GoogleAuth) = (''GET'', ''/auth/google'')"
| "http_line (Auth LinkGoogle) = (''GET'', ''/auth/link-google'')"
| "http_line (Auth (GoogleCallback _)) = (''GET'', ''/auth/google/callback'')"
| "http_line (Auth (LinkGoogleCallback _ _)) = (''GET'', ''/auth/link-google/callback'')"

text \<open>Nest's default status, 201 for a POST and 200 otherwise, or what \<open>HttpCode\<close> says.\<close>

definition success_status :: "route \<Rightarrow> int" where
  "success_status r =
     (case r of
        Users _ \<Rightarrow> 200
      | Auth (Register _) \<Rightarrow> 201
      | Auth _ \<Rightarrow> 200
      | _ \<Rightarrow> if fst (http_line r) = ''POST'' then 201 else 200)"

text \<open>The routes \<open>app.module.ts\<close> applies the IP limit to.\<close>

definition middleware_routes :: "(string \<times> string) list" where
  "middleware_routes =
     [(''POST'', ''/auth/login''), (''GET'', ''/movies''), (''POST'', ''/auth/register''),
      (''POST'', ''/auth/verify-otp''), (''POST'', ''/auth/resend-otp''), (''POST'', ''/auth/refresh'')]"

fun dispatch :: "interceptor \<Rightarrow> http_env \<Rightarrow> caller \<Rightarrow> route \<Rightarrow> response endpoint" where
  "dispatch I env c (MoviesAdmin r) = MoviesAdminController I env c r"
| "dispatch I env c (Movies r) = MoviesController I env r"
| "dispatch I env c (ScreeningsAdmin r) = ScreeningsAdminController I env c r"
| "dispatch I env c (Screenings r) = ScreeningsController I env r"
| "dispatch I env c (Halls r) = HallsAdminController I env c r"
| "dispatch I env c (Reservations r) = ReservationsController I env c r"
| "dispatch I env c (Payments r) = PaymentsController I env c r"
| "dispatch I env c (Users r) = UsersController I env c r"
| "dispatch I env c (Auth r) = AuthController I env c r"

text \<open>A request to the exact path of its route, under the global prefix.\<close>

definition handle :: "http_env \<Rightarrow> caller \<Rightarrow> route \<Rightarrow> response endpoint" where
  "handle env c r =
     (let line = http_line r;
          m = dispatch (intercept env ''http'' line (success_status r)) env c r
      in if line \<in> set middleware_routes
         then await (gated (ip_middleware (login_limit env) (fst line) (''/api/v1'' @ snd line) (ip c) (now_of env)
             (snd (members env)))) (\<lambda>_. m)
         else m)"

end
