(* ===== verification/Access.thy ===== *)
theory Access
  imports Api
begin

text \<open>
  What requests may do: every request leaves a well-formed database, a refused request changes nothing, the
  catalogue (movies, halls, seats, screenings) belongs to administrators, admin changes are audited, and
  what the HTTP metrics see.
\<close>

subsection \<open>Invariants along a request\<close>

definition app_inv :: "(db \<Rightarrow> bool) \<Rightarrow> server \<Rightarrow> bool" where
  "app_inv P s \<longleftrightarrow> P (db (app s))"

lemma keeps_call [keeps_rules]: "keeps_db P m \<Longrightarrow> keeps (app_inv P) (call m)"
  by (auto simp: keeps_def app_inv_def db_inv_def call_def split: prod.splits)

lemma keeps_gated [keeps_rules]: "keeps (app_inv P) (gated g)"
  by (auto simp: keeps_def gated_def app_inv_def split: prod.splits gate.splits)

lemma keeps_valid [keeps_rules]: "keeps J (valid b)"
  unfolding valid_def by (intro keeps_rules)

lemma keeps_intercept [keeps_rules]: "keeps (app_inv P) m \<Longrightarrow> keeps (app_inv P) (intercept env t l n m)"
  by (auto simp: keeps_def app_inv_def intercept_def split: prod.splits)

lemma keeps_rolesGuard [keeps_rules]: "keeps J (rolesGuard rs u)"
  unfolding rolesGuard_def by (intro keeps_rules)

lemma keeps_guards [keeps_rules]:
  "keeps (app_inv P) (authenticated env c)" "keeps (app_inv P) (admin env c)" "keeps (app_inv P) (rateLimitGuard env r u)"
  unfolding admin_def authenticated_def rateLimitGuard_def by (intro keeps_rules)+

lemma keeps_answers [keeps_rules]:
  "keeps_db P m \<Longrightarrow> keeps (app_inv P) (answer f m)"
  "keeps_db P m \<Longrightarrow> keeps (app_inv P) (audited u a t i f m)"
  "keeps_db P m' \<Longrightarrow> keeps (app_inv P) (with_cookies g m')"
  unfolding answer_def audited_def with_cookies_def by (intro keeps_rules; assumption)+

text \<open>The handlers, for any invariant the services keep.\<close>

definition requests_keep :: "(db \<Rightarrow> bool) \<Rightarrow> bool" where
  "requests_keep P \<longleftrightarrow>
     (\<forall>env u dto. keeps_db P (reserve env u dto)) \<and>
     (\<forall>env u i. keeps_db P (createCheckoutSession env u i)) \<and>
     (\<forall>env i n. keeps_db P (updateName env i n)) \<and> (\<forall>env i a p. keeps_db P (requestEmailChange env i a p)) \<and>
     (\<forall>env i c. keeps_db P (confirmEmailChange env i c)) \<and> (\<forall>env i p q. keeps_db P (changePassword env i p q)) \<and>
     (\<forall>env dto. keeps_db P (register env dto)) \<and> (\<forall>env a. keeps_db P (resendOtp env a)) \<and>
     (\<forall>env a c. keeps_db P (auth_verifyOtp env a c)) \<and> (\<forall>env p. keeps_db P (auth_googleCallback env p)) \<and>
     (\<forall>env p st. keeps_db P (auth_linkGoogleCallback env p st))"

text \<open>The same of the requests in one environment.\<close>

definition requests_keep_in :: "http_env \<Rightarrow> (db \<Rightarrow> bool) \<Rightarrow> bool" where
  "requests_keep_in env P \<longleftrightarrow>
     (\<forall>u dto. keeps_db P (reserve (booking env) u dto)) \<and>
     (\<forall>u i. keeps_db P (createCheckoutSession (stripe env) u i)) \<and>
     (\<forall>i n. keeps_db P (updateName (accounts env) i n)) \<and> (\<forall>i a p. keeps_db P (requestEmailChange (accounts env) i a p)) \<and>
     (\<forall>i c. keeps_db P (confirmEmailChange (accounts env) i c)) \<and>
     (\<forall>i p q. keeps_db P (changePassword (accounts env) i p q)) \<and>
     (\<forall>dto. keeps_db P (register (accounts env) dto)) \<and> (\<forall>a. keeps_db P (resendOtp (accounts env) a)) \<and>
     (\<forall>a c. keeps_db P (auth_verifyOtp (accounts env) a c)) \<and> (\<forall>p. keeps_db P (auth_googleCallback (accounts env) p)) \<and>
     (\<forall>p st. keeps_db P (auth_linkGoogleCallback (accounts env) p st))"

lemma requests_keep_everywhere: "requests_keep P \<Longrightarrow> requests_keep_in env P"
  by (simp add: requests_keep_def requests_keep_in_def)

definition services_keep :: "(db \<Rightarrow> bool) \<Rightarrow> bool" where
  "services_keep P \<longleftrightarrow> requests_keep P \<and> (\<forall>env u i. keeps_db P (cancel env u i)) \<and>
     (\<forall>env b g. keeps_db P (handleWebhookEvent env b g))"

lemmas services_keep_defs = services_keep_def requests_keep_def

fun needs_admin :: "route \<Rightarrow> bool" where
  "needs_admin (MoviesAdmin _) = True"
| "needs_admin (ScreeningsAdmin _) = True"
| "needs_admin (Halls (GetHall _)) = False"
| "needs_admin (Halls _) = True"
| "needs_admin _ = False"

fun needs_login :: "route \<Rightarrow> bool" where
  "needs_login (Reservations _) = True"
| "needs_login (Payments (Webhook _ _ _)) = False"
| "needs_login (Payments _) = True"
| "needs_login (Users _) = True"
| "needs_login (Auth Logout) = True"
| "needs_login (Auth Me) = True"
| "needs_login (Auth LinkGoogle) = True"
| "needs_login _ = False"

lemma keeps_free_reads [keeps_rules]: "keeps_db P (localStrategy env a p)" "keeps_db P (googleStrategy g)" "keeps_db P (issue_for env u)"
  "keeps_db P (listMine i)"
  unfolding localStrategy_def googleStrategy_def validateUser_def issue_for_def listMine_def reservations_findByUser_def auth_findByEmail_def
  by (intro keeps_rules)+

lemma keeps_google_redirect [keeps_rules]: "keeps J (google_redirect url)"
  unfolding google_redirect_def plain_def by (intro keeps_rules)

lemma keeps_routes_in:
  assumes "requests_keep_in env P" and "\<not> needs_admin r"
    and "\<And>t b g. r = Payments (Webhook t b g) \<Longrightarrow> keeps_db P (handleWebhookEvent (stripe env) b g)"
    and "\<And>i u. r = Reservations (CancelReservation i) \<Longrightarrow> keeps_db P (cancel (stripe env) u i)"
  shows "keeps (app_inv P) (dispatch (intercept env t l n) env c r)"
proof (cases r)
  case (Reservations x)
  then show ?thesis using assms(1,4) by (cases x) (auto simp: requests_keep_in_def intro!: keeps_rules)
next
  case (Payments x)
  then show ?thesis using assms(1,3) by (cases x) (auto simp: requests_keep_in_def Let_def intro!: keeps_rules)
next
  case (Users x)
  then show ?thesis using assms(1) by (cases x) (auto simp: requests_keep_in_def UsersController_def intro!: keeps_rules)
next
  case (Auth x)
  then show ?thesis using assms(1) by (cases x) (auto simp: requests_keep_in_def audit_user_def intro!: keeps_rules)
next
  case (Movies x)
  then show ?thesis by (cases x) (auto intro!: keeps_rules)
next
  case (Screenings x)
  then show ?thesis by (cases x) (auto intro!: keeps_rules)
next
  case (Halls x)
  then show ?thesis using assms(2) by (cases x) (auto intro!: keeps_rules)
qed (use assms(2) in simp_all)

lemmas keeps_routes = keeps_routes_in [OF requests_keep_everywhere]

lemma keeps_open_routes: "services_keep P \<Longrightarrow> \<not> needs_admin r \<Longrightarrow> keeps (app_inv P) (dispatch (intercept env t l n) env c r)"
  unfolding services_keep_def by (rule keeps_routes) simp_all

lemma keeps_handle:
  assumes "keeps (app_inv P) (dispatch (intercept env ''http'' (http_line r) (success_status r)) env c r)"
  shows "keeps (app_inv P) (handle env c r)"
  using assms unfolding handle_def Let_def by (intro keeps_rules)

lemma services_keep_db_ok: "services_keep db_ok"
  unfolding services_keep_defs by (intro conjI allI keeps_rules)

lemma keeps_admin_routes:
  assumes "needs_admin r"
  shows "keeps (app_inv db_ok) (dispatch (intercept env t l n) env c r)"
proof (cases r)
  case (MoviesAdmin x)
  then show ?thesis by (cases x) (auto simp: MoviesAdminController_def listAllForAdmin_def movies_listAll_def intro!: keeps_rules)
next
  case (ScreeningsAdmin x)
  then show ?thesis by (cases x) (auto simp: ScreeningsAdminController_def intro!: keeps_rules)
next
  case (Halls x)
  then show ?thesis by (cases x) (auto intro!: keeps_rules)
qed (use assms in simp_all)

lemma keeps_handle_db_ok: "keeps (app_inv db_ok) (handle env c r)"
  by (rule keeps_handle, cases "needs_admin r") (simp_all add: keeps_admin_routes keeps_open_routes services_keep_db_ok)

subsection \<open>Refusals\<close>

abbreviation token_check :: "http_env \<Rightarrow> caller \<Rightarrow> server \<Rightarrow> (err + auth_user) \<times> world" where
  "token_check env c s \<equiv> jwtAuthGuard (jwt (accounts env)) (clock (accounts env)) (access_token c) (app s)"

lemma jwtAuthGuard_state [simp]: "snd (jwtAuthGuard env t tok w) = w"
  by (simp add: jwtAuthGuard_def jwt_validate_def getAccessVersion_def on_redis_def await_def act_simps split: option.split prod.split)

lemma jwtAuthGuard_same: "jwtAuthGuard env t tok w = (x, w') \<Longrightarrow> w' = w"
  by (metis jwtAuthGuard_state snd_conv)

lemma authenticated_run: "authenticated env c s = (fst (token_check env c s), s)"
  by (simp add: authenticated_def call_def split: prod.split) (metis jwtAuthGuard_state snd_conv server.surjective server.update_convs(1))

lemma guarded_not_limited: "needs_admin r \<or> needs_login r \<Longrightarrow> http_line r \<notin> set middleware_routes"
  by (cases r rule: http_line.cases) (simp_all add: middleware_routes_def)

lemma admin_run: "admin env c s = (case fst (token_check env c s) of Inl e \<Rightarrow> (Inl e, s)
    | Inr u \<Rightarrow> if au_role u = ADMIN then (Inr u, s) else (Inl insufficient_role, s))"
  by (simp add: admin_def await_def authenticated_run rolesGuard_def act_simps split: sum.split)

lemma handle_unlimited: "needs_login r \<or> needs_admin r \<Longrightarrow>
    handle env c r = dispatch (intercept env ''http'' (http_line r) (success_status r)) env c r"
  using guarded_not_limited [of r] by (auto simp: handle_def Let_def)

lemma refused_token:
  assumes "fst (token_check env c s) = Inl e" and "needs_login r \<or> needs_admin r"
  shows "handle env c r s = (Inl e, s)"
  unfolding handle_unlimited [OF assms(2)] using assms
  by (cases r rule: http_line.cases)
    (simp_all add: MoviesAdminController_def ScreeningsAdminController_def UsersController_def await_def admin_run authenticated_run)

lemma refused_role:
  assumes "fst (token_check env c s) = Inr u" and "au_role u \<noteq> ADMIN" and "needs_admin r"
  shows "handle env c r s = (Inl insufficient_role, s)"
  unfolding handle_unlimited [OF disjI2 [OF assms(3)]] using assms
  by (cases r rule: http_line.cases)
    (simp_all add: MoviesAdminController_def ScreeningsAdminController_def await_def admin_run)

text \<open>A refused request changes nothing at all: without a token the guard accepts, every route that needs one answers
  with the guard's error, and with the token of a user who is no administrator every admin route answers 403; the
  database, the caches, the limiter's keys, the audit log and the metrics stay as they were.\<close>

theorem guards_refuse:
  shows "(fst (token_check env c s) = Inl e \<and> (needs_login r \<or> needs_admin r) \<longrightarrow> handle env c r s = (Inl e, s)) \<and>
    (fst (token_check env c s) = Inr u \<and> au_role u \<noteq> ADMIN \<and> needs_admin r \<longrightarrow>
       handle env c r s = (Inl insufficient_role, s)) \<and> status_of insufficient_role = 403"
  using refused_token [of env c s e r] refused_role [of env c s u r] by (auto simp: insufficient_role_def)

subsection \<open>The catalogue\<close>

definition catalogue :: "db \<Rightarrow> movie table \<times> hall table \<times> seat table \<times> screening table \<times> refund_policy table" where
  "catalogue d = (movies d, halls d, seats d, screenings d, policies d)"

abbreviation on_cat :: "movie table \<times> hall table \<times> seat table \<times> screening table \<times> refund_policy table \<Rightarrow> db \<Rightarrow> bool" where
  "on_cat k \<equiv> (\<lambda>d. catalogue d = k)"

lemma cat_stmts:
  "insert_user mk d = Inr (x, d') \<Longrightarrow> catalogue d' = catalogue d"
  "update_user i f d = Inr (x, d') \<Longrightarrow> catalogue d' = catalogue d"
  "insert_reservation mk2 d = Inr (x2, d') \<Longrightarrow> catalogue d' = catalogue d"
  "update_reservation i f2 d = Inr (x2, d') \<Longrightarrow> catalogue d' = catalogue d"
  "insert_payment mk3 d = Inr (x3, d') \<Longrightarrow> catalogue d' = catalogue d"
  "update_payment i f3 d = Inr (x3, d') \<Longrightarrow> catalogue d' = catalogue d"
  "delete_payment i d = Inr (x3, d') \<Longrightarrow> catalogue d' = catalogue d"
  by (auto simp: insert_user_def update_user_def insert_reservation_def update_reservation_def insert_payment_def
      update_payment_def delete_payment_def catalogue_def dest!: on_table_InrD)

lemma cat_both: "both_updates pid f i g d = Inr (x, d') \<Longrightarrow> catalogue d' = catalogue d"
  by (auto simp: both_updates_def dest!: cat_stmts split: sum.splits prod.splits)

lemma cat_hold: "holdSeat_body now p d = Inr (x, d') \<Longrightarrow> catalogue d' = catalogue d"
  by (auto simp: holdSeat_body_def dest!: cat_stmts split: if_splits option.splits sum.splits)

lemma keeps_cat_repo [keeps_rules]:
  "keeps_db (on_cat k) (auth_createUser f n a h)" "keeps_db (on_cat k) (auth_createGoogleUser f p)"
  "keeps_db (on_cat k) (auth_setGoogleId f i g)" "keeps_db (on_cat k) (auth_markEmailVerified f i)"
  "keeps_db (on_cat k) (users_updateName f i n)" "keeps_db (on_cat k) (users_updateEmail f i a)"
  "keeps_db (on_cat k) (users_updatePassword f i h)"
  "keeps_db (on_cat k) (payments_create f now i amt cur)" "keeps_db (on_cat k) (payments_delete f i)"
  "keeps_db (on_cat k) (payments_updateById f j g2)"
  "keeps_db (on_cat k) (confirmWithReservation f pid i intent)" "keeps_db (on_cat k) (declineWithReservation f pid i)"
  "keeps_db (on_cat k) (reservations_extendHold f i t)" "keeps_db (on_cat k) (reservations_confirm f i)"
  "keeps_db (on_cat k) (reservations_setStatus f i st)"
  unfolding auth_repo_defs users_updateName_def users_updateEmail_def users_updatePassword_def payments_repo_defs
    reservations_extendHold_def reservations_confirm_def reservations_setStatus_def
  by (intro keeps_rules keeps_db_stmt; force dest: cat_stmts cat_both)+

lemma keeps_cat_hold [keeps_rules]: "keeps_db (on_cat k) (breaker_holdSeat f fault now p)"
proof -
  have "keeps_db (on_cat k) (holdSeat_tx fault now p)"
    by (rule keepsI) (auto simp: holdSeat_tx_def db_inv_def dest!: cat_hold split: option.split hold_fault.split sum.split prod.split)
  then show ?thesis unfolding breaker_holdSeat_def by (intro keeps_rules) 
qed

lemma services_keep_cat: "services_keep (on_cat k)"
  unfolding services_keep_defs reserve_def cancel_def createCheckoutSession_def handleWebhookEvent_def dispatch_event_def
    handleCheckoutCompleted_def handleAsyncPaymentFailed_def handleCheckoutExpired_def handleDisputeCreated_def
    refundReservation_def stripe_refund_def finalizeCancel_def confirmPayment_def extendHold_def
    updateName_def requestEmailChange_def check_password_def
    confirmEmailChange_def get_pending_def changePassword_def issue_for_def register_def sendOtpEmail_def resendOtp_def auth_verifyOtp_def
    verifyOtp_def auth_googleCallback_def resolveGoogleUser_def auth_linkGoogleCallback_def linkGoogle_def Let_def
    screenings_findById_def
  by (intro conjI allI keeps_rules)

lemma open_request_catalogue: "\<not> needs_admin r \<Longrightarrow> catalogue (db (app (snd (handle env c r s)))) = catalogue (db (app s))"
  using keepsD [OF keeps_handle [OF keeps_open_routes [OF services_keep_cat]], of r "catalogue (db (app s))" s env c]
  by (simp add: app_inv_def)

text \<open>C22. The catalogue belongs to administrators: a request after which the movies, halls, seats, screenings or refund
  policies are not what they were went to an admin route with an accepted token of the role ADMIN. No
  reservation, payment, webhook, account or public request, whatever it carries, changes a row of them.\<close>

theorem catalogue_admin_only:
  assumes "handle env c r s = (res, s')" and "catalogue (db (app s')) \<noteq> catalogue (db (app s))"
  shows "needs_admin r \<and> (\<exists>u. fst (token_check env c s) = Inr u \<and> au_role u = ADMIN)"
proof -
  have "needs_admin r" using open_request_catalogue [of r env c s] assms by auto
  moreover have "\<exists>u. fst (token_check env c s) = Inr u \<and> au_role u = ADMIN"
  proof (cases "fst (token_check env c s)")
    case (Inl e)
    then have False using refused_token [of env c s e r] calculation assms by simp
    then show ?thesis ..
  next
    case (Inr u)
    then show ?thesis using refused_role [of env c s u r] calculation assms by (cases "au_role u = ADMIN") auto
  qed
  ultimately show ?thesis ..
qed

subsection \<open>The audit log\<close>

fun audit_action :: "route \<Rightarrow> string option" where
  "audit_action (MoviesAdmin (CreateMovie _)) = Some ''movie.created''"
| "audit_action (MoviesAdmin (UpdateMovie _ _)) = Some ''movie.updated''"
| "audit_action (MoviesAdmin (PublishMovie _)) = Some ''movie.published''"
| "audit_action (MoviesAdmin (UnpublishMovie _)) = Some ''movie.unpublished''"
| "audit_action (MoviesAdmin (RemoveMovie _)) = Some ''movie.deleted''"
| "audit_action (ScreeningsAdmin (CreateScreening _)) = Some ''screening.created''"
| "audit_action (ScreeningsAdmin (UpdateScreening _ _)) = Some ''screening.updated''"
| "audit_action (ScreeningsAdmin (CancelScreening _)) = Some ''screening.cancelled''"
| "audit_action (ScreeningsAdmin (RemoveScreening _)) = Some ''screening.deleted''"
| "audit_action _ = None"

text \<open>A method that leaves a part of the state alone, and one that adds to the log only when it returns.\<close>

definition frames :: "('s \<Rightarrow> 'v) \<Rightarrow> ('s, 'a) act \<Rightarrow> bool" where
  "frames f m \<longleftrightarrow> (\<forall>s. f (snd (m s)) = f s)"

abbreviation log_of :: "server \<Rightarrow> audit_event list" where
  "log_of s \<equiv> audit_log (app s)"

definition logs :: "(audit_event list \<Rightarrow> bool) \<Rightarrow> 'a endpoint \<Rightarrow> bool" where
  "logs Q m \<longleftrightarrow> (\<forall>s. \<exists>new. log_of (snd (m s)) = log_of s @ new \<and> (if isl (fst (m s)) then new = [] else Q new))"

lemma logsD: "logs Q m \<Longrightarrow> m s = (res, s') \<Longrightarrow> \<exists>new. log_of s' = log_of s @ new \<and> (if isl res then new = [] else Q new)"
  unfolding logs_def by (drule spec [of _ s]) simp

named_theorems frame_rules "rules about what a method leaves alone"

lemma frames_keeps: "frames f m \<longleftrightarrow> (\<forall>a. keeps (\<lambda>s. f s = a) m)"
  by (auto simp: frames_def keeps_def)

lemma frames_call [frame_rules]: "frames audit_log m \<Longrightarrow> frames log_of (call m)"
  by (simp add: frames_def call_def split: prod.split) (metis snd_conv)

lemma frames_parts [frame_rules]:
  "frames log_of (gated g)" "frames http (call m)" "frames http (gated g)"
  by (simp_all add: frames_def call_def gated_def act_simps split: prod.split gate.split)

lemma frames_pure [frame_rules]: "frames f (valid b)" "frames f (rolesGuard rs u)" "frames f (ret x)" "frames f (throw e)"
  by (simp_all add: frames_def valid_def rolesGuard_def act_simps split: option.split)

lemma frames_await [frame_rules]: "frames f m \<Longrightarrow> (\<And>x. frames f (k x)) \<Longrightarrow> frames f (await m k)"
  by (simp add: frames_def await_def split: prod.split sum.split) (metis snd_conv)

lemma frames_if [frame_rules]: "frames f m \<Longrightarrow> frames f n \<Longrightarrow> frames f (if b then m else n)"
  by simp

lemma frames_pair [frame_rules]: "(\<And>a b. frames f (k a b)) \<Longrightarrow> frames f (case x of (a, b) \<Rightarrow> k a b)"
  by (cases x) simp

text \<open>The services of the catalogue write no record themselves.\<close>

lemma quiet_primitives [keeps_rules]:
  "keeps (\<lambda>w. audit_log w = a) (run_stmt f st)" "keeps (\<lambda>w. audit_log w = a) (cache_write g)"
  "keeps (\<lambda>w. audit_log w = a) (query h)" "keeps (\<lambda>w. audit_log w = a) (cache_get fam t k)"
  by (auto simp: keeps_def run_stmt_def cache_write_def modify_run query_def cache_get_def gets_def split: option.split sum.split prod.split)

lemma quiet_catalogue [frame_rules]:
  "frames audit_log (createMovie now mdto)" "frames audit_log (updateMovie i mp)" "frames audit_log (publish i)"
  "frames audit_log (unpublish i)" "frames audit_log (deleteMovie i)" "frames audit_log listAllForAdmin"
  "frames audit_log (createScreening sdto)" "frames audit_log (updateScreening i sp)" "frames audit_log (cancelScreening i)"
  "frames audit_log (deleteScreening i)" "frames audit_log (createHall hdto)" "frames audit_log (listHalls now)"
  "frames audit_log (deleteHall i)"
  unfolding frames_keeps movies_service_defs movies_repo_defs movies_cache_defs screenings_service_defs screenings_repo_defs
    screenings_cache_defs halls_service_defs halls_repo_defs halls_cache_defs Let_def
  by (intro allI keeps_rules)+

lemma quiet_guards [frame_rules]: "frames log_of (authenticated env c)" "frames log_of (admin env c)"
proof -
  have "frames audit_log (jwtAuthGuard j t tok)" for j t tok
    unfolding frames_keeps jwtAuthGuard_def jwt_validate_def getAccessVersion_def
    by (auto simp: keeps_def await_def on_redis_def throw_run ret_run split: option.split)
  then show "frames log_of (authenticated env c)" unfolding authenticated_def by (rule frames_call)
  then show "frames log_of (admin env c)" unfolding admin_def by (intro frame_rules)
qed

lemma frames_guards [frame_rules]:
  "frames http (authenticated env c)" "frames http (admin env c)" "frames http (rateLimitGuard env r u)"
  unfolding admin_def authenticated_def rateLimitGuard_def by (intro frame_rules)+

lemma frames_answers [frame_rules]:
  "frames audit_log m \<Longrightarrow> frames log_of (answer f m)"
  "frames http (answer f m)" "frames http (with_cookies g m')" "frames http (audited u a t i f m)"
  unfolding answer_def with_cookies_def audited_def by (intro frame_rules; assumption?)+

lemma logs_quiet: "frames log_of m \<Longrightarrow> Q [] \<Longrightarrow> logs Q m"
  by (simp add: logs_def frames_def)

lemma logs_answer: "frames audit_log m \<Longrightarrow> Q [] \<Longrightarrow> logs Q (answer f m)"
  by (rule logs_quiet) (rule frames_answers)

lemma logs_await: "frames log_of m \<Longrightarrow> (\<And>x. logs Q (k x)) \<Longrightarrow> logs Q (await m k)"
proof (unfold logs_def, intro allI)
  fix s
  assume m: "frames log_of m" and k: "\<And>x. \<forall>s. \<exists>new. log_of (snd (k x s)) = log_of s @ new \<and> (if isl (fst (k x s)) then new = [] else Q new)"
  obtain r s1 where r: "m s = (r, s1)" by fastforce
  have s1: "log_of s1 = log_of s" using m r unfolding frames_def by (metis snd_conv)
  show "\<exists>new. log_of (snd (await m k s)) = log_of s @ new \<and> (if isl (fst (await m k s)) then new = [] else Q new)"
  proof (cases r)
    case (Inr b)
    then show ?thesis using k [of b, rule_format, of s1] s1 by (simp add: await_def r)
  qed (simp add: await_def r s1)
qed

lemma logs_audited:
  assumes "frames audit_log m" and "\<And>j. Q [by_actor_on a (au_id u) t j]"
  shows "logs Q (audited u a t i f m)"
  unfolding audited_def
  by (rule logs_await [OF frames_call [OF assms(1)]])
    (simp add: logs_def call_def record_audit_run await_def ret_run assms(2))

lemma logs_intercept: "logs Q m \<Longrightarrow> logs Q (intercept env t l n m)"
  by (simp add: logs_def intercept_def case_prod_beta)

definition admin_log :: "route \<Rightarrow> auth_user \<Rightarrow> audit_event list \<Rightarrow> bool" where
  "admin_log r u new \<longleftrightarrow> (case audit_action r of None \<Rightarrow> new = [] | Some a \<Rightarrow> \<exists>t j. new = [by_actor_on a (au_id u) t j])"

lemma logs_movies_admin: "logs (admin_log (MoviesAdmin x) u) (movies_admin env u x)"
  by (cases x) (auto simp: admin_log_def by_actor_on_def intro!: logs_await logs_audited logs_answer frame_rules)

lemma logs_screenings_admin: "logs (admin_log (ScreeningsAdmin x) u) (screenings_admin u x)"
  by (cases x) (auto simp: admin_log_def by_actor_on_def intro!: logs_await logs_audited frame_rules)

lemma admin_only_run:
  assumes "fst (token_check env c s) = Inr u" and "au_role u = ADMIN" and "needs_admin r"
  shows "handle env c r s = intercept env ''http'' (http_line r) (success_status r)
     (case r of MoviesAdmin x \<Rightarrow> movies_admin env u x | ScreeningsAdmin x \<Rightarrow> screenings_admin u x
      | Halls (CreateHall dto) \<Rightarrow> await (valid (valid_hall_dto dto)) (\<lambda>_. answer HallSeatsBody (createHall dto))
      | Halls ListHalls \<Rightarrow> answer HallsBody (listHalls (now_of env))
      | Halls (RemoveHall i) \<Rightarrow> answer HallBody (deleteHall i) | _ \<Rightarrow> throw BreakerError) s"
  unfolding handle_unlimited [OF disjI2 [OF assms(3)]] using assms
  by (cases r rule: needs_admin.cases)
    (simp_all add: MoviesAdminController_def ScreeningsAdminController_def await_def admin_run split: halls_route.split)

text \<open>The audit log tells who changed movies and screenings: a request to an admin route that fails adds nothing to
  it; one that succeeds adds exactly one record, of its action and of the administrator whose token it was, if the
  route is one of movies or screenings that changes something. The routes that create and delete halls leave no record. No
  entry is changed or removed.\<close>

theorem audit_trail:
  assumes "handle env c r s = (res, s')" and "needs_admin r"
  shows "(isl res \<longrightarrow> log_of s' = log_of s) \<and>
    (\<not> isl res \<longrightarrow> (case audit_action r of
        None \<Rightarrow> log_of s' = log_of s
      | Some a \<Rightarrow> \<exists>u t j. fst (token_check env c s) = Inr u \<and> au_role u = ADMIN \<and>
          log_of s' = log_of s @ [by_actor_on a (au_id u) t j]))"
proof (cases "\<exists>u. fst (token_check env c s) = Inr u \<and> au_role u = ADMIN")
  case False
  then have "s' = s \<and> isl res"
    using refused_token [of env c s _ r] refused_role [of env c s _ r] assms
    by (cases "fst (token_check env c s)") auto
  then show ?thesis by simp
next
  case adm: True
  then obtain u where u: "fst (token_check env c s) = Inr u" "au_role u = ADMIN" by blast
  have "logs (admin_log r u) (intercept env ''http'' (http_line r) (success_status r)
    (case r of MoviesAdmin x \<Rightarrow> movies_admin env u x | ScreeningsAdmin x \<Rightarrow> screenings_admin u x
    | Halls (CreateHall dto) \<Rightarrow> await (valid (valid_hall_dto dto)) (\<lambda>_. answer HallSeatsBody (createHall dto))
    | Halls ListHalls \<Rightarrow> answer HallsBody (listHalls (now_of env))
    | Halls (RemoveHall i) \<Rightarrow> answer HallBody (deleteHall i) | _ \<Rightarrow> throw BreakerError))"
  proof (rule logs_intercept, cases r)
    case (Halls x)
    then show "logs (admin_log r u) (case r of MoviesAdmin x \<Rightarrow> movies_admin env u x | ScreeningsAdmin x \<Rightarrow> screenings_admin u x
      | Halls (CreateHall dto) \<Rightarrow> await (valid (valid_hall_dto dto)) (\<lambda>_. answer HallSeatsBody (createHall dto))
      | Halls ListHalls \<Rightarrow> answer HallsBody (listHalls (now_of env))
      | Halls (RemoveHall i) \<Rightarrow> answer HallBody (deleteHall i) | _ \<Rightarrow> throw BreakerError)"
      using assms(2) by (cases x) (auto simp: admin_log_def intro!: logs_quiet frame_rules)
  qed (use assms(2) in \<open>simp_all add: logs_movies_admin logs_screenings_admin\<close>)
  then have "\<exists>new. log_of s' = log_of s @ new \<and> (if isl res then new = [] else admin_log r u new)"
    using assms(1) unfolding admin_only_run [OF u assms(2)] by (rule logsD)
  with u show ?thesis by (auto simp: admin_log_def split: if_splits option.splits)
qed

subsection \<open>What the metrics see\<close>

text \<open>A method whose interceptor, if it got there, recorded once.\<close>

definition recorded :: "http_env \<Rightarrow> string \<times> string \<Rightarrow> int \<Rightarrow> 'a endpoint \<Rightarrow> bool" where
  "recorded env l n m \<longleftrightarrow> (\<forall>s. http (snd (m s)) = http s \<and> isl (fst (m s)) \<or>
     http (snd (m s)) = record_metrics env (fst l) (snd l) n (http s))"

lemma recorded_intercept: "frames http m \<Longrightarrow> recorded env l n (intercept env ''http'' l n m)"
  by (simp add: recorded_def frames_def intercept_def case_prod_beta)

lemma recorded_await: "frames http m \<Longrightarrow> (\<And>x. recorded env l n (k x)) \<Longrightarrow> recorded env l n (await m k)"
proof (unfold recorded_def, intro allI)
  fix s
  assume m: "frames http m" and k: "\<And>x. \<forall>s. http (snd (k x s)) = http s \<and> isl (fst (k x s)) \<or>
     http (snd (k x s)) = record_metrics env (fst l) (snd l) n (http s)"
  obtain r s1 where r: "m s = (r, s1)" by fastforce
  have s1: "http s1 = http s" using m r unfolding frames_def by (metis snd_conv)
  show "http (snd (await m k s)) = http s \<and> isl (fst (await m k s)) \<or>
     http (snd (await m k s)) = record_metrics env (fst l) (snd l) n (http s)"
  proof (cases r)
    case (Inr b)
    then show ?thesis using k [of b, rule_format, of s1] s1 by (simp add: await_def r)
  qed (simp add: await_def r s1)
qed

lemma frames_handlers [frame_rules]: "frames http (movies_admin env u x)" "frames http (screenings_admin u y)" "frames http (users_me env u z)"
  subgoal by (cases x) (auto intro!: frame_rules)
  subgoal by (cases y) (auto intro!: frame_rules)
  subgoal by (cases z) (auto intro!: frame_rules)
  done

lemma recorded_dispatch: "r \<notin> {Auth GoogleAuth, Auth LinkGoogle} \<Longrightarrow> recorded env l n (dispatch (intercept env ''http'' l n) env c r)"
  by (cases r rule: http_line.cases)
    (auto simp: MoviesAdminController_def ScreeningsAdminController_def UsersController_def audit_user_def Let_def
      intro!: recorded_await recorded_intercept frame_rules)

text \<open>The HTTP metrics never see a failure: whatever a request does, the only series it can move is the one of its
  route with the status of a success. A handler that throws is counted there, since the interceptor records
  before the exception is turned into a response, and a request a guard or the limiter refuses is in no series. Every request that
  succeeds is counted exactly once, but for the two that a guard sends on to Google.\<close>

theorem errors_counted_as_success:
  assumes "handle env c r s = (res, s')" and "r \<notin> {Auth GoogleAuth, Auth LinkGoogle}"
  shows "(http s' = http s \<and> isl res \<or>
      http s' = record_metrics env (fst (http_line r)) (snd (http_line r)) (success_status r) (http s)) \<and>
    (\<forall>l. http_requests_total (http s') l \<noteq> http_requests_total (http s) l \<longrightarrow> hl_status_code l \<in> {''200'', ''201''})"
proof -
  have "recorded env (http_line r) (success_status r) (handle env c r)"
    using recorded_dispatch [OF assms(2), of env "http_line r" "success_status r" c] unfolding handle_def Let_def
    by (auto intro!: recorded_await frame_rules)
  then have r: "http s' = http s \<and> isl res \<or>
      http s' = record_metrics env (fst (http_line r)) (snd (http_line r)) (success_status r) (http s)"
    using assms(1) unfolding recorded_def by (metis fst_conv snd_conv)
  have "success_status r = 200 \<or> success_status r = 201"
    by (simp add: success_status_def split: route.split auth_route.split)
  moreover have "string_of_int 200 = ''200''" "string_of_int 201 = ''201''" by code_simp+
  ultimately show ?thesis using r by (auto simp: record_metrics_def Let_def split: if_splits)
qed

subsection \<open>The identity a token carries\<close>

text \<open>A new name is not shown back: after a successful change of the name, with the cookies the client has, \<open>GET /auth/me\<close>
  still answers with the name the token carries, while the account has the new one.\<close>

theorem me_shows_old_name:
  assumes "handle env c (Users (UpdateName nm)) s = (Inr b, s')" and "db_ok (db (app s))"
  shows "\<exists>u acc s2. fst (token_check env c s) = Inr u \<and>
    find_row (au_id u) (users (db (app s'))) = Some acc \<and> user_name acc = nm \<and>
    handle env c (Auth Me) s' = (Inr (UserBody u, []), s2)"
proof -
  let ?u = "fst (token_check env c s)"
  obtain u where u: "?u = Inr u"
    using assms(1) refused_token [of env c s _ "Users (UpdateName nm)"] by (cases ?u) auto
  have run: "handle env c (Users (UpdateName nm)) s = UsersController (intercept env ''http'' (''PATCH'', ''/users/me'') 200) env c (UpdateName nm) s"
    by (simp add: handle_unlimited success_status_def)
  obtain m where lim: "rateLimitGuard env (Some (users_rule (UpdateName nm))) u s = (Inr (), s\<lparr>limits := m\<rparr>)"
    using assms(1) unfolding run UsersController_def
    by (auto simp: await_def authenticated_run u rateLimitGuard_def gated_def split: prod.splits gate.splits)
  have svc: "\<exists>a. updateName (accounts env) (au_id u) nm (app s) = (Inr a, app s')"
    using assms(1) unfolding run UsersController_def
    by (auto simp: await_def authenticated_run u lim [simplified] intercept_def valid_def answer_def call_def act_simps
        split: prod.splits sum.splits if_splits)
  then obtain a w1 r where w1: "users_updateName (user_fault (accounts env) AtName) (au_id u) nm (app s) = (Inr r, w1)"
      and w2: "getAuthUser (au_id u) w1 = (Inr a, app s')"
    unfolding updateName_def by (elim exE await_returnsE) blast
  from w2 have same: "app s' = w1"
    by (auto simp: getAuthUser_def auth_findById_def await_query act_simps split: option.splits)
  from w1 obtain d where d: "update_user (au_id u) (\<lambda>x. x\<lparr>user_name := nm\<rparr>) (db (app s)) = Inr (r, d)" and w1': "w1 = (app s)\<lparr>db := d\<rparr>"
    by (auto simp: users_updateName_def run_stmt_def split: option.splits sum.splits)
  from d obtain acc where acc: "find_row (au_id u) (users (db (app s))) = Some acc"
      and d': "d = (db (app s))\<lparr>users := update_row (au_id u) (\<lambda>x. x\<lparr>user_name := nm\<rparr>) (users (db (app s)))\<rparr>"
    unfolding update_user_def by (rule update_stmtE) auto
  have "find_row (au_id u) (users (db (app s'))) = Some (acc\<lparr>user_name := nm\<rparr>)"
    by (simp add: same w1' d' find_update_row acc)
  moreover have "token_check env c s' = (Inr u, app s')"
    using u unfolding same w1' by (auto simp: jwtAuthGuard_def jwt_validate_def getAccessVersion_def on_redis_def await_def act_simps
        split: option.splits if_splits)
  then have "\<exists>s2. handle env c (Auth Me) s' = (Inr (UserBody u, []), s2)"
    by (simp add: handle_unlimited await_def authenticated_run intercept_def act_simps plain_def)
  ultimately show ?thesis using u by auto
qed

subsection \<open>The properties on the sample database\<close>

definition sample_http :: "user_role \<Rightarrow> http_env" where
  "sample_http ro = \<lparr>accounts = sample_auth\<lparr>jwt := sample_jwt\<lparr>verify_access := (\<lambda>t _. if t = ''A''
       then Some \<lparr>ap_sub = 1, ap_name = ''u'', ap_email = ''a'', ap_role = ro, ap_ver = 0\<rparr> else None)\<rparr>\<rparr>,
     booking = sample_env, stripe = sample_stripe, isEmail = (\<lambda>_. True), members = (''m'', ''n''),
     login_limit = None, elapsed_ns = 5000000, content_length = Some 20\<rparr>"

definition sample_server :: server where
  "sample_server = \<lparr>app = world_of sample_db, limits = Map.empty,
     http = \<lparr>http_requests_total = (\<lambda>_. 0), http_request_duration_seconds = [], http_response_size_bytes = []\<rparr>\<rparr>"

definition caller_a :: caller where
  "caller_a = \<lparr>access_token = Some ''A'', refresh_token = None, ip = ''10.0.0.1''\<rparr>"

lemma sample_token: "fst (token_check (sample_http ro) caller_a sample_server) =
    Inr \<lparr>au_id = 1, au_name = ''u'', au_email = ''a'', au_role = ro\<rparr>"
  by (simp add: sample_http_def caller_a_def sample_server_def jwtAuthGuard_def jwt_validate_def await_def getAccessVersion_up
      world_of_def empty_redis_def empty_auth_def key_get_def act_simps)

theorem guards_refuse_witness:
  "handle (sample_http USER) caller_a (MoviesAdmin (PublishMovie 2)) sample_server = (Inl insufficient_role, sample_server) \<and>
   handle (sample_http USER) (caller_a\<lparr>access_token := None\<rparr>) (Reservations ListMine) sample_server = (Inl unauthorized, sample_server)"
proof -
  have "fst (token_check (sample_http USER) (caller_a\<lparr>access_token := None\<rparr>) sample_server) = Inl unauthorized"
    by (simp add: jwtAuthGuard_def throw_run)
  then show ?thesis
    using guards_refuse [of "sample_http USER" caller_a sample_server unauthorized "MoviesAdmin (PublishMovie 2)"
        "\<lparr>au_id = 1, au_name = ''u'', au_email = ''a'', au_role = USER\<rparr>"]
      guards_refuse [of "sample_http USER" "caller_a\<lparr>access_token := None\<rparr>" sample_server unauthorized "Reservations ListMine"]
      sample_token [of USER] by simp
qed

lemma sample_publish: "\<not> isl (fst (handle (sample_http ADMIN) caller_a (MoviesAdmin (PublishMovie 2)) sample_server))"
    "catalogue (db (app (snd (handle (sample_http ADMIN) caller_a (MoviesAdmin (PublishMovie 2)) sample_server)))) \<noteq>
       catalogue (db (app sample_server))"
  by code_simp+

theorem catalogue_admin_only_witness:
  "\<exists>u. fst (token_check (sample_http ADMIN) caller_a sample_server) = Inr u \<and> au_role u = ADMIN"
proof -
  obtain res s' where h: "handle (sample_http ADMIN) caller_a (MoviesAdmin (PublishMovie 2)) sample_server = (res, s')" by fastforce
  from catalogue_admin_only [OF h] sample_publish(2) h show ?thesis by simp
qed

theorem audit_trail_witness:
  "map (\<lambda>e. (ae_action e, ae_actorId e)) (log_of (snd (handle (sample_http ADMIN) caller_a (MoviesAdmin (PublishMovie 2)) sample_server))) =
     [(''movie.published'', Some 1)]"
proof -
  obtain res s' where h: "handle (sample_http ADMIN) caller_a (MoviesAdmin (PublishMovie 2)) sample_server = (res, s')" by fastforce
  have "\<not> isl res" using sample_publish(1) h by simp
  with audit_trail [OF h] obtain t j where
      "log_of s' = log_of sample_server @ [by_actor_on ''movie.published'' 1 t j]"
    using sample_token [of ADMIN] by auto
  moreover have "log_of sample_server = []" by (simp add: sample_server_def world_of_def)
  ultimately show ?thesis using h by (simp add: by_actor_on_def)
qed

text \<open>Seat 1 is taken: the request is answered 409 and counted as a 201.\<close>

lemma sample_conflict: "fst (handle (sample_http USER) caller_a (Reservations (Reserve (sample_request 1))) sample_server) = Inl seat_conflict"
  by code_simp

lemma sample_conflict_count: "http_requests_total (http (snd (handle (sample_http USER) caller_a (Reservations (Reserve (sample_request 1))) sample_server)))
    \<lparr>hl_method = ''POST'', hl_route = ''/reservations'', hl_status_code = ''201''\<rparr> = 1"
  by code_simp

theorem errors_counted_as_success_witness:
  "\<exists>s' l. handle (sample_http USER) caller_a (Reservations (Reserve (sample_request 1))) sample_server = (Inl seat_conflict, s') \<and>
     status_of seat_conflict = 409 \<and> http_requests_total (http s') l = 1 \<and> hl_status_code l \<in> {''200'', ''201''}"
proof -
  let ?l = "\<lparr>hl_method = ''POST'', hl_route = ''/reservations'', hl_status_code = ''201''\<rparr>"
  obtain s' where h: "handle (sample_http USER) caller_a (Reservations (Reserve (sample_request 1))) sample_server = (Inl seat_conflict, s')"
    using sample_conflict by (metis prod.collapse)
  have "http_requests_total (http s') ?l = 1" using sample_conflict_count h by simp
  moreover have "http_requests_total (http sample_server) ?l = 0" by (simp add: sample_server_def)
  ultimately have "http_requests_total (http s') ?l \<noteq> http_requests_total (http sample_server) ?l" by simp
  then have "hl_status_code ?l \<in> {''200'', ''201''}"
    using errors_counted_as_success [OF h] by blast
  moreover have "status_of seat_conflict = 409" by (simp add: seat_conflict_def)
  ultimately show ?thesis using h \<open>http_requests_total (http s') ?l = 1\<close> by (intro exI [of _ s'] exI [of _ ?l]) simp
qed

lemma sample_rename: "\<not> isl (fst (handle (sample_http USER) caller_a (Users (UpdateName ''vv'')) sample_server))"
  by code_simp

theorem me_shows_old_name_witness:
  "\<exists>b s' u s2. handle (sample_http USER) caller_a (Users (UpdateName ''vv'')) sample_server = (Inr b, s') \<and>
     handle (sample_http USER) caller_a (Auth Me) s' = (Inr (UserBody u, []), s2) \<and> au_name u = ''u''"
proof -
  obtain b s' where h: "handle (sample_http USER) caller_a (Users (UpdateName ''vv'')) sample_server = (Inr b, s')"
    using sample_rename by (cases "handle (sample_http USER) caller_a (Users (UpdateName ''vv'')) sample_server")
      (metis fst_conv isl_def sum.exhaust)
  have "db_ok (db (app sample_server))" by (simp add: sample_server_def world_of_def sample_db_ok)
  from me_shows_old_name [OF h this] sample_token [of USER] h show ?thesis by fastforce
qed

end
