(* ===== verification/LoadDrive.thy ===== *)
theory LoadDrive
  imports LoadSeed Access
begin

text \<open>
  \<open>load-test/processor.js\<close>: what a virtual user of the load tests does around its requests. \<open>Math.random()\<close> is an argument between 0 and 1, the answer of
  the login request a parameter, the file \<open>seed-output.json\<close> the output of the seed script.
\<close>

definition BOOKING_PROBABILITY :: rat where "BOOKING_PROBABILITY = 1 / 5"

text \<open>The variables of a virtual user.\<close>

record vu =
  vu_screeningId :: "int option"
  vu_hotSeatId :: "int option"
  vu_willBook :: "bool option"
  vu_authCookie :: "string option"
  vu_pickedSeatId :: "int option"
  vu_reservationId :: "int option"

definition fresh_vu :: vu where
  "fresh_vu = \<lparr>vu_screeningId = None, vu_hotSeatId = None, vu_willBook = None, vu_authCookie = None, vu_pickedSeatId = None,
     vu_reservationId = None\<rparr>"

fun join_text :: "string \<Rightarrow> string list \<Rightarrow> string" where
  "join_text sep [] = []"
| "join_text sep [x] = x"
| "join_text sep (x # xs) = x @ sep @ join_text sep xs"

definition cookie_pair :: "string \<Rightarrow> string" where
  "cookie_pair c = takeWhile (\<lambda>x. x \<noteq> CHR '';'') c"

definition user_index :: "rat \<Rightarrow> nat" where
  "user_index random = nat \<lfloor>random * of_nat USER_COUNT\<rfloor>"

text \<open>A failed login is an error; what was set before it stays.\<close>

definition loginBeforeScenario ::
  "load_output \<Rightarrow> rat \<Rightarrow> rat \<Rightarrow> (string \<Rightarrow> string \<Rightarrow> int \<times> string list) \<Rightarrow> vu \<Rightarrow> (string + unit) \<times> vu" where
  "loginBeforeScenario seedOutput random random' login v =
     (let v = v\<lparr>vu_screeningId := Some (lo_screeningId seedOutput), vu_hotSeatId := Some (lo_hotSeatId seedOutput),
            vu_willBook := Some (random < BOOKING_PROBABILITY)\<rparr>;
          addr = load_email (user_index random')
      in case login addr LOAD_TEST_PASSWORD of (st, setCookies) \<Rightarrow>
           if \<not> (200 \<le> st \<and> st \<le> 299)
           then (Inl (''load-test login failed for '' @ addr @ '': '' @ string_of_int st), v)
           else (Inr (), v\<lparr>vu_authCookie := Some (join_text ''; '' (map cookie_pair setCookies))\<rparr>))"

text \<open>A body that is no array (an error of the service) has no seats.\<close>

definition pickAvailableSeat :: "seat_map_entry list option \<Rightarrow> rat \<Rightarrow> vu \<Rightarrow> vu" where
  "pickAvailableSeat body random v =
     (let xs = (case body of None \<Rightarrow> [] | Some xs \<Rightarrow> xs);
          available = filter (\<lambda>s. sm_status s = SeatAVAILABLE) xs
      in if 0 < length available
         then v\<lparr>vu_pickedSeatId := Some (sm_seatId (available ! nat \<lfloor>random * of_nat (length available)\<rfloor>))\<rparr>
         else v)"

text \<open>The counter is the module's. With no hot screening the group is undefined, a \<open>TypeError\<close> after the counter moved on.\<close>

definition pickHotScreening :: "load_output \<Rightarrow> nat \<times> vu \<Rightarrow> (string + unit) \<times> nat \<times> vu" where
  "pickHotScreening seedOutput = (\<lambda>(counter, v).
     let hot = lo_hotScreenings seedOutput in
     if hot = [] then (Inl ''Cannot read properties of undefined'', counter + 1, v)
     else let g = hot ! (counter mod length hot) in
       (Inr (), counter + 1, v\<lparr>vu_screeningId := Some (fst g), vu_hotSeatId := Some (snd g)\<rparr>))"

definition result_line :: "int option \<Rightarrow> int \<Rightarrow> string" where
  "result_line screeningId st =
     ''{'' @ (case screeningId of None \<Rightarrow> [] | Some i \<Rightarrow> ''\"screeningId\":'' @ string_of_int i @ '','') @
       ''\"statusCode\":'' @ string_of_int st @ ''}''"

definition logContentionResult :: "int \<Rightarrow> vu \<Rightarrow> string \<Rightarrow> string" where
  "logContentionResult st v log_file = log_file @ result_line (vu_screeningId v) st @ [CHR 0x0A]"

definition captureReservationId :: "int option \<Rightarrow> vu \<Rightarrow> vu" where
  "captureReservationId body_id v = v\<lparr>vu_reservationId := body_id\<rparr>"

subsection \<open>The contention test\<close>

text \<open>The group the next virtual user gets, for a run of \<open>n\<close> users from the counter.\<close>

fun hot_run :: "load_output \<Rightarrow> nat \<Rightarrow> nat \<Rightarrow> (int option \<times> int option) list" where
  "hot_run out counter 0 = []"
| "hot_run out counter (Suc n) = (case pickHotScreening out (counter, fresh_vu) of (_, c, v) \<Rightarrow>
     (vu_screeningId v, vu_hotSeatId v) # hot_run out c n)"

lemma hot_run_groups:
  assumes "lo_hotScreenings out \<noteq> []"
  shows "hot_run out c n = map (\<lambda>k. (\<lambda>g. (Some (fst g), Some (snd g))) (lo_hotScreenings out ! (k mod length (lo_hotScreenings out)))) [c..<c + n]"
  using assms
proof (induction n arbitrary: c)
  case (Suc n)
  have "[c..<c + Suc n] = c # [Suc c..<Suc c + n]" using upt_conv_Cons [of c "c + Suc n"] by simp
  with Suc show ?case by (simp add: pickHotScreening_def Let_def)
qed simp

lemma residues: "0 < m \<Longrightarrow> g < m \<Longrightarrow> length (filter (\<lambda>k. k mod m = g) [0..<m * q]) = q"
proof (induction q)
  case (Suc q)
  have "[0..<m * Suc q] = [0..<m * q] @ map (\<lambda>k. k + m * q) [0..<m]"
    using upt_add_eq_append [of 0 "m * q" m] by (simp only: map_add_upt mult_Suc_right add.commute [of m "m * q"] le0)
  moreover have "filter (\<lambda>k. k mod m = g) [0..<m] = filter (\<lambda>k. k = g) [0..<m]" by (rule filter_cong) auto
  moreover have "length (filter (\<lambda>k. k = g) [0..<m]) = 1"
    using Suc.prems(2) distinct_card [of "filter (\<lambda>k. k = g) [0..<m]"] by (simp add: Collect_conv_if)
  ultimately show ?case using Suc by (simp add: filter_map comp_def)
qed simp

text \<open>Every hot screening gets the same share of the users: of any whole number of rounds each group is given to as many users as there
  are rounds, a hundred of two thousand for the twenty groups of the seed.\<close>

theorem hot_screenings_shared:
  assumes "distinct (lo_hotScreenings out)" and "(i, x) \<in> set (lo_hotScreenings out)"
  shows "length (filter (\<lambda>g. g = (Some i, Some x)) (hot_run out 0 (length (lo_hotScreenings out) * q))) = q"
proof -
  let ?hot = "lo_hotScreenings out"
  obtain g where g: "g < length ?hot" "?hot ! g = (i, x)" using assms(2) by (auto simp: in_set_conv_nth)
  then have ne: "?hot \<noteq> []" and pos: "0 < length ?hot" by auto
  have "(?hot ! (k mod length ?hot) = (i, x)) = (k mod length ?hot = g)" for k
    using assms(1) g pos nth_eq_iff_index_eq [of ?hot "k mod length ?hot" g] by auto
  then have same: "((Some (fst (?hot ! (k mod length ?hot))), Some (snd (?hot ! (k mod length ?hot)))) = (Some i, Some x)) =
      (k mod length ?hot = g)" for k
    by (metis option.inject prod.collapse prod.inject)
  show ?thesis using residues [OF pos g(1), of q] by (simp only: hot_run_groups [OF ne] filter_map length_map comp_def same add_0)
qed

theorem hot_screenings_shared_witness:
  "length (filter (\<lambda>g. g = (Some 4, Some 7)) (hot_run \<lparr>lo_screeningId = 1, lo_hotSeatId = 2, lo_hotScreenings = [(3, 6), (4, 7)]\<rparr> 0 (2 * 3))) = 3"
  using hot_screenings_shared [of "\<lparr>lo_screeningId = 1, lo_hotSeatId = 2, lo_hotScreenings = [(3, 6), (4, 7)]\<rparr>" 4 7 3] by simp

subsection \<open>Picking a seat\<close>

lemma floor_index:
  assumes "0 \<le> q" and "q < 1" and "0 < n"
  shows "nat \<lfloor>q * of_nat n\<rfloor> < n"
proof -
  have "q * of_nat n < of_nat n" using assms by simp
  then have "\<lfloor>q * of_nat n\<rfloor> < int n" by (simp add: floor_less_iff)
  then show ?thesis using assms(3) by (simp add: nat_less_iff)
qed

text \<open>A virtual user books only what it saw free: it picks a seat that the map it got lists as AVAILABLE, and none when there is no such
  seat or the answer was an error.\<close>

theorem picked_seat_available:
  assumes "0 \<le> q" and "q < 1" and "vu_pickedSeatId v = None"
  shows "case vu_pickedSeatId (pickAvailableSeat body q v) of
      None \<Rightarrow> (\<forall>xs. body = Some xs \<longrightarrow> (\<forall>s \<in> set xs. sm_status s \<noteq> SeatAVAILABLE))
    | Some i \<Rightarrow> (\<exists>xs. body = Some xs \<and> (\<exists>s \<in> set xs. sm_seatId s = i \<and> sm_status s = SeatAVAILABLE))"
proof (cases body)
  case None
  then show ?thesis using assms(3) by (simp add: pickAvailableSeat_def)
next
  case (Some xs)
  let ?a = "filter (\<lambda>s. sm_status s = SeatAVAILABLE) xs"
  show ?thesis
  proof (cases "?a = []")
    case True
    then show ?thesis using assms(3) Some by (auto simp: pickAvailableSeat_def filter_empty_conv)
  next
    case False
    then have "?a ! nat \<lfloor>q * of_nat (length ?a)\<rfloor> \<in> set ?a" using floor_index [OF assms(1,2), of "length ?a"] by (intro nth_mem) simp
    then show ?thesis using Some False by (auto simp: pickAvailableSeat_def Let_def)
  qed
qed

theorem picked_seat_available_witness:
  "vu_pickedSeatId (pickAvailableSeat (Some [\<lparr>sm_seatId = 1, sm_row = ''A'', sm_number = ''1'', sm_status = SeatBOOKED\<rparr>,
     \<lparr>sm_seatId = 2, sm_row = ''A'', sm_number = ''2'', sm_status = SeatAVAILABLE\<rparr>]) (1 / 2) fresh_vu) = Some 2"
  using picked_seat_available [of "1 / 2" fresh_vu "Some [\<lparr>sm_seatId = 1, sm_row = ''A'', sm_number = ''1'', sm_status = SeatBOOKED\<rparr>,
     \<lparr>sm_seatId = 2, sm_row = ''A'', sm_number = ''2'', sm_status = SeatAVAILABLE\<rparr>]"]
  by (auto simp: fresh_vu_def split: option.splits)

subsection \<open>The login\<close>

text \<open>The login request against the service, as the script sees it: its status.\<close>

definition service_login :: "http_env \<Rightarrow> caller \<Rightarrow> server \<Rightarrow> string \<Rightarrow> string \<Rightarrow> int \<times> string list" where
  "service_login env c s addr pw =
     (case fst (handle env c (Auth (Login addr pw)) s) of
        Inl e \<Rightarrow> (status_of e, [])
      | Inr (b, cookies) \<Rightarrow> (200, map (\<lambda>k. ck_name k @ ''='' @ ck_value k) cookies))"

lemma status_is_error: "400 \<le> status_of e"
  by (cases e rule: status_of.cases) simp_all

lemma login_request_fails:
  "localStrategy (accounts env) addr pw (app s) = (Inl x, w) \<Longrightarrow> \<exists>e. fst (handle env c (Auth (Login addr pw)) s) = Inl e"
  by (auto simp: handle_def Let_def middleware_routes_def await_def gated_def call_def split: prod.split gate.split sum.split)

text \<open>Every scenario of the load tests fails at its start, on the data that the seed script made and whatever user is drawn.\<close>

theorem load_scenarios_fail:
  assumes "db_ok (db w)" and "\<And>i. load_email i \<notin> email ` set (rows (users (db w)))" and "0 \<le> q" and "q < 1"
    and "argon2_verify (accounts env) h LOAD_TEST_PASSWORD \<noteq> Inr True"
  shows "\<exists>out w'. load_seed h clk (\<lambda>_. None) w = (Inr out, w') \<and>
    isl (fst (loginBeforeScenario out p q (service_login env c (s\<lparr>app := w'\<rparr>)) v))"
proof -
  have i: "user_index q < 2500" using floor_index [OF assms(3,4), of USER_COUNT] by (simp add: user_index_def USER_COUNT_def)
  obtain out w' x w2 where run: "load_seed h clk (\<lambda>_. None) w = (Inr out, w')"
      "localStrategy (accounts env) (load_email (user_index q)) LOAD_TEST_PASSWORD w' = (Inl x, w2)"
    using load_login_refused [OF assms(1,2) i assms(5), of clk] by blast
  obtain e where "fst (handle env c (Auth (Login (load_email (user_index q)) LOAD_TEST_PASSWORD)) (s\<lparr>app := w'\<rparr>)) = Inl e"
    using login_request_fails [of env _ _ "s\<lparr>app := w'\<rparr>" x w2 c] run(2) by auto
  then have "isl (fst (loginBeforeScenario out p q (service_login env c (s\<lparr>app := w'\<rparr>)) v))"
    using status_is_error [of e] by (simp add: loginBeforeScenario_def service_login_def Let_def)
  with run(1) show ?thesis by blast
qed

theorem load_scenarios_fail_witness:
  "\<exists>out w'. load_seed ''$2b$LoadTest123!'' (\<lambda>_. 0) (\<lambda>_. None) (world_of sample_db) = (Inr out, w') \<and>
    isl (fst (loginBeforeScenario out (1 / 10) (1 / 2) (service_login (sample_http USER) caller_a (sample_server\<lparr>app := w'\<rparr>)) fresh_vu))"
proof -
  have "argon2_verify (accounts (sample_http USER)) ''$2b$LoadTest123!'' LOAD_TEST_PASSWORD \<noteq> Inr True"
    by (simp add: sample_http_def sample_auth_def)
  then show ?thesis
    using load_scenarios_fail [of "world_of sample_db" "1 / 2" "sample_http USER" "''$2b$LoadTest123!''"] sample_no_load_users sample_db_ok
    by (simp add: world_of_def)
qed

end
