(* ===== verification/Gateway.thy ===== *)
theory Gateway
  imports Reservations Tokens
begin

text \<open>
  The realtime layer: \<open>gateway/screening.gateway.ts\<close> and \<open>gateway/reservation-broadcast.listener.ts\<close>. The
  gateway's own state is a \<open>hub\<close>, kept beside the world of the services: the sockets of every identified
  user (\<open>userSockets\<close>), the user each socket carries (\<open>client.data.userId\<close>), the two metrics it moves, the
  counter of broadcasts, and what was sent. The rooms and the open connections are Socket.IO's: \<open>join\<close> puts a socket
  into a room, a socket that closes leaves all its rooms, and a message to a room goes to its members.

  A \<open>Map\<close> of \<open>Set\<close>s is a map to lists without repetition. A text is a sequence of bytes: what
  \<open>decodeURIComponent\<close> decodes from several escapes stays the UTF-8 bytes it was.
\<close>

subsection \<open>Cookies of the handshake\<close>

datatype uri_error = URIError

definition hex_value :: "char \<Rightarrow> nat option" where
  "hex_value c = (let b = of_char c :: nat in
     if 48 \<le> b \<and> b \<le> 57 then Some (b - 48)
     else if 65 \<le> b \<and> b \<le> 70 then Some (b - 55)
     else if 97 \<le> b \<and> b \<le> 102 then Some (b - 87) else None)"

text \<open>The bytes of a text, marked when they were written as an escape.\<close>

fun unescape :: "string \<Rightarrow> (bool \<times> char) list option" where
  "unescape [] = Some []"
| "unescape (c # s) =
     (if c \<noteq> CHR ''%'' then map_option ((#) (False, c)) (unescape s)
      else case s of
        a # b # r \<Rightarrow> (case (hex_value a, hex_value b) of
            (Some x, Some y) \<Rightarrow> map_option ((#) (True, char_of (16 * x + y))) (unescape r)
          | _ \<Rightarrow> None)
      | _ \<Rightarrow> None)"

text \<open>Escaped bytes above 127 must form UTF-8: \<open>k\<close> more bytes are due, the next between \<open>lo\<close> and \<open>hi\<close>.\<close>

fun utf8_ok :: "nat \<Rightarrow> nat \<Rightarrow> nat \<Rightarrow> (bool \<times> char) list \<Rightarrow> bool" where
  "utf8_ok k lo hi [] \<longleftrightarrow> k = 0"
| "utf8_ok k lo hi ((esc, c) # xs) \<longleftrightarrow> (let b = of_char c :: nat in
     if k > 0 then esc \<and> lo \<le> b \<and> b \<le> hi \<and> utf8_ok (k - 1) 128 191 xs
     else if \<not> esc \<or> b < 128 then utf8_ok 0 0 0 xs
     else if 194 \<le> b \<and> b \<le> 223 then utf8_ok 1 128 191 xs
     else if b = 224 then utf8_ok 2 160 191 xs
     else if b = 237 then utf8_ok 2 128 159 xs
     else if 225 \<le> b \<and> b \<le> 239 then utf8_ok 2 128 191 xs
     else if b = 240 then utf8_ok 3 144 191 xs
     else if 241 \<le> b \<and> b \<le> 243 then utf8_ok 3 128 191 xs
     else if b = 244 then utf8_ok 3 128 143 xs
     else False)"

definition decodeURIComponent :: "string \<Rightarrow> uri_error + string" where
  "decodeURIComponent s =
     (case unescape s of
        None \<Rightarrow> Inl URIError
      | Some xs \<Rightarrow> if utf8_ok 0 0 0 xs then Inr (map snd xs) else Inl URIError)"

text \<open>The regular expression \<open>(?:^|;\s*)name=([^;]+)\<close>: at the start of the header, or after a semicolon and blanks.\<close>

definition js_space :: "char \<Rightarrow> bool" where
  "js_space c \<longleftrightarrow> (of_char c :: nat) \<in> {9, 10, 11, 12, 13, 32, 160}"

fun strip_prefix :: "string \<Rightarrow> string \<Rightarrow> string option" where
  "strip_prefix [] s = Some s"
| "strip_prefix (p # ps) [] = None"
| "strip_prefix (p # ps) (c # s) = (if p = c then strip_prefix ps s else None)"

definition cookie_here :: "string \<Rightarrow> string \<Rightarrow> string option" where
  "cookie_here name s =
     (case strip_prefix (name @ ''='') s of
        None \<Rightarrow> None
      | Some r \<Rightarrow> (let v = takeWhile (\<lambda>c. c \<noteq> CHR '';'') r in if v = [] then None else Some v))"

fun cookie_scan :: "string \<Rightarrow> string \<Rightarrow> string option" where
  "cookie_scan name [] = None"
| "cookie_scan name (c # s) =
     (if c = CHR '';'' then
        (case cookie_here name (dropWhile js_space s) of Some v \<Rightarrow> Some v | None \<Rightarrow> cookie_scan name s)
      else cookie_scan name s)"

definition cookie_match :: "string \<Rightarrow> string \<Rightarrow> string option" where
  "cookie_match name header = (case cookie_here name header of Some v \<Rightarrow> Some v | None \<Rightarrow> cookie_scan name header)"

definition extractCookie :: "string option \<Rightarrow> string \<Rightarrow> uri_error + string option" where
  "extractCookie header name =
     (case header of
        None \<Rightarrow> Inr None
      | Some h \<Rightarrow>
          if h = [] then Inr None
          else (case cookie_match name h of
              None \<Rightarrow> Inr None
            | Some v \<Rightarrow> (case decodeURIComponent v of Inl e \<Rightarrow> Inl e | Inr t \<Rightarrow> Inr (Some t))))"

subsection \<open>State of the gateway\<close>

datatype payload =
    SeatDelta int "int list" seat_status
  | HoldNotice int int
  | Summary screening_summary

type_synonym message = "string \<times> payload"

record hub =
  userSockets :: "int \<Rightarrow> nat list option"
  socket_user :: "nat \<Rightarrow> int option"
  room_members :: "string \<Rightarrow> nat list"
  open_sockets :: "nat list"
  connections_current :: int
  room_joins_total :: int
  broadcasts_total :: "string \<Rightarrow> int"
  sent :: "(nat \<times> message) list"

definition empty_hub :: hub where
  "empty_hub = \<lparr>userSockets = Map.empty, socket_user = Map.empty, room_members = (\<lambda>_. []), open_sockets = [],
     connections_current = 0, room_joins_total = 0, broadcasts_total = (\<lambda>_. 0), sent = []\<rparr>"

definition roomName :: "int \<Rightarrow> string" where
  "roomName screeningId = ''screening:'' @ string_of_int screeningId"

definition set_add :: "nat \<Rightarrow> nat list \<Rightarrow> nat list" where
  "set_add x xs = (if x \<in> set xs then xs else xs @ [x])"

subsection \<open>ScreeningGateway\<close>

record handshake =
  hs_origin :: "string option"
  hs_cookie :: "string option"

text \<open>The client was disconnected, admitted, or the handler threw.\<close>

datatype connection = Refused | Admitted | Threw uri_error

definition differs :: "string option \<Rightarrow> string option \<Rightarrow> bool" where
  "differs origin allowed \<longleftrightarrow>
     (case (origin, allowed) of (Some o', Some a) \<Rightarrow> o' \<noteq> [] \<and> a \<noteq> [] \<and> o' \<noteq> a | _ \<Rightarrow> False)"

definition identify :: "nat \<Rightarrow> int \<Rightarrow> hub \<Rightarrow> hub" where
  "identify client userId h =
     h\<lparr>socket_user := (socket_user h)(client \<mapsto> userId),
       userSockets := (userSockets h)(userId \<mapsto>
         set_add client (case userSockets h userId of None \<Rightarrow> [] | Some ss \<Rightarrow> ss))\<rparr>"

definition handleConnection :: "jwt_env \<Rightarrow> string option \<Rightarrow> ms \<Rightarrow> nat \<Rightarrow> handshake \<Rightarrow> hub \<Rightarrow> connection \<times> hub" where
  "handleConnection env allowedOrigin now client hs h =
     (if differs (hs_origin hs) allowedOrigin then (Refused, h)
      else case extractCookie (hs_cookie hs) ''access_token'' of
        Inl e \<Rightarrow> (Threw e, h)
      | Inr token \<Rightarrow>
          let h' = (case token of
              None \<Rightarrow> h
            | Some t \<Rightarrow>
                if t = [] then h
                else case verify_access env t now of
                  None \<Rightarrow> h
                | Some p \<Rightarrow> identify client (ap_sub p) h)
          in (Admitted, h'\<lparr>connections_current := connections_current h' + 1\<rparr>))"

definition handleDisconnect :: "nat \<Rightarrow> hub \<Rightarrow> hub" where
  "handleDisconnect client h =
     (let h' = (case socket_user h client of
         None \<Rightarrow> h
       | Some userId \<Rightarrow>
           (case userSockets h userId of
              None \<Rightarrow> h
            | Some sockets \<Rightarrow>
                let rest = filter (\<lambda>s. s \<noteq> client) sockets
                in h\<lparr>userSockets := (if rest = [] then (userSockets h)(userId := None)
                                    else (userSockets h)(userId \<mapsto> rest))\<rparr>))
      in h'\<lparr>connections_current := connections_current h' - 1\<rparr>)"

definition emitToRoom :: "int \<Rightarrow> message \<Rightarrow> hub \<Rightarrow> hub" where
  "emitToRoom screeningId msg h = h\<lparr>sent := sent h @ map (\<lambda>s. (s, msg)) (room_members h (roomName screeningId))\<rparr>"

definition emitToUser :: "int \<Rightarrow> message \<Rightarrow> hub \<Rightarrow> hub" where
  "emitToUser userId msg h =
     (case userSockets h userId of
        None \<Rightarrow> h
      | Some sockets \<Rightarrow> h\<lparr>sent := sent h @ map (\<lambda>s. (s, msg)) sockets\<rparr>)"

type_synonym 'a live = "(world \<times> hub, 'a) act"

text \<open>A service call from the gateway, and a step on the gateway's own state.\<close>

definition serve :: "'a service \<Rightarrow> 'a live" where
  "serve m s = (case m (fst s) of (r, w) \<Rightarrow> (r, (w, snd s)))"

definition on_hub :: "(hub \<Rightarrow> hub) \<Rightarrow> unit live" where
  "on_hub f s = (Inr (), (fst s, f (snd s)))"

datatype join_result = Joined "seat_map_entry list" screening_summary | NotJoined string

text \<open>The two halves of \<open>handleJoin\<close>: what it reads, and the entry into the room after the reads.\<close>

definition join_read :: "ms \<Rightarrow> int \<Rightarrow> (seat_map_entry list \<times> screening_summary) service" where
  "join_read now screeningId =
     await (getSeatMap now screeningId) (\<lambda>seatMap.
     await (getScreeningSummary now screeningId) (\<lambda>summary.
     ret (seatMap, summary)))"

definition join_enter :: "int \<Rightarrow> nat \<Rightarrow> hub \<Rightarrow> hub" where
  "join_enter screeningId client h =
     h\<lparr>room_members := (room_members h)(roomName screeningId := set_add client (room_members h (roomName screeningId))),
       room_joins_total := room_joins_total h + 1\<rparr>"

text \<open>\<open>data\<close> is the value of \<open>Number(data?.screeningId)\<close>, \<open>None\<close> when that is \<open>NaN\<close> or infinite.\<close>

definition handleJoin :: "ms \<Rightarrow> rat option \<Rightarrow> nat \<Rightarrow> join_result live" where
  "handleJoin now data client =
     (case data of
        None \<Rightarrow> ret (NotJoined ''Invalid screeningId'')
      | Some q \<Rightarrow>
          if of_int \<lfloor>q\<rfloor> \<noteq> q \<or> q < 1 then ret (NotJoined ''Invalid screeningId'')
          else
            catch_err
              (await (serve (join_read now \<lfloor>q\<rfloor>)) (\<lambda>(seatMap, summary).
               await (on_hub (join_enter \<lfloor>q\<rfloor> client)) (\<lambda>_.
               ret (Joined seatMap summary))))
              (\<lambda>err. case err of NotFoundException msg \<Rightarrow> ret (NotJoined msg) | _ \<Rightarrow> throw err))"

subsection \<open>ReservationBroadcastListener\<close>

definition count_broadcast :: "string \<Rightarrow> hub \<Rightarrow> hub" where
  "count_broadcast ev h = h\<lparr>broadcasts_total := (broadcasts_total h)(ev := broadcasts_total h ev + 1)\<rparr>"

text \<open>An error of the summary is logged, never thrown.\<close>

definition broadcast :: "ms \<Rightarrow> int \<Rightarrow> int list \<Rightarrow> string \<Rightarrow> seat_status \<Rightarrow> unit live" where
  "broadcast now screeningId seatIds ev status =
     await (on_hub (count_broadcast ev)) (\<lambda>_.
     await (on_hub (emitToRoom screeningId (ev, SeatDelta screeningId seatIds status))) (\<lambda>_.
     catch_err
       (await (serve (getScreeningSummary now screeningId)) (\<lambda>summary.
        on_hub (emitToRoom screeningId (''screening:summary'', Summary summary))))
       (\<lambda>_. ret ())))"

definition handleHoldExpired :: "int \<Rightarrow> int \<Rightarrow> int \<Rightarrow> unit live" where
  "handleHoldExpired userId screeningId seatId =
     await (on_hub (count_broadcast ''hold:expired'')) (\<lambda>_.
     on_hub (emitToUser userId (''hold:expired'', HoldNotice screeningId seatId)))"

fun on_event :: "ms \<Rightarrow> event \<Rightarrow> unit live" where
  "on_event now (ReservationCreated s seatIds) = broadcast now s seatIds ''seat:reserved'' SeatHELD"
| "on_event now (ReservationCancelled s seatIds) = broadcast now s seatIds ''seat:cancelled'' SeatAVAILABLE"
| "on_event now (ReservationConfirmed s seatIds) = broadcast now s seatIds ''seat:booked'' SeatBOOKED"
| "on_event now (HoldExpired u s seat) = handleHoldExpired u s seat"

lemmas gateway_defs [handler_defs] = join_read_def handleJoin_def broadcast_def handleHoldExpired_def

subsection \<open>The sockets of a user\<close>

definition sockets_of :: "int \<Rightarrow> hub \<Rightarrow> nat list" where
  "sockets_of u h = (case userSockets h u of None \<Rightarrow> [] | Some ss \<Rightarrow> ss)"

text \<open>What the framework does with the gateway: a connection opens with a fresh socket object, one that was
  admitted stays open until it closes, a request to join comes from an open socket; events and other changes
  of the services come at any time.\<close>

datatype socket_op =
    Connect jwt_env "string option" ms nat handshake
  | Disconnect nat
  | Join ms "rat option" nat
  | Deliver ms event
  | Services world

definition opened :: "nat \<Rightarrow> connection \<times> hub \<Rightarrow> hub" where
  "opened c r = (case r of (Refused, h) \<Rightarrow> h | (_, h) \<Rightarrow> h\<lparr>open_sockets := open_sockets h @ [c]\<rparr>)"

definition closed :: "nat \<Rightarrow> hub \<Rightarrow> hub" where
  "closed c h = h\<lparr>open_sockets := filter (\<lambda>s. s \<noteq> c) (open_sockets h),
     room_members := (\<lambda>r. filter (\<lambda>s. s \<noteq> c) (room_members h r))\<rparr>"

inductive socket_step :: "socket_op \<Rightarrow> world \<times> hub \<Rightarrow> world \<times> hub \<Rightarrow> bool" where
  connect: "c \<notin> set (open_sockets h) \<Longrightarrow> socket_user h c = None \<Longrightarrow>
    socket_step (Connect env f t c hs) (w, h) (w, opened c (handleConnection env f t c hs h))"
| disconnect: "c \<in> set (open_sockets h) \<Longrightarrow> socket_step (Disconnect c) (w, h) (w, closed c (handleDisconnect c h))"
| join: "c \<in> set (open_sockets h) \<Longrightarrow> socket_step (Join t q c) (w, h) (snd (handleJoin t q c (w, h)))"
| deliver: "socket_step (Deliver t e) (w, h) (snd (on_event t e (w, h)))"
| services: "socket_step (Services w') (w, h) (w', h)"

inductive_cases socket_stepE: "socket_step l s s'"

definition hub_ok :: "hub \<Rightarrow> bool" where
  "hub_ok h \<longleftrightarrow>
     (\<forall>u c. c \<in> set (sockets_of u h) \<longleftrightarrow> c \<in> set (open_sockets h) \<and> socket_user h c = Some u) \<and>
     (\<forall>u. distinct (sockets_of u h)) \<and> (\<forall>u. userSockets h u \<noteq> Some []) \<and>
     (\<forall>r. set (room_members h r) \<subseteq> set (open_sockets h) \<and> distinct (room_members h r)) \<and> distinct (open_sockets h)"

lemma set_add [simp]: "set (set_add x xs) = insert x (set xs)" "distinct (set_add x xs) \<longleftrightarrow> distinct xs" "set_add x xs \<noteq> []"
  by (auto simp: set_add_def)

text \<open>Sending changes nothing but \<open>sent\<close> and the counter.\<close>

definition same_sockets :: "hub \<Rightarrow> hub \<Rightarrow> bool" where
  "same_sockets h h' \<longleftrightarrow> userSockets h' = userSockets h \<and> socket_user h' = socket_user h \<and>
     room_members h' = room_members h \<and> open_sockets h' = open_sockets h \<and>
     connections_current h' = connections_current h \<and> room_joins_total h' = room_joins_total h"

lemma same_sockets_emit [simp]:
  "same_sockets h0 (emitToRoom i m h) = same_sockets h0 h" "same_sockets h0 (emitToUser u m h) = same_sockets h0 h"
  "same_sockets h0 (count_broadcast e h) = same_sockets h0 h" "same_sockets h h"
  by (auto simp: same_sockets_def emitToRoom_def emitToUser_def count_broadcast_def split: option.split)

lemma hub_ok_same: "same_sockets h h' \<Longrightarrow> hub_ok h \<Longrightarrow> hub_ok h'"
  by (simp add: same_sockets_def hub_ok_def sockets_of_def)

text \<open>What one event sends.\<close>

definition broadcast_sent :: "ms \<Rightarrow> int \<Rightarrow> int list \<Rightarrow> string \<Rightarrow> seat_status \<Rightarrow> world \<Rightarrow> hub \<Rightarrow> hub" where
  "broadcast_sent now i ss ev st w h =
     (let h1 = emitToRoom i (ev, SeatDelta i ss st) (count_broadcast ev h) in
      case fst (getScreeningSummary now i w) of
        Inl _ \<Rightarrow> h1
      | Inr sm \<Rightarrow> emitToRoom i (''screening:summary'', Summary sm) h1)"

lemma broadcast_run:
  "broadcast now i ss ev st (w, h) =
     (Inr (), (snd (getScreeningSummary now i w), broadcast_sent now i ss ev st w h))"
  by (simp add: broadcast_def await_def on_hub_def catch_err_def serve_def ret_run broadcast_sent_def Let_def
      split: prod.split sum.split)

lemma handleHoldExpired_run:
  "handleHoldExpired u s seat (w, h) =
     (Inr (), (w, emitToUser u (''hold:expired'', HoldNotice s seat) (count_broadcast ''hold:expired'' h)))"
  by (simp add: handleHoldExpired_def await_def on_hub_def)

lemma on_event_same: "same_sockets h (snd (snd (on_event t e (w, h))))"
  by (cases e) (auto simp: broadcast_run handleHoldExpired_run broadcast_sent_def Let_def split: sum.split)

lemma handleJoin_run:
  "handleJoin t q c (w, h) =
    (case q of
       None \<Rightarrow> (Inr (NotJoined ''Invalid screeningId''), (w, h))
     | Some q \<Rightarrow>
         if of_int \<lfloor>q\<rfloor> \<noteq> q \<or> q < 1 then (Inr (NotJoined ''Invalid screeningId''), (w, h))
         else case join_read t \<lfloor>q\<rfloor> w of
           (Inr (seatMap, summary), w') \<Rightarrow> (Inr (Joined seatMap summary), (w', join_enter \<lfloor>q\<rfloor> c h))
         | (Inl (NotFoundException msg), w') \<Rightarrow> (Inr (NotJoined msg), (w', h))
         | (Inl e, w') \<Rightarrow> (Inl e, (w', h)))"
  by (auto simp: handleJoin_def catch_err_def await_def serve_def on_hub_def act_simps split: option.split prod.split sum.split err.split)

lemma hub_ok_enter: "hub_ok h \<Longrightarrow> c \<in> set (open_sockets h) \<Longrightarrow> hub_ok (join_enter i c h)"
  by (auto simp: hub_ok_def join_enter_def sockets_of_def)

lemma hub_ok_join:
  assumes "hub_ok h" and "c \<in> set (open_sockets h)"
  shows "hub_ok (snd (snd (handleJoin t q c (w, h))))"
  using assms hub_ok_enter [OF assms]
  by (auto simp: handleJoin_run split: option.split prod.split sum.split err.split)

lemma sockets_of_identify:
  "sockets_of u (identify c v h) = (if u = v then set_add c (sockets_of u h) else sockets_of u h)"
  by (simp add: sockets_of_def identify_def)

lemma hub_ok_connect:
  assumes "hub_ok h" and "c \<notin> set (open_sockets h)" and "socket_user h c = None"
  shows "hub_ok (opened c (handleConnection env f t c hs h))"
proof -
  have plain: "hub_ok (h\<lparr>connections_current := n, open_sockets := open_sockets h @ [c]\<rparr>)" for n
    using assms by (auto simp: hub_ok_def sockets_of_def)
  have known: "hub_ok ((identify c v h)\<lparr>connections_current := n, open_sockets := open_sockets (identify c v h) @ [c]\<rparr>)" for v n
    using assms by (auto simp: hub_ok_def sockets_of_def identify_def split: option.splits if_splits)
  have threw: "hub_ok (h\<lparr>open_sockets := open_sockets h @ [c]\<rparr>)"
    using assms by (auto simp: hub_ok_def sockets_of_def)
  show ?thesis
    using assms(1) plain known threw
    by (auto simp: handleConnection_def opened_def Let_def split: sum.split option.split)
qed

lemma sockets_of_disconnect:
  "sockets_of u (handleDisconnect c h) =
     (if socket_user h c = Some u then filter (\<lambda>s. s \<noteq> c) (sockets_of u h) else sockets_of u h)"
  by (auto simp: sockets_of_def handleDisconnect_def Let_def split: option.splits)

lemma disconnect_facts:
  "socket_user (handleDisconnect c h) = socket_user h" "room_members (handleDisconnect c h) = room_members h"
  "open_sockets (handleDisconnect c h) = open_sockets h"
  "connections_current (handleDisconnect c h) = connections_current h - 1"
  by (simp_all add: handleDisconnect_def Let_def split: option.split)

lemma hub_ok_disconnect:
  assumes "hub_ok h" and "c \<in> set (open_sockets h)"
  shows "hub_ok (closed c (handleDisconnect c h))"
  using assms
proof -
  have "userSockets (handleDisconnect c h) u \<noteq> Some []" for u
    using assms(1) by (auto simp: handleDisconnect_def hub_ok_def Let_def split: option.split)
  moreover have "sockets_of u (closed c h') = sockets_of u h'" for u h'
    by (simp add: sockets_of_def closed_def)
  ultimately show ?thesis
    using assms(1) by (auto simp: hub_ok_def sockets_of_disconnect disconnect_facts) (auto simp: closed_def disconnect_facts)
qed

interpretation gw: invariant_steps socket_step UNIV "\<lambda>s. hub_ok (snd s)"
proof
  fix s l s' assume "hub_ok (snd s)" and "socket_step l s s'"
  then show "hub_ok (snd s')"
    by (auto elim!: socket_stepE simp: hub_ok_connect hub_ok_disconnect hub_ok_join intro: hub_ok_same [OF on_event_same])
qed

lemma hub_ok_empty: "hub_ok empty_hub"
  by (simp add: hub_ok_def empty_hub_def sockets_of_def)

text \<open>C33. The notice that a hold ran out reaches its holder and nobody else: in every state the gateway can reach,
  it is sent once to each open socket whose handshake carried a valid token of that user, to no other socket,
  and nothing else is sent.\<close>

theorem hold_notice_reaches_owner:
  assumes "reaches socket_step UNIV (w0, empty_hub) (w, h)"
  shows "\<exists>h' new. on_event t (HoldExpired u s seat) (w, h) = (Inr (), (w, h')) \<and> sent h' = sent h @ new \<and>
    distinct (map fst new) \<and>
    (\<forall>c m. (c, m) \<in> set new \<longleftrightarrow>
       c \<in> set (open_sockets h) \<and> socket_user h c = Some u \<and> m = (''hold:expired'', HoldNotice s seat)) \<and>
    broadcasts_total h' ''hold:expired'' = broadcasts_total h ''hold:expired'' + 1"
proof -
  have ok: "hub_ok h" using gw.holds_everywhere [OF assms] by (simp add: hub_ok_empty)
  let ?m = "(''hold:expired'', HoldNotice s seat)"
  let ?h = "emitToUser u ?m (count_broadcast ''hold:expired'' h)"
  have "sent ?h = sent h @ map (\<lambda>c. (c, ?m)) (sockets_of u h)"
    by (simp add: emitToUser_def count_broadcast_def sockets_of_def split: option.split)
  moreover have "broadcasts_total ?h ''hold:expired'' = broadcasts_total h ''hold:expired'' + 1"
    by (simp add: emitToUser_def count_broadcast_def split: option.split)
  moreover have "distinct (map fst (map (\<lambda>c. (c, ?m)) (sockets_of u h)))" using ok by (simp add: hub_ok_def comp_def)
  moreover have "(c, m) \<in> set (map (\<lambda>c. (c, ?m)) (sockets_of u h)) \<longleftrightarrow>
      c \<in> set (open_sockets h) \<and> socket_user h c = Some u \<and> m = ?m" for c m
    using ok by (auto simp: hub_ok_def)
  ultimately show ?thesis
    by (intro exI [of _ ?h] exI [of _ "map (\<lambda>c. (c, ?m)) (sockets_of u h)"]) (simp add: handleHoldExpired_run)
qed

subsection \<open>Rooms\<close>

lemma roomName_inj: "0 \<le> i \<Longrightarrow> 0 \<le> j \<Longrightarrow> roomName i = roomName j \<longleftrightarrow> i = j"
  by (auto simp: roomName_def string_of_int_def dest: string_of_nat_inj)

lemma sent_emitToRoom: "sent (emitToRoom i m h) = sent h @ map (\<lambda>c. (c, m)) (room_members h (roomName i))"
  by (simp add: emitToRoom_def)

lemma room_emit [simp]: "room_members (emitToRoom i m h) = room_members h" "room_members (count_broadcast e h) = room_members h"
  "sent (count_broadcast e h) = sent h"
  by (simp_all add: emitToRoom_def count_broadcast_def)

text \<open>The sockets of a room are told the change and then the summary; when the summary is an error they are
  told the change alone.\<close>

lemma sent_broadcast:
  "sent (broadcast_sent now i ss ev st w h) =
     sent h @ map (\<lambda>c. (c, (ev, SeatDelta i ss st))) (room_members h (roomName i)) @
     (case fst (getScreeningSummary now i w) of
        Inl _ \<Rightarrow> []
      | Inr sm \<Rightarrow> map (\<lambda>c. (c, (''screening:summary'', Summary sm))) (room_members h (roomName i)))"
  by (simp add: broadcast_sent_def Let_def sent_emitToRoom split: sum.split)

lemma on_event_created:
  "on_event t (ReservationCreated i ss) (w, h) = (Inr (), (snd (getScreeningSummary t i w),
     broadcast_sent t i ss ''seat:reserved'' SeatHELD w h))"
  by (simp add: broadcast_run)

lemma sent_to_others:
  assumes "c \<notin> set (room_members h (roomName i))"
  shows "filter (\<lambda>m. fst m = c) (sent (broadcast_sent t i ss ev st w h)) = filter (\<lambda>m. fst m = c) (sent h)"
  using assms by (auto simp: sent_broadcast filter_map comp_def filter_empty_conv split: sum.split)

lemma keeps_join_read [keeps_rules]: "keeps_db P (join_read t i)"
  unfolding join_read_def by (intro keeps_rules)

text \<open>A client that joins while a reservation is made can miss it: when the reservation is committed and
  broadcast after the join has read the seat map and before it enters the room, the answer to the join shows the
  seat as free though it is held, and the broadcast of the reservation sends nothing to the client, who is in the room from
  then on.\<close>

theorem join_misses_reservation:
  assumes "db_ok (db w)" and "join_read t i w = (Inr (seatMap, summary), w1)"
    and "e \<in> set seatMap" and "sm_seatId e = seat" and "sm_status e = SeatAVAILABLE"
    and "reserve env uid dto w1 = (Inr r, w2)" and "rd_screeningId dto = i" and "rd_seatId dto = seat"
    and "c \<notin> set (room_members h (roomName i))"
  shows "\<exists>w3 h3. on_event t2 (ReservationCreated i [seat]) (w2, h) = (Inr (), (w3, h3)) \<and>
    filter (\<lambda>m. fst m = c) (sent (join_enter i c h3)) = filter (\<lambda>m. fst m = c) (sent h) \<and>
    c \<in> set (room_members (join_enter i c h3) (roomName i)) \<and> seat_state (db w2) i seat = SeatHELD"
proof -
  have "db_ok (db w1)" using keeps_dbD [of db_ok, OF keeps_join_read assms(1), of t i] by (simp add: assms(2))
  then have "seat_state (db w2) i seat = SeatHELD" using reserved_seat_held assms(6-8) by blast
  with assms(9) show ?thesis
    by (simp add: broadcast_run sent_to_others join_enter_def)
qed

subsection \<open>Summaries on the wire\<close>

text \<open>A reservation is shown to everyone who watches the screening: when a reservation commits and its seat map is dropped
  before the broadcast reads it, each socket of the screening's room is sent the HELD seat and then a summary that agrees with
  the reservation table, and no other socket is sent anything.\<close>

theorem reserve_is_broadcast:
  assumes "db_ok (db w)" and "seats_in_hall (db w)" and "reserve env uid dto w = (Inr r, w')"
  shows "\<exists>s w2 h2. find_row (rd_screeningId dto) (screenings (db w)) = Some s \<and>
    on_event t (last (emitted w')) (w', h) = (Inr (), (w2, h2)) \<and>
    sent h2 = sent h @
      map (\<lambda>c. (c, (''seat:reserved'', SeatDelta (rd_screeningId dto) [rd_seatId dto] SeatHELD)))
        (room_members h (roomName (rd_screeningId dto))) @
      map (\<lambda>c. (c, (''screening:summary'', Summary (table_summary (db w') (scr_hallId s) (rd_screeningId dto)))))
        (room_members h (roomName (rd_screeningId dto)))"
  using assms(1,3)
proof (rule reserve_committed)
  fix s m hl tab
  let ?i = "rd_screeningId dto"
  assume j: "screening_join ?i (db w) = Some (s, m, hl)" and sch: "scr_status s = SCHEDULED"
    and place: "seat_of_hall (db w) (scr_hallId s) (rd_seatId dto)"
    and r: "insert_row (hold_row (at_hold env) (reserve_params env uid dto s)) (reservations (db w)) = (r, tab)"
    and d: "db w' = (db w)\<lparr>reservations := tab\<rparr>" and ok: "db_ok (db w')"
    and miss: "\<And>t. serve_cached seat_maps t ?i w' = None"
    and em: "emitted w' = emitted w @ [ReservationCreated ?i [rd_seatId dto]]"
  have j': "screening_join ?i (db w') = Some (s, m, hl)" using j unfolding d by (simp add: screening_join_Some)
  have s: "find_row ?i (screenings (db w)) = Some s" using j by (simp add: screening_join_Some)
  have rf: "res_screeningId r = ?i" "res_seatId r = rd_seatId dto"
    by (simp_all add: insert_row_val [OF r] hold_row_def reserve_params_def)
  have "seats_in_hall (db w')"
    using assms(2) place s rf unfolding seats_in_hall_def d
    by (auto simp: rows_insert_row [OF r] seat_of_hall_def split: option.splits)
  from getScreeningSummary_run [OF ok this j' _ miss] sch
  have "fst (getScreeningSummary t ?i w') = Inr (table_summary (db w') (scr_hallId s) ?i)" by simp
  then show ?thesis
    using s by (intro exI [of _ s]) (simp add: em broadcast_run sent_broadcast)
qed

text \<open>A confirmed payment leaves the cached seat map behind: with a map in the cache, the event of the confirmation
  changes no seat of it, and the summary broadcast after \<open>seat:booked\<close> counts the seats as before the payment.\<close>

theorem confirmed_summary_stale:
  assumes "serve_cached seat_maps t i w = Some m"
  shows "\<exists>w' w2 h2. publish_event (ReservationConfirmed i [seat]) w = (Inr (), w') \<and>
    getSeatMap t i w' = (Inr m, w') \<and>
    on_event t (ReservationConfirmed i [seat]) (w', h) = (Inr (), (w2, h2)) \<and>
    sent h2 = sent h @ map (\<lambda>c. (c, (''seat:booked'', SeatDelta i [seat] SeatBOOKED))) (room_members h (roomName i)) @
      map (\<lambda>c. (c, (''screening:summary'', Summary (summarize i m)))) (room_members h (roomName i))"
proof -
  obtain w' where w': "publish_event (ReservationConfirmed i [seat]) w = (Inr (), w')"
      and e: "w' = snd (publish_event (ReservationConfirmed i [seat]) w)"
    by (simp add: publish_event_run)
  have "serve_cached seat_maps t i w' = Some m"
    using assms by (simp add: e serve_cached_def publish_event_run split: if_splits)
  then have map: "getSeatMap t i w' = (Inr m, w')"
    by (auto simp: getSeatMap_def cache_getSeatMap_def act_simps serve_cached_def split: if_splits)
  have "getScreeningSummary t i w' = (Inr (summarize i m), w')"
    by (simp add: getScreeningSummary_def await_def map ret_def)
  then show ?thesis using w' map by (intro exI [of _ w']) (simp add: broadcast_run sent_broadcast)
qed

subsection \<open>The gauge of connections\<close>

definition calm :: "socket_op set" where
  "calm = {l. case l of Connect env f t c hs \<Rightarrow> \<not> isl (extractCookie (hs_cookie hs) ''access_token'') | _ \<Rightarrow> True}"

definition gauge_ok :: "hub \<Rightarrow> bool" where
  "gauge_ok h \<longleftrightarrow> hub_ok h \<and> connections_current h = int (length (open_sockets h))"

lemma gauge_same: "same_sockets h h' \<Longrightarrow> gauge_ok h \<Longrightarrow> gauge_ok h'"
  using hub_ok_same [of h h'] by (simp add: gauge_ok_def same_sockets_def)

lemma gauge_join: "gauge_ok h \<Longrightarrow> c \<in> set (open_sockets h) \<Longrightarrow> gauge_ok (snd (snd (handleJoin t q c (w, h))))"
  using hub_ok_enter [of h c]
  by (auto simp: gauge_ok_def handleJoin_run join_enter_def split: option.split prod.split sum.split err.split)

lemma gauge_connect:
  assumes "gauge_ok h" and "c \<notin> set (open_sockets h)" and "socket_user h c = None"
    and "\<not> isl (extractCookie (hs_cookie hs) ''access_token'')"
  shows "gauge_ok (opened c (handleConnection env f t c hs h))"
  using assms hub_ok_connect [of h c env f t hs]
  by (auto simp: gauge_ok_def handleConnection_def opened_def Let_def identify_def isl_def split: sum.splits option.splits)

lemma filter_neq_absent: "c \<notin> set xs \<Longrightarrow> filter (\<lambda>s. s \<noteq> c) xs = xs"
  by (induction xs) auto

lemma length_filter_out: "distinct xs \<Longrightarrow> c \<in> set xs \<Longrightarrow> int (length (filter (\<lambda>s. s \<noteq> c) xs)) = int (length xs) - 1"
  by (induction xs) (auto simp: filter_neq_absent)

lemma gauge_disconnect: "gauge_ok h \<Longrightarrow> c \<in> set (open_sockets h) \<Longrightarrow> gauge_ok (closed c (handleDisconnect c h))"
  using hub_ok_disconnect [of h c] length_filter_out [of "open_sockets h" c]
  by (simp add: gauge_ok_def disconnect_facts closed_def hub_ok_def)

interpretation gg: invariant_steps socket_step calm "\<lambda>s. gauge_ok (snd s)"
proof
  fix s l s' assume "gauge_ok (snd s)" and "l \<in> calm" and "socket_step l s s'"
  then show "gauge_ok (snd s')"
    by (auto elim!: socket_stepE simp: calm_def gauge_connect gauge_disconnect gauge_join
        intro: gauge_same [OF on_event_same])
qed

text \<open>The gauge \<open>websocket_connections_current\<close> is the number of open connections, after any history in which no
  handshake carried a cookie that cannot be decoded. One that did is not counted when it opens but is when it closes: from
  then on the gauge is one too low.\<close>

theorem gauge_counts_connections:
  shows "(reaches socket_step calm (w0, empty_hub) (w, h) \<longrightarrow> connections_current h = int (length (open_sockets h))) \<and>
    (\<exists>h1 h2. socket_step (Connect env None t 0 \<lparr>hs_origin = None, hs_cookie = Some ''access_token=%''\<rparr>) (w0, empty_hub) (w0, h1) \<and>
       socket_step (Disconnect 0) (w0, h1) (w0, h2) \<and>
       connections_current h1 = int (length (open_sockets h1)) - 1 \<and>
       open_sockets h2 = [] \<and> connections_current h2 = - 1)"
proof (intro conjI impI)
  assume "reaches socket_step calm (w0, empty_hub) (w, h)"
  from gg.holds_everywhere [OF this] show "connections_current h = int (length (open_sockets h))"
    by (simp add: gauge_ok_def hub_ok_empty) (simp add: empty_hub_def)
next
  let ?hs = "\<lparr>hs_origin = None, hs_cookie = Some ''access_token=%''\<rparr>"
  have "extractCookie (hs_cookie ?hs) ''access_token'' = Inl URIError" by code_simp
  then have c: "opened 0 (handleConnection env None t 0 ?hs empty_hub) = empty_hub\<lparr>open_sockets := [0]\<rparr>"
    by (simp add: handleConnection_def differs_def opened_def) (simp add: empty_hub_def)
  let ?h1 = "empty_hub\<lparr>open_sockets := [0]\<rparr>" and ?h2 = "empty_hub\<lparr>connections_current := - 1\<rparr>"
  have d: "closed 0 (handleDisconnect 0 ?h1) = ?h2"
    by (simp add: closed_def handleDisconnect_def empty_hub_def)
  have "socket_step (Connect env None t 0 ?hs) (w0, empty_hub) (w0, ?h1)"
    using connect [of 0 empty_hub env None t ?hs w0] unfolding c by (simp add: empty_hub_def)
  moreover have "socket_step (Disconnect 0) (w0, ?h1) (w0, ?h2)"
    using disconnect [of 0 ?h1 w0] unfolding d by simp
  ultimately show "\<exists>h1 h2. socket_step (Connect env None t 0 ?hs) (w0, empty_hub) (w0, h1) \<and>
       socket_step (Disconnect 0) (w0, h1) (w0, h2) \<and>
       connections_current h1 = int (length (open_sockets h1)) - 1 \<and> open_sockets h2 = [] \<and> connections_current h2 = - 1"
    by (intro exI [of _ ?h1] exI [of _ ?h2]) (simp add: empty_hub_def)
qed

subsection \<open>Identity of a socket\<close>

text \<open>A token that was revoked still identifies a socket: where every HTTP request with it is answered 401, because the
  user's access version has moved on, a connection with it is admitted as that user and gets the user's notices.\<close>

theorem revoked_token_identifies:
  assumes "redis_up (redis w)" and "verify_access env tok t = Some p" and "tok \<noteq> []"
    and "key_get t (ap_sub p) (access_versions (auth (redis w))) = Some v" and "ap_ver p < v"
    and "extractCookie (hs_cookie hs) ''access_token'' = Inr (Some tok)" and "\<not> differs (hs_origin hs) allowed"
  shows "jwtAuthGuard env t (Some tok) w = (Inl token_revoked, w) \<and>
    (\<exists>h'. handleConnection env allowed t c hs h = (Admitted, h') \<and> c \<in> set (sockets_of (ap_sub p) h') \<and>
      (c, (''hold:expired'', HoldNotice s seat)) \<in> set (sent (snd (snd (on_event t (HoldExpired (ap_sub p) s seat) (w, h'))))))"
proof -
  have "jwtAuthGuard env t (Some tok) w = (Inl token_revoked, w)"
    using assms(1,2,4,5) by (simp add: jwtAuthGuard_def jwt_validate_def await_def getAccessVersion_up throw_run)
  moreover obtain h' where h': "handleConnection env allowed t c hs h = (Admitted, h')"
      and e: "h' = (identify c (ap_sub p) h)\<lparr>connections_current := connections_current (identify c (ap_sub p) h) + 1\<rparr>"
    using assms by (simp add: handleConnection_def Let_def)
  moreover have "c \<in> set (sockets_of (ap_sub p) h')"
    using sockets_of_identify [of "ap_sub p" c "ap_sub p" h] by (simp add: e sockets_of_def)
  moreover have "(c, m) \<in> set (sent (emitToUser u m (count_broadcast e h')))" if "c \<in> set (sockets_of u h')" for u m e h'
    using that by (auto simp: emitToUser_def sockets_of_def count_broadcast_def split: option.splits)
  ultimately show ?thesis by (simp add: handleHoldExpired_run)
qed

subsection \<open>Reading a cookie back\<close>

text \<open>The header a browser sends for a list of cookies (RFC 6265).\<close>

fun cookie_header :: "(string \<times> string) list \<Rightarrow> string" where
  "cookie_header [] = []"
| "cookie_header [(n, v)] = n @ ''='' @ v"
| "cookie_header ((n, v) # cs) = n @ ''='' @ v @ ''; '' @ cookie_header cs"

definition plain_name :: "string \<Rightarrow> bool" where
  "plain_name n \<longleftrightarrow> CHR ''='' \<notin> set n \<and> CHR '';'' \<notin> set n \<and> (case n of [] \<Rightarrow> True | c # _ \<Rightarrow> \<not> js_space c)"

definition plain_value :: "string \<Rightarrow> bool" where
  "plain_value v \<longleftrightarrow> v \<noteq> [] \<and> CHR '';'' \<notin> set v \<and> CHR ''%'' \<notin> set v"

lemma strip_prefix_iff: "strip_prefix p s = Some r \<longleftrightarrow> s = p @ r"
  by (induction p s rule: strip_prefix.induct) auto

lemma strip_prefix_append [simp]: "strip_prefix p (p @ r) = Some r"
  by (simp add: strip_prefix_iff)

lemma name_prefix:
  assumes "CHR ''='' \<notin> set n" and "CHR ''='' \<notin> set name"
  shows "strip_prefix (name @ ''='') (n @ ''='' @ r) = (if n = name then Some r else None)"
  using assms
proof (induction name arbitrary: n)
  case Nil
  then show ?case by (cases n) auto
next
  case (Cons c name)
  then show ?case by (cases n) auto
qed

lemma cookie_here_first:
  assumes "CHR ''='' \<notin> set n" and "CHR ''='' \<notin> set name" and "v \<noteq> []" and "CHR '';'' \<notin> set v"
    and "r = [] \<or> hd r = CHR '';''"
  shows "cookie_here name (n @ ''='' @ v @ r) = (if n = name then Some v else None)"
proof -
  have "takeWhile (\<lambda>c. c \<noteq> CHR '';'') (v @ r) = v"
    using assms(4,5) by (cases r) (auto simp: takeWhile_append)
  then show ?thesis using name_prefix [OF assms(1,2), of "v @ r"] assms(3) by (simp add: cookie_here_def)
qed

lemma cookie_scan_skip: "CHR '';'' \<notin> set x \<Longrightarrow> cookie_scan name (x @ r) = cookie_scan name r"
  by (induction x) auto

lemma cookie_match_header:
  assumes "CHR ''='' \<notin> set name" and "\<forall>(n, v) \<in> set cs. plain_name n \<and> plain_value v"
  shows "cookie_match name (cookie_header cs) = map_of cs name"
  using assms(2)
proof (induction cs rule: cookie_header.induct)
  case 1
  then show ?case by (simp add: cookie_match_def cookie_here_def split: option.split) (cases name; simp)
next
  case (2 n v)
  then show ?case
    using cookie_here_first [of n name v "[]"] cookie_scan_skip [of "n @ ''='' @ v" name "[]"] assms(1)
    by (auto simp: cookie_match_def plain_name_def plain_value_def)
next
  case (3 n v c cs)
  let ?r = "cookie_header (c # cs)"
  obtain n2 v2 where c: "c = (n2, v2)" by fastforce
  have "dropWhile js_space (CHR '' '' # ?r) = ?r"
    using 3(2) c by (cases cs; cases n2) (auto simp: js_space_def plain_name_def)
  then have "cookie_scan name (''; '' @ ?r) = cookie_match name ?r" by (simp add: cookie_match_def split: option.split)
  moreover have "cookie_scan name (n @ ''='' @ v @ ''; '' @ ?r) = cookie_scan name (''; '' @ ?r)"
    using 3(2) cookie_scan_skip [of "n @ ''='' @ v" name "''; '' @ ?r"] by (simp add: plain_name_def plain_value_def)
  moreover have "cookie_here name (n @ ''='' @ v @ ''; '' @ ?r) = (if n = name then Some v else None)"
    using 3(2) assms(1) by (intro cookie_here_first) (auto simp: plain_name_def plain_value_def)
  ultimately show ?case using 3 by (simp add: cookie_match_def)
qed

lemma decode_plain: "CHR ''%'' \<notin> set v \<Longrightarrow> decodeURIComponent v = Inr v"
proof -
  assume a: "CHR ''%'' \<notin> set v"
  then have "unescape v = Some (map (Pair False) v)" by (induction v) auto
  moreover have "utf8_ok 0 0 0 (map (Pair False) v)" by (induction v) (auto simp: Let_def)
  ultimately show ?thesis by (simp add: decodeURIComponent_def comp_def)
qed

text \<open>The gateway reads from a handshake the cookie the browser was given: from the header of any list of cookies
  whose names and values need no escapes it takes the first of the name asked for, and no other
  cookie, not even one whose name or value ends with it.\<close>

theorem cookie_roundtrip:
  assumes "CHR ''='' \<notin> set name" and "\<forall>(n, v) \<in> set cs. plain_name n \<and> plain_value v"
  shows "extractCookie (Some (cookie_header cs)) name = Inr (map_of cs name)"
proof (cases "cookie_header cs = []")
  case True
  then have "cs = []" by (cases cs rule: cookie_header.cases) auto
  then show ?thesis by (simp add: extractCookie_def)
next
  case False
  have "decodeURIComponent v = Inr v" if "map_of cs name = Some v" for v
    using map_of_SomeD [OF that] assms(2) by (auto simp: plain_value_def intro: decode_plain)
  with False show ?thesis
    by (simp add: extractCookie_def cookie_match_header [OF assms] split: option.split)
qed

subsection \<open>The properties on the sample database\<close>

definition token_cookie :: handshake where
  "token_cookie = \<lparr>hs_origin = None, hs_cookie = Some ''other=1; access_token=A''\<rparr>"

lemma no_origin: "\<not> differs x None"
  by (simp add: differs_def split: option.split)

lemma token_cookie_read: "extractCookie (hs_cookie token_cookie) ''access_token'' = Inr (Some ''A'')"
  by code_simp

text \<open>Socket 7 connects with the token of user 1.\<close>

definition one_socket :: hub where
  "one_socket = opened 7 (handleConnection sample_jwt None 0 7 token_cookie empty_hub)"

lemma one_socket_facts:
  "open_sockets one_socket = [7]" "socket_user one_socket 7 = Some 1" "connections_current one_socket = 1"
  unfolding one_socket_def handleConnection_def token_cookie_read
  by (simp_all add: differs_def token_cookie_def opened_def sample_jwt_def identify_def empty_hub_def)

lemma one_socket_reached: "l = Connect sample_jwt None 0 7 token_cookie \<Longrightarrow> l \<in> L \<Longrightarrow>
    reaches socket_step L (w, empty_hub) (w, one_socket)"
  unfolding one_socket_def
  by (rule reaches.move [OF reaches.start], assumption) (simp add: connect empty_hub_def)

theorem hold_notice_reaches_owner_witness:
  "\<exists>h' new. on_event 0 (HoldExpired 1 1 2) (world_of sample_db, one_socket) = (Inr (), (world_of sample_db, h')) \<and>
     sent h' = sent one_socket @ new \<and> (7, (''hold:expired'', HoldNotice 1 2)) \<in> set new"
  using hold_notice_reaches_owner [OF one_socket_reached [OF refl UNIV_I, of "world_of sample_db"], of 0 1 1 2] one_socket_facts
  by fastforce

theorem gauge_counts_connections_witness: "connections_current one_socket = int (length (open_sockets one_socket))"
proof -
  have "Connect sample_jwt None 0 7 token_cookie \<in> calm" by (simp add: calm_def token_cookie_read)
  from one_socket_reached [OF refl this]
  show ?thesis using gauge_counts_connections [of "world_of sample_db" "world_of sample_db" one_socket] by blast
qed

theorem revoked_token_identifies_witness:
  "\<exists>w h'. jwtAuthGuard sample_jwt 0 (Some ''A'') w = (Inl token_revoked, w) \<and>
     handleConnection sample_jwt None 0 7 token_cookie empty_hub = (Admitted, h') \<and> 7 \<in> set (sockets_of 1 h')"
proof -
  let ?w = "(world_of sample_db)\<lparr>redis := empty_redis\<lparr>auth := empty_auth\<lparr>access_versions := key_set_ex 0 1 1 60 Map.empty\<rparr>\<rparr>\<rparr>"
  let ?p = "\<lparr>ap_sub = 1, ap_name = ''u'', ap_email = ''a'', ap_role = USER, ap_ver = 0\<rparr>"
  have "jwtAuthGuard sample_jwt 0 (Some ''A'') ?w = (Inl token_revoked, ?w) \<and>
    (\<exists>h'. handleConnection sample_jwt None 0 7 token_cookie empty_hub = (Admitted, h') \<and> 7 \<in> set (sockets_of (ap_sub ?p) h') \<and>
      (7, (''hold:expired'', HoldNotice 1 2)) \<in> set (sent (snd (snd (on_event 0 (HoldExpired (ap_sub ?p) 1 2) (?w, h'))))))"
    by (rule revoked_token_identifies [where v = 1])
      (simp_all add: empty_redis_def sample_jwt_def key_simps token_cookie_read no_origin)
  then show ?thesis by auto
qed

theorem cookie_roundtrip_witness:
  "extractCookie (Some (cookie_header [(''refresh_access_token'', ''X''), (''access_token'', ''A''), (''z'', ''access_token=B'')])) ''access_token'' =
     Inr (Some ''A'')"
  using cookie_roundtrip [of "''access_token''" "[(''refresh_access_token'', ''X''), (''access_token'', ''A''), (''z'', ''access_token=B'')]"]
  by (simp add: plain_name_def plain_value_def js_space_def of_char_def)

lemma sample_map: "seat_map_of sample_db 1 1 =
    [\<lparr>sm_seatId = 1, sm_row = ''A'', sm_number = ''1'', sm_status = SeatHELD\<rparr>,
     \<lparr>sm_seatId = 2, sm_row = ''A'', sm_number = ''2'', sm_status = SeatAVAILABLE\<rparr>]"
  by code_simp

theorem confirmed_summary_stale_witness:
  "\<exists>w m. serve_cached seat_maps 0 1 w = Some m \<and> (\<exists>w'. publish_event (ReservationConfirmed 1 [1]) w = (Inr (), w') \<and>
     getSeatMap 0 1 w' = (Inr m, w'))"
proof -
  let ?w = "(world_of sample_db)\<lparr>redis := empty_redis\<lparr>seat_maps := key_set_ex 0 1 (seat_map_of sample_db 1 1) 300 Map.empty\<rparr>\<rparr>"
  have "serve_cached seat_maps 0 1 ?w = Some (seat_map_of sample_db 1 1)"
    by (simp add: serve_cached_def empty_redis_def key_simps)
  with confirmed_summary_stale [OF this, of 1] show ?thesis by blast
qed

theorem reserve_is_broadcast_witness:
  "\<exists>r w'. reserve sample_env 2 (sample_request 2) (world_of sample_db) = (Inr r, w') \<and>
     (\<exists>w2 h2. on_event 5 (last (emitted w')) (w', join_enter 1 7 one_socket) = (Inr (), (w2, h2)) \<and>
        length (filter (\<lambda>m. fst m = 7) (sent h2)) = length (filter (\<lambda>m. fst m = 7) (sent one_socket)) + 2)"
proof -
  obtain r w' where r: "reserve sample_env 2 (sample_request 2) (world_of sample_db) = (Inr r, w')"
    using sample_reserve by (cases "reserve sample_env 2 (sample_request 2) (world_of sample_db)")
      (metis fst_conv isl_def sum.exhaust sum.disc(1))
  have h: "sent (join_enter 1 7 one_socket) = sent one_socket" "room_members (join_enter 1 7 one_socket) (roomName 1) = [7]"
    unfolding one_socket_def handleConnection_def token_cookie_read
    by (simp_all add: join_enter_def differs_def token_cookie_def opened_def sample_jwt_def identify_def empty_hub_def set_add_def)
  have "seats_in_hall sample_db" by (simp add: seats_in_hall_def find_row_def sample_defs)
  with reserve_is_broadcast [OF _ _ r, of 5 "join_enter 1 7 one_socket"] r h show ?thesis
    by (fastforce simp: sample_world sample_db_ok sample_request_def)
qed

theorem join_misses_reservation_witness:
  "\<exists>m sm w1 r w2 w3 h3. join_read 0 1 (world_of sample_db) = (Inr (m, sm), w1) \<and>
     reserve sample_env 2 (sample_request 2) w1 = (Inr r, w2) \<and>
     on_event 5 (ReservationCreated 1 [2]) (w2, one_socket) = (Inr (), (w3, h3)) \<and>
     filter (\<lambda>m. fst m = 7) (sent (join_enter 1 7 h3)) = filter (\<lambda>m. fst m = 7) (sent one_socket) \<and>
     seat_state (db w2) 1 2 = SeatHELD"
proof -
  have j: "screening_join 1 sample_db =
      Some (sample_screening, sample_movie 1 120 PUBLISHED, \<lparr>rid = 1, hall_name = ''h'', capacity = 2\<rparr>)"
    "scr_hallId sample_screening = 1" "scr_status sample_screening = SCHEDULED"
    by (simp_all add: screening_join_def find_row_def sample_defs)
  obtain w1 where w1: "getSeatMap 0 1 (world_of sample_db) = (Inr (seat_map_of sample_db 1 1), w1)"
      and e: "w1 = snd (getSeatMap 0 1 (world_of sample_db))"
    using j by (simp add: getSeatMap_run sample_world sample_db_ok serve_cached_def world_of_def empty_redis_def key_simps Let_def)
  have "serve_cached seat_maps 0 1 w1 = Some (seat_map_of sample_db 1 1)"
    using j by (simp add: e getSeatMap_run sample_world sample_db_ok serve_cached_def world_of_def empty_redis_def key_simps
        Let_def Screenings.with_redis_def SEAT_MAP_TTL_SECONDS_def)
  then have w1': "getSeatMap 0 1 w1 = (Inr (seat_map_of sample_db 1 1), w1)"
    by (auto simp: getSeatMap_def cache_getSeatMap_def act_simps serve_cached_def split: if_splits)
  have read: "join_read 0 1 (world_of sample_db) = (Inr (seat_map_of sample_db 1 1, summarize 1 (seat_map_of sample_db 1 1)), w1)"
    by (simp add: join_read_def getScreeningSummary_def await_def w1 w1' ret_run)
  have "\<not> isl (fst (reserve sample_env 2 (sample_request 2) (snd (getSeatMap 0 1 (world_of sample_db)))))" by code_simp
  then obtain r w2 where r: "reserve sample_env 2 (sample_request 2) w1 = (Inr r, w2)"
    unfolding e [symmetric] by (cases "reserve sample_env 2 (sample_request 2) w1") (auto simp: isl_def split: sum.splits intro: sum.exhaust)
  have "7 \<notin> set (room_members one_socket (roomName 1))"
    unfolding one_socket_def handleConnection_def token_cookie_read
    by (simp add: differs_def token_cookie_def opened_def sample_jwt_def identify_def empty_hub_def)
  from join_misses_reservation [OF _ read _ _ _ r _ _ this, of "seat_map_of sample_db 1 1 ! 1" 2 5] read r
  show ?thesis by (fastforce simp: sample_world sample_db_ok sample_request_def sample_map)
qed

end
