(* ===== verification/System.thy ===== *)
theory System
  imports Access Gateway
begin

text \<open>
  The whole program as one step relation: HTTP requests of any callers, the two scheduled jobs
  (\<open>cron/hold-expiry.cron.ts\<close>), the sockets of the gateway with the delivery of events, and Redis going and coming
  back, in any order.
\<close>

datatype sys_op =
    Http http_env caller route
  | ExpireTick "prisma_error option" ms
  | ReconcileTick stripe_env
  | Socket socket_op
  | RedisTurns bool

inductive system_step :: "sys_op \<Rightarrow> server \<times> hub \<Rightarrow> server \<times> hub \<Rightarrow> bool" where
  http: "system_step (Http env c r) (s, h) (snd (handle env c r s), h)"
| expire: "system_step (ExpireTick f t) (s, h) (s\<lparr>app := snd (handleExpireHolds f t (app s))\<rparr>, h)"
| reconcile: "system_step (ReconcileTick env') (s, h) (s\<lparr>app := snd (handleReconcilePayments env' (app s))\<rparr>, h)"
| socket: "socket_step op (app s, h) (w, h') \<Longrightarrow> \<not> (\<exists>w. op = Services w) \<Longrightarrow>
    system_step (Socket op) (s, h) (s\<lparr>app := w\<rparr>, h')"
| redis_turns: "system_step (RedisTurns b) (s, h) (s\<lparr>app := (app s)\<lparr>redis := (redis (app s))\<lparr>redis_up := b\<rparr>\<rparr>\<rparr>, h)"

inductive_cases system_stepE: "system_step l s s'"

definition system_ok :: "server \<times> hub \<Rightarrow> bool" where
  "system_ok s \<longleftrightarrow> db_ok (db (app (fst s))) \<and> hub_ok (snd s)"

text \<open>The gateway only reads.\<close>

lemma keeps_read [keeps_rules]: "keeps_db P (getScreeningSummary now i)"
  by (rule keeps_screening_reads(9))

lemma join_reads: "db (fst (snd (handleJoin t q c (w, h)))) = db w"
  using keeps_dbD [of "\<lambda>d. d = db w", OF keeps_join_read, of w]
  by (auto simp: handleJoin_run split: option.split prod.split sum.split err.split) (metis snd_conv)+

lemma socket_reads:
  assumes "socket_step op (w, h) (w', h')" and "\<not> (\<exists>w. op = Services w)"
  shows "db w' = db w"
  using assms
proof cases
  case (join c t q)
  then show ?thesis using join_reads [of t q c w h] by (metis fst_conv)
next
  case (deliver t e)
  then show ?thesis
    using keeps_dbD [of "\<lambda>d. d = db w", OF keeps_screening_reads(9), of w] by (cases e) (auto simp: broadcast_run handleHoldExpired_run)
qed (use assms(2) in auto)

lemma keeps_catalogue_reads [keeps_rules]:
  "keeps_db P (getExistingMovie i)" "keeps_db P (movies_hasReservations i)" "keeps_db P (cache_delMovie i)" "keeps_db P cache_delLists"
  "keeps_db P cache_delHalls" "keeps_db P (halls_findWithSeats i)" "keeps_db P (halls_hasReservations i)"
  "keeps_db P (cache_delMovieScreenings i)" "keeps_db P (screenings_hasReservations i)"
  unfolding getExistingMovie_def movies_findById_def movies_hasReservations_def cache_delMovie_def cache_delLists_def cache_delHalls_def
    halls_findWithSeats_def halls_hasReservations_def cache_delMovieScreenings_def screenings_hasReservations_def
  by (intro keeps_rules)+

text \<open>The scheduled jobs, for any invariant that the writes they make keep.\<close>

lemma keeps_jobs_of:
  assumes "\<And>f t. keeps_db P (releaseExpiredHolds f t)" and "\<And>f q i x. keeps_db P (confirmWithReservation f q i x)"
    and "\<And>f q i. keeps_db P (declineWithReservation f q i)"
  shows "keeps_db P (handleExpireHolds f t)" "keeps_db P (handleReconcilePayments env)"
proof -
  show "keeps_db P (handleExpireHolds f t)"
    unfolding handleExpireHolds_def expireHolds_def by (intro keeps_rules assms)
  have one: "keeps_db P (reconcile_one env p)" for p
    unfolding reconcile_one_def by (intro keeps_rules assms)
  have "keeps_db P (reconcile_all env ps)" for ps
    by (induction ps) (auto intro!: keeps_rules one)
  then show "keeps_db P (handleReconcilePayments env)"
    unfolding handleReconcilePayments_def reconcileTimedOutPayments_def by (intro keeps_rules)
qed

lemma keeps_expire_tick: "keeps_db db_ok (handleExpireHolds f t)"
  unfolding handleExpireHolds_def expireHolds_def by (intro keeps_rules)

interpretation sys: invariant_steps system_step UNIV system_ok
proof
  fix s l s' assume s: "system_ok s" and step: "system_step l s s'"
  show "system_ok s'"
    using step
  proof cases
    case (http env c r s0 h)
    then have "app_inv db_ok (snd (handle env c r s0))"
      using keepsD [OF keeps_handle_db_ok] s by (simp add: system_ok_def app_inv_def)
    with http s show ?thesis by (simp add: system_ok_def app_inv_def)
  next
    case (socket op s0 h w h')
    then have "hub_ok h'" using gw.preserved [of "(app s0, h)" op "(w, h')"] s by (simp add: system_ok_def)
    with socket s socket_reads [OF socket(4,5)] show ?thesis by (simp add: system_ok_def)
  qed (use s keeps_dbD [OF keeps_expire_tick] keeps_dbD [OF keeps_reconcile(4)] in \<open>auto simp: system_ok_def\<close>)
qed

text \<open>C7. Every state the program reaches is well-formed, from any well-formed start, under any order of requests, jobs, socket events
  and Redis outages: no two active reservations have the same seat of the same screening, every reservation belongs to
  an existing user, screening and seat, every payment to an existing reservation and no two payments to one, email addresses
  are unique, and the gateway's registry lists exactly the open sockets of each user.\<close>

theorem system_well_formed:
  assumes "reaches system_step UNIV (s0, h0) (s, h)" and "db_ok (db (app s0))" and "hub_ok h0"
  shows "(\<forall>r \<in> set (rows (reservations (db (app s)))). \<forall>r' \<in> set (rows (reservations (db (app s)))).
        active_res r \<and> active_res r' \<and> res_screeningId r = res_screeningId r' \<and> res_seatId r = res_seatId r' \<longrightarrow> r = r') \<and>
    (\<forall>r \<in> set (rows (reservations (db (app s)))). find_row (res_userId r) (users (db (app s))) \<noteq> None \<and>
        find_row (res_screeningId r) (screenings (db (app s))) \<noteq> None \<and> find_row (res_seatId r) (seats (db (app s))) \<noteq> None) \<and>
    (\<forall>p \<in> set (rows (payments (db (app s)))). find_row (pay_reservationId p) (reservations (db (app s))) \<noteq> None) \<and>
    distinct (map pay_reservationId (rows (payments (db (app s))))) \<and> distinct (map email (rows (users (db (app s))))) \<and>
    (\<forall>u c. c \<in> set (sockets_of u h) \<longleftrightarrow> c \<in> set (open_sockets h) \<and> socket_user h c = Some u)"
proof -
  have "system_ok (s, h)" using sys.holds_everywhere [OF assms(1)] assms(2,3) by (simp add: system_ok_def)
  then have d: "db_ok (db (app s))" and h: "hub_ok h" by (simp_all add: system_ok_def)
  have "reservation_unique (reservations (db (app s)))" using d by (simp add: db_ok_defs)
  then show ?thesis
    using d h active_unique_eq [of "reservations (db (app s))"]
    by (auto simp: db_ok_defs fk_defs find_row_None user_unique_def payment_unique_def hub_ok_def)
qed

theorem system_well_formed_witness:
  "\<exists>s h. reaches system_step UNIV (sample_server, empty_hub) (s, h) \<and> distinct (map email (rows (users (db (app s)))))"
proof -
  have r: "reaches system_step UNIV (sample_server, empty_hub)
      (snd (handle (sample_http USER) caller_a (Reservations (Reserve (sample_request 2))) sample_server), empty_hub)"
    by (rule reaches.move [OF reaches.start UNIV_I]) (rule system_step.http)
  have "db_ok (db (app sample_server))" by (simp add: sample_server_def world_of_def sample_db_ok)
  from system_well_formed [OF r this hub_ok_empty] r show ?thesis by blast
qed

end
