(* ===== verification/RowLaws.thy ===== *)
theory RowLaws
  imports System
begin

text \<open>
  The reservation table and the rest of the program: invariants that look at no other table are kept by every statement on the others, and
  by the routes of the administrators up to what a delete takes along.
\<close>

definition only_reservations :: "(db \<Rightarrow> bool) \<Rightarrow> bool" where
  "only_reservations P \<longleftrightarrow> (\<forall>d d'. reservations d' = reservations d \<longrightarrow> P d \<longrightarrow> P d')"

definition each_reservation :: "(reservation \<Rightarrow> bool) \<Rightarrow> db \<Rightarrow> bool" where
  "each_reservation Q d \<longleftrightarrow> (\<forall>r \<in> set (rows (reservations d)). Q r)"

lemma each_same: "reservations d' = reservations d \<Longrightarrow> each_reservation Q d \<Longrightarrow> each_reservation Q d'"
  by (simp add: each_reservation_def)

lemma reservations_cascade: "set (rows (reservations (cascade d))) \<subseteq> set (rows (reservations d))"
  by (auto simp: cascade_def cascade_payments_def cascade_reservations_def cascade_screenings_def cascade_seats_def filter_rows_def)

lemma each_cascade: "each_reservation Q d \<Longrightarrow> each_reservation Q (cascade d)"
  using reservations_cascade [of d] by (auto simp: each_reservation_def)

text \<open>Statements on other tables.\<close>

lemma other_tables:
  "insert_user m1 d = Inr (x1, d') \<Longrightarrow> reservations d' = reservations d"
  "update_user i f1 d = Inr (x1, d') \<Longrightarrow> reservations d' = reservations d"
  "insert_movie m2 d = Inr (x2, d') \<Longrightarrow> reservations d' = reservations d"
  "update_movie i f2 d = Inr (x2, d') \<Longrightarrow> reservations d' = reservations d"
  "insert_hall m3 d = Inr (x3, d') \<Longrightarrow> reservations d' = reservations d"
  "insert_seat m4 d = Inr (x4, d') \<Longrightarrow> reservations d' = reservations d"
  "insert_screening m5 d = Inr (x5, d') \<Longrightarrow> reservations d' = reservations d"
  "update_screening i f5 d = Inr (x5, d') \<Longrightarrow> reservations d' = reservations d"
  "insert_payment m6 d = Inr (x6, d') \<Longrightarrow> reservations d' = reservations d"
  "update_payment i f6 d = Inr (x6, d') \<Longrightarrow> reservations d' = reservations d"
  "delete_payment i d = Inr (x6, d') \<Longrightarrow> reservations d' = reservations d"
  by (auto simp: insert_user_def update_user_def insert_movie_def update_movie_def insert_hall_def insert_seat_def insert_screening_def
      update_screening_def insert_payment_def update_payment_def delete_payment_def dest!: on_table_InrD)

lemma other_seats: "insert_seats ps d = Inr (ss, d') \<Longrightarrow> reservations d' = reservations d"
  by (induction ps arbitrary: d ss) (auto dest!: other_tables split: sum.splits prod.splits)

lemma other_hall: "createHallWithSeats dto d = Inr (x, d') \<Longrightarrow> reservations d' = reservations d"
  by (auto simp: createHallWithSeats_def dest!: other_tables other_seats split: sum.splits prod.splits option.splits if_splits)

lemma each_deletes:
  assumes "each_reservation Q d"
  shows "delete_movie i d = Inr (x, d') \<Longrightarrow> each_reservation Q d'" "delete_hall i d = Inr (y, d') \<Longrightarrow> each_reservation Q d'"
    "delete_screening i d = Inr (z, d') \<Longrightarrow> each_reservation Q d'"
  using assms by (auto simp: delete_movie_def delete_hall_def delete_screening_def dest!: on_table_InrD intro!: each_cascade)
    (simp_all add: each_reservation_def)

lemma only_each [keeps_rules]: "only_reservations (each_reservation Q)"
  by (simp add: only_reservations_def each_same)

lemma only_same: "only_reservations P \<Longrightarrow> reservations d' = reservations d \<Longrightarrow> P d \<Longrightarrow> P d'"
  by (simp add: only_reservations_def)

lemma keeps_other_repo [keeps_rules]:
  assumes "only_reservations P"
  shows
  "keeps_db P (auth_createUser f n a h)" "keeps_db P (auth_createGoogleUser f p)" "keeps_db P (auth_setGoogleId f i g)"
  "keeps_db P (auth_markEmailVerified f i)" "keeps_db P (users_updateName f i n)" "keeps_db P (users_updateEmail f i a)"
  "keeps_db P (users_updatePassword f i h)" "keeps_db P (payments_create f now i amt cur)"
  "keeps_db P (payments_delete f i)" "keeps_db P (payments_updateById f j g2)" "keeps_db P (movies_create now mdto)"
  "keeps_db P (movies_updateById i mp)" "keeps_db P (movies_setStatus i mst)"
  "keeps_db P (screenings_create mi hi st pr)" "keeps_db P (screenings_updateById si sp st2)"
  "keeps_db P (screenings_setStatus si sst)" "keeps_db P (run_stmt fault (createHallWithSeats hdto))"
  unfolding auth_repo_defs users_updateName_def users_updateEmail_def users_updatePassword_def payments_create_def payments_delete_def
    payments_updateById_def movies_repo_defs screenings_repo_defs halls_repo_defs
  by (intro keeps_rules keeps_db_stmt;
      (rule only_same [OF assms], erule other_tables, assumption | rule only_same [OF assms], erule other_hall, assumption))+

lemma keeps_each_deletes:
  "keeps_db (each_reservation Q) (movies_delete i)" "keeps_db (each_reservation Q) (screenings_delete si)"
  "keeps_db (each_reservation Q) (halls_delete i)"
  unfolding movies_repo_defs screenings_repo_defs halls_repo_defs
  by (rule keeps_db_stmt, erule (1) each_deletes)+

text \<open>The routes of the administrators insert and change no reservation; what they delete goes with its parents.\<close>

lemma keeps_admin_of:
  assumes "needs_admin r" and "only_reservations P"
    and "\<And>i. r = MoviesAdmin (RemoveMovie i) \<Longrightarrow> keeps_db P (movies_delete i)"
    and "\<And>i. r = ScreeningsAdmin (RemoveScreening i) \<Longrightarrow> keeps_db P (screenings_delete i)"
    and "\<And>i. r = Halls (RemoveHall i) \<Longrightarrow> keeps_db P (halls_delete i)"
  shows "keeps (app_inv P) (dispatch (intercept env t l n) env c r)"
proof (cases r)
  case (MoviesAdmin x)
  then show ?thesis using assms(2,3)
    by (cases x) (auto simp: MoviesAdminController_def listAllForAdmin_def movies_listAll_def createMovie_def updateMovie_def publish_def
        unpublish_def deleteMovie_def intro!: keeps_rules)
next
  case (ScreeningsAdmin x)
  then show ?thesis using assms(2,4)
    by (cases x) (auto simp: ScreeningsAdminController_def createScreening_def createScreening_insert_def updateScreening_def
        cancelScreening_def deleteScreening_def Let_def intro!: keeps_rules)
next
  case (Halls x)
  then show ?thesis using assms(2,5) by (cases x) (auto simp: createHall_def deleteHall_def intro!: keeps_rules)
qed (use assms(1) in simp_all)

lemma keeps_each_admin: "needs_admin r \<Longrightarrow> keeps (app_inv (each_reservation Q)) (dispatch (intercept env t l n) env c r)"
  by (rule keeps_admin_of) (auto intro: only_each keeps_each_deletes)

end
