(* ===== verification/Deadlines.thy ===== *)
theory Deadlines
  imports RowLaws PaymentRaces
begin

text \<open>
  Laws that every row of the reservation table obeys in all states of the system: a contract for a predicate on rows, with what each write of the
  services does to a row, and the proof that all of the program keeps it. Interpreted for the deadline of a hold.
\<close>

subsection \<open>The contract\<close>

text \<open>What the services do to a row of the table: they insert a hold, put off its deadline, cancel it (by hand or in the sweep) and confirm it.\<close>

locale reservation_law =
  fixes Q :: "reservation \<Rightarrow> bool"
  assumes held: "Q (hold_row now p i)"
    and put_off: "Q r \<Longrightarrow> Q (r\<lparr>heldUntil := Some t\<rparr>)"
    and cancelled: "Q r \<Longrightarrow> Q (r\<lparr>res_status := CANCELLED\<rparr>)"
    and expired: "Q r \<Longrightarrow> Q (r\<lparr>res_status := CANCELLED, heldUntil := None\<rparr>)"
    and confirmed: "Q r \<Longrightarrow> Q (r\<lparr>res_status := CONFIRMED, heldUntil := None\<rparr>)"
begin

lemma each_update:
  assumes "each_reservation Q d" and "update_reservation j f d = Inr (x, d')" and "\<And>r. Q r \<Longrightarrow> Q (f r)"
  shows "each_reservation Q d'"
proof -
  have "d' = d\<lparr>reservations := update_row j f (reservations d)\<rparr>"
    using assms(2) unfolding update_reservation_def by (rule update_stmtE)
  with assms(1,3) show ?thesis by (auto simp: each_reservation_def rows_update_row)
qed

lemma each_both:
  assumes "each_reservation Q d" and "both_updates q f j g d = Inr (x, d')" and "\<And>r. Q r \<Longrightarrow> Q (g r)"
  shows "each_reservation Q d'"
proof -
  from assms(2) obtain p d1 r where u: "update_payment q f d = Inr (p, d1)" "update_reservation j g d1 = Inr (r, d')"
    by (auto simp: both_updates_def split: sum.splits prod.splits)
  from each_update [OF each_same [OF other_tables(10) [OF u(1)] assms(1)] u(2) assms(3)] show ?thesis .
qed

lemma keeps_writes:
  "keeps_db (each_reservation Q) (reservations_extendHold f i t)" "keeps_db (each_reservation Q) (reservations_setStatus f i CANCELLED)"
  "keeps_db (each_reservation Q) (reservations_confirm f i)" "keeps_db (each_reservation Q) (releaseExpiredHolds f t)"
  "keeps_db (each_reservation Q) (confirmWithReservation f q i x)" "keeps_db (each_reservation Q) (declineWithReservation f q i)"
  unfolding reservations_extendHold_def reservations_setStatus_def reservations_confirm_def confirmWithReservation_def declineWithReservation_def
    releaseExpiredHolds_def
  subgoal by (rule keeps_db_stmt) (erule (1) each_update, rule put_off)
  subgoal by (rule keeps_db_stmt) (erule (1) each_update, rule cancelled)
  subgoal by (rule keeps_db_stmt) (erule (1) each_update, rule confirmed)
  subgoal by (rule keeps_db_stmt) (auto simp: release_expired_def each_reservation_def expired)
  subgoal by (rule keeps_db_stmt) (erule (1) each_both, rule confirmed)
  subgoal by (rule keeps_db_stmt) (erule (1) each_both, rule cancelled)
  done

lemma keeps_hold: "keeps_db (each_reservation Q) (breaker_holdSeat f fault now p)"
proof -
  have new: "each_reservation Q d'" if e: "each_reservation Q d" and ins: "insert_reservation (hold_row now p) d = Inr (r, d')" for d r d'
  proof -
    obtain t where t: "insert_row (hold_row now p) (reservations d) = (r, t)" and d': "d' = d\<lparr>reservations := t\<rparr>"
      using ins unfolding insert_reservation_def by (rule insert_stmtE)
    with e held insert_row_val [OF t] show ?thesis by (auto simp: each_reservation_def d' rows_insert_row [OF t])
  qed
  have "each_reservation Q d'" if "each_reservation Q d" "holdSeat_body now p d = Inr (r, d')" for d r d'
    using that new by (auto simp: holdSeat_body_def split: if_splits option.splits sum.splits)
  then have "keeps_db (each_reservation Q) (holdSeat_tx fault now p)"
    by (intro keepsI) (auto simp: holdSeat_tx_def db_inv_def split: option.split hold_fault.split sum.split prod.split)
  then show ?thesis unfolding breaker_holdSeat_def by (intro keeps_rules)
qed

lemma services_keep_law: "services_keep (each_reservation Q)"
  unfolding services_keep_defs reserve_def cancel_def createCheckoutSession_def handleWebhookEvent_def dispatch_event_def
    handleCheckoutCompleted_def handleAsyncPaymentFailed_def handleCheckoutExpired_def handleDisputeCreated_def
    refundReservation_def stripe_refund_def finalizeCancel_def confirmPayment_def extendHold_def
    updateName_def requestEmailChange_def check_password_def
    confirmEmailChange_def get_pending_def changePassword_def issue_for_def register_def sendOtpEmail_def resendOtp_def auth_verifyOtp_def
    verifyOtp_def auth_googleCallback_def resolveGoogleUser_def auth_linkGoogleCallback_def linkGoogle_def Let_def
    screenings_findById_def
  by (intro conjI allI keeps_rules keeps_writes keeps_hold)

lemma keeps_request: "keeps (app_inv (each_reservation Q)) (handle env c r)"
  by (rule keeps_handle, cases "needs_admin r") (simp_all add: keeps_each_admin keeps_open_routes services_keep_law)

lemmas keeps_jobs = keeps_jobs_of [OF keeps_writes(4-6)]

lemma system_keeps:
  assumes "reaches system_step UNIV s0 s" and "each_reservation Q (db (app (fst s0)))"
  shows "each_reservation Q (db (app (fst s)))"
  using assms
proof (induction rule: reaches.induct)
  case (move s l s')
  then have ih: "each_reservation Q (db (app (fst s)))" by blast
  from move.hyps(3) show ?case
  proof cases
    case (http env c r s1 h)
    have "app_inv (each_reservation Q) (snd (handle env c r s1))"
      by (rule keepsD [OF keeps_request]) (use ih http in \<open>simp add: app_inv_def\<close>)
    with http show ?thesis by (simp add: app_inv_def)
  next
    case (socket op s1 h w h')
    with ih show ?thesis using socket_reads [OF socket(4,5)] by simp
  qed (use ih keeps_dbD [OF keeps_jobs(1)] keeps_dbD [OF keeps_jobs(2)] in auto)
qed

end

subsection \<open>The deadline of a hold\<close>

definition has_deadline :: "reservation \<Rightarrow> bool" where
  "has_deadline r \<longleftrightarrow> (res_status r = HELD \<longrightarrow> heldUntil r \<noteq> None)"

interpretation dl: reservation_law has_deadline
  by unfold_locales (simp_all add: has_deadline_def hold_row_def)

lemma expire_tick_db: "system_step (ExpireTick None t) (s, h) (s', h') \<Longrightarrow> db (app s') = db (snd (expireHolds None t (app s)))"
  by (erule system_stepE) (auto simp: handleExpireHolds_def catch_err_def await_def record_audit_def expireHolds_run modify_def act_simps)

text \<open>C8. No hold blocks its seat forever: in every state the system reaches (from a well-formed start whose holds have deadlines) every HELD
  reservation has a deadline, and the next tick of the expiry job after it, whatever else has happened, makes the reservation CANCELLED
  and its seat free for the screening.\<close>

theorem hold_never_stuck:
  assumes "reaches system_step UNIV (s0, h0) (s, h)" and "db_ok (db (app s0))" and "hub_ok h0"
    and "\<forall>r \<in> set (rows (reservations (db (app s0)))). res_status r = HELD \<longrightarrow> heldUntil r \<noteq> None"
    and "r \<in> set (rows (reservations (db (app s))))" and "res_status r = HELD"
  shows "\<exists>u. heldUntil r = Some u \<and> (\<forall>t s' h'. u < t \<and> system_step (ExpireTick None t) (s, h) (s', h') \<longrightarrow>
    find_row (rid r) (reservations (db (app s'))) = Some (r\<lparr>res_status := CANCELLED, heldUntil := None\<rparr>) \<and>
    (\<forall>x \<in> set (rows (reservations (db (app s')))).
       active_res x \<longrightarrow> res_screeningId x = res_screeningId r \<longrightarrow> res_seatId x \<noteq> res_seatId r))"
proof -
  have "each_reservation has_deadline (db (app s))"
    using dl.system_keeps [OF assms(1)] assms(4) by (simp add: each_reservation_def has_deadline_def)
  then obtain u where u: "heldUntil r = Some u" using assms(5,6) by (auto simp: each_reservation_def has_deadline_def)
  have ok: "db_ok (db (app s))" using sys.holds_everywhere [OF assms(1)] assms(2,3) by (simp add: system_ok_def)
  then have r: "find_row (rid r) (reservations (db (app s))) = Some r" using assms(5) by (simp add: db_ok_defs mem_find_row)
  have "hold_expired t r" if "u < t" for t using that u assms(6) by (simp add: hold_expired_def)
  from sweep_frees [OF ok r this refl] u show ?thesis by (auto simp: expire_tick_db)
qed

theorem hold_never_stuck_witness:
  "\<exists>s s'. reaches system_step UNIV (sample_server, empty_hub) (s, empty_hub) \<and> \<not> redis_up (redis (app s)) \<and>
    system_step (ExpireTick None 600001) (s, empty_hub) (s', empty_hub) \<and>
    find_row 1 (reservations (db (app s'))) = Some (sample_reservation\<lparr>res_status := CANCELLED, heldUntil := None\<rparr>)"
proof -
  let ?s = "sample_server\<lparr>app := (app sample_server)\<lparr>redis := (redis (app sample_server))\<lparr>redis_up := False\<rparr>\<rparr>\<rparr>"
  let ?s' = "?s\<lparr>app := snd (handleExpireHolds None 600001 (app ?s))\<rparr>"
  have r: "reaches system_step UNIV (sample_server, empty_hub) (?s, empty_hub)"
    by (rule reaches.move [OF reaches.start UNIV_I]) (rule system_step.redis_turns)
  have st: "system_step (ExpireTick None 600001) (?s, empty_hub) (?s', empty_hub)" by (rule system_step.expire)
  have ok: "db_ok (db (app sample_server))" by (simp add: sample_server_def world_of_def sample_db_ok)
  have rows: "rows (reservations (db (app sample_server))) = [sample_reservation]"
    by (simp add: sample_server_def world_of_def sample_db_def)
  have q: "res_status sample_reservation = HELD" "heldUntil sample_reservation = Some 600000" "rid sample_reservation = 1"
    by (simp_all add: sample_reservation_def)
  have m: "sample_reservation \<in> set (rows (reservations (db (app ?s))))" using rows by simp
  have d: "\<forall>r \<in> set (rows (reservations (db (app sample_server)))). res_status r = HELD \<longrightarrow> heldUntil r \<noteq> None" by (simp add: rows q)
  obtain u where u: "heldUntil sample_reservation = Some u"
    and all: "\<And>t s' h'. u < t \<Longrightarrow> system_step (ExpireTick None t) (?s, empty_hub) (s', h') \<Longrightarrow>
      find_row (rid sample_reservation) (reservations (db (app s'))) = Some (sample_reservation\<lparr>res_status := CANCELLED, heldUntil := None\<rparr>)"
    using hold_never_stuck [OF r ok hub_ok_empty d m q(1)] by blast
  have "find_row 1 (reservations (db (app ?s'))) = Some (sample_reservation\<lparr>res_status := CANCELLED, heldUntil := None\<rparr>)"
    using all [OF _ st] u by (simp only: q) simp
  with r st show ?thesis by (intro exI [of _ ?s] exI [of _ ?s'] conjI) simp_all
qed

end
