(* ===== verification/Awaits.thy ===== *)
theory Awaits
  imports RowLaws PaymentRaces
begin

text \<open>
  Requests that run between the awaits of others. The handlers that first read whether they may write, and write
  after another await with no transaction around the two, are cut there: the three deletes of the administrators, the
  creation and the update of a screening, the cancellation of a reservation, and the reconciliation job between its payments.
  Between the halves any other work of the program may run.
\<close>

subsection \<open>The halves of the methods\<close>

definition deleteMovie_check :: "int \<Rightarrow> unit service" where
  "deleteMovie_check i =
     await (getExistingMovie i) (\<lambda>_.
     await (movies_hasReservations i) (\<lambda>reserved.
     if reserved then throw (ConflictException
         ''Cannot delete a movie with existing reservations; unpublish it instead'')
     else ret ()))"

definition deleteMovie_write :: "int \<Rightarrow> movie service" where
  "deleteMovie_write i =
     await (movies_delete i) (\<lambda>deleted.
     await (cache_delMovie i) (\<lambda>_.
     await cache_delLists (\<lambda>_.
     ret deleted)))"

definition deleteHall_check :: "int \<Rightarrow> unit service" where
  "deleteHall_check i =
     await (halls_findWithSeats i) (\<lambda>h. case h of
       None \<Rightarrow> throw (hall_not_found i)
     | Some _ \<Rightarrow>
         await (halls_hasReservations i) (\<lambda>reserved.
         if reserved then throw (ConflictException ''Cannot delete a hall with existing reservations'')
         else ret ()))"

definition deleteHall_write :: "int \<Rightarrow> hall service" where
  "deleteHall_write i = await (halls_delete i) (\<lambda>deleted. await cache_delHalls (\<lambda>_. ret deleted))"

definition deleteScreening_check :: "int \<Rightarrow> screening_full service" where
  "deleteScreening_check i =
     await (getExisting i) (\<lambda>existing.
     await (screenings_hasReservations i) (\<lambda>reserved.
     if reserved then throw (ConflictException
         ''Cannot delete a screening with existing reservations; cancel it instead'')
     else ret existing))"

definition deleteScreening_write :: "int \<Rightarrow> screening_full \<Rightarrow> screening service" where
  "deleteScreening_write i existing =
     await (screenings_delete i) (\<lambda>deleted.
     await (invalidate_screening i (scr_movieId (fst existing))) (\<lambda>_.
     ret deleted))"

definition updateScreening_check :: "int \<Rightarrow> screening_patch \<Rightarrow> screening_full service" where
  "updateScreening_check i p =
     await (getExisting i) (\<lambda>existing.
     let hallId = assign (u_hallId p) (scr_hallId (fst existing));
         start = assign (u_startTime p) (Some (startTime (fst existing))) in
     await (effective_duration p existing) (\<lambda>dur.
     await (check_new_hall p existing) (\<lambda>_.
     await (assertNoOverlap hallId start (computeEnd start dur) (Some i)) (\<lambda>_.
     ret existing))))"

definition updateScreening_write :: "int \<Rightarrow> screening_patch \<Rightarrow> screening_full \<Rightarrow> screening service" where
  "updateScreening_write i p existing =
     (let start = assign (u_startTime p) (Some (startTime (fst existing))) in
     await (screenings_updateById i p start) (\<lambda>updated.
     await (invalidate_screening i (scr_movieId (fst existing))) (\<lambda>_.
     ret updated)))"

lemma await_ret_left: "await (ret x) k = k x"
  by (rule ext) (simp add: await_ret)

lemma await_if_left: "await (if b then m else m') k = (if b then await m k else await m' k)"
  by simp

lemma await_throw_left: "await (throw e) k = throw e"
  by (rule ext) (simp add: await_def throw_def)

lemma await_option_left:
  "await (case x of None \<Rightarrow> m | Some y \<Rightarrow> f y) k = (case x of None \<Rightarrow> await m k | Some y \<Rightarrow> await (f y) k)"
  by (simp split: option.split)

lemmas await_left = await_assoc await_ret_left await_if_left await_throw_left await_option_left Let_def

lemma method_halves:
  "deleteMovie i = await (deleteMovie_check i) (\<lambda>_. deleteMovie_write i)"
  "deleteHall i = await (deleteHall_check i) (\<lambda>_. deleteHall_write i)"
  "deleteScreening i = await (deleteScreening_check i) (deleteScreening_write i)"
  "updateScreening i p = await (updateScreening_check i p) (updateScreening_write i p)"
  by (simp_all only: deleteMovie_def deleteMovie_check_def deleteMovie_write_def deleteHall_def deleteHall_check_def deleteHall_write_def
      deleteScreening_def deleteScreening_check_def deleteScreening_write_def updateScreening_def updateScreening_check_def
      updateScreening_write_def await_left)

subsection \<open>The halves of the requests\<close>

datatype cut_request = CutMovie int | CutHall int | CutScreening int | CutCreate screening_dto
  | CutUpdate int screening_patch | CutCancel int

fun route_of :: "cut_request \<Rightarrow> route" where
  "route_of (CutMovie i) = MoviesAdmin (RemoveMovie i)"
| "route_of (CutHall i) = Halls (RemoveHall i)"
| "route_of (CutScreening i) = ScreeningsAdmin (RemoveScreening i)"
| "route_of (CutCreate dto) = ScreeningsAdmin (CreateScreening dto)"
| "route_of (CutUpdate i p) = ScreeningsAdmin (UpdateScreening i p)"
| "route_of (CutCancel i) = Reservations (CancelReservation i)"

text \<open>What a request still has to write, with the rows it read.\<close>

datatype pending = DropMovie int | DropHall int | DropScreening int screening_full | AddScreening screening_dto
  | PatchScreening int screening_patch screening_full | CancelRow reservation

fun check_half :: "auth_user \<Rightarrow> cut_request \<Rightarrow> pending endpoint" where
  "check_half user (CutMovie i) = await (call (deleteMovie_check i)) (\<lambda>_. ret (DropMovie i))"
| "check_half user (CutHall i) = await (call (deleteHall_check i)) (\<lambda>_. ret (DropHall i))"
| "check_half user (CutScreening i) = await (call (deleteScreening_check i)) (\<lambda>existing. ret (DropScreening i existing))"
| "check_half user (CutCreate dto) =
     await (valid (valid_screening_dto dto)) (\<lambda>_. await (call (createScreening_check dto)) (\<lambda>_. ret (AddScreening dto)))"
| "check_half user (CutUpdate i p) =
     await (valid (valid_screening_patch p)) (\<lambda>_.
     await (call (updateScreening_check i p)) (\<lambda>existing. ret (PatchScreening i p existing)))"
| "check_half user (CutCancel i) = await (call (cancel_begin (au_id user) i)) (\<lambda>r. ret (CancelRow r))"

fun write_half :: "http_env \<Rightarrow> auth_user \<Rightarrow> pending \<Rightarrow> response endpoint" where
  "write_half env user (DropMovie i) = audited user ''movie.deleted'' ''movie'' (\<lambda>_. i) MovieBody (deleteMovie_write i)"
| "write_half env user (DropHall i) = answer HallBody (deleteHall_write i)"
| "write_half env user (DropScreening i existing) =
     audited user ''screening.deleted'' ''screening'' (\<lambda>_. i) ScreeningBody (deleteScreening_write i existing)"
| "write_half env user (AddScreening dto) =
     audited user ''screening.created'' ''screening'' rid ScreeningBody (createScreening_insert dto)"
| "write_half env user (PatchScreening i p existing) =
     audited user ''screening.updated'' ''screening'' (\<lambda>_. i) ScreeningBody (updateScreening_write i p existing)"
| "write_half env user (CancelRow r) = answer ReservationBody (cancel_rest (stripe env) r)"

text \<open>A request between its halves, with the database its check read.\<close>

record task =
  t_env :: http_env
  t_user :: auth_user
  t_request :: cut_request
  t_pending :: pending
  t_read :: db

definition intercept_first :: "http_env \<Rightarrow> route \<Rightarrow> 'a endpoint \<Rightarrow> 'a endpoint" where
  "intercept_first env r first s =
     (case first s of
        (Inl e, s') \<Rightarrow> intercept env ''http'' (http_line r) (success_status r) (throw e) s'
      | (Inr x, s') \<Rightarrow> (Inr x, s'))"

definition let_in :: "http_env \<Rightarrow> caller \<Rightarrow> cut_request \<Rightarrow> auth_user endpoint" where
  "let_in env c q = (if needs_admin (route_of q) then admin env c else authenticated env c)"

definition begin_request :: "http_env \<Rightarrow> caller \<Rightarrow> cut_request \<Rightarrow> task endpoint" where
  "begin_request env c q =
     await (let_in env c q) (\<lambda>user.
     await (gets (\<lambda>s. db (app s))) (\<lambda>d.
     await (intercept_first env (route_of q) (check_half user q)) (\<lambda>p.
     ret \<lparr>t_env = env, t_user = user, t_request = q, t_pending = p, t_read = d\<rparr>)))"

definition finish_request :: "task \<Rightarrow> response endpoint" where
  "finish_request t = intercept (t_env t) ''http'' (http_line (route_of (t_request t))) (success_status (route_of (t_request t)))
     (write_half (t_env t) (t_user t) (t_pending t))"

text \<open>With nothing in between, the halves are the request.\<close>

lemma call_await: "call (await m k) = await (call m) (\<lambda>x. call (k x))"
  by (rule ext) (simp add: call_def await_def split: prod.split sum.split)

lemma intercept_halves:
  "intercept env ''http'' (http_line r) (success_status r) (await m k) =
     await (intercept_first env r m) (\<lambda>x. intercept env ''http'' (http_line r) (success_status r) (k x))"
  by (rule ext) (auto simp: intercept_first_def intercept_def await_def throw_def split: prod.split sum.split)

lemma await_gets_left: "await (gets f) (\<lambda>x. k) = k"
  by (rule ext) (simp add: await_gets)

lemma dispatch_halves:
  "dispatch I env c (route_of q) = await (let_in env c q) (\<lambda>user. I (await (check_half user q) (write_half env user)))"
  by (cases q) (simp_all add: MoviesAdminController_def ScreeningsAdminController_def let_in_def audited_def answer_def method_halves
      createScreening_def cancel_split call_await await_left)

lemma handle_halves: "handle env c (route_of q) = await (begin_request env c q) finish_request"
proof -
  have "needs_login (route_of q) \<or> needs_admin (route_of q)" by (cases q) simp_all
  from handle_unlimited [OF this, of env c] show ?thesis
    by (simp add: dispatch_halves begin_request_def finish_request_def [abs_def] intercept_halves await_assoc await_ret_left await_gets)
      (intro await_cong ext, simp add: await_gets)
qed

subsection \<open>What the checks establish\<close>

fun found_free :: "auth_user \<Rightarrow> pending \<Rightarrow> db \<Rightarrow> bool" where
  "found_free u (DropMovie i) d \<longleftrightarrow> au_role u = ADMIN \<and> \<not> movie_reserved i d"
| "found_free u (DropHall i) d \<longleftrightarrow> au_role u = ADMIN \<and> \<not> hall_reserved i d"
| "found_free u (DropScreening i existing) d \<longleftrightarrow> au_role u = ADMIN \<and> \<not> screening_reserved i d"
| "found_free u (AddScreening dto) d \<longleftrightarrow> (\<exists>m. find_row (c_movieId dto) (movies d) = Some m \<and>
     overlapping (c_hallId dto) (c_startTime dto) (computeEnd (c_startTime dto) (duration m)) None d = [])"
| "found_free u (PatchScreening i p existing) d \<longleftrightarrow> screening_join i d = Some existing \<and>
     (\<exists>m. find_row (assign (u_movieId p) (scr_movieId (fst existing))) (movies d) = Some m \<and>
        (let start = assign (u_startTime p) (Some (startTime (fst existing))) in
         overlapping (assign (u_hallId p) (scr_hallId (fst existing))) start (computeEnd start (duration m)) (Some i) d = []))"
| "found_free u (CancelRow r) d \<longleftrightarrow> find_row (rid r) (reservations d) = Some r \<and> res_userId r = au_id u"

lemma checks_run:
  "deleteMovie_check i w = (Inr x, w') \<Longrightarrow> w' = w \<and> \<not> movie_reserved i (db w)"
  "deleteHall_check i w = (Inr x, w') \<Longrightarrow> w' = w \<and> \<not> hall_reserved i (db w)"
  "deleteScreening_check i w = (Inr ex, w') \<Longrightarrow> w' = w \<and> \<not> screening_reserved i (db w)"
  by (auto simp: deleteMovie_check_def getExistingMovie_def movies_findById_def movies_hasReservations_def deleteHall_check_def
      halls_findWithSeats_def halls_hasReservations_def deleteScreening_check_def getExisting_def screenings_findById_def
      screenings_hasReservations_def await_assoc await_left await_query throw_run ret_run split: option.splits if_splits)

lemma updateScreening_check_run:
  assumes "updateScreening_check i p w = (Inr ex, w')"
  shows "w' = w \<and> found_free u (PatchScreening i p ex) (db w)"
proof -
  let ?start = "assign (u_startTime p) (Some (startTime (fst ex)))"
  from assms obtain dur where j: "screening_join i (db w) = Some ex" and w': "w' = w"
    and dur: "fst (effective_duration p ex w) = Inr dur"
    and free: "overlapping (assign (u_hallId p) (scr_hallId (fst ex))) ?start (computeEnd ?start dur) (Some i) (db w) = []"
    unfolding updateScreening_check_def
    by (auto simp: await_def getExisting_run effective_duration_state check_new_hall_state assertNoOverlap_run Let_def ret_run
        split: prod.splits option.splits sum.splits if_splits)
      (metis check_new_hall_state effective_duration_state fst_conv snd_conv)+
  obtain s m h where ex: "ex = (s, m, h)" by (metis prod_cases3)
  have "\<exists>m'. find_row (assign (u_movieId p) (scr_movieId s)) (movies (db w)) = Some m' \<and> duration m' = dur"
    using dur j by (auto simp: ex screening_join_Some effective_duration_def movies_findById_def act_simps assign_def
        split: field.splits option.splits if_splits)
  with j w' free show ?thesis by (auto simp: ex)
qed

lemma check_half_run:
  assumes "check_half u q s = (Inr p, s')" and "needs_admin (route_of q) \<longrightarrow> au_role u = ADMIN"
  shows "s' = s \<and> found_free u p (db (app s))"
proof -
  have same: "s\<lparr>app := app s\<rparr> = s" by simp
  show ?thesis
  proof (cases q)
    case (CutCreate dto)
    with assms same show ?thesis
      by (auto simp: await_def call_def valid_def ret_run throw_run createScreening_check_run
          split: prod.splits sum.splits if_splits option.splits)
  next
    case (CutUpdate i pt)
    with assms same updateScreening_check_run [of i pt "app s" _ _ u] show ?thesis
      by (auto simp: await_def call_def valid_def ret_run throw_run simp del: found_free.simps
          split: prod.splits sum.splits if_splits)
  next
    case (CutCancel i)
    from assms(1) obtain r w' where r: "cancel_begin (au_id u) i (app s) = (Inr r, w')" and p: "p = CancelRow r" "s' = s\<lparr>app := w'\<rparr>"
      by (auto simp: CutCancel await_def call_def ret_run split: prod.splits sum.splits)
    have "res_userId r = au_id u"
      using r by (auto simp: cancel_begin_def findOwned_def getById_def reservations_findById_def await_def query_run ret_run throw_run
          split: option.splits if_splits)
    moreover have "w' = app s" using cancel_begin_run(1) [of "au_id u" i "app s"] r by simp
    ultimately show ?thesis using cancel_begin_run(2) [OF r] find_row_key p same by fastforce
  qed (use assms same in \<open>auto simp: await_def call_def ret_run dest!: checks_run split: prod.splits sum.splits\<close>)
qed

lemma let_in_run: "let_in env c q s = (x, s') \<Longrightarrow> s' = s \<and> (\<forall>u. x = Inr u \<longrightarrow>
    fst (token_check env c s) = Inr u \<and> (needs_admin (route_of q) \<longrightarrow> au_role u = ADMIN))"
  by (auto simp: let_in_def admin_run authenticated_run split: if_splits sum.splits)

lemma begin_request_run:
  assumes "begin_request env c q s = (Inr t, s')"
  shows "s' = s \<and> t_env t = env \<and> t_request t = q \<and> t_read t = db (app s) \<and> fst (token_check env c s) = Inr (t_user t) \<and>
    found_free (t_user t) (t_pending t) (db (app s))"
proof -
  from assms obtain u p s1 s2 where l: "let_in env c q s = (Inr u, s1)" and k: "check_half u q s1 = (Inr p, s2)" and s2: "s' = s2"
    and t: "t = \<lparr>t_env = env, t_user = u, t_request = q, t_pending = p, t_read = db (app s1)\<rparr>"
    by (auto simp: begin_request_def await_def gets_def intercept_first_def intercept_def throw_def ret_run split: prod.splits sum.splits)
  from let_in_run [OF l] have "s1 = s" "fst (token_check env c s) = Inr u" "needs_admin (route_of q) \<longrightarrow> au_role u = ADMIN" by auto
  with check_half_run [OF k] s2 t show ?thesis by simp
qed

lemma begin_reads: "db (app (snd (begin_request env c q s))) = db (app s)"
proof -
  have checks: "keeps_db P (deleteMovie_check i)" "keeps_db P (deleteHall_check i)" "keeps_db P (deleteScreening_check i)"
    "keeps_db P (updateScreening_check i p)" "keeps_db P (cancel_begin v i)" for P i p v
    unfolding deleteMovie_check_def deleteHall_check_def deleteScreening_check_def updateScreening_check_def cancel_begin_def Let_def
    by (intro keeps_rules)+
  have half: "keeps (app_inv P) (check_half u q)" for P u
    by (cases q) (auto intro!: keeps_rules checks)
  have "keeps (app_inv P) (intercept_first env r (check_half u q))" for P r u
  proof (rule keepsI)
    fix s1 assume "app_inv P s1"
    then have "app_inv P (snd (check_half u q s1))" by (rule keepsD [OF half])
    moreover have "keeps (app_inv P) (intercept env ''http'' (http_line r) (success_status r) (throw e :: pending endpoint))" for e
      by (intro keeps_rules)
    ultimately show "app_inv P (snd (intercept_first env r (check_half u q) s1))"
      by (auto simp: intercept_first_def intro: keepsD split: prod.split sum.split)
  qed
  then have "keeps (app_inv P) (begin_request env c q)" for P
    unfolding begin_request_def let_in_def by (intro keeps_rules)
  from keepsD [OF this [of "\<lambda>d. d = db (app s)"], of s] show ?thesis by (simp add: app_inv_def)
qed

subsection \<open>The program cut at these awaits\<close>

datatype work = Request task | Reconciling stripe_env "payment list"

datatype cut_op = Whole sys_op | Begin http_env caller cut_request | Finish task | BeginReconcile stripe_env | NextPayment stripe_env payment

type_synonym cut_state = "(server \<times> hub) \<times> work list"

text \<open>Any operation of the program as a whole, and requests and reconciliations begun, under way and finished in any order.\<close>

inductive cut_step :: "cut_op \<Rightarrow> cut_state \<Rightarrow> cut_state \<Rightarrow> bool" where
  whole: "system_step op c c' \<Longrightarrow> cut_step (Whole op) (c, ts) (c', ts)"
| begins: "begin_request env who q s = (Inr t, s') \<Longrightarrow> cut_step (Begin env who q) ((s, h), ts) ((s', h), Request t # ts)"
| refused: "begin_request env who q s = (Inl e, s') \<Longrightarrow> cut_step (Begin env who q) ((s, h), ts) ((s', h), ts)"
| finishes: "Request t \<in> set ts \<Longrightarrow>
    cut_step (Finish t) ((s, h), ts) ((snd (finish_request t s), h), remove1 (Request t) ts)"
| job_begins: "cut_step (BeginReconcile env') ((s, h), ts)
    ((s, h), Reconciling env' (stuck_timed_out (pay_now env' - RECONCILE_GRACE_MINUTES * 60000) (db (app s))) # ts)"
| job_next: "Reconciling env' (p # ps) \<in> set ts \<Longrightarrow> reconcile_one env' p (app s) = (Inr (), w) \<Longrightarrow>
    cut_step (NextPayment env' p) ((s, h), ts) ((s\<lparr>app := w\<rparr>, h), Reconciling env' ps # remove1 (Reconciling env' (p # ps)) ts)"
| job_fails: "Reconciling env' (p # ps) \<in> set ts \<Longrightarrow> reconcile_one env' p (app s) = (Inl e, w) \<Longrightarrow>
    cut_step (NextPayment env' p) ((s, h), ts) ((s\<lparr>app := w\<rparr>, h), remove1 (Reconciling env' (p # ps)) ts)"

text \<open>A request whose halves follow each other leaves the state the whole request leaves.\<close>

lemma begin_then_finish:
  assumes "begin_request env who q s = (Inr t, s')"
  shows "run_of cut_step [Begin env who q, Finish t] ((s, h), ts) ((snd (handle env who (route_of q) s), h), ts)"
proof -
  have "handle env who (route_of q) s = finish_request t s'" using assms by (simp add: handle_halves await_def)
  moreover have "cut_step (Finish t) ((s', h), Request t # ts) ((snd (finish_request t s'), h), remove1 (Request t) (Request t # ts))"
    by (rule cut_step.finishes) simp
  ultimately show ?thesis using cut_step.begins [OF assms, of h ts] by (auto intro!: run_of.intros)
qed

text \<open>The requests between their halves.\<close>

fun open_requests :: "work list \<Rightarrow> task list" where
  "open_requests [] = []"
| "open_requests (Request t # ws) = t # open_requests ws"
| "open_requests (Reconciling env ps # ws) = open_requests ws"

lemma open_requests_set: "Request t \<in> set ws \<longleftrightarrow> t \<in> set (open_requests ws)"
  by (induction ws rule: open_requests.induct) auto

lemma open_requests_remove1 [simp]:
  "open_requests (remove1 (Request t) ws) = remove1 t (open_requests ws)"
  "open_requests (remove1 (Reconciling env ps) ws) = open_requests ws"
  by (induction ws rule: open_requests.induct) auto

text \<open>A property of the database through a step: the writes are those of whole operations, of second halves and of single payments.\<close>

lemma cut_step_db:
  assumes "cut_step op (c, ts) (c', ts')"
  obtains (whole) l where "op = Whole l" "system_step l c c'" "ts' = ts"
  | (begins) env who q t where "op = Begin env who q" "begin_request env who q (fst c) = (Inr t, fst c)" "c' = c" "ts' = Request t # ts"
  | (refused) env who q where "op = Begin env who q" "db (app (fst c')) = db (app (fst c))" "snd c' = snd c" "ts' = ts"
  | (finishes) t where "op = Finish t" "Request t \<in> set ts" "c' = (snd (finish_request t (fst c)), snd c)" "ts' = remove1 (Request t) ts"
  | (job_begins) env where "op = BeginReconcile env" "c' = c" "open_requests ts' = open_requests ts"
  | (job) env p where "op = NextPayment env p" "db (app (fst c')) = db (snd (reconcile_one env p (app (fst c))))" "snd c' = snd c"
      "open_requests ts' = open_requests ts"
  using assms
proof cases
  case (whole l)
  then show ?thesis using that(1) by blast
next
  case (begins env who q s t s' h)
  with begin_request_run [OF begins(5)] show ?thesis by (intro that(2)) auto
next
  case (refused env who q s e s' h)
  with begin_reads [of env who q s] show ?thesis by (intro that(3)) auto
next
  case (finishes t s h)
  then show ?thesis by (intro that(4)) auto
next
  case (job_begins env s h)
  then show ?thesis by (intro that(5)) auto
next
  case (job_next env p ps s w h)
  then show ?thesis by (intro that(6)) auto
next
  case (job_fails env p ps s e w h)
  then show ?thesis by (intro that(6)) auto
qed

subsection \<open>What the second halves write\<close>

lemma drop_db:
  "db (snd (deleteMovie_write i w)) = (case delete_movie i (db w) of Inl e \<Rightarrow> db w | Inr (m, d) \<Rightarrow> d)"
  "db (snd (deleteHall_write i w)) = (case delete_hall i (db w) of Inl e \<Rightarrow> db w | Inr (m, d) \<Rightarrow> d)"
  "db (snd (deleteScreening_write i ex w)) = (case delete_screening i (db w) of Inl e \<Rightarrow> db w | Inr (m, d) \<Rightarrow> d)"
  by (simp_all add: deleteMovie_write_def movies_delete_def cache_delMovie_def cache_delLists_def deleteHall_write_def halls_delete_def
      cache_delHalls_def deleteScreening_write_def screenings_delete_def invalidate_screening_run await_def run_stmt_def cache_write_run
      ret_run split: sum.split prod.split)

lemma finish_db:
  "db (app (snd (finish_request t s))) = (case t_pending t of
      DropMovie i \<Rightarrow> db (snd (deleteMovie_write i (app s)))
    | DropHall i \<Rightarrow> db (snd (deleteHall_write i (app s)))
    | DropScreening i existing \<Rightarrow> db (snd (deleteScreening_write i existing (app s)))
    | AddScreening dto \<Rightarrow> db (snd (createScreening_insert dto (app s)))
    | PatchScreening i p existing \<Rightarrow> db (snd (updateScreening_write i p existing (app s)))
    | CancelRow r \<Rightarrow> db (snd (cancel_rest (stripe (t_env t)) r (app s))))"
  by (auto simp: finish_request_def intercept_def answer_def audited_def await_def call_def ret_run record_audit_run
      split: pending.split prod.split sum.split)

lemma keeps_halves [keeps_rules]:
  "keeps_db db_ok (deleteMovie_write i)" "keeps_db db_ok (deleteHall_write i)" "keeps_db db_ok (deleteScreening_write i ex)"
  "keeps_db db_ok (createScreening_insert dto)" "keeps_db db_ok (updateScreening_write i p ex)" "keeps_db db_ok (cancel_rest env r)"
proof -
  have "keeps_db db_ok (halls_delete i)" unfolding halls_delete_def by (rule keeps_db_stmt) (rule db_ok_deletes(2))
  then show "keeps_db db_ok (deleteHall_write i)" unfolding deleteHall_write_def by (intro keeps_rules)
qed (unfold deleteMovie_write_def deleteScreening_write_def createScreening_insert_def updateScreening_write_def cancel_rest_def Let_def,
    (intro keeps_rules)+)

lemma finish_db_ok: "db_ok (db (app s)) \<Longrightarrow> db_ok (db (app (snd (finish_request t s))))"
  by (simp add: finish_db keeps_dbD keeps_halves split: pending.split)

text \<open>The cut program keeps the database and the registry of sockets well-formed.\<close>

interpretation cut: invariant_steps cut_step UNIV "\<lambda>c. system_ok (fst c)"
proof
  fix c l c' assume c: "system_ok (fst c)" and step: "cut_step l c c'"
  obtain x ts x' ts' where x: "c = (x, ts)" "c' = (x', ts')" by fastforce
  from step [unfolded x] have "system_ok x'"
  proof (cases rule: cut_step_db)
    case (whole l)
    then show ?thesis using c x by (auto intro: sys.preserved)
  next
    case (finishes t)
    then show ?thesis using c x finish_db_ok by (simp add: system_ok_def)
  next
    case (job env p)
    then show ?thesis using c x keeps_dbD [OF keeps_reconcile(1)] by (simp add: system_ok_def)
  qed (use c x in \<open>simp_all add: system_ok_def\<close>)
  with x show "system_ok (fst c')" by simp
qed

end
