(* ===== verification/Timetable.thy ===== *)
theory Timetable
  imports Awaits
begin

text \<open>
  The schedule of the halls: no request, job or event makes two screenings of a hall overlap, also when requests run between the awaits
  of others, except two requests that schedule at the same time (nothing holds the schedule between the check and the write) and
  an update of a movie's duration, which the code does not check against the schedule.
\<close>

subsection \<open>What happens to the schedule beside scheduling\<close>

text \<open>Screenings may go or be cancelled and movies come and go, but what is left keeps its hall, movie, start and duration.\<close>

definition calm :: "db \<Rightarrow> db \<Rightarrow> bool" where
  "calm d d' \<longleftrightarrow>
     (\<forall>s' \<in> set (rows (screenings d')). \<exists>s \<in> set (rows (screenings d)). rid s' = rid s \<and> scr_hallId s' = scr_hallId s \<and>
        scr_movieId s' = scr_movieId s \<and> startTime s' = startTime s \<and> (scr_status s' \<noteq> ScreenCANCELLED \<longrightarrow> scr_status s \<noteq> ScreenCANCELLED)) \<and>
     next_id (movies d) \<le> next_id (movies d') \<and>
     (\<forall>k < next_id (movies d). \<forall>m'. find_row k (movies d') = Some m' \<longrightarrow>
        (\<exists>m. find_row k (movies d) = Some m \<and> duration m' = duration m))"

lemma calm_refl: "calm d d"
  by (auto simp: calm_def)

lemma calm_trans:
  assumes "calm d1 d2" and "calm d2 d3"
  shows "calm d1 d3"
  unfolding calm_def
proof (intro conjI ballI allI impI)
  fix s assume "s \<in> set (rows (screenings d3))"
  with assms(2) obtain s2 where s2: "s2 \<in> set (rows (screenings d2))" "rid s = rid s2" "scr_hallId s = scr_hallId s2" "scr_movieId s = scr_movieId s2"
    "startTime s = startTime s2" "scr_status s \<noteq> ScreenCANCELLED \<longrightarrow> scr_status s2 \<noteq> ScreenCANCELLED"
    unfolding calm_def by blast
  with assms(1) obtain s1 where "s1 \<in> set (rows (screenings d1))" "rid s2 = rid s1" "scr_hallId s2 = scr_hallId s1" "scr_movieId s2 = scr_movieId s1"
    "startTime s2 = startTime s1" "scr_status s2 \<noteq> ScreenCANCELLED \<longrightarrow> scr_status s1 \<noteq> ScreenCANCELLED"
    unfolding calm_def by blast
  with s2 show "\<exists>s' \<in> set (rows (screenings d1)). rid s = rid s' \<and> scr_hallId s = scr_hallId s' \<and>
      scr_movieId s = scr_movieId s' \<and> startTime s = startTime s' \<and> (scr_status s \<noteq> ScreenCANCELLED \<longrightarrow> scr_status s' \<noteq> ScreenCANCELLED)"
    by (intro bexI [of _ s1]) auto
next
  show "next_id (movies d1) \<le> next_id (movies d3)" using assms by (simp add: calm_def)
next
  fix k m3 assume "k < next_id (movies d1)" "find_row k (movies d3) = Some m3"
  moreover from this assms have "k < next_id (movies d2)" by (simp add: calm_def)
  ultimately obtain m2 where "find_row k (movies d2) = Some m2" "duration m3 = duration m2" using assms(2) unfolding calm_def by blast
  with \<open>k < next_id (movies d1)\<close> assms(1) show "\<exists>m. find_row k (movies d1) = Some m \<and> duration m3 = duration m"
    unfolding calm_def by fastforce
qed

lemma calm_catalogue: "catalogue d' = catalogue d \<Longrightarrow> calm d d'"
  by (auto simp: catalogue_def calm_def)

lemma calm_fewer:
  assumes "set (rows (screenings d')) \<subseteq> set (rows (screenings d))" and "movies d' = movies d"
  shows "calm d d'"
  using assms by (force simp: calm_def)

lemma screening_has_movie:
  "db_ok d \<Longrightarrow> s \<in> set (rows (screenings d)) \<Longrightarrow> scr_movieId s \<in> set (ids (movies d))"
  by (simp add: db_ok_defs fk_defs)

lemma movie_id_bound: "db_ok d \<Longrightarrow> find_row k (movies d) = Some m \<Longrightarrow> k < next_id (movies d)"
  using find_row_mem [of k "movies d" m] find_row_key [of k "movies d" m] by (auto simp: db_ok_defs wf_table_def)

lemma calm_duration:
  assumes "calm d d'" and "db_ok d" and "db_ok d'" and "s' \<in> set (rows (screenings d'))" and "s \<in> set (rows (screenings d))"
    and "scr_movieId s' = scr_movieId s" and "startTime s' = startTime s"
  shows "scr_end d' s' = scr_end d s"
proof -
  obtain m' where m': "find_row (scr_movieId s) (movies d') = Some m'"
    using screening_has_movie [OF assms(3,4)] assms(6) find_row_ids [of "scr_movieId s" "movies d'"] by auto
  obtain m0 where "find_row (scr_movieId s) (movies d) = Some m0"
    using screening_has_movie [OF assms(2,5)] find_row_ids [of "scr_movieId s" "movies d"] by auto
  from movie_id_bound [OF assms(2) this] m' assms(1) obtain m where "find_row (scr_movieId s) (movies d) = Some m" "duration m' = duration m"
    unfolding calm_def by blast
  with m' assms(6,7) show ?thesis by (simp add: scr_end_def movie_duration_def)
qed

text \<open>Of a screening in the later state that is not cancelled, the earlier state has the slot.\<close>

lemma calm_earlier:
  assumes "calm d d'" and "db_ok d" and "db_ok d'" and "s' \<in> set (rows (screenings d'))" and "scr_status s' \<noteq> ScreenCANCELLED"
  obtains s where "s \<in> set (rows (screenings d))" "rid s = rid s'" "scr_hallId s = scr_hallId s'" "scr_status s \<noteq> ScreenCANCELLED"
    "startTime s = startTime s'" "scr_end d s = scr_end d' s'"
proof -
  from assms(1,4,5) obtain s where s: "s \<in> set (rows (screenings d))" "rid s' = rid s" "scr_hallId s' = scr_hallId s"
    "scr_movieId s' = scr_movieId s" "startTime s' = startTime s" "scr_status s \<noteq> ScreenCANCELLED"
    unfolding calm_def by blast
  with calm_duration [OF assms(1-4) s(1,4,5)] that show ?thesis by simp
qed

lemma schedule_calm:
  assumes "calm d d'" and "db_ok d" and "db_ok d'" and "schedule_ok d"
  shows "schedule_ok d'"
  unfolding schedule_ok_def
proof (intro ballI impI, elim conjE)
  fix a' b' assume a': "a' \<in> set (rows (screenings d'))" "scr_status a' \<noteq> ScreenCANCELLED" and b': "b' \<in> set (rows (screenings d'))"
    "scr_status b' \<noteq> ScreenCANCELLED" and ne: "rid a' \<noteq> rid b'" "scr_hallId a' = scr_hallId b'"
  obtain a where a: "a \<in> set (rows (screenings d))" "rid a = rid a'" "scr_hallId a = scr_hallId a'" "scr_status a \<noteq> ScreenCANCELLED"
    "startTime a = startTime a'" "scr_end d a = scr_end d' a'" using calm_earlier [OF assms(1-3) a'] .
  obtain b where b: "b \<in> set (rows (screenings d))" "rid b = rid b'" "scr_hallId b = scr_hallId b'" "scr_status b \<noteq> ScreenCANCELLED"
    "startTime b = startTime b'" "scr_end d b = scr_end d' b'" using calm_earlier [OF assms(1-3) b'] .
  from assms(4) a b ne have "slot d a \<inter> slot d b = {}" unfolding schedule_ok_def by metis
  with a b show "slot d' a' \<inter> slot d' b' = {}" by (simp add: slot_def)
qed

lemma overlapping_calm:
  assumes "calm d d'" and "db_ok d" and "db_ok d'" and "overlapping h (Some a) (Some b) x d = []"
  shows "overlapping h (Some a) (Some b) x d' = []"
  unfolding overlapping_Nil
proof (intro ballI impI, elim conjE)
  fix s' assume s': "s' \<in> set (rows (screenings d'))" "scr_status s' \<noteq> ScreenCANCELLED" "scr_hallId s' = h" "x \<noteq> Some (rid s')"
  obtain s where "s \<in> set (rows (screenings d))" "rid s = rid s'" "scr_hallId s = scr_hallId s'" "scr_status s \<noteq> ScreenCANCELLED"
    "startTime s = startTime s'" "scr_end d s = scr_end d' s'" using calm_earlier [OF assms(1-3) s'(1,2)] .
  with assms(4) s' show "\<not> (startTime s' < b \<and> a < scr_end d' s')" by (auto simp: overlapping_Nil)
qed

subsection \<open>The slot a request found free\<close>

text \<open>What stays true of a scheduling request between its check and its write.\<close>

fun slot_free :: "pending \<Rightarrow> db \<Rightarrow> bool" where
  "slot_free (AddScreening dto) d \<longleftrightarrow> c_movieId dto < next_id (movies d) \<and>
     (\<forall>m t. find_row (c_movieId dto) (movies d) = Some m \<longrightarrow> c_startTime dto = Some t \<longrightarrow>
        overlapping (c_hallId dto) (Some t) (Some (t + duration m * 60000)) None d = [])"
| "slot_free (PatchScreening i p existing) d \<longleftrightarrow>
     assign (u_movieId p) (scr_movieId (fst existing)) < next_id (movies d) \<and>
     (\<forall>s. find_row i (screenings d) = Some s \<longrightarrow> scr_hallId s = scr_hallId (fst existing) \<and> scr_movieId s = scr_movieId (fst existing) \<and>
        startTime s = startTime (fst existing)) \<and>
     (\<forall>m t. find_row (assign (u_movieId p) (scr_movieId (fst existing))) (movies d) = Some m \<longrightarrow>
        assign (u_startTime p) (Some (startTime (fst existing))) = Some t \<longrightarrow>
        overlapping (assign (u_hallId p) (scr_hallId (fst existing))) (Some t) (Some (t + duration m * 60000)) (Some i) d = [])"
| "slot_free _ d \<longleftrightarrow> True"

fun scheduling :: "pending \<Rightarrow> bool" where
  "scheduling (AddScreening dto) = True"
| "scheduling (PatchScreening i p existing) = True"
| "scheduling _ = False"

lemma slot_free_other: "\<not> scheduling p \<Longrightarrow> slot_free p d"
  by (cases p) simp_all

lemma slot_free_found:
  assumes "db_ok d" and "found_free u p d"
  shows "slot_free p d"
proof (cases p)
  case (PatchScreening i q existing)
  obtain s m h where e: "existing = (s, m, h)" by (metis prod_cases3)
  show ?thesis using assms movie_id_bound [OF assms(1)]
    by (auto simp: PatchScreening e screening_join_Some computeEnd_def Let_def)
qed (use assms movie_id_bound [OF assms(1)] in \<open>auto simp: computeEnd_def\<close>)

lemma calm_find_screening:
  assumes "calm d d'" and "db_ok d" and "find_row i (screenings d') = Some s'"
  obtains s where "find_row i (screenings d) = Some s" "scr_hallId s' = scr_hallId s" "scr_movieId s' = scr_movieId s" "startTime s' = startTime s"
proof -
  from assms(1) find_row_mem [OF assms(3)] obtain s where s: "s \<in> set (rows (screenings d))" "rid s' = rid s" "scr_hallId s' = scr_hallId s"
    "scr_movieId s' = scr_movieId s" "startTime s' = startTime s"
    unfolding calm_def by blast
  moreover have "wf_table (screenings d)" using assms(2) by (simp add: db_ok_defs)
  ultimately have "find_row i (screenings d) = Some s" using find_row_key [OF assms(3)] by (simp add: find_row_iff)
  with s that show ?thesis by blast
qed

lemma slot_free_calm:
  assumes "calm d d'" and "db_ok d" and "db_ok d'" and "slot_free p d"
  shows "slot_free p d'"
proof -
  have later: "\<exists>m. find_row k (movies d) = Some m \<and> duration m' = duration m" if "k < next_id (movies d)" "find_row k (movies d') = Some m'" for k m'
    using assms(1) that by (auto simp: calm_def)
  have n: "next_id (movies d) \<le> next_id (movies d')" using assms(1) by (simp add: calm_def)
  show ?thesis
  proof (cases p)
    case (AddScreening dto)
    show ?thesis using assms(4) n later overlapping_calm [OF assms(1-3)] by (fastforce simp: AddScreening)
  next
    case (PatchScreening i q ex)
    have "scr_hallId s = scr_hallId (fst ex) \<and> scr_movieId s = scr_movieId (fst ex) \<and> startTime s = startTime (fst ex)"
      if "find_row i (screenings d') = Some s" for s
      using calm_find_screening [OF assms(1,2) that] assms(4) by (auto simp: PatchScreening)
    then show ?thesis using assms(4) n later overlapping_calm [OF assms(1-3)] by (fastforce simp: PatchScreening)
  qed simp_all
qed

subsection \<open>The operations beside scheduling\<close>

lemma calm_insert_movie:
  assumes "\<And>n. rid (mk n) = n" and "insert_movie mk d = Inr (m, d')"
  shows "calm d d'"
  using assms(2) unfolding insert_movie_def
proof (rule insert_stmtE)
  fix t assume t: "insert_row mk (movies d) = (m, t)" and d': "d' = d\<lparr>movies := t\<rparr>"
  have "rid m = next_id (movies d)" "next_id t = next_id (movies d) + 1"
    using t assms(1) by (auto simp: insert_row_def Let_def)
  then show ?thesis
    by (auto simp: calm_def d' find_row_def rows_insert_row [OF t] find_append split: option.splits if_splits)
qed

lemma next_id_rows: "next_id (update_row i f t) = next_id t" "next_id (delete_row i t) = next_id t"
  by (simp_all add: update_row_def delete_row_def)

lemma calm_update_movie:
  assumes "\<And>m. rid (f m) = rid m" and "\<And>m. duration (f m) = duration m" and "update_movie i f d = Inr (m, d')"
  shows "calm d d'"
  using assms(3) unfolding update_movie_def
  by (rule update_stmtE) (auto simp: calm_def find_update_row [OF assms(1)] assms(2) next_id_rows split: if_splits)

lemma calm_delete_movie:
  assumes "delete_movie i d = Inr (m, d')"
  shows "calm d d'"
proof -
  have "d' = cascade (d\<lparr>movies := delete_row i (movies d)\<rparr>)"
    using assms by (auto simp: delete_movie_def dest!: on_table_InrD try_delete_InrD)
  then show ?thesis by (auto simp: calm_def table_simps find_delete_row next_id_rows split: if_splits)
qed

lemma calm_delete_others:
  "delete_hall i d = Inr (h, d') \<Longrightarrow> calm d d'" "delete_screening i d = Inr (s, d') \<Longrightarrow> calm d d'"
  by (auto simp: delete_hall_def delete_screening_def table_simps dest!: on_table_InrD try_delete_InrD intro!: calm_fewer)

lemma hall_stmts:
  "insert_hall m3 d = Inr (x3, d') \<Longrightarrow> movies d' = movies d \<and> screenings d' = screenings d"
  "insert_seat m4 d = Inr (x4, d') \<Longrightarrow> movies d' = movies d \<and> screenings d' = screenings d"
  by (auto simp: insert_hall_def insert_seat_def dest!: on_table_InrD)

lemma seats_stmts: "insert_seats ps d = Inr (ss, d') \<Longrightarrow> movies d' = movies d \<and> screenings d' = screenings d"
  by (induction ps arbitrary: d ss) (fastforce dest!: hall_stmts split: sum.splits prod.splits)+

lemma calm_new_hall: "createHallWithSeats dto d = Inr (x, d') \<Longrightarrow> calm d d'"
  by (rule calm_fewer)
    (fastforce simp: createHallWithSeats_def dest!: hall_stmts seats_stmts split: sum.splits prod.splits option.splits if_splits)+

lemma calm_cancel_screening:
  assumes "update_screening i (\<lambda>s. s\<lparr>scr_status := ScreenCANCELLED\<rparr>) d = Inr (s, d')"
  shows "calm d d'"
proof -
  have d': "d' = d\<lparr>screenings := update_row i (\<lambda>s. s\<lparr>scr_status := ScreenCANCELLED\<rparr>) (screenings d)\<rparr>"
    using assms unfolding update_screening_def by (rule update_stmtE)
  show ?thesis by (auto simp: calm_def d' update_row_def split: if_splits)
qed

lemma keeps_calm_stmt: "(\<And>d x d'. st d = Inr (x, d') \<Longrightarrow> calm d d') \<Longrightarrow> keeps_db (calm d0) (run_stmt f st)"
  by (rule keeps_db_stmt) (blast intro: calm_trans)

lemma calm_repo [keeps_rules]:
  "keeps_db (calm d0) (movies_create now mdto)" "keeps_db (calm d0) (movies_setStatus i mst)" "keeps_db (calm d0) (movies_delete i)"
  "keeps_db (calm d0) (halls_delete i)" "keeps_db (calm d0) (screenings_delete i)" "keeps_db (calm d0) (screenings_setStatus i ScreenCANCELLED)"
  "keeps_db (calm d0) (run_stmt fault (createHallWithSeats hdto))"
  unfolding movies_create_def movies_setStatus_def movies_delete_def halls_delete_def screenings_delete_def screenings_setStatus_def
  subgoal by (intro keeps_rules keeps_calm_stmt, erule calm_insert_movie [rotated]) simp
  subgoal by (rule keeps_calm_stmt, erule calm_update_movie [rotated 2]) simp_all
  subgoal by (rule keeps_calm_stmt) (rule calm_delete_movie)
  subgoal by (rule keeps_calm_stmt) (rule calm_delete_others(1))
  subgoal by (rule keeps_calm_stmt) (rule calm_delete_others(2))
  subgoal by (rule keeps_calm_stmt) (rule calm_cancel_screening)
  subgoal by (rule keeps_calm_stmt) (rule calm_new_hall)
  done

lemma calm_patch:
  assumes "\<not> (\<exists>n. p_duration p = Given n)"
  shows "keeps_db (calm d0) (movies_updateById i p)"
proof -
  have "duration (patch_movie p m) = duration m" "rid (patch_movie p m) = rid m" for m
    using assms by (cases "p_duration p") (simp_all add: patch_movie_def assign_def)
  then show ?thesis
    unfolding movies_updateById_def by (intro keeps_rules keeps_calm_stmt, elim calm_update_movie [rotated 2]) simp_all
qed

text \<open>The two operations that C12 names: an update of a duration, and the requests that schedule.\<close>

fun retimes :: "sys_op \<Rightarrow> bool" where
  "retimes (Http env c (MoviesAdmin (UpdateMovie i p))) = (\<exists>n. p_duration p = Given n)"
| "retimes _ = False"

fun schedules :: "sys_op \<Rightarrow> bool" where
  "schedules (Http env c (ScreeningsAdmin (CreateScreening dto))) = True"
| "schedules (Http env c (ScreeningsAdmin (UpdateScreening i p))) = True"
| "schedules _ = False"

lemma calm_admin:
  assumes "needs_admin r" and "\<not> retimes (Http env c r)" and "\<not> schedules (Http env c r)"
  shows "keeps (app_inv (calm d0)) (dispatch (intercept env t l n) env c r)"
proof (cases r)
  case (MoviesAdmin x)
  then show ?thesis using assms(2)
    by (cases x) (auto simp: MoviesAdminController_def listAllForAdmin_def movies_listAll_def createMovie_def updateMovie_def publish_def
        unpublish_def deleteMovie_def intro!: keeps_rules calm_patch)
next
  case (ScreeningsAdmin x)
  then show ?thesis using assms(3)
    by (cases x) (auto simp: ScreeningsAdminController_def cancelScreening_def deleteScreening_def intro!: keeps_rules)
next
  case (Halls x)
  then show ?thesis by (cases x) (auto simp: createHall_def deleteHall_def intro!: keeps_rules)
qed (use assms in simp_all)

lemma calm_request:
  assumes "\<not> retimes (Http env c r)" and "\<not> schedules (Http env c r)"
  shows "calm (db (app s)) (db (app (snd (handle env c r s))))"
proof (cases "needs_admin r")
  case True
  from keepsD [OF keeps_handle [OF calm_admin [OF this assms, of "db (app s)"]], of s] show ?thesis by (simp add: app_inv_def calm_refl)
next
  case False
  from calm_catalogue [OF open_request_catalogue [OF this, of env c s]] show ?thesis .
qed

lemma jobs_catalogue: "keeps_db (on_cat k) (handleExpireHolds f t)" "keeps_db (on_cat k) (handleReconcilePayments env)"
  "keeps_db (on_cat k) (reconcile_one env p)"
proof -
  have "keeps_db (on_cat k) (releaseExpiredHolds f t)" for f t
    unfolding releaseExpiredHolds_def by (rule keeps_db_stmt) (auto simp: release_expired_def catalogue_def)
  note writes = this keeps_cat_repo(11,12)
  show "keeps_db (on_cat k) (handleExpireHolds f t)" "keeps_db (on_cat k) (handleReconcilePayments env)"
    by (rule keeps_jobs_of; rule writes)+
  show "keeps_db (on_cat k) (reconcile_one env p)" unfolding reconcile_one_def by (intro keeps_rules)
qed

lemma catalogue_kept: "(\<And>k. keeps_db (on_cat k) m) \<Longrightarrow> calm (db w) (db (snd (m w)))"
  by (rule calm_catalogue) (rule keeps_dbD, simp_all)

lemma calm_step:
  assumes "system_step l c c'" and "\<not> retimes l" and "\<not> schedules l"
  shows "calm (db (app (fst c))) (db (app (fst c')))"
  using assms(1)
proof cases
  case (http env c r s0 h)
  then show ?thesis using calm_request assms(2,3) by simp
next
  case (socket op s0 h w h')
  with socket_reads [OF socket(4,5)] show ?thesis by (simp add: calm_refl)
qed (use catalogue_kept [OF jobs_catalogue(1)] catalogue_kept [OF jobs_catalogue(2)] in \<open>simp_all add: calm_refl\<close>)

lemma calm_finish:
  assumes "\<not> scheduling (t_pending t)"
  shows "calm (db (app s)) (db (app (snd (finish_request t s))))"
proof (cases "t_pending t")
  case (CancelRow r)
  have "keeps_db (on_cat k) (cancel_rest env r)" for k env
    unfolding cancel_rest_def refundReservation_def stripe_refund_def finalizeCancel_def Let_def screenings_findById_def by (intro keeps_rules)
  from catalogue_kept [OF this] CancelRow show ?thesis by (simp add: finish_db)
qed (use assms in \<open>auto simp: finish_db drop_db calm_refl dest: calm_delete_movie calm_delete_others split: sum.split\<close>)

subsection \<open>Scheduling\<close>

lemma schedule_step:
  assumes "system_step l c c'" and "schedules l" and "db_ok (db (app (fst c)))" and "schedule_ok (db (app (fst c)))"
  shows "schedule_ok (db (app (fst c')))"
  using assms(1)
proof cases
  case (http env who r s h)
  have "keeps (app_inv (\<lambda>d. db_ok d \<and> schedule_ok d)) (handle env who r)"
  proof (rule keeps_handle)
    show "keeps (app_inv (\<lambda>d. db_ok d \<and> schedule_ok d)) (dispatch (intercept env ''http'' (http_line r) (success_status r)) env who r)"
      using assms(2) http(1) by (cases r rule: http_line.cases)
        (auto simp: ScreeningsAdminController_def intro!: keeps_rules keeps_schedule_create keeps_schedule_update)
  qed
  from keepsD [OF this, of s] assms(3,4) http show ?thesis by (simp add: app_inv_def)
qed (use assms(2) in simp_all)

lemma add_screening_schedule:
  assumes "schedule_ok (db w)" and "slot_free (AddScreening dto) (db w)"
  shows "schedule_ok (db (snd (createScreening_insert dto w)))"
proof -
  have "schedule_ok d" if t: "c_startTime dto = Some t" and ins: "insert_screening (\<lambda>i. \<lparr>rid = i, scr_hallId = c_hallId dto,
      scr_movieId = c_movieId dto, startTime = t, scr_status = SCHEDULED, price = c_price dto\<rparr>) (db w) = Inr (s, d)" for t s d
  proof -
    from ins have "c_movieId dto \<in> set (ids (movies (db w)))"
      unfolding insert_screening_def by (rule insert_stmtE) (auto simp: screening_fk_def dest: insert_row_val)
    then obtain m where m: "find_row (c_movieId dto) (movies (db w)) = Some m" using find_row_ids by fastforce
    with assms(2) t have "overlapping (c_hallId dto) (Some t) (Some (t + duration m * 60000)) None (db w) = []" by simp
    from schedule_insert [OF assms(1) m this ins] show ?thesis .
  qed
  with assms(1) show ?thesis by (auto simp: createScreening_insert_run split: option.split sum.split)
qed

lemma patch_screening_schedule:
  assumes "db_ok (db w)" and "schedule_ok (db w)" and "slot_free (PatchScreening i p ex) (db w)"
  shows "schedule_ok (db (snd (updateScreening_write i p ex w)))"
proof -
  let ?start = "assign (u_startTime p) (Some (startTime (fst ex)))" and ?mid = "assign (u_movieId p) (scr_movieId (fst ex))"
  have run: "db (snd (updateScreening_write i p ex w)) = db (snd (screenings_updateById i p ?start w))"
    by (auto simp: updateScreening_write_def Let_def await_def invalidate_screening_run ret_run split: prod.split sum.split)
  from db_screenings_updateById [of i p ?start w] show ?thesis
  proof
    assume "snd (screenings_updateById i p ?start w) = w"
    with run assms(2) show ?thesis by simp
  next
    assume "\<exists>t s d. ?start = Some t \<and> u_price p \<noteq> Null \<and> u_movieId p \<noteq> Null \<and> u_hallId p \<noteq> Null \<and>
      update_screening i (patch_screening p t) (db w) = Inr (s, d) \<and> snd (screenings_updateById i p ?start w) = w\<lparr>db := d\<rparr>"
    then obtain t s1 d where t: "?start = Some t" and up: "update_screening i (patch_screening p t) (db w) = Inr (s1, d)"
      and d: "db (snd (updateScreening_write i p ex w)) = d" using run by auto
    let ?f = "patch_screening p t"
    from up obtain s where s: "find_row i (screenings (db w)) = Some s" and fk: "screening_fk (db w) (?f s)"
      unfolding update_screening_def by (rule update_stmtE)
    have same: "scr_hallId s = scr_hallId (fst ex)" "scr_movieId s = scr_movieId (fst ex)" "startTime s = startTime (fst ex)"
      using assms(3) s by auto
    have f: "startTime (?f s) = t" "scr_movieId (?f s) = ?mid" "scr_hallId (?f s) = assign (u_hallId p) (scr_hallId (fst ex))"
      using t same by (auto simp: patch_screening_def assign_def split: field.splits)
    from fk f(2) obtain m where m: "find_row ?mid (movies (db w)) = Some m"
      using find_row_ids [of ?mid "movies (db w)"] by (auto simp: screening_fk_def)
    have "scr_end (db w) (?f s) = t + duration m * 60000" by (simp add: scr_end_def f movie_duration_found [OF m])
    moreover have "overlapping (assign (u_hallId p) (scr_hallId (fst ex))) (Some t) (Some (t + duration m * 60000)) (Some i) (db w) = []"
      using assms(3) m t by simp
    ultimately have "schedule_ok d"
      by (intro schedule_update [OF _ assms(2) _ s _ up]) (use assms(1) f in \<open>simp_all add: db_ok_defs\<close>, simp add: patch_screening_def)
    then show ?thesis by (simp add: d)
  qed
qed

lemma finish_schedule:
  assumes "db_ok (db (app s))" and "schedule_ok (db (app s))" and "slot_free (t_pending t) (db (app s))"
  shows "schedule_ok (db (app (snd (finish_request t s))))"
proof (cases "scheduling (t_pending t)")
  case True
  then show ?thesis
  proof (cases "t_pending t")
    case (AddScreening dto)
    with assms add_screening_schedule [of "app s" dto] show ?thesis by (simp add: finish_db)
  next
    case (PatchScreening i p ex)
    with assms patch_screening_schedule [of "app s" i p ex] show ?thesis by (simp add: finish_db del: slot_free.simps)
  qed simp_all
next
  case False
  from schedule_calm [OF calm_finish [OF this] assms(1) finish_db_ok [OF assms(1)] assms(2)] show ?thesis .
qed

subsection \<open>Runs in which scheduling requests take turns\<close>

fun starts_scheduling :: "cut_op \<Rightarrow> bool" where
  "starts_scheduling (Whole op) = schedules op"
| "starts_scheduling (Begin env c (CutCreate dto)) = True"
| "starts_scheduling (Begin env c (CutUpdate i p)) = True"
| "starts_scheduling _ = False"

text \<open>A request that schedules does not start while another is between its check and its write; every other operation may run at
  any time, but no update changes the duration of a movie.\<close>

inductive orderly_step :: "cut_op \<Rightarrow> cut_state \<Rightarrow> cut_state \<Rightarrow> bool" where
  "cut_step l (c, ts) (c', ts') \<Longrightarrow> (\<And>op. l = Whole op \<Longrightarrow> \<not> retimes op) \<Longrightarrow>
     (starts_scheduling l \<Longrightarrow> filter (\<lambda>t. scheduling (t_pending t)) (open_requests ts) = []) \<Longrightarrow> orderly_step l (c, ts) (c', ts')"

definition on_time :: "cut_state \<Rightarrow> bool" where
  "on_time c \<longleftrightarrow> system_ok (fst c) \<and> schedule_ok (db (app (fst (fst c)))) \<and>
     length (filter (\<lambda>t. scheduling (t_pending t)) (open_requests (snd c))) \<le> 1 \<and>
     (\<forall>t \<in> set (open_requests (snd c)). slot_free (t_pending t) (db (app (fst (fst c)))))"

lemma on_time_calm:
  assumes "on_time (c, ts)" and "calm (db (app (fst c))) (db (app (fst c')))" and "system_ok c'"
    and "length (filter (\<lambda>t. scheduling (t_pending t)) (open_requests ts')) \<le> 1"
    and "\<And>t. t \<in> set (open_requests ts') \<Longrightarrow> t \<in> set (open_requests ts) \<or> slot_free (t_pending t) (db (app (fst c')))"
  shows "on_time (c', ts')"
  using assms schedule_calm [OF assms(2)] slot_free_calm [OF assms(2)] by (auto simp: on_time_def system_ok_def)

lemma check_half_scheduling: "check_half u q s = (Inr p, s') \<Longrightarrow> scheduling p \<Longrightarrow> starts_scheduling (Begin env who q)"
  by (cases q) (auto simp: await_def ret_run split: prod.splits sum.splits)

lemma begin_scheduling:
  assumes "begin_request env who q s = (Inr t, s')" and "scheduling (t_pending t)"
  shows "starts_scheduling (Begin env who q)"
  using assms check_half_scheduling
  by (fastforce simp: begin_request_def await_def gets_def intercept_first_def intercept_def throw_def ret_run split: prod.splits sum.splits)

lemma on_time_begins:
  assumes "on_time (c, ts)" and "begin_request env who q (fst c) = (Inr t, fst c)"
    and "starts_scheduling (Begin env who q) \<Longrightarrow> filter (\<lambda>t. scheduling (t_pending t)) (open_requests ts) = []"
  shows "on_time (c, Request t # ts)"
proof (rule on_time_calm [OF assms(1) calm_refl])
  have "db_ok (db (app (fst c)))" using assms(1) by (simp add: on_time_def system_ok_def)
  with begin_request_run [OF assms(2)] have "slot_free (t_pending t) (db (app (fst c)))" by (blast intro: slot_free_found)
  then show "t' \<in> set (open_requests ts) \<or> slot_free (t_pending t') (db (app (fst c)))" if "t' \<in> set (open_requests (Request t # ts))" for t'
    using that by auto
  show "length (filter (\<lambda>t. scheduling (t_pending t)) (open_requests (Request t # ts))) \<le> 1"
    using assms(1,3) begin_scheduling [OF assms(2)] by (auto simp: on_time_def)
qed (use assms(1) in \<open>simp add: on_time_def\<close>)

lemma on_time_finishes:
  assumes "on_time (c, ts)" and "t \<in> set (open_requests ts)" and "system_ok (snd (finish_request t (fst c)), snd c)"
  shows "on_time ((snd (finish_request t (fst c)), snd c), remove1 (Request t) ts)"
proof (cases "scheduling (t_pending t)")
  case True
  let ?F = "filter (\<lambda>t. scheduling (t_pending t))"
  have "t \<in> set (?F (open_requests ts))" "length (?F (open_requests ts)) \<le> 1" using assms(1,2) True by (simp_all add: on_time_def)
  then have "?F (open_requests ts) = [t]" by (cases "?F (open_requests ts)") auto
  then have none: "?F (remove1 t (open_requests ts)) = []" by (simp add: filter_remove1)
  then have "slot_free (t_pending t') d" if "t' \<in> set (remove1 t (open_requests ts))" for t' d
    using that by (intro slot_free_other) (auto simp: filter_empty_conv)
  moreover have "schedule_ok (db (app (snd (finish_request t (fst c)))))"
    using assms(1,2) by (intro finish_schedule) (auto simp: on_time_def system_ok_def)
  ultimately show ?thesis using none assms(3) by (auto simp: on_time_def)
next
  case False
  show ?thesis
  proof (rule on_time_calm [OF assms(1) _ assms(3)])
    show "calm (db (app (fst c))) (db (app (fst (snd (finish_request t (fst c)), snd c))))" using calm_finish [OF False] by simp
    show "length (filter (\<lambda>t. scheduling (t_pending t)) (open_requests (remove1 (Request t) ts))) \<le> 1"
      using assms(1) by (auto simp: on_time_def filter_remove1 length_remove1)
  qed (use set_remove1_subset in fastforce)
qed

interpretation sched: invariant_steps orderly_step UNIV on_time
proof
  fix c l c' assume c: "on_time c" and orderly: "orderly_step l c c'"
  obtain x ts x' ts' where x: "c = (x, ts)" "c' = (x', ts')" by fastforce
  from orderly have step: "cut_step l (x, ts) (x', ts')" and whole: "\<And>op. l = Whole op \<Longrightarrow> \<not> retimes op"
    and turn: "starts_scheduling l \<Longrightarrow> filter (\<lambda>t. scheduling (t_pending t)) (open_requests ts) = []"
    by (auto simp: x elim: orderly_step.cases)
  have ok: "system_ok x'" using cut.preserved [OF _ UNIV_I step] c by (simp add: x on_time_def)
  note c = c [unfolded x]
  from step show "on_time c'"
    unfolding x
  proof (cases rule: cut_step_db)
    case (whole op)
    show "on_time (x', ts')"
    proof (cases "schedules op")
      case True
      then have none: "\<not> scheduling (t_pending t)" if "t \<in> set (open_requests ts)" for t
        using turn that by (simp add: whole filter_empty_conv)
      have "schedule_ok (db (app (fst x')))"
        using schedule_step [OF whole(2) True] c by (simp add: on_time_def system_ok_def)
      with ok turn True c whole slot_free_other [OF none] show ?thesis by (simp add: on_time_def)
    next
      case False
      with \<open>\<And>op. l = Whole op \<Longrightarrow> \<not> retimes op\<close> whole c ok show ?thesis
        by (intro on_time_calm [OF c calm_step]) (auto simp: on_time_def)
    qed
  next
    case (begins env who q t)
    with on_time_begins [OF c begins(2)] turn show "on_time (x', ts')" by simp
  next
    case (refused env who q)
    then show "on_time (x', ts')" using c ok by (simp add: on_time_def)
  next
    case (finishes t)
    with on_time_finishes [OF c, of t] ok open_requests_set show "on_time (x', ts')" by fastforce
  next
    case (job_begins env)
    then show "on_time (x', ts')" using c by (simp add: on_time_def)
  next
    case (job env p)
    with catalogue_kept [OF jobs_catalogue(3)] c ok show "on_time (x', ts')" by (intro on_time_calm [OF c]) (auto simp: on_time_def)
  qed
qed

text \<open>C12. The schedule holds in every state of the program in which scheduling requests take turns: start it with nothing under way from a
  well-formed database in which no two screenings of a hall that are not cancelled overlap, and let any requests (admin routes
  included), jobs, socket events and outages run, also between the two halves of deletes, cancellations and screening requests. As long as
  no creation or update of a screening starts while another is between its check and its write, and no update changes the
  duration of a movie, no two overlap.\<close>

theorem schedule_everywhere:
  assumes "reaches orderly_step UNIV ((s0, h0), []) ((s, h), ts)" and "db_ok (db (app s0))" and "hub_ok h0" and "schedule_ok (db (app s0))"
    and "a \<in> set (rows (screenings (db (app s))))" and "b \<in> set (rows (screenings (db (app s))))" and "rid a \<noteq> rid b"
    and "scr_hallId a = scr_hallId b" and "scr_status a \<noteq> ScreenCANCELLED" and "scr_status b \<noteq> ScreenCANCELLED"
  shows "{startTime a ..< scr_end (db (app s)) a} \<inter> {startTime b ..< scr_end (db (app s)) b} = {}"
proof -
  have "on_time ((s0, h0), [])" using assms(2-4) by (simp add: on_time_def system_ok_def)
  then have "on_time ((s, h), ts)" by (rule sched.holds_everywhere [OF assms(1)])
  then have "schedule_ok (db (app s))" by (simp add: on_time_def)
  with assms(5-10) show ?thesis unfolding schedule_ok_def slot_def by blast
qed

definition next_screening :: screening where
  "next_screening = sample_screening\<lparr>rid := 2, startTime := 367200000\<rparr>"

definition full_day :: db where
  "full_day = sample_db\<lparr>screenings := \<lparr>rows = [sample_screening, next_screening], next_id = 3\<rparr>\<rparr>"

lemma full_day_ok: "db_ok full_day"
  using sample_db_ok
  by (simp add: db_ok_defs fk_defs full_day_def next_screening_def wf_table_def ids_def sample_screening_def sample_db_def)

lemma full_day_schedule: "schedule_ok full_day"
  by (simp add: schedule_ok_def full_day_def next_screening_def slot_def scr_end_def movie_duration_def find_row_def sample_defs)

text \<open>A third screening of the day, with an outage of Redis between the check and the insert.\<close>

definition day_server :: server where
  "day_server = sample_server\<lparr>app := world_of full_day\<rparr>"

definition redis_off :: "server \<Rightarrow> server" where
  "redis_off s = s\<lparr>app := (app s)\<lparr>redis := (redis (app s))\<lparr>redis_up := False\<rparr>\<rparr>\<rparr>"

lemma third_screening:
  "case begin_request (sample_http ADMIN) caller_a (CutCreate (sample_slot 400000000)) day_server of
      (Inl _, _) \<Rightarrow> False
    | (Inr t, s1) \<Rightarrow> map (\<lambda>s. (rid s, scr_hallId s, scr_status s, startTime s))
          (rows (screenings (db (app (snd (finish_request t (redis_off s1))))))) =
        [(1, 1, SCHEDULED, 360000000), (2, 1, SCHEDULED, 367200000), (3, 1, SCHEDULED, 400000000)]"
  by code_simp

theorem schedule_everywhere_witness:
  "\<exists>s. reaches orderly_step UNIV ((day_server, empty_hub), []) ((s, empty_hub), []) \<and> length (rows (screenings (db (app s)))) = 3 \<and>
    (\<forall>a \<in> set (rows (screenings (db (app s)))). \<forall>b \<in> set (rows (screenings (db (app s)))). rid a \<noteq> rid b \<longrightarrow>
      {startTime a ..< scr_end (db (app s)) a} \<inter> {startTime b ..< scr_end (db (app s)) b} = {})"
proof -
  obtain t s1 where t: "begin_request (sample_http ADMIN) caller_a (CutCreate (sample_slot 400000000)) day_server = (Inr t, s1)"
    using third_screening by (auto split: prod.splits sum.splits)
  let ?s = "snd (finish_request t (redis_off s1))"
  have rows: "map (\<lambda>s. (rid s, scr_hallId s, scr_status s, startTime s)) (rows (screenings (db (app ?s)))) =
      [(1, 1, SCHEDULED, 360000000), (2, 1, SCHEDULED, 367200000), (3, 1, SCHEDULED, 400000000)]"
    using third_screening by (simp add: t)
  have "orderly_step (Begin (sample_http ADMIN) caller_a (CutCreate (sample_slot 400000000)))
      ((day_server, empty_hub), []) ((s1, empty_hub), [Request t])"
    by (rule orderly_step.intros, rule cut_step.begins, rule t) simp_all
  then have "reaches orderly_step UNIV ((day_server, empty_hub), []) ((s1, empty_hub), [Request t])"
    by (rule reaches.move [OF reaches.start UNIV_I])
  moreover have "orderly_step (Whole (RedisTurns False)) ((s1, empty_hub), [Request t]) ((redis_off s1, empty_hub), [Request t])"
    unfolding redis_off_def by (rule orderly_step.intros, rule cut_step.whole, rule system_step.redis_turns) simp_all
  ultimately have "reaches orderly_step UNIV ((day_server, empty_hub), []) ((redis_off s1, empty_hub), [Request t])"
    by (rule reaches.move [OF _ UNIV_I])
  moreover have "orderly_step (Finish t) ((redis_off s1, empty_hub), [Request t]) ((?s, empty_hub), [])"
    using cut_step.finishes [of t "[Request t]" "redis_off s1" empty_hub] by (intro orderly_step.intros) simp_all
  ultimately have r: "reaches orderly_step UNIV ((day_server, empty_hub), []) ((?s, empty_hub), [])" by (rule reaches.move [OF _ UNIV_I])
  have ok: "db_ok (db (app day_server))" "schedule_ok (db (app day_server))"
    using full_day_ok full_day_schedule by (simp_all add: day_server_def world_of_def)
  have "length (rows (screenings (db (app ?s)))) = 3" using arg_cong [OF rows, of length] by simp
  moreover have "\<forall>a \<in> set (rows (screenings (db (app ?s)))). scr_hallId a = 1 \<and> scr_status a \<noteq> ScreenCANCELLED"
    using rows by (auto simp: map_eq_Cons_conv)
  ultimately show ?thesis
    using r schedule_everywhere [OF r ok(1) hub_ok_empty ok(2)] by (intro exI [of _ ?s]) auto
qed

subsection \<open>Updates of a movie\<close>

text \<open>The update of a movie does not look at the schedule: with a duration that reaches into the next screening of the hall the request
  succeeds and the two overlap.\<close>

theorem movie_update_overlaps:
  assumes "db_ok (db w)" and "a \<in> set (rows (screenings (db w)))" and "b \<in> set (rows (screenings (db w)))" and "rid a \<noteq> rid b"
    and "scr_hallId a = scr_hallId b" and "scr_status a \<noteq> ScreenCANCELLED" and "scr_status b \<noteq> ScreenCANCELLED"
    and "startTime a \<le> startTime b" and "p_duration p = Given n" and "startTime b < startTime a + n * 60000"
    and "durations_ok (db w)" and "\<not> movie_patch_null p" and "fits_int32 n"
  shows "\<exists>m w'. updateMovie (scr_movieId a) p w = (Inr m, w') \<and> \<not> schedule_ok (db w')"
proof -
  let ?i = "scr_movieId a" and ?t = "movies (db w)"
  let ?d = "(db w)\<lparr>movies := update_row ?i (patch_movie p) ?t\<rparr>"
  have f: "rid (patch_movie p m) = rid m" "duration (patch_movie p m) = n" for m
    using assms(9) by (simp_all add: patch_movie_def assign_def)
  obtain m where m: "find_row ?i ?t = Some m"
    using screening_has_movie [OF assms(1,2)] find_row_ids [of ?i ?t] by auto
  have "update_movie ?i (patch_movie p) (db w) = Inr (patch_movie p m, ?d)"
    by (simp add: update_movie_def on_table_def try_update_def m)
  then obtain w' where run: "updateMovie ?i p w = (Inr (patch_movie p m), w')" and d: "db w' = ?d"
    using assms(9,12,13) m by (auto simp: updateMovie_def getExistingMovie_def movies_findById_def movies_updateById_def cache_delMovie_def
        run_stmt_def await_def query_def act_simps)
  have dur: "movie_duration ?d j = (if j = ?i then n else movie_duration (db w) j)" for j
    using m by (simp add: movie_duration_def find_update_row [OF f(1)] f(2))
  have "0 < n * 60000" using assms(8,10) by linarith
  moreover obtain mb where "find_row (scr_movieId b) ?t = Some mb"
    using screening_has_movie [OF assms(1,3)] find_row_ids [of "scr_movieId b" ?t] by auto
  then have "1 \<le> movie_duration (db w) (scr_movieId b)"
    using assms(11) by (auto simp: movie_duration_def durations_ok_def dest: find_row_mem)
  ultimately have "startTime b < scr_end ?d b" "startTime b < scr_end ?d a"
    using assms(10) by (auto simp: scr_end_def dur)
  then have "startTime b \<in> slot ?d a \<inter> slot ?d b" using assms(8) by (simp add: slot_def)
  then have "\<not> schedule_ok ?d" using assms(2-7) unfolding schedule_ok_def by auto
  with run d show ?thesis by auto
qed

theorem movie_update_overlaps_witness:
  "\<exists>m w'. updateMovie 1 \<lparr>p_name = Undefined, p_description = Undefined, p_duration = Given 121, p_posterImgUrl = Undefined,
     p_movieType = Undefined, p_rating = Undefined, p_language = Undefined, p_genre = Undefined\<rparr> (world_of full_day) = (Inr m, w') \<and>
   \<not> schedule_ok (db w')"
proof -
  let ?p = "\<lparr>p_name = Undefined, p_description = Undefined, p_duration = Given 121, p_posterImgUrl = Undefined,
     p_movieType = Undefined, p_rating = Undefined, p_language = Undefined, p_genre = Undefined\<rparr>"
  have "durations_ok full_day" by (simp add: durations_ok_def full_day_def sample_defs)
  then show ?thesis
    using movie_update_overlaps [of "world_of full_day" sample_screening next_screening ?p 121] full_day_ok
    by (simp add: world_of_def full_day_def next_screening_def sample_screening_def movie_patch_null_def fits_int32_def)
qed

end
