(* ===== verification/Paid.thy ===== *)
theory Paid
  imports Settlement Deadlines
begin

text \<open>
  Stripe's word in the whole system: over any run of requests (admin routes included), jobs, socket events and outages, what makes a
  reservation CONFIRMED is a request to the webhook or a tick of the reconciliation job that carries it.
\<close>

text \<open>The operation carries Stripe's word that reservation \<open>i\<close> was paid: a webhook request with a signed event of its paid session, or a
  reconciliation tick that fetches a paid session of a stuck payment of it.\<close>

fun carries_payment :: "sys_op \<Rightarrow> int \<Rightarrow> db \<Rightarrow> bool" where
  "carries_payment (Http env c (Payments (Webhook t raw sig))) i d \<longleftrightarrow> says_paid (Hooking (stripe env) raw sig) i d"
| "carries_payment (ReconcileTick env) i d \<longleftrightarrow>
     (\<exists>p \<in> set (stuck_timed_out (pay_now env - RECONCILE_GRACE_MINUTES * 60000) d). says_paid (Reconciling env p) i d)"
| "carries_payment _ i d \<longleftrightarrow> False"

lemma unconfirmed_each: "unconfirmed i = each_reservation (\<lambda>r. rid r = i \<longrightarrow> res_status r \<noteq> CONFIRMED)"
  by (simp add: fun_eq_iff unconfirmed_def each_reservation_def)

lemma requests_keep_unconfirmed: "requests_keep (unconfirmed i)"
  unfolding requests_keep_def
  by (intro conjI allI keeps_unconfirmed_services)
    (unfold unconfirmed_each updateName_def requestEmailChange_def check_password_def
      confirmEmailChange_def get_pending_def changePassword_def issue_for_def register_def sendOtpEmail_def resendOtp_def auth_verifyOtp_def
      verifyOtp_def auth_googleCallback_def resolveGoogleUser_def auth_linkGoogleCallback_def linkGoogle_def Let_def;
     intro keeps_rules)+

lemma unconfirmed_other_request:
  assumes "unconfirmed i (db (app s))" and "\<not> (\<exists>t b g. r = Payments (Webhook t b g))"
  shows "unconfirmed i (db (app (snd (handle env c r s))))"
proof -
  have "keeps (app_inv (unconfirmed i)) (dispatch (intercept env ''http'' (http_line r) (success_status r)) env c r)"
  proof (cases "needs_admin r")
    case True
    then show ?thesis unfolding unconfirmed_each by (rule keeps_each_admin)
  next
    case False
    then show ?thesis by (rule keeps_routes [OF requests_keep_unconfirmed]) (use assms(2) keeps_unconfirmed_services(3) in blast)+
  qed
  from keepsD [OF keeps_handle [OF this], of s] assms(1) show ?thesis by (simp add: app_inv_def)
qed

lemma webhook_request_db:
  "db (app (snd (handle env c (Payments (Webhook t raw sig)) s))) \<in>
     {db (app s), db (snd (handleWebhookEvent (stripe env) raw sig (app s)))}"
  by (auto simp: handle_def middleware_routes_def intercept_def answer_def call_def await_def throw_run ret_run Let_def
      split: prod.split sum.split option.split)

lemma unconfirmed_reconcile_all:
  "unconfirmed i (db w) \<Longrightarrow> (\<And>p d. p \<in> set ps \<Longrightarrow> \<not> says_paid (Reconciling env p) i d) \<Longrightarrow> unconfirmed i (db (snd (reconcile_all env ps w)))"
proof (induction ps arbitrary: w)
  case (Cons p ps)
  have "unconfirmed i (db (snd (reconcile_one env p w)))" using Cons.prems by (intro unconfirmed_reconcile) simp_all
  then show ?case using Cons.IH Cons.prems(2) by (auto simp: await_def split: prod.split sum.split)
qed (simp add: ret_run)

lemma unconfirmed_tick:
  assumes "unconfirmed i (db w)" and "\<not> carries_payment (ReconcileTick env) i (db w)"
  shows "unconfirmed i (db (snd (handleReconcilePayments env w)))"
proof -
  have "\<not> says_paid (Reconciling env p) i d" if "p \<in> set (stuck_timed_out (pay_now env - RECONCILE_GRACE_MINUTES * 60000) (db w))" for p d
    using assms(2) that by (auto simp: says_paid_def)
  from unconfirmed_reconcile_all [OF assms(1) this]
  have "unconfirmed i (db (snd (reconcileTimedOutPayments env w)))"
    by (simp add: reconcileTimedOutPayments_def payments_findStuckTimedOut_def await_query)
  then show ?thesis by (auto simp: handleReconcilePayments_def catch_err_def ret_run split: prod.split sum.split)
qed

lemma unconfirmed_system_step:
  assumes "system_step l s s'" and "unconfirmed i (db (app (fst s)))" and "\<not> carries_payment l i (db (app (fst s)))"
  shows "unconfirmed i (db (app (fst s')))"
  using assms(1)
proof cases
  case (http env c r s0 h)
  show ?thesis
  proof (cases "\<exists>t b g. r = Payments (Webhook t b g)")
    case True
    then obtain t raw sig where r: "r = Payments (Webhook t raw sig)" by blast
    then have "unconfirmed i (db (snd (handleWebhookEvent (stripe env) raw sig (app s0))))"
      using unconfirmed_webhook [of i "app s0" "stripe env" raw sig] assms(2,3) http by simp
    with webhook_request_db [of env c t raw sig s0] assms(2) http r show ?thesis by auto
  next
    case False
    with unconfirmed_other_request [of i s0 r env c] assms(2) http show ?thesis by simp
  qed
next
  case (socket op s0 h w h')
  with assms(2) socket_reads [OF socket(4,5)] show ?thesis by simp
next
  case (reconcile env s0 h)
  with unconfirmed_tick [of i "app s0" env] assms(2,3) show ?thesis by simp
qed (use assms(2) keeps_dbD [OF keeps_unconfirmed_services(2)] in simp_all)

text \<open>C3. Nobody sits for free, whatever the whole program does: if over any run of requests, jobs, socket events and outages a reservation
  that was not CONFIRMED ends up CONFIRMED, then one of the steps carried Stripe's word that it was paid, a webhook request with a verified
  event of a paid checkout session for a payment of this very reservation or a reconciliation tick that fetched a paid session of
  its stuck payment, and until then it was unconfirmed.\<close>

theorem confirmed_only_on_stripes_word:
  assumes "run_of system_step ops s s'" and "unconfirmed i (db (app (fst s)))"
    and "r \<in> set (rows (reservations (db (app (fst s')))))" and "rid r = i" and "res_status r = CONFIRMED"
  shows "\<exists>ops1 op ops2 s1. ops = ops1 @ op # ops2 \<and> run_of system_step ops1 s s1 \<and> unconfirmed i (db (app (fst s1))) \<and>
    carries_payment op i (db (app (fst s1)))"
proof -
  have "\<not> unconfirmed i (db (app (fst s')))" using assms(3-5) by (auto simp: unconfirmed_def)
  from run_breaks [OF assms(1), of "\<lambda>s. unconfirmed i (db (app (fst s)))", OF assms(2) this]
  obtain ops1 op ops2 s1 s2 where "ops = ops1 @ op # ops2" "run_of system_step ops1 s s1" "unconfirmed i (db (app (fst s1)))"
    "system_step op s1 s2" "\<not> unconfirmed i (db (app (fst s2)))" by blast
  with unconfirmed_system_step [OF \<open>system_step op s1 s2\<close>, of i] show ?thesis by blast
qed

lemma webhook_request_runs:
  "contains_text ''application/json'' t \<Longrightarrow> reservations (db (app (snd (handle env c (Payments (Webhook (Some t) raw sig)) s)))) =
     reservations (db (snd (handleWebhookEvent (stripe env) raw sig (app s))))"
  by (simp add: handle_def middleware_routes_def intercept_def answer_def call_def await_def ret_run split: prod.split sum.split)

theorem confirmed_only_on_stripes_word_witness:
  "\<exists>s1. carries_payment (Http ((sample_http USER)\<lparr>stripe := sample_stripe\<rparr>) caller_a
       (Payments (Webhook (Some ''application/json'') ''e1'' ''ok''))) 1 (db (app (fst s1))) \<and> unconfirmed 1 (db (app (fst s1))) \<and>
     run_of system_step [] (sample_server\<lparr>app := world_of (sample_paid_db HELD)\<rparr>, empty_hub) s1"
proof -
  let ?env = "(sample_http USER)\<lparr>stripe := sample_stripe\<rparr>" and ?r = "Payments (Webhook (Some ''application/json'') ''e1'' ''ok'')"
  let ?l = "Http ?env caller_a ?r" and ?s = "sample_server\<lparr>app := world_of (sample_paid_db HELD)\<rparr>"
  let ?s' = "snd (handle ?env caller_a ?r ?s)" and ?c = "sample_reservation\<lparr>res_status := CONFIRMED, heldUntil := None\<rparr>"
  have run: "run_of system_step [?l] (?s, empty_hub) (?s', empty_hub)"
    by (rule run_of.run_Cons, rule system_step.http, rule run_of.run_Nil)
  have "contains_text ''application/json'' ''application/json''" by code_simp
  from webhook_request_runs [OF this, of ?env caller_a "''e1''" "''ok''" ?s]
  have "?c \<in> set (rows (reservations (db (app (fst (?s', empty_hub))))))" by (simp add: sample_webhook_confirms)
  moreover have "unconfirmed 1 (db (app (fst (?s, empty_hub))))" by (simp add: unconfirmed_def world_of_def sample_paid_db_def)
  moreover have "rid ?c = 1" "res_status ?c = CONFIRMED" by (simp_all add: sample_reservation_def)
  ultimately obtain ops1 op ops2 s1 where o: "[?l] = ops1 @ op # ops2" "run_of system_step ops1 (?s, empty_hub) s1"
    "unconfirmed 1 (db (app (fst s1)))" "carries_payment op 1 (db (app (fst s1)))"
    using confirmed_only_on_stripes_word [OF run] by blast
  then have "ops1 = []" "op = ?l" by (simp_all add: Cons_eq_append_conv)
  with o show ?thesis by blast
qed

end
