(* ===== verification/SeatKept.thy ===== *)
theory SeatKept
  imports Awaits
begin

text \<open>
  How a seat is lost in the whole system, with requests that run between the awaits of others: an active reservation stays active,
  with its user, screening and seat, through every request, job, socket event and outage but its owner's cancellation, the
  sweep after its deadline, a reconciliation that finds it unpaid, and a delete of an administrator whose cascade takes it along although
  the check of that delete found nothing reserved: because the booking came in between, or because the seat is not in its screening's hall.
\<close>

definition has_seat :: "int \<Rightarrow> int \<Rightarrow> int \<Rightarrow> int \<Rightarrow> db \<Rightarrow> bool" where
  "has_seat j u i x d \<longleftrightarrow> (\<exists>r. find_row j (reservations d) = Some r \<and>
     res_userId r = u \<and> res_screeningId r = i \<and> res_seatId r = x \<and> active_res r)"

text \<open>The delete takes the reservation \<open>j\<close> along: it is of that movie or screening, or its screening or its seat is of that hall.\<close>

fun takes_along :: "pending \<Rightarrow> int \<Rightarrow> db \<Rightarrow> bool" where
  "takes_along (DropMovie k) j d \<longleftrightarrow> (\<exists>r s. find_row j (reservations d) = Some r \<and>
     find_row (res_screeningId r) (screenings d) = Some s \<and> scr_movieId s = k)"
| "takes_along (DropScreening k existing) j d \<longleftrightarrow> (\<exists>r. find_row j (reservations d) = Some r \<and> res_screeningId r = k)"
| "takes_along (DropHall k) j d \<longleftrightarrow> (\<exists>r. find_row j (reservations d) = Some r \<and>
     ((\<exists>s. find_row (res_screeningId r) (screenings d) = Some s \<and> scr_hallId s = k) \<or>
      (\<exists>x. find_row (res_seatId r) (seats d) = Some x \<and> seat_hallId x = k)))"
| "takes_along _ j d \<longleftrightarrow> False"

text \<open>The operation gives up reservation \<open>j\<close> of user \<open>u\<close>.\<close>

fun releases :: "sys_op \<Rightarrow> int \<Rightarrow> int \<Rightarrow> server \<Rightarrow> bool" where
  "releases (Http env c (Reservations (CancelReservation k))) j u s \<longleftrightarrow>
     k = j \<and> (\<exists>a. fst (token_check env c s) = Inr a \<and> au_id a = u)"
| "releases (Http env c (Halls (RemoveHall k))) j u s \<longleftrightarrow> takes_along (DropHall k) j (db (app s)) \<and> \<not> hall_reserved k (db (app s)) \<and>
     (\<exists>a. fst (token_check env c s) = Inr a \<and> au_role a = ADMIN)"
| "releases (ExpireTick f t) j u s \<longleftrightarrow> (\<exists>r v. find_row j (reservations (db (app s))) = Some r \<and>
     res_status r = HELD \<and> heldUntil r = Some v \<and> v < t)"
| "releases (ReconcileTick env) j u s \<longleftrightarrow>
     (\<exists>p \<in> set (stuck_timed_out (pay_now env - RECONCILE_GRACE_MINUTES * 60000) (db (app s))). pay_reservationId p = j \<and>
        (\<exists>x. retrieve_session env (stripeSessionId p) = Inr x \<and> cs_payment_status x \<noteq> ''paid''))"
| "releases _ j u s \<longleftrightarrow> False"

subsection \<open>The writes\<close>

lemma only_has_seat [keeps_rules]: "only_reservations (has_seat j u i x)"
  by (simp add: only_reservations_def has_seat_def)

lemma seat_update:
  assumes "has_seat j u i x d" and "update_reservation k f d = Inr (y, d')" and "\<And>r. rid (f r) = rid r"
    and "k = j \<Longrightarrow> (\<And>r. active_res r \<Longrightarrow> active_res (f r) \<and> res_userId (f r) = res_userId r \<and>
      res_screeningId (f r) = res_screeningId r \<and> res_seatId (f r) = res_seatId r)"
  shows "has_seat j u i x d'"
proof -
  have "d' = d\<lparr>reservations := update_row k f (reservations d)\<rparr>"
    using assms(2) unfolding update_reservation_def by (rule update_stmtE)
  with assms(1,4) show ?thesis by (cases "k = j") (auto simp: has_seat_def find_update_row [OF assms(3)])
qed

lemma seat_both:
  assumes "has_seat j u i x d" and "both_updates q f k g d = Inr (y, d')" and "\<And>r. rid (g r) = rid r"
    and "k = j \<Longrightarrow> (\<And>r. active_res r \<Longrightarrow> active_res (g r) \<and> res_userId (g r) = res_userId r \<and>
      res_screeningId (g r) = res_screeningId r \<and> res_seatId (g r) = res_seatId r)"
  shows "has_seat j u i x d'"
proof -
  from assms(2) obtain p d1 r where p: "update_payment q f d = Inr (p, d1)" "update_reservation k g d1 = Inr (r, d')"
    by (auto simp: both_updates_def split: sum.splits prod.splits)
  have "has_seat j u i x d1" by (rule only_same [OF only_has_seat other_tables(10) [OF p(1)] assms(1)])
  from seat_update [OF this p(2) assms(3)] assms(4) show ?thesis by blast
qed

lemma seat_writes [keeps_rules]:
  "keeps_db (has_seat j u i x) (reservations_extendHold f k t)" "keeps_db (has_seat j u i x) (reservations_confirm f k)"
  "keeps_db (has_seat j u i x) (confirmWithReservation f q k z)"
  "k \<noteq> j \<Longrightarrow> keeps_db (has_seat j u i x) (reservations_setStatus f k st)"
  "k \<noteq> j \<Longrightarrow> keeps_db (has_seat j u i x) (declineWithReservation f q k)"
  unfolding reservations_extendHold_def reservations_confirm_def confirmWithReservation_def reservations_setStatus_def declineWithReservation_def
  subgoal by (rule keeps_db_stmt, erule (1) seat_update) (simp_all add: active_res_def)
  subgoal by (rule keeps_db_stmt, erule (1) seat_update) (simp_all add: active_res_def)
  subgoal by (rule keeps_db_stmt, erule (1) seat_both) (simp_all add: active_res_def)
  subgoal by (rule keeps_db_stmt, erule (1) seat_update) simp_all
  subgoal by (rule keeps_db_stmt, erule (1) seat_both) simp_all
  done

lemma seat_hold [keeps_rules]: "keeps_db (has_seat j u i x) (breaker_holdSeat f fault now p)"
proof -
  have new: "has_seat j u i x d'" if e: "has_seat j u i x d" and ins: "insert_reservation mk d = Inr (r, d')" for d r d' mk
  proof -
    obtain t where t: "insert_row mk (reservations d) = (r, t)" and d': "d' = d\<lparr>reservations := t\<rparr>"
      using ins unfolding insert_reservation_def by (rule insert_stmtE)
    with e show ?thesis by (auto simp: has_seat_def find_row_def rows_insert_row [OF t] find_append)
  qed
  have "has_seat j u i x d'" if "has_seat j u i x d" "holdSeat_body now p d = Inr (r, d')" for d r d'
    using that new by (auto simp: holdSeat_body_def split: if_splits option.splits sum.splits)
  then have "keeps_db (has_seat j u i x) (holdSeat_tx fault now p)"
    by (intro keepsI) (auto simp: holdSeat_tx_def db_inv_def split: option.split hold_fault.split sum.split prod.split)
  then show ?thesis unfolding breaker_holdSeat_def by (intro keeps_rules)
qed

subsection \<open>What a delete takes along\<close>

lemma cascade_keeps_row:
  assumes "r \<in> set (rows (reservations d))" and "reservation_fk (cascade d) r"
  shows "r \<in> set (rows (reservations (cascade d)))"
proof -
  let ?d = "cascade_screenings (cascade_seats d)"
  have "users ?d = users (cascade d)" "screenings ?d = screenings (cascade d)" "seats ?d = seats (cascade d)"
      "reservations ?d = reservations d"
    by (simp_all add: cascade_def cascade_seats_def cascade_screenings_def cascade_reservations_def cascade_payments_def)
  moreover from this have "reservation_fk ?d r" using assms(2) by (simp add: reservation_fk_def)
  ultimately show ?thesis
    using assms(1) by (simp add: cascade_def cascade_payments_def cascade_reservations_def filter_rows_def)
qed

lemma seat_cascade:
  assumes "has_seat j u i x d" and "db_ok d'" and "d' = cascade e" and "reservations e = reservations d"
    and "\<And>r. find_row j (reservations d) = Some r \<Longrightarrow> reservation_fk d' r"
  shows "has_seat j u i x d'"
proof -
  obtain r where r: "find_row j (reservations d) = Some r" "res_userId r = u" "res_screeningId r = i" "res_seatId r = x" "active_res r"
    using assms(1) by (auto simp: has_seat_def)
  have "r \<in> set (rows (reservations d'))"
    using cascade_keeps_row [of r e] find_row_mem [OF r(1)] assms(3,4) assms(5) [OF r(1)] by simp
  moreover have "wf_table (reservations d')" using assms(2) by (simp add: db_ok_defs)
  ultimately have "find_row j (reservations d') = Some r" using find_row_key [OF r(1)] by (simp add: find_row_iff)
  with r(2-5) show ?thesis by (auto simp: has_seat_def)
qed

lemma seat_delete_movie:
  assumes d: "db_ok d" and seat: "has_seat j u i x d" and free: "\<not> takes_along (DropMovie k) j d" and del: "delete_movie k d = Inr (m, d')"
  shows "has_seat j u i x d'"
proof (rule seat_cascade [OF seat db_ok_deletes(1) [OF d del]])
  show d': "d' = cascade (d\<lparr>movies := delete_row k (movies d)\<rparr>)"
    using del by (auto simp: delete_movie_def dest!: on_table_InrD try_delete_InrD)
  fix r assume r: "find_row j (reservations d) = Some r"
  from reservation_parents [OF d find_row_mem [OF r]] obtain s x where s: "find_row (res_screeningId r) (screenings d) = Some s"
    "find_row (res_seatId r) (seats d) = Some x" "res_userId r \<in> set (ids (users d))" "screening_fk d s" "seat_fk d x" by blast
  with r free have "scr_movieId s \<noteq> k" by auto
  then have "screening_fk (d\<lparr>movies := delete_row k (movies d)\<rparr>) s" using s by (auto simp: screening_fk_def ids_def table_simps)
  with s show "reservation_fk d' r" unfolding d' by (intro reservation_fk_cascade) (simp_all add: seat_fk_def)
qed simp

lemma seat_delete_screening:
  assumes d: "db_ok d" and seat: "has_seat j u i x d" and free: "\<not> takes_along (DropScreening k ex) j d"
    and del: "delete_screening k d = Inr (m, d')"
  shows "has_seat j u i x d'"
proof (rule seat_cascade [OF seat db_ok_deletes(3) [OF d del]])
  show d': "d' = cascade (d\<lparr>screenings := delete_row k (screenings d)\<rparr>)"
    using del by (auto simp: delete_screening_def dest!: on_table_InrD try_delete_InrD)
  fix r assume r: "find_row j (reservations d) = Some r"
  from reservation_parents [OF d find_row_mem [OF r]] obtain s x where s: "find_row (res_screeningId r) (screenings d) = Some s"
    "find_row (res_seatId r) (seats d) = Some x" "res_userId r \<in> set (ids (users d))" "screening_fk d s" "seat_fk d x" by blast
  moreover have "res_screeningId r \<noteq> k" using r free by auto
  ultimately show "reservation_fk d' r" unfolding d'
    by (intro reservation_fk_cascade) (simp_all add: find_delete_row screening_fk_def seat_fk_def)
qed simp

lemma seat_delete_hall:
  assumes d: "db_ok d" and seat: "has_seat j u i x d" and free: "\<not> takes_along (DropHall k) j d" and del: "delete_hall k d = Inr (m, d')"
  shows "has_seat j u i x d'"
proof (rule seat_cascade [OF seat db_ok_deletes(2) [OF d del]])
  show d': "d' = cascade (d\<lparr>halls := delete_row k (halls d)\<rparr>)"
    using del by (auto simp: delete_hall_def dest!: on_table_InrD try_delete_InrD)
  fix r assume r: "find_row j (reservations d) = Some r"
  from reservation_parents [OF d find_row_mem [OF r]] obtain s x where s: "find_row (res_screeningId r) (screenings d) = Some s"
    "find_row (res_seatId r) (seats d) = Some x" "res_userId r \<in> set (ids (users d))" "screening_fk d s" "seat_fk d x" by blast
  with r free have "scr_hallId s \<noteq> k" "seat_hallId x \<noteq> k" by auto
  then have "screening_fk (d\<lparr>halls := delete_row k (halls d)\<rparr>) s" "seat_fk (d\<lparr>halls := delete_row k (halls d)\<rparr>) x"
    using s by (auto simp: screening_fk_def seat_fk_def ids_def table_simps)
  with s show "reservation_fk d' r" unfolding d' by (intro reservation_fk_cascade) simp_all
qed simp

subsection \<open>The requests\<close>

lemma requests_keep_seat: "requests_keep (has_seat j u i x)"
  unfolding requests_keep_def reserve_def createCheckoutSession_def extendHold_def
    updateName_def requestEmailChange_def check_password_def
    confirmEmailChange_def get_pending_def changePassword_def issue_for_def register_def sendOtpEmail_def resendOtp_def auth_verifyOtp_def
    verifyOtp_def auth_googleCallback_def resolveGoogleUser_def auth_linkGoogleCallback_def linkGoogle_def Let_def
    screenings_findById_def
  by (intro conjI allI keeps_rules)

lemma webhook_keeps_seat: "keeps_db (has_seat j u i x) (handleWebhookEvent env b g)"
  unfolding handleWebhookEvent_def dispatch_event_def handleCheckoutCompleted_def handleAsyncPaymentFailed_def handleCheckoutExpired_def
    handleDisputeCreated_def confirmPayment_def Let_def
  by (intro keeps_rules)

lemma cancel_owner:
  "cancel env v k w = (case find_row k (reservations (db w)) of None \<Rightarrow> (Inl (reservation_not_found k), w)
     | Some r \<Rightarrow> if res_userId r \<noteq> v then (Inl (reservation_not_found k), w)
         else if res_status r = CONFIRMED then refundReservation env r w
         else if res_status r \<noteq> HELD then (Inl cannot_cancel, w) else finalizeCancel (pay_fault env AtFinalize) r w)"
proof -
  have "findOwned v k w = (case find_row k (reservations (db w)) of None \<Rightarrow> (Inl (reservation_not_found k), w)
      | Some r \<Rightarrow> if res_userId r \<noteq> v then (Inl (reservation_not_found k), w) else (Inr r, w))"
    by (simp add: findOwned_def getById_def reservations_findById_def await_def query_def gets_def ret_def throw_def split: option.split)
  then show ?thesis by (simp add: cancel_def await_def throw_run split: option.split)
qed

lemma cancel_keeps_seat:
  assumes "has_seat j u i x (db w)" and "k \<noteq> j \<or> v \<noteq> u"
  shows "has_seat j u i x (db (snd (cancel env v k w)))"
proof (cases "\<exists>r. find_row k (reservations (db w)) = Some r \<and> res_userId r = v")
  case True
  then obtain r where r: "find_row k (reservations (db w)) = Some r" "res_userId r = v" by blast
  with assms have k: "rid r \<noteq> j" using find_row_key [OF r(1)] by (auto simp: has_seat_def)
  have "keeps_db (has_seat j u i x) (refundReservation env r)" "keeps_db (has_seat j u i x) (finalizeCancel f r)" for f
    unfolding refundReservation_def stripe_refund_def finalizeCancel_def Let_def screenings_findById_def by (intro keeps_rules k)+
  from keeps_dbD [OF this(1) assms(1)] keeps_dbD [OF this(2) assms(1)] show ?thesis using assms(1) r by (simp add: cancel_owner)
next
  case False
  then show ?thesis using assms(1) by (auto simp: cancel_owner split: option.split)
qed

text \<open>What the requests with a condition do to the database.\<close>

lemma cancel_request_db:
  "db (app (snd (handle env c (Reservations (CancelReservation k)) s))) = (case fst (token_check env c s) of Inl e \<Rightarrow> db (app s)
     | Inr a \<Rightarrow> db (snd (cancel (stripe env) (au_id a) k (app s))))"
  by (auto simp: handle_unlimited await_def authenticated_run intercept_def answer_def call_def ret_run split: sum.split prod.split)

lemma delete_request_db:
  "db (app (snd (handle env c (MoviesAdmin (RemoveMovie k)) s))) \<in> {db (app s), db (snd (deleteMovie k (app s)))}"
  "db (app (snd (handle env c (ScreeningsAdmin (RemoveScreening k)) s))) \<in> {db (app s), db (snd (deleteScreening k (app s)))}"
  "db (app (snd (handle env c (Halls (RemoveHall k)) s))) \<in>
     (if \<exists>a. fst (token_check env c s) = Inr a \<and> au_role a = ADMIN then {db (app s), db (snd (deleteHall k (app s)))} else {db (app s)})"
  by (auto simp: handle_unlimited MoviesAdminController_def ScreeningsAdminController_def await_def admin_run intercept_def answer_def
      audited_def call_def ret_run record_audit_def modify_run split: sum.split prod.split)

lemma seat_same: "reservations d' = reservations d \<Longrightarrow> has_seat j u i x d \<Longrightarrow> has_seat j u i x d'"
  by (simp add: has_seat_def)

lemma deletes_keep_seat:
  assumes "db_ok (db w)" and "has_seat j u i x (db w)"
  shows "has_seat j u i x (db (snd (deleteMovie k w)))" "has_seat j u i x (db (snd (deleteScreening k w)))"
    "takes_along (DropHall k) j (db w) \<and> \<not> hall_reserved k (db w) \<or> has_seat j u i x (db (snd (deleteHall k w)))"
  using assms delete_screening_bookings [OF assms(1)] delete_movie_bookings [OF assms(1)] seat_delete_hall [OF assms, of k]
  by (auto simp: deleteScreening_run deleteMovie_run deleteHall_run simp del: takes_along.simps
      split: option.split sum.split intro: seat_same)

lemma seat_request:
  assumes "has_seat j u i x (db (app s))" and "db_ok (db (app s))" and "\<not> releases (Http env c r) j u s"
  shows "has_seat j u i x (db (app (snd (handle env c r s))))"
proof -
  consider (cancel) k where "r = Reservations (CancelReservation k)" | (movie) k where "r = MoviesAdmin (RemoveMovie k)"
    | (screening) k where "r = ScreeningsAdmin (RemoveScreening k)" | (hall) k where "r = Halls (RemoveHall k)"
    | (other) "\<And>k. r \<noteq> Reservations (CancelReservation k)" "\<And>k. r \<noteq> MoviesAdmin (RemoveMovie k)"
      "\<And>k. r \<noteq> ScreeningsAdmin (RemoveScreening k)" "\<And>k. r \<noteq> Halls (RemoveHall k)" by metis
  then show ?thesis
  proof cases
    case cancel
    with assms cancel_keeps_seat [OF assms(1)] show ?thesis by (auto simp: cancel_request_db split: sum.split)
  next
    case movie
    with delete_request_db(1) [of env c k s] deletes_keep_seat(1) [OF assms(2,1), of k] assms(1) show ?thesis by auto
  next
    case screening
    with delete_request_db(2) [of env c k s] deletes_keep_seat(2) [OF assms(2,1), of k] assms(1) show ?thesis by auto
  next
    case hall
    with delete_request_db(3) [of env c k s] deletes_keep_seat(3) [OF assms(2,1), of k] assms(1,3) show ?thesis
      by (auto simp del: takes_along.simps split: if_splits)
  next
    case other
    have "keeps (app_inv (has_seat j u i x)) (dispatch (intercept env ''http'' (http_line r) (success_status r)) env c r)"
    proof (cases "needs_admin r")
      case True
      then show ?thesis by (rule keeps_admin_of [OF _ only_has_seat]) (use other in blast)+
    next
      case False
      then show ?thesis by (rule keeps_routes [OF requests_keep_seat]) (use other webhook_keeps_seat in blast)+
    qed
    from keepsD [OF keeps_handle [OF this], of s] assms(1) show ?thesis by (simp add: app_inv_def)
  qed
qed

subsection \<open>The jobs\<close>

lemma sweep_keeps_seat:
  assumes "has_seat j u i x (db w)" and "\<And>r. find_row j (reservations (db w)) = Some r \<Longrightarrow> \<not> hold_expired t r"
  shows "has_seat j u i x (db (snd (handleExpireHolds f t w)))"
proof (cases f)
  case None
  have "db (snd (handleExpireHolds f t w)) = snd (release_expired t (db w))"
    using publish_all_run by (simp add: None handleExpireHolds_def catch_err_def await_def record_audit_def expireHolds_run modify_run)
  moreover have "find_row j (reservations (snd (release_expired t (db w)))) = map_option (expire_row t) (find_row j (reservations (db w)))"
    by (intro find_row_map) (simp_all add: release_expired_rows expire_row_def)
  ultimately show ?thesis using assms by (auto simp: has_seat_def expire_row_def)
next
  case (Some e)
  then show ?thesis
    using assms(1) by (simp add: handleExpireHolds_def catch_err_def await_def expireHolds_def releaseExpiredHolds_def run_stmt_def ret_run)
qed

lemma reconcile_one_keeps_seat:
  assumes "pay_reservationId p = j \<Longrightarrow> (\<And>s. retrieve_session env (stripeSessionId p) = Inr s \<Longrightarrow> cs_payment_status s = ''paid'')"
  shows "keeps_db (has_seat j u i x) (reconcile_one env p)"
proof (cases "retrieve_session env (stripeSessionId p)")
  case (Inl m)
  then show ?thesis by (simp add: reconcile_one_def from_stripe_def await_pure) (intro keeps_rules)
next
  case (Inr s)
  show ?thesis
  proof (cases "cs_payment_status s = ''paid''")
    case True
    show ?thesis unfolding reconcile_one_def Inr by (simp add: from_stripe_def True await_pure) (intro keeps_rules)
  next
    case False
    then have "pay_reservationId p \<noteq> j" using assms Inr by blast
    then show ?thesis unfolding reconcile_one_def Inr by (simp add: from_stripe_def False await_pure) (intro keeps_rules)
  qed
qed

lemma reconcile_keeps_seat:
  assumes "has_seat j u i x (db (app s))" and "\<not> releases (ReconcileTick env) j u s"
  shows "has_seat j u i x (db (snd (handleReconcilePayments env (app s))))"
proof -
  have all: "keeps_db (has_seat j u i x) (reconcile_all env ps)"
    if "\<And>p s. p \<in> set ps \<Longrightarrow> pay_reservationId p = j \<Longrightarrow> retrieve_session env (stripeSessionId p) = Inr s \<Longrightarrow> cs_payment_status s = ''paid''" for ps
    using that by (induction ps) (auto intro!: keeps_rules reconcile_one_keeps_seat)
  let ?ps = "stuck_timed_out (pay_now env - RECONCILE_GRACE_MINUTES * 60000) (db (app s))"
  have "keeps_db (has_seat j u i x) (reconcile_all env ?ps)" using assms(2) by (intro all) auto
  from keeps_dbD [OF this assms(1)] have "has_seat j u i x (db (snd (reconcileTimedOutPayments env (app s))))"
    by (simp add: reconcileTimedOutPayments_def payments_findStuckTimedOut_def await_query)
  then show ?thesis by (auto simp: handleReconcilePayments_def catch_err_def ret_run split: prod.split sum.split)
qed

subsection \<open>The owner of a row\<close>

text \<open>As long as there is a reservation \<open>k\<close>, it is that of \<open>v\<close>: ids are not used again.\<close>

definition owner_is :: "int \<Rightarrow> int \<Rightarrow> db \<Rightarrow> bool" where
  "owner_is k v d \<longleftrightarrow> k < next_id (reservations d) \<and> each_reservation (\<lambda>r. rid r = k \<longrightarrow> res_userId r = v) d"

lemma only_owner [keeps_rules]: "only_reservations (owner_is k v)"
  by (simp add: only_reservations_def owner_is_def each_reservation_def)

lemma owner_map:
  assumes "owner_is k v d" and "reservations d' = (reservations d)\<lparr>rows := map f (rows (reservations d))\<rparr>"
    and "\<And>r. rid (f r) = rid r \<and> res_userId (f r) = res_userId r"
  shows "owner_is k v d'"
  using assms by (simp add: owner_is_def each_reservation_def)

lemma owner_update:
  assumes "owner_is k v d" and "update_reservation i f d = Inr (y, d')" and "\<And>r. rid (f r) = rid r \<and> res_userId (f r) = res_userId r"
  shows "owner_is k v d'"
proof -
  have "d' = d\<lparr>reservations := update_row i f (reservations d)\<rparr>"
    using assms(2) unfolding update_reservation_def by (rule update_stmtE)
  with assms(1,3) show ?thesis by (intro owner_map [OF assms(1), where f = "\<lambda>r. if rid r = i then f r else r"]) (simp_all add: update_row_def)
qed

lemma owner_both:
  assumes "owner_is k v d" and "both_updates q f i g d = Inr (y, d')" and "\<And>r. rid (g r) = rid r \<and> res_userId (g r) = res_userId r"
  shows "owner_is k v d'"
proof -
  from assms(2) obtain p d1 r where p: "update_payment q f d = Inr (p, d1)" "update_reservation i g d1 = Inr (r, d')"
    by (auto simp: both_updates_def split: sum.splits prod.splits)
  have "owner_is k v d1" by (rule only_same [OF only_owner other_tables(10) [OF p(1)] assms(1)])
  from owner_update [OF this p(2) assms(3)] show ?thesis .
qed

lemma owner_writes [keeps_rules]:
  "keeps_db (owner_is k v) (reservations_extendHold f i t)" "keeps_db (owner_is k v) (reservations_confirm f i)"
  "keeps_db (owner_is k v) (confirmWithReservation f q i z)" "keeps_db (owner_is k v) (reservations_setStatus f i st)"
  "keeps_db (owner_is k v) (declineWithReservation f q i)" "keeps_db (owner_is k v) (releaseExpiredHolds f now)"
  unfolding reservations_extendHold_def reservations_confirm_def confirmWithReservation_def reservations_setStatus_def
    declineWithReservation_def releaseExpiredHolds_def
  subgoal by (rule keeps_db_stmt, erule (1) owner_update) simp
  subgoal by (rule keeps_db_stmt, erule (1) owner_update) simp
  subgoal by (rule keeps_db_stmt, erule (1) owner_both) simp
  subgoal by (rule keeps_db_stmt, erule (1) owner_update) simp
  subgoal by (rule keeps_db_stmt, erule (1) owner_both) simp
  subgoal by (rule keeps_db_stmt, erule owner_map [where f = "expire_row now"]) (auto simp: release_expired_def expire_row_def)
  done

lemma owner_hold [keeps_rules]: "keeps_db (owner_is k v) (breaker_holdSeat f fault now p)"
proof -
  have new: "owner_is k v d'" if e: "owner_is k v d" and ins: "insert_reservation mk d = Inr (r, d')" and mk: "\<And>n. rid (mk n) = n" for d r d' mk
  proof -
    obtain t where t: "insert_row mk (reservations d) = (r, t)" and d': "d' = d\<lparr>reservations := t\<rparr>"
      using ins unfolding insert_reservation_def by (rule insert_stmtE)
    with e mk show ?thesis by (auto simp: owner_is_def each_reservation_def insert_row_def Let_def)
  qed
  have "owner_is k v d'" if "owner_is k v d" "holdSeat_body now p d = Inr (r, d')" for d r d'
    using that by (auto simp: holdSeat_body_def hold_row_def split: if_splits option.splits sum.splits elim!: new)
  then have "keeps_db (owner_is k v) (holdSeat_tx fault now p)"
    by (intro keepsI) (auto simp: holdSeat_tx_def db_inv_def split: option.split hold_fault.split sum.split prod.split)
  then show ?thesis unfolding breaker_holdSeat_def by (intro keeps_rules)
qed

lemma owner_cascade:
  assumes "owner_is k v d" and "reservations e = reservations d"
  shows "owner_is k v (cascade e)"
proof -
  have "next_id (reservations (cascade e)) = next_id (reservations e)"
    by (simp add: cascade_def cascade_payments_def cascade_reservations_def cascade_screenings_def cascade_seats_def filter_rows_def)
  with assms show ?thesis using each_cascade [of _ e] each_same [OF assms(2)] by (auto simp: owner_is_def)
qed

lemma owner_deletes:
  assumes "owner_is k v d"
  shows "delete_movie i d = Inr (x, d') \<Longrightarrow> owner_is k v d'" "delete_hall i d = Inr (y, d') \<Longrightarrow> owner_is k v d'"
    "delete_screening i d = Inr (z, d') \<Longrightarrow> owner_is k v d'"
  by (auto simp: delete_movie_def delete_hall_def delete_screening_def dest!: on_table_InrD intro!: owner_cascade [OF assms])

lemma owner_deleting [keeps_rules]:
  "keeps_db (owner_is k v) (movies_delete i)" "keeps_db (owner_is k v) (screenings_delete i)" "keeps_db (owner_is k v) (halls_delete i)"
  unfolding movies_repo_defs screenings_repo_defs halls_repo_defs
  by (rule keeps_db_stmt, erule (1) owner_deletes)+

lemma services_keep_owner: "services_keep (owner_is k v)"
  unfolding services_keep_defs reserve_def cancel_def createCheckoutSession_def handleWebhookEvent_def dispatch_event_def
    handleCheckoutCompleted_def handleAsyncPaymentFailed_def handleCheckoutExpired_def handleDisputeCreated_def
    refundReservation_def stripe_refund_def finalizeCancel_def confirmPayment_def extendHold_def
    updateName_def requestEmailChange_def check_password_def
    confirmEmailChange_def get_pending_def changePassword_def issue_for_def register_def sendOtpEmail_def resendOtp_def auth_verifyOtp_def
    verifyOtp_def auth_googleCallback_def resolveGoogleUser_def auth_linkGoogleCallback_def linkGoogle_def Let_def
    screenings_findById_def
  by (intro conjI allI keeps_rules)

lemma owner_request: "keeps (app_inv (owner_is k v)) (handle env c r)"
  by (rule keeps_handle, cases "needs_admin r")
    (auto intro: keeps_admin_of only_owner owner_deleting keeps_open_routes services_keep_owner)

lemma owner_step: "system_step l c c' \<Longrightarrow> owner_is k v (db (app (fst c))) \<Longrightarrow> owner_is k v (db (app (fst c')))"
proof (cases rule: system_step.cases, assumption)
  fix env who r s h assume "owner_is k v (db (app (fst c)))" "c = (s, h)" "c' = (snd (handle env who r s), h)"
  then show ?thesis using keepsD [OF owner_request, of k v s env who r] by (simp add: app_inv_def)
next
  fix op s h w h' assume o: "owner_is k v (db (app (fst c)))" "c = (s, h)" "c' = (s\<lparr>app := w\<rparr>, h')" "socket_step op (app s, h) (w, h')"
    "\<not> (\<exists>w. op = Services w)"
  with socket_reads [OF o(4,5)] show ?thesis by simp
qed (auto intro: keeps_dbD keeps_jobs_of owner_writes)

subsection \<open>Runs of the system\<close>

lemma seat_kept_step:
  assumes "system_step l s s'" and "has_seat j u i x (db (app (fst s)))" and "db_ok (db (app (fst s)))" and "\<not> releases l j u (fst s)"
  shows "has_seat j u i x (db (app (fst s')))"
  using assms(1)
proof cases
  case (http env c r s0 h)
  with seat_request [of j u i x s0 env c r] assms(2-4) show ?thesis by simp
next
  case (expire f t s0 h)
  with sweep_keeps_seat [of j u i x "app s0" t f] assms(2,4) show ?thesis by (auto simp: hold_expired_def split: option.splits)
next
  case (reconcile env s0 h)
  with reconcile_keeps_seat [of j u i x s0 env] assms(2,4) show ?thesis by simp
next
  case (socket op s0 h w h')
  with assms(2) socket_reads [OF socket(4,5)] show ?thesis by simp
qed (use assms(2) in simp)

text \<open>What a request between its halves knows of the row it is about to cancel.\<close>

definition task_ok :: "db \<Rightarrow> task \<Rightarrow> bool" where
  "task_ok d t \<longleftrightarrow> found_free (t_user t) (t_pending t) (t_read t) \<and>
     (\<forall>r. t_pending t = CancelRow r \<longrightarrow> owner_is (rid r) (au_id (t_user t)) d)"

text \<open>The step gives up reservation \<open>j\<close> of user \<open>u\<close>.\<close>

fun gives_up :: "cut_op \<Rightarrow> int \<Rightarrow> int \<Rightarrow> server \<Rightarrow> bool" where
  "gives_up (Whole op) j u s \<longleftrightarrow> releases op j u s"
| "gives_up (Finish t) j u s \<longleftrightarrow> (\<exists>r. t_pending t = CancelRow r \<and> rid r = j \<and> au_id (t_user t) = u) \<or>
     takes_along (t_pending t) j (db (app s)) \<and> found_free (t_user t) (t_pending t) (t_read t)"
| "gives_up (NextPayment env p) j u s \<longleftrightarrow> pay_reservationId p = j \<and>
     (\<exists>x. retrieve_session env (stripeSessionId p) = Inr x \<and> cs_payment_status x \<noteq> ''paid'')"
| "gives_up _ j u s \<longleftrightarrow> False"

lemma finish_keeps_seat:
  assumes "has_seat j u i x (db (app s))" and "db_ok (db (app s))" and "task_ok (db (app s)) t" and "\<not> gives_up (Finish t) j u s"
  shows "has_seat j u i x (db (app (snd (finish_request t s))))"
proof -
  have free: "\<not> takes_along (t_pending t) j (db (app s))" using assms(3,4) by (auto simp: task_ok_def)
  show ?thesis
  proof (cases "t_pending t")
    case (DropMovie k)
    with free assms(1) seat_delete_movie [OF assms(2,1), of k] show ?thesis
      by (simp add: finish_db drop_db del: takes_along.simps split: sum.split prod.split)
  next
    case (DropHall k)
    with free assms(1) seat_delete_hall [OF assms(2,1), of k] show ?thesis
      by (simp add: finish_db drop_db del: takes_along.simps split: sum.split prod.split)
  next
    case (DropScreening k ex)
    with free assms(1) seat_delete_screening [OF assms(2,1), of k ex] show ?thesis
      by (simp add: finish_db drop_db del: takes_along.simps split: sum.split prod.split)
  next
    case (AddScreening dto)
    have "keeps_db (has_seat j u i x) (createScreening_insert dto)" unfolding createScreening_insert_def by (intro keeps_rules)
    with AddScreening assms(1) show ?thesis by (simp add: finish_db keeps_dbD)
  next
    case (PatchScreening k p ex)
    have "keeps_db (has_seat j u i x) (updateScreening_write k p ex)" unfolding updateScreening_write_def Let_def by (intro keeps_rules)
    with PatchScreening assms(1) show ?thesis by (simp add: finish_db keeps_dbD)
  next
    case (CancelRow r)
    have "rid r \<noteq> j"
    proof
      assume j: "rid r = j"
      then have "owner_is j (au_id (t_user t)) (db (app s))" using assms(3) CancelRow by (simp add: task_ok_def)
      then have "au_id (t_user t) = u"
        using assms(1) by (auto simp: owner_is_def each_reservation_def has_seat_def dest: find_row_mem find_row_key)
      with assms(4) CancelRow j show False by simp
    qed
    then have "keeps_db (has_seat j u i x) (cancel_rest env r)" for env
      unfolding cancel_rest_def refundReservation_def stripe_refund_def finalizeCancel_def Let_def screenings_findById_def by (intro keeps_rules)
    with CancelRow assms(1) show ?thesis by (simp add: finish_db keeps_dbD)
  qed
qed

definition cut_ok :: "cut_state \<Rightarrow> bool" where
  "cut_ok c \<longleftrightarrow> system_ok (fst c) \<and> (\<forall>t. Request t \<in> set (snd c) \<longrightarrow> task_ok (db (app (fst (fst c)))) t)"

lemma owner_finish: "owner_is k v (db (app s)) \<Longrightarrow> owner_is k v (db (app (snd (finish_request t s))))"
proof -
  have "keeps_db (owner_is k v) (deleteMovie_write i)" "keeps_db (owner_is k v) (deleteHall_write i)"
    "keeps_db (owner_is k v) (deleteScreening_write i ex)" "keeps_db (owner_is k v) (createScreening_insert dto)"
    "keeps_db (owner_is k v) (updateScreening_write i p ex)" "keeps_db (owner_is k v) (cancel_rest env r)" for i ex dto p env r
    unfolding deleteMovie_write_def deleteHall_write_def deleteScreening_write_def createScreening_insert_def updateScreening_write_def
      cancel_rest_def refundReservation_def stripe_refund_def finalizeCancel_def Let_def screenings_findById_def
    by (intro keeps_rules)+
  then show "owner_is k v (db (app s)) \<Longrightarrow> owner_is k v (db (app (snd (finish_request t s))))"
    by (simp add: finish_db keeps_dbD split: pending.split)
qed

lemma owner_payment: "owner_is k v (db w) \<Longrightarrow> owner_is k v (db (snd (reconcile_one env p w)))"
proof -
  have "keeps_db (owner_is k v) (reconcile_one env p)" unfolding reconcile_one_def by (intro keeps_rules)
  then show "owner_is k v (db w) \<Longrightarrow> owner_is k v (db (snd (reconcile_one env p w)))" by (rule keeps_dbD)
qed

lemma owner_cut_step:
  assumes "cut_step l (c, ts) (c', ts')" and "owner_is k v (db (app (fst c)))"
  shows "owner_is k v (db (app (fst c')))"
  using assms(1)
proof (cases rule: cut_step_db)
  case (whole op)
  then show ?thesis using owner_step assms(2) by blast
qed (use assms(2) in \<open>simp_all add: owner_finish owner_payment\<close>)

lemma task_ok_later:
  assumes "cut_step l (c, ts) (c', ts')" and "task_ok (db (app (fst c))) t"
  shows "task_ok (db (app (fst c'))) t"
  using assms(2) owner_cut_step [OF assms(1)] by (auto simp: task_ok_def)

lemma task_ok_begins:
  assumes "begin_request env q who s = (Inr t, s)" and "db_ok (db (app s))"
  shows "task_ok (db (app s)) t"
proof -
  have free: "found_free (t_user t) (t_pending t) (db (app s))" and read: "t_read t = db (app s)"
    using begin_request_run [OF assms(1)] by simp_all
  have "owner_is (rid r) (au_id (t_user t)) (db (app s))" if "t_pending t = CancelRow r" for r
  proof -
    have r: "r \<in> set (rows (reservations (db (app s))))" "res_userId r = au_id (t_user t)"
      using free that by (auto dest: find_row_mem)
    moreover have wf: "wf_table (reservations (db (app s)))" using assms(2) by (simp add: db_ok_defs)
    ultimately show ?thesis
      by (auto simp: owner_is_def each_reservation_def wf_table_def dest: wf_table_eq [OF wf])
  qed
  with free read show ?thesis by (simp add: task_ok_def)
qed

interpretation cut_tasks: invariant_steps cut_step UNIV cut_ok
proof
  fix c l c' assume c: "cut_ok c" and step: "cut_step l c c'"
  obtain x ts x' ts' where x: "c = (x, ts)" "c' = (x', ts')" by fastforce
  have "system_ok (fst c')" using cut.preserved [OF _ UNIV_I step] c by (simp add: cut_ok_def)
  moreover have old: "task_ok (db (app (fst x'))) t" if "Request t \<in> set ts" for t
    using task_ok_later [OF step [unfolded x]] c that x by (simp add: cut_ok_def)
  have "task_ok (db (app (fst x'))) t" if "Request t \<in> set ts'" for t
    using step [unfolded x]
  proof (cases rule: cut_step_db)
    case (begins env q who t')
    then show ?thesis using old that c x task_ok_begins [OF begins(2)] by (auto simp: cut_ok_def system_ok_def)
  next
    case (finishes t')
    then show ?thesis using old that notin_set_remove1 by fastforce
  qed (use old that open_requests_set in auto)
  ultimately show "cut_ok c'" using x by (simp add: cut_ok_def)
qed

lemma seat_kept_cut_step:
  assumes "cut_step l (c, ts) (c', ts')" and "cut_ok (c, ts)" and "has_seat j u i x (db (app (fst c)))" and "\<not> gives_up l j u (fst c)"
  shows "has_seat j u i x (db (app (fst c')))"
  using assms(1)
proof (cases rule: cut_step_db)
  case (whole op)
  then show ?thesis using seat_kept_step [OF whole(2) assms(3)] assms(2,4) by (simp add: cut_ok_def system_ok_def)
next
  case (finishes t)
  then show ?thesis using finish_keeps_seat [OF assms(3), of t] assms(2,4) by (simp add: cut_ok_def system_ok_def)
next
  case (job env p)
  have "keeps_db (has_seat j u i x) (reconcile_one env p)" using assms(4) job(1) by (intro reconcile_one_keeps_seat) auto
  with job(2) assms(3) show ?thesis by (simp add: keeps_dbD)
qed (use assms(3) in simp_all)

text \<open>C4. Whoever has a seat keeps it unless it is given up, whatever requests and jobs run, also between the awaits of each other: start the
  program with nothing under way, let it run to a state where reservation \<open>j\<close> is HELD or CONFIRMED, and on to one where it is gone,
  inactive, or of another user, screening or seat. Then one of the steps in between was (1) a cancellation of it, or its second half, with
  its owner's token, (2) a tick of the expiry job after its deadline, (3) a reconciliation that found its payment unpaid, (4) an
  administrator's deletion of the hall of its seat while its screening was in another hall, or (5) the write of an administrator's deletion
  of its movie, screening or hall whose check, earlier, had found nothing reserved.\<close>

theorem seat_kept_until_given_up:
  assumes "reaches cut_step UNIV ((s0, h0), []) ((s, h), ts)" and "db_ok (db (app s0))" and "hub_ok h0"
    and "run_of cut_step ops ((s, h), ts) ((s', h'), ts')" and "has_seat j u i x (db (app s))" and "\<not> has_seat j u i x (db (app s'))"
  shows "\<exists>ops1 op ops2 s1 h1 ts1. ops = ops1 @ op # ops2 \<and> run_of cut_step ops1 ((s, h), ts) ((s1, h1), ts1) \<and>
    has_seat j u i x (db (app s1)) \<and> gives_up op j u s1"
proof -
  let ?P = "\<lambda>c. cut_ok c \<and> has_seat j u i x (db (app (fst (fst c))))"
  have "cut_ok ((s0, h0), [])" using assms(2,3) by (simp add: cut_ok_def system_ok_def)
  then have "cut_ok ((s, h), ts)" by (rule cut_tasks.holds_everywhere [OF assms(1)])
  then have "?P ((s, h), ts)" "\<not> ?P ((s', h'), ts')" using assms(5,6) by simp_all
  from run_breaks [OF assms(4), of ?P, OF this] obtain ops1 op ops2 c1 c2 where b: "ops = ops1 @ op # ops2"
    "run_of cut_step ops1 ((s, h), ts) c1" "?P c1" "cut_step op c1 c2" "\<not> ?P c2" by blast
  obtain s1 h1 ts1 s2 ts2 where c: "c1 = ((s1, h1), ts1)" "c2 = (s2, ts2)" by (metis surj_pair)
  have "cut_ok c2" using cut_tasks.preserved [OF conjunct1 [OF b(3)] UNIV_I b(4)] .
  then have "gives_up op j u s1" using b(3,5) seat_kept_cut_step [of op "(s1, h1)" ts1 s2 ts2 j u i x] b(4) by (auto simp: c)
  with b(1-3) c show ?thesis by fastforce
qed

text \<open>The race of a deletion: its check finds no reservation, a customer books, and the delete takes the booking along; the customer got 201.\<close>

definition free_server :: server where
  "free_server = sample_server\<lparr>app := world_of (sample_db\<lparr>reservations := empty_table\<rparr>)\<rparr>"

lemma free_server_ok: "db_ok (db (app free_server))"
  using sample_db_ok
  by (simp add: free_server_def world_of_def db_ok_defs fk_defs sample_db_def empty_table_def wf_table_def ids_def reservation_unique_def)

lemma deletion_race:
  "case begin_request (sample_http ADMIN) caller_a (CutScreening 1) free_server of
      (Inl _, _) \<Rightarrow> False
    | (Inr t, s1) \<Rightarrow>
       (case handle (sample_http USER) caller_a (Reservations (Reserve (sample_request 1))) s1 of
          (Inl _, _) \<Rightarrow> False
        | (Inr _, s2) \<Rightarrow> map (\<lambda>r. (rid r, res_userId r, res_screeningId r, res_seatId r, res_status r)) (rows (reservations (db (app s2)))) =
              [(1, 1, 1, 1, HELD)] \<and>
            rows (reservations (db (app (snd (finish_request t s2))))) = [])"
  by code_simp

theorem seat_kept_until_given_up_witness:
  "\<exists>t s2 s3. reaches cut_step UNIV ((free_server, empty_hub), []) ((s2, empty_hub), [Request t]) \<and>
    run_of cut_step [Finish t] ((s2, empty_hub), [Request t]) ((s3, empty_hub), []) \<and>
    has_seat 1 1 1 1 (db (app s2)) \<and> \<not> has_seat 1 1 1 1 (db (app s3)) \<and> gives_up (Finish t) 1 1 s2"
proof -
  obtain t s1 where t: "begin_request (sample_http ADMIN) caller_a (CutScreening 1) free_server = (Inr t, s1)"
    using deletion_race by (auto split: prod.splits sum.splits)
  obtain b s2 where s2: "handle (sample_http USER) caller_a (Reservations (Reserve (sample_request 1))) s1 = (Inr b, s2)"
    using deletion_race by (auto simp: t split: prod.splits sum.splits)
  have r: "map (\<lambda>r. (rid r, res_userId r, res_screeningId r, res_seatId r, res_status r)) (rows (reservations (db (app s2)))) =
      [(1, 1, 1, 1, HELD)]" and gone: "rows (reservations (db (app (snd (finish_request t s2))))) = []"
    using deletion_race by (simp_all add: t s2)
  let ?s3 = "snd (finish_request t s2)"
  have "reaches cut_step UNIV ((free_server, empty_hub), []) ((s1, empty_hub), [Request t])"
    by (rule reaches.move [OF reaches.start UNIV_I], rule cut_step.begins, rule t)
  moreover have "cut_step (Whole (Http (sample_http USER) caller_a (Reservations (Reserve (sample_request 1)))))
      ((s1, empty_hub), [Request t]) ((s2, empty_hub), [Request t])"
    using system_step.http [of "sample_http USER" caller_a "Reservations (Reserve (sample_request 1))" s1 empty_hub]
    by (intro cut_step.whole) (simp add: s2)
  ultimately have reach: "reaches cut_step UNIV ((free_server, empty_hub), []) ((s2, empty_hub), [Request t])"
    by (rule reaches.move [OF _ UNIV_I])
  have "cut_step (Finish t) ((s2, empty_hub), [Request t]) ((?s3, empty_hub), [])"
    using cut_step.finishes [of t "[Request t]" s2 empty_hub] by simp
  then have run: "run_of cut_step [Finish t] ((s2, empty_hub), [Request t]) ((?s3, empty_hub), [])" by (auto intro: run_of.intros)
  have has: "has_seat 1 1 1 1 (db (app s2))" "\<not> has_seat 1 1 1 1 (db (app ?s3))"
    using r gone by (auto simp: has_seat_def find_row_def active_res_def map_eq_Cons_conv)
  from seat_kept_until_given_up [OF reach free_server_ok hub_ok_empty run has] obtain ops1 op ops2 x1 h1 ts1 where
    g: "[Finish t] = ops1 @ op # ops2" "run_of cut_step ops1 ((s2, empty_hub), [Request t]) ((x1, h1), ts1)" "gives_up op 1 1 x1" by blast
  then have "gives_up (Finish t) 1 1 s2" by (auto simp: Cons_eq_append_conv simp del: gives_up.simps elim: run_NilE)
  with reach run has show ?thesis by blast
qed

end
