(* ===== verification/Isolation.thy ===== *)
theory Isolation
  imports Access
begin

text \<open>
  What a signed-in user can touch: the requests that need a token change no row of another user, be it the
  account, a reservation or a payment.
\<close>

subsection \<open>The rows of everyone else\<close>

definition paid_by_other :: "int \<Rightarrow> db \<Rightarrow> payment \<Rightarrow> bool" where
  "paid_by_other u d p \<longleftrightarrow>
     (case find_row (pay_reservationId p) (reservations d) of None \<Rightarrow> True | Some r \<Rightarrow> res_userId r \<noteq> u)"

definition others :: "int \<Rightarrow> db \<Rightarrow> user list \<times> reservation list \<times> payment list" where
  "others u d = (filter (\<lambda>x. rid x \<noteq> u) (rows (users d)), filter (\<lambda>r. res_userId r \<noteq> u) (rows (reservations d)),
     filter (paid_by_other u d) (rows (payments d)))"

text \<open>Along a request: the others are as they were; the reservation at hand is the user's; so is the payment.\<close>

definition apart :: "int \<Rightarrow> user list \<times> reservation list \<times> payment list \<Rightarrow> db \<Rightarrow> bool" where
  "apart u F d \<longleftrightarrow> db_ok d \<and> others u d = F"

definition owned :: "int \<Rightarrow> user list \<times> reservation list \<times> payment list \<Rightarrow> int \<Rightarrow> db \<Rightarrow> bool" where
  "owned u F i d \<longleftrightarrow> apart u F d \<and> (\<exists>r. find_row i (reservations d) = Some r \<and> res_userId r = u)"

definition paying :: "int \<Rightarrow> user list \<times> reservation list \<times> payment list \<Rightarrow> int \<Rightarrow> int \<Rightarrow> db \<Rightarrow> bool" where
  "paying u F i q d \<longleftrightarrow> owned u F i d \<and> (\<forall>p \<in> set (rows (payments d)). rid p = q \<longrightarrow> pay_reservationId p = i)"

lemma wf_parts: "db_ok d \<Longrightarrow> wf_table (reservations d)" "db_ok d \<Longrightarrow> wf_table (payments d)"
  by (simp_all add: db_ok_defs)

lemma filter_update: "(\<forall>x \<in> set xs. c x \<longrightarrow> \<not> P x) \<Longrightarrow> (\<And>x. P (f x) = P x) \<Longrightarrow>
    filter P (map (\<lambda>x. if c x then f x else x) xs) = filter P xs"
  by (induction xs) auto

lemma filter_remove: "(\<forall>x \<in> set xs. c x \<longrightarrow> \<not> P x) \<Longrightarrow> filter (\<lambda>x. \<not> c x \<and> P x) xs = filter P xs"
  by (induction xs) auto

lemma owned_row: "owned u F i d \<Longrightarrow> r \<in> set (rows (reservations d)) \<Longrightarrow> rid r = i \<Longrightarrow> res_userId r = u"
  using mem_find_row [OF wf_parts(1)] unfolding owned_def apart_def by fastforce

lemma paying_row: "paying u F i q d \<Longrightarrow> p \<in> set (rows (payments d)) \<Longrightarrow> rid p = q \<Longrightarrow> \<not> paid_by_other u d p"
  unfolding paying_def owned_def by (auto simp: paid_by_other_def)

subsection \<open>Statements\<close>

lemma owned_update:
  assumes o: "owned u F i d" and run: "update_reservation i f d = Inr (x, d')"
    and f: "\<And>r. rid (f r) = rid r" "\<And>r. res_userId (f r) = res_userId r"
  shows "owned u F i d' \<and> payments d' = payments d"
proof -
  have ok': "db_ok d'" using o f(1) run unfolding owned_def apart_def by (blast intro: db_ok_update_reservation)
  have d': "d' = d\<lparr>reservations := update_row i f (reservations d)\<rparr>"
    using run unfolding update_reservation_def by (rule update_stmtE)
  have find: "find_row j (reservations d') = (if j = i then map_option f (find_row j (reservations d)) else find_row j (reservations d))" for j
    by (simp add: d' find_update_row f(1))
  have "paid_by_other u d' = paid_by_other u d"
    by (simp add: paid_by_other_def fun_eq_iff find f(2) split: option.split)
  moreover have "filter (\<lambda>r. res_userId r \<noteq> u) (rows (reservations d')) = filter (\<lambda>r. res_userId r \<noteq> u) (rows (reservations d))"
    unfolding d' using owned_row [OF o] f(2) by (simp add: rows_update_row filter_update)
  moreover have "users d' = users d" "payments d' = payments d" by (simp_all add: d')
  ultimately have "others u d' = others u d" by (simp add: others_def)
  with o ok' find f(2) \<open>payments d' = payments d\<close> show ?thesis by (auto simp: owned_def apart_def)
qed

lemma same_reservations:
  assumes "reservations d' = reservations d" and "users d' = users d" and "db_ok d'"
    and "filter (paid_by_other u d) (rows (payments d')) = filter (paid_by_other u d) (rows (payments d))" and "owned u F i d"
  shows "owned u F i d'"
proof -
  have "paid_by_other u d' = paid_by_other u d" by (simp add: paid_by_other_def fun_eq_iff assms(1))
  then have "others u d' = others u d" by (simp add: others_def assms(1,2,4))
  with assms show ?thesis by (simp add: owned_def apart_def)
qed

lemma owned_create:
  assumes o: "owned u F i d" and run: "insert_payment mk d = Inr (p, d')"
    and mk: "\<And>n. rid (mk n) = n" "\<And>n. pay_reservationId (mk n) = i"
  shows "paying u F i (rid p) d'"
proof -
  have ok': "db_ok d'" using o mk(1) run unfolding owned_def apart_def by (blast intro: db_ok_insert_payment)
  obtain t where t: "insert_row mk (payments d) = (p, t)" and d': "d' = d\<lparr>payments := t\<rparr>"
    using run unfolding insert_payment_def by (rule insert_stmtE) 
  have p: "pay_reservationId p = i" using insert_row_val [OF t] mk(2) by simp
  then have "\<not> paid_by_other u d p" using o by (auto simp: owned_def paid_by_other_def)
  then have "owned u F i d'"
    using same_reservations [of d' d u F i] o ok' by (simp add: d' rows_insert_row [OF t])
  moreover have "pay_reservationId q = i" if "q \<in> set (rows (payments d'))" "rid q = rid p" for q
  proof -
    have "p \<in> set (rows (payments d'))" by (simp add: d' rows_insert_row [OF t])
    then have "q = p" using mem_find_row [OF wf_parts(2) [OF ok']] that by (metis option.inject)
    with p show ?thesis by simp
  qed
  ultimately show ?thesis by (simp add: paying_def)
qed

lemma paying_update:
  assumes o: "paying u F i q d" and run: "update_payment q f d = Inr (x, d')"
    and f: "\<And>p. rid (f p) = rid p" "\<And>p. pay_reservationId (f p) = pay_reservationId p"
  shows "paying u F i q d'"
proof -
  have own: "owned u F i d" using o by (simp add: paying_def)
  have ok': "db_ok d'" using own f(1) run unfolding owned_def apart_def by (blast intro: db_ok_update_payment)
  have d': "d' = d\<lparr>payments := update_row q f (payments d)\<rparr>"
    using run unfolding update_payment_def by (rule update_stmtE)
  have "owned u F i d'"
    using same_reservations [of d' d u F i] own ok' paying_row [OF o]
    by (simp add: d' rows_update_row filter_update paid_by_other_def f(2))
  with o f show ?thesis by (auto simp: paying_def d' rows_update_row)
qed

lemma paying_delete:
  assumes o: "paying u F i q d" and run: "delete_payment q d = Inr (x, d')"
  shows "paying u F i q d'"
proof -
  have own: "owned u F i d" using o by (simp add: paying_def)
  have ok': "db_ok d'" using own run unfolding owned_def apart_def by (blast intro: db_ok_delete_payment)
  have d': "d' = d\<lparr>payments := delete_row q (payments d)\<rparr>"
    using run by (auto simp: delete_payment_def dest!: on_table_InrD try_delete_InrD)
  have "owned u F i d'"
    using same_reservations [of d' d u F i] own ok' paying_row [OF o]
    by (simp add: d' rows_delete_row filter_remove)
  with o show ?thesis by (auto simp: paying_def d' rows_delete_row)
qed

lemma apart_hold:
  assumes a: "apart u F d" and run: "insert_reservation mk d = Inr (r, d')"
    and mk: "\<And>n. rid (mk n) = n" "\<And>n. res_userId (mk n) = u"
  shows "apart u F d'"
proof -
  have ok: "db_ok d" using a by (simp add: apart_def)
  have ok': "db_ok d'" using ok mk(1) run by (blast intro: db_ok_insert_reservation)
  obtain t where t: "insert_row mk (reservations d) = (r, t)" and d': "d' = d\<lparr>reservations := t\<rparr>"
    using run unfolding insert_reservation_def by (rule insert_stmtE)
  have find: "find_row j t = (if j = rid r then Some r else find_row j (reservations d))" for j
    by (rule find_insert_row [OF wf_parts(1) [OF ok] mk(1) t])
  have fresh: "rid r \<notin> set (ids (reservations d))"
    using wf_parts(1) [OF ok'] by (simp add: d' wf_table_def ids_insert_row [OF t])
  have "paid_by_other u d' p = paid_by_other u d p" if "p \<in> set (rows (payments d))" for p
  proof -
    have "pay_reservationId p \<in> set (ids (reservations d))" using ok that by (simp add: db_ok_defs fk_defs)
    with fresh have "pay_reservationId p \<noteq> rid r" by metis
    then show ?thesis by (simp add: paid_by_other_def d' find)
  qed
  then have "filter (paid_by_other u d') (rows (payments d)) = filter (paid_by_other u d) (rows (payments d))"
    by (rule filter_cong [OF refl])
  moreover have "res_userId r = u" using insert_row_val [OF t] mk(2) by simp
  ultimately have "others u d' = others u d" by (simp add: others_def d' rows_insert_row [OF t])
  with a ok' show ?thesis by (simp add: apart_def)
qed

lemma apart_account:
  assumes a: "apart u F d" and run: "update_user u f d = Inr (x, d')" and f: "\<And>x. rid (f x) = rid x"
  shows "apart u F d'"
proof -
  have ok': "db_ok d'" using a f run unfolding apart_def by (blast intro: db_ok_update_user)
  have d': "d' = d\<lparr>users := update_row u f (users d)\<rparr>"
    using run unfolding update_user_def by (rule update_stmtE)
  have "paid_by_other u d' = paid_by_other u d" by (simp add: paid_by_other_def fun_eq_iff d')
  then have "others u d' = others u d" by (simp add: others_def d' rows_update_row filter_update f)
  with a ok' show ?thesis by (simp add: apart_def)
qed

subsection \<open>Services\<close>

lemma keeps_own_update:
  assumes "\<And>r. rid (f r) = rid r" and "\<And>r. res_userId (f r) = res_userId r"
  shows "keeps_db (owned u F i) (run_stmt fault (update_reservation i f))"
    and "keeps_db (paying u F i q) (run_stmt fault (update_reservation i f))"
proof -
  show "keeps_db (owned u F i) (run_stmt fault (update_reservation i f))"
    by (rule keeps_db_stmt) (use owned_update [OF _ _ assms] in blast)
  have "paying u F i q d'" if "paying u F i q d" "update_reservation i f d = Inr (x, d')" for d x d'
    using that owned_update [OF _ that(2) assms, of u F] by (simp add: paying_def)
  then show "keeps_db (paying u F i q) (run_stmt fault (update_reservation i f))" by (rule keeps_db_stmt)
qed

lemma keeps_apart_stmts [keeps_rules]:
  "keeps_db (owned u F i) (reservations_setStatus f i st)" "keeps_db (owned u F i) (reservations_extendHold f i t)"
  "keeps_db (paying u F i q) (reservations_setStatus f i st)" "keeps_db (paying u F i q) (reservations_extendHold f i t)"
  unfolding reservations_setStatus_def reservations_extendHold_def by (intro keeps_own_update; simp)+

lemma keeps_apart_rows [keeps_rules]:
  "keeps_db (paying u F i q) (payments_delete f q)"
  "keeps_db (apart u F) (users_updateName f u n)" "keeps_db (apart u F) (users_updateEmail f u a)"
  "keeps_db (apart u F) (users_updatePassword f u h)"
  unfolding payments_delete_def users_updateName_def users_updateEmail_def users_updatePassword_def
  by (rule keeps_db_stmt, erule (1) paying_delete apart_account, simp?)+

lemma keeps_paying_update:
  "(\<And>p. rid (f p) = rid p) \<Longrightarrow> (\<And>p. pay_reservationId (f p) = pay_reservationId p) \<Longrightarrow>
     keeps_db (paying u F i q) (payments_updateById fault (Some q) f)"
  unfolding payments_updateById_def by (simp, rule keeps_db_stmt) (rule paying_update)

lemma keeps_apart_hold [keeps_rules]: "hp_userId p = u \<Longrightarrow> keeps_db (apart u F) (breaker_holdSeat f fault now p)"
proof -
  assume u: "hp_userId p = u"
  have "apart u F d'" if "apart u F d" "holdSeat_body now p d = Inr (r, d')" for d r d'
    using that u apart_hold [of u F d "hold_row now p"]
    by (auto simp: holdSeat_body_def hold_row_def split: if_splits option.splits sum.splits)
  then have "keeps_db (apart u F) (holdSeat_tx fault now p)"
    by (intro keepsI) (auto simp: holdSeat_tx_def db_inv_def split: option.split hold_fault.split sum.split prod.split)
  then show ?thesis unfolding breaker_holdSeat_def by (intro keeps_rules)
qed

text \<open>A step after which more is known, and a weaker invariant outside.\<close>

lemma keeps_bind:
  assumes "\<And>w x w'. I (db w) \<Longrightarrow> m w = (Inr x, w') \<Longrightarrow> I' x (db w')"
    and "\<And>w e w'. I (db w) \<Longrightarrow> m w = (Inl e, w') \<Longrightarrow> I (db w')"
    and "\<And>x. keeps_db (I' x) (k x)" and "\<And>x d. I' x d \<Longrightarrow> I d"
  shows "keeps_db I (await m k)"
proof (rule keepsI)
  fix w assume w: "db_inv I w"
  obtain r w1 where m: "m w = (r, w1)" by fastforce
  show "db_inv I (snd (await m k w))"
  proof (cases r)
    case (Inl e)
    then show ?thesis using assms(2) [of w e w1] w m by (simp add: await_def db_inv_def)
  next
    case (Inr x)
    then have "I' x (db w1)" using assms(1) [of w x w1] w m by (simp add: db_inv_def)
    then have "I' x (db (snd (k x w1)))" using keeps_dbD [OF assms(3)] by blast
    then show ?thesis using assms(4) m Inr by (simp add: await_def db_inv_def)
  qed
qed

lemma keeps_own:
  assumes "\<And>r. rid r = i \<Longrightarrow> keeps_db (owned u F i) (k r)"
  shows "keeps_db (apart u F) (await (findOwned u i) k)"
proof (rule keepsI)
  fix w assume w: "db_inv (apart u F) w"
  have run: "findOwned u i w = (case find_row i (reservations (db w)) of None \<Rightarrow> (Inl (reservation_not_found i), w)
      | Some r \<Rightarrow> if res_userId r = u then (Inr r, w) else (Inl (reservation_not_found i), w))"
    by (simp add: findOwned_def getById_def reservations_findById_def await_def query_run throw_run ret_run split: option.split)
  show "db_inv (apart u F) (snd (await (findOwned u i) k w))"
  proof (cases "\<exists>r. find_row i (reservations (db w)) = Some r \<and> res_userId r = u")
    case True
    then obtain r where r: "find_row i (reservations (db w)) = Some r" "res_userId r = u" by blast
    then have "owned u F i (db (snd (k r w)))"
      using w by (intro keeps_dbD [OF assms] find_row_key) (auto simp: owned_def db_inv_def)
    then show ?thesis by (simp add: await_def run r db_inv_def owned_def)
  next
    case False
    then show ?thesis using w by (auto simp: await_def run split: option.split)
  qed
qed

lemma keeps_of_payment:
  assumes "keeps_db (owned u F i) (k None)" and "\<And>p. keeps_db (paying u F i (rid p)) (k (Some p))"
  shows "keeps_db (owned u F i) (await (payments_findByReservationId i) k)"
proof (rule keeps_bind [where I' = "\<lambda>p. case p of None \<Rightarrow> owned u F i | Some p \<Rightarrow> paying u F i (rid p)"])
  fix w x w' assume o: "owned u F i (db w)" and x: "payments_findByReservationId i w = (Inr x, w')"
  then have w': "w' = w" by (simp add: payments_findByReservationId_def query_run)
  show "(case x of None \<Rightarrow> owned u F i | Some p \<Rightarrow> paying u F i (rid p)) (db w')"
  proof (cases x)
    case (Some p)
    then have p: "pay_reservationId p = i" "p \<in> set (rows (payments (db w)))"
      using x find_Some_mem by (fastforce simp: payments_findByReservationId_def query_run)+
    have "q = p" if "q \<in> set (rows (payments (db w)))" "rid q = rid p" for q
      using o that p(2) mem_find_row [OF wf_parts(2)] unfolding owned_def apart_def by (metis option.inject)
    with o p w' Some show ?thesis by (auto simp: paying_def)
  qed (simp add: o w')
next
  fix x show "keeps_db (case x of None \<Rightarrow> owned u F i | Some p \<Rightarrow> paying u F i (rid p)) (k x)"
    using assms by (cases x) simp_all
qed (auto simp: payments_findByReservationId_def query_run paying_def split: option.splits)

lemma keeps_finalize_own:
  "keeps_db (owned u F (rid r)) (finalizeCancel f r)" "keeps_db (paying u F (rid r) q) (finalizeCancel f r)"
  unfolding finalizeCancel_def by (intro keeps_rules)+

lemma keeps_refund_own: "keeps_db (owned u F (rid r)) (refundReservation env r)"
  unfolding refundReservation_def stripe_refund_def screenings_findById_def payments_findRefundPolicy_def Let_def
  by (rule keeps_of_payment; simp only: option.case; intro keeps_rules keeps_paying_update keeps_finalize_own; simp)

lemma keeps_apart_cancel: "keeps_db (apart u F) (cancel env u i)"
  unfolding cancel_def by (rule keeps_own) (auto intro!: keeps_rules keeps_refund_own keeps_finalize_own)

lemma keeps_apart_checkout: "keeps_db (apart u F) (createCheckoutSession env u i)"
proof -
  let ?create = "\<lambda>amt. catch_err (payments_create (pay_fault env AtCreate) (pay_now env) i amt CURRENCY)
    (\<lambda>e. if e = Prisma P2002 then throw has_payment else throw e)"
  have create: "keeps_db (owned u F i) (await (?create amt) k)" if "\<And>p. keeps_db (paying u F i (rid p)) (k p)" for amt k
  proof (rule keeps_bind [where I' = "\<lambda>p. paying u F i (rid p)"])
    fix w x w' assume "owned u F i (db w)" and "?create amt w = (Inr x, w')"
    then show "paying u F i (rid x) (db w')"
      by (auto simp: catch_err_run payments_create_def throw_run run_stmt_def new_payment_def intro: owned_create
          split: prod.splits sum.splits if_splits option.splits)
  next
    fix w e w' assume "owned u F i (db w)" and "?create amt w = (Inl e, w')"
    then show "owned u F i (db w')"
      by (auto simp: catch_err_run payments_create_def throw_run run_stmt_def split: prod.splits sum.splits if_splits option.splits)
  qed (auto simp: that paying_def)
  show ?thesis
    unfolding createCheckoutSession_def Let_def payments_findByReservationId_def screenings_findById_def extendHold_def
    by (rule keeps_own) (intro keeps_rules create keeps_paying_update; simp)
qed

lemma keeps_apart_services [keeps_rules]:
  "keeps_db (apart u F) (reserve env u dto)" "keeps_db (apart u F) (cancel se u i)"
  "keeps_db (apart u F) (createCheckoutSession se u i)"
  "keeps_db (apart u F) (updateName ae u n)" "keeps_db (apart u F) (requestEmailChange ae u a p)"
  "keeps_db (apart u F) (confirmEmailChange ae u c)" "keeps_db (apart u F) (changePassword ae u p q)"
  subgoal unfolding reserve_def Let_def screenings_findById_def by (intro keeps_rules; simp)
  subgoal by (rule keeps_apart_cancel)
  subgoal by (rule keeps_apart_checkout)
  unfolding updateName_def requestEmailChange_def check_password_def confirmEmailChange_def get_pending_def changePassword_def
    issue_for_def sendOtpEmail_def
  by (intro keeps_rules)+

subsection \<open>Requests\<close>

lemma keeps_signed_in:
  assumes "fst (token_check env c s) = Inr u" and "J s" and "keeps J (k u)"
  shows "J (snd (await (authenticated env c) k s))"
  using assms by (simp add: await_def authenticated_run keeps_def)

lemma signed_in_apart:
  assumes "fst (token_check env c s) = Inr u" and "needs_login r" and J: "app_inv (apart (au_id u) F) s"
  shows "app_inv (apart (au_id u) F) (snd (dispatch (intercept env nm l st) env c r s))"
proof -
  note go = keeps_signed_in [where J = "app_inv (apart (au_id u) F)", OF assms(1) J]
  show ?thesis
  proof (cases r)
    case (Reservations x)
    then show ?thesis by (cases x) (auto intro!: go keeps_rules)
  next
    case (Payments x)
    then show ?thesis using assms(2) by (cases x) (auto intro!: go keeps_rules)
  next
    case (Users x)
    then show ?thesis by (cases x) (auto simp: UsersController_def intro!: go keeps_rules)
  next
    case (Auth x)
    then show ?thesis using assms(2) by (cases x) (auto simp: audit_user_def intro!: go keeps_rules)
  qed (use assms(2) in simp_all)
qed

text \<open>C9. Users are isolated: a request to a route that needs a sign-in (reservations, checkout and payment status, account
  settings, sign-out) either has no accepted token and changes nothing, or leaves every account, reservation and
  payment of everyone but the user of its token exactly as it was, whatever ids it names and however it ends.\<close>

theorem users_isolated:
  assumes "handle env c r s = (res, s')" and "needs_login r" and "db_ok (db (app s))"
  shows "case fst (token_check env c s) of
      Inl e \<Rightarrow> res = Inl e \<and> s' = s
    | Inr u \<Rightarrow> (let other_user = (\<lambda>x :: user. rid x \<noteq> au_id u); other_res = (\<lambda>x. res_userId x \<noteq> au_id u) in
        filter other_user (rows (users (db (app s')))) = filter other_user (rows (users (db (app s)))) \<and>
        filter other_res (rows (reservations (db (app s')))) = filter other_res (rows (reservations (db (app s)))) \<and>
        filter (paid_by_other (au_id u) (db (app s'))) (rows (payments (db (app s')))) =
          filter (paid_by_other (au_id u) (db (app s))) (rows (payments (db (app s)))))"
proof (cases "fst (token_check env c s)")
  case (Inl e)
  then show ?thesis using refused_token [of env c s e r] assms(1,2) by auto
next
  case (Inr u)
  let ?F = "others (au_id u) (db (app s))"
  have "app_inv (apart (au_id u) ?F) s" using assms(3) by (simp add: app_inv_def apart_def)
  from signed_in_apart [OF Inr assms(2) this] assms(1) have "app_inv (apart (au_id u) ?F) s'"
    unfolding handle_unlimited [OF disjI1 [OF assms(2)]] by (metis snd_conv)
  then have "others (au_id u) (db (app s')) = others (au_id u) (db (app s))" by (simp add: app_inv_def apart_def)
  then show ?thesis by (simp add: Inr others_def)
qed

lemma sample_renamed:
  "rows (users (db (app (snd (handle (sample_http USER) caller_a (Users (UpdateName ''vv'')) sample_server))))) \<noteq>
     rows (users (db (app sample_server)))"
  by code_simp

theorem users_isolated_witness:
  "\<exists>s'. snd (handle (sample_http USER) caller_a (Users (UpdateName ''vv'')) sample_server) = s' \<and>
     rows (users (db (app s'))) \<noteq> rows (users (db (app sample_server))) \<and>
     filter (\<lambda>x. rid x \<noteq> 1) (rows (users (db (app s')))) = filter (\<lambda>x. rid x \<noteq> 1) (rows (users (db (app sample_server))))"
proof -
  obtain res s' where h: "handle (sample_http USER) caller_a (Users (UpdateName ''vv'')) sample_server = (res, s')" by fastforce
  have "db_ok (db (app sample_server))" by (simp add: sample_server_def world_of_def sample_db_ok)
  with users_isolated [OF h] sample_token [of USER] sample_renamed h show ?thesis by (simp add: Let_def)
qed

end
