(* ===== verification/GoogleLink.thy ===== *)
theory GoogleLink
  imports Access
begin

text \<open>
  The flow that links a Google account from the settings page: \<open>link-google\<close> sends a signed-in user to Google with a
  state signed for that user, and whoever comes back to \<open>link-google/callback\<close> with the state links the Google
  account of the answer to that user.
\<close>

lemma link_callback_run:
  assumes "verify_link (jwt env) st (clock env) = Some i" and "st \<noteq> []"
  shows "auth_linkGoogleCallback env p (Some st) w = (case linkGoogle env i (gp_id p) w of
      (Inr _, w') \<Rightarrow> (Inr (frontendUrl env @ ''/settings?linked=google''), w')
    | (Inl e, w') \<Rightarrow> if is_conflict e then (Inr (frontendUrl env @ ''/settings?error=google_already_linked''), w') else (Inl e, w'))"
  using assms by (simp add: auth_linkGoogleCallback_def verifyLinkState_def await_ret catch_err_def await_def ret_run throw_run
      split: prod.split sum.split)

lemma linkGoogle_run:
  assumes ok: "db_ok (db w)" and free: "user_by_google g (db w) = None" and u: "find_row i (users (db w)) = Some u"
    and nf: "user_fault env AtSetGoogle = None"
  shows "linkGoogle env i g w = (Inr (u\<lparr>googleId := Some g\<rparr>), logged (by_actor_on ''user.google.linked'' i ''user'' i)
    (w\<lparr>db := (db w)\<lparr>users := update_row i (\<lambda>u. u\<lparr>googleId := Some g\<rparr>) (users (db w))\<rparr>\<rparr>))"
proof -
  let ?f = "\<lambda>u :: user. u\<lparr>googleId := Some g\<rparr>"
  have "update_user i ?f (db w) = Inr (?f u, (db w)\<lparr>users := update_row i ?f (users (db w))\<rparr>)"
  proof -
    have "unique_nullable googleId (map (\<lambda>r. if rid r = i then ?f r else r) (rows (users (db w))))"
      using ok free by (intro map_filter_update) (auto simp: db_ok_defs wf_table_def ids_def user_unique_def user_google_None)
    moreover have "email \<circ> (\<lambda>r. if rid r = i then ?f r else r) = email" by (simp add: fun_eq_iff)
    ultimately show ?thesis
      using ok u by (simp add: update_user_def on_table_def try_update_def user_unique_def rows_update_row db_ok_defs)
  qed
  then show ?thesis
    using free nf by (simp add: linkGoogle_def auth_findByGoogleId_def query_run auth_setGoogleId_def await_def run_stmt_def
        record_audit_run ret_run logged_def)
qed

lemma handle_link:
  "handle env c (Auth (LinkGoogleCallback (Inr g) state)) =
     await (call (googleStrategy (Inr g))) (\<lambda>profile. intercept env ''http'' (''GET'', ''/auth/link-google/callback'') 200
       (answer RedirectBody (auth_linkGoogleCallback (accounts env) profile state)))"
  by (simp add: handle_def middleware_routes_def success_status_def)

lemma find_google_updated:
  assumes "user_by_google g d = None" and "find_row i (users d) = Some u"
  shows "user_by_google g (d\<lparr>users := update_row i (\<lambda>u. u\<lparr>googleId := Some g\<rparr>) (users d)\<rparr>) = Some (u\<lparr>googleId := Some g\<rparr>)"
proof -
  let ?f = "\<lambda>r. if rid r = i then r\<lparr>googleId := Some g\<rparr> else r :: user"
  have "List.find (\<lambda>u. googleId u = Some g) (map ?f xs) = Some (u\<lparr>googleId := Some g\<rparr>)"
    if "List.find (\<lambda>u. googleId u = Some g) xs = None" "List.find (\<lambda>u. rid u = i) xs = Some u" for xs
    using that by (induction xs) (auto split: if_splits)
  with assms show ?thesis by (simp add: user_by_google_def rows_update_row find_row_def)
qed

text \<open>The request does what the callback does, whoever sends it.\<close>

lemma link_request:
  assumes "google_validate g = Inr p" and "auth_linkGoogleCallback (accounts env) p state (app s) = (r, w')"
  shows "\<exists>s'. (\<forall>c. handle env c (Auth (LinkGoogleCallback (Inr g) state)) s = (map_sum id (\<lambda>url. (RedirectBody url, [])) r, s')) \<and> app s' = w'"
proof -
  have strat: "await (call (googleStrategy (Inr g))) k s = k p s" for k :: "google_profile \<Rightarrow> response endpoint"
    using assms(1) by (simp add: googleStrategy_def call_def await_def ret_run)
  show ?thesis
    unfolding handle_link strat using assms(2) by (cases r) (auto simp: intercept_def answer_def call_def await_def ret_run plain_def)
qed

lemma link_outcomes:
  assumes "db_ok (db w)" and "st \<noteq> []" and "user_fault env AtSetGoogle = None"
  shows "verify_link (jwt env) st (clock env) = None \<Longrightarrow>
      auth_linkGoogleCallback env p (Some st) w = (Inl (UnauthorizedException ''Invalid or expired link state''), w)"
    and "verify_link (jwt env) st (clock env) = Some i \<Longrightarrow> user_by_google (gp_id p) (db w) = Some v \<Longrightarrow> rid v \<noteq> i \<Longrightarrow>
      auth_linkGoogleCallback env p (Some st) w = (Inr (frontendUrl env @ ''/settings?error=google_already_linked''), w)"
    and "verify_link (jwt env) st (clock env) = Some i \<Longrightarrow> user_by_google (gp_id p) (db w) = None \<Longrightarrow> find_row i (users (db w)) = Some u \<Longrightarrow>
      \<exists>w'. auth_linkGoogleCallback env p (Some st) w = (Inr (frontendUrl env @ ''/settings?linked=google''), w') \<and>
        db w' = (db w)\<lparr>users := update_row i (\<lambda>u. u\<lparr>googleId := Some (gp_id p)\<rparr>) (users (db w))\<rparr>"
proof -
  show "verify_link (jwt env) st (clock env) = None \<Longrightarrow>
      auth_linkGoogleCallback env p (Some st) w = (Inl (UnauthorizedException ''Invalid or expired link state''), w)"
    using assms(2) by (simp add: auth_linkGoogleCallback_def verifyLinkState_def await_throw)
  show "verify_link (jwt env) st (clock env) = Some i \<Longrightarrow> user_by_google (gp_id p) (db w) = Some v \<Longrightarrow> rid v \<noteq> i \<Longrightarrow>
      auth_linkGoogleCallback env p (Some st) w = (Inr (frontendUrl env @ ''/settings?error=google_already_linked''), w)"
    using assms(2) by (simp add: link_callback_run linkGoogle_def auth_findByGoogleId_def await_query throw_run already_linked_def is_conflict_def)
  show "verify_link (jwt env) st (clock env) = Some i \<Longrightarrow> user_by_google (gp_id p) (db w) = None \<Longrightarrow> find_row i (users (db w)) = Some u \<Longrightarrow>
      \<exists>w'. auth_linkGoogleCallback env p (Some st) w = (Inr (frontendUrl env @ ''/settings?linked=google''), w') \<and>
        db w' = (db w)\<lparr>users := update_row i (\<lambda>u. u\<lparr>googleId := Some (gp_id p)\<rparr>) (users (db w))\<rparr>"
    using assms by (simp add: link_callback_run linkGoogle_run)
qed

lemma linked_signs_in:
  assumes "user_by_google (gp_id p) d = None" and "find_row i (users d) = Some u"
    and "db w = d\<lparr>users := update_row i (\<lambda>u. u\<lparr>googleId := Some (gp_id p)\<rparr>) (users d)\<rparr>" and "gp_id p2 = gp_id p"
  shows "fst (resolveGoogleUser env p2 w) = Inr (auth_user_of u)"
  using find_google_updated [OF assms(1,2)] assms(3,4)
  by (simp add: resolveGoogleUser_def auth_findByGoogleId_def await_query logged_run ret_run auth_user_of_def)

text \<open>C31. A state that does not verify links nothing and is a 401. One that was signed for a user links the Google account of the
  answer to that user and to nobody else, unless it is linked to another user already, which is told and changes nothing. The browser
  that comes back plays no part: the state works in any browser (\<open>c\<close> is any caller, with or without cookies), so a state that one
  user fetched, opened by another, links the other's Google account to the first one's user, and signing in with that Google account then enters
  the first user's account.\<close>

theorem link_follows_state:
  assumes "db_ok (db (app s))" and "google_validate g = Inr p" and "st \<noteq> []" and "user_fault (accounts env) AtSetGoogle = None"
  shows "case verify_link (jwt (accounts env)) st (clock (accounts env)) of
      None \<Rightarrow> \<exists>s'. (\<forall>c. handle env c (Auth (LinkGoogleCallback (Inr g) (Some st))) s =
          (Inl (UnauthorizedException ''Invalid or expired link state''), s')) \<and> app s' = app s
    | Some i \<Rightarrow> (case user_by_google (gp_id p) (db (app s)) of
        Some v \<Rightarrow> rid v \<noteq> i \<longrightarrow> (\<exists>s'. (\<forall>c. handle env c (Auth (LinkGoogleCallback (Inr g) (Some st))) s =
          (Inr (RedirectBody (frontendUrl (accounts env) @ ''/settings?error=google_already_linked''), []), s')) \<and> app s' = app s)
      | None \<Rightarrow> \<forall>u. find_row i (users (db (app s))) = Some u \<longrightarrow> (\<exists>s'.
          (\<forall>c. handle env c (Auth (LinkGoogleCallback (Inr g) (Some st))) s =
            (Inr (RedirectBody (frontendUrl (accounts env) @ ''/settings?linked=google''), []), s')) \<and>
          db (app s') = (db (app s))\<lparr>users := update_row i (\<lambda>u. u\<lparr>googleId := Some (gp_id p)\<rparr>) (users (db (app s)))\<rparr> \<and>
          (\<forall>env2 p2. gp_id p2 = gp_id p \<longrightarrow> fst (resolveGoogleUser env2 p2 (app s')) = Inr (auth_user_of u))))"
proof (cases "verify_link (jwt (accounts env)) st (clock (accounts env))")
  case None
  with link_request [OF assms(2) link_outcomes(1) [OF assms(1,3,4)]] show ?thesis by simp
next
  case (Some i)
  note out = link_outcomes(2,3) [OF assms(1,3,4) Some, where p = p]
  show ?thesis
  proof (cases "user_by_google (gp_id p) (db (app s))")
    case None
    have "\<exists>s'. (\<forall>c. handle env c (Auth (LinkGoogleCallback (Inr g) (Some st))) s =
          (Inr (RedirectBody (frontendUrl (accounts env) @ ''/settings?linked=google''), []), s')) \<and>
        db (app s') = (db (app s))\<lparr>users := update_row i (\<lambda>u. u\<lparr>googleId := Some (gp_id p)\<rparr>) (users (db (app s)))\<rparr> \<and>
        (\<forall>env2 p2. gp_id p2 = gp_id p \<longrightarrow> fst (resolveGoogleUser env2 p2 (app s')) = Inr (auth_user_of u))"
      if u: "find_row i (users (db (app s))) = Some u" for u
      using out(2) [OF None u] link_request [OF assms(2), of env "Some st" s] linked_signs_in [OF None u] by fastforce
    with Some None show ?thesis by simp
  next
    case owned: (Some v)
    from link_request [OF assms(2) out(1) [OF owned]] Some owned show ?thesis by simp
  qed
qed

text \<open>User 1 fetched the state \<open>S\<close>; a browser without cookies, of someone with the Google account \<open>g9\<close>, opens it.\<close>

definition link_http :: http_env where
  "link_http = (sample_http USER)\<lparr>accounts := sample_auth\<lparr>jwt := sample_jwt\<lparr>verify_link := (\<lambda>t _. if t = ''S'' then Some 1 else None)\<rparr>\<rparr>\<rparr>"

theorem link_follows_state_witness:
  "\<exists>s'. handle link_http \<lparr>access_token = None, refresh_token = None, ip = ''6.6.6.6''\<rparr>
       (Auth (LinkGoogleCallback (Inr \<lparr>ga_emails = [''z''], ga_displayName = ''z'', ga_id = ''g9''\<rparr>) (Some ''S''))) sample_server =
       (Inr (RedirectBody ''http://f/settings?linked=google'', []), s') \<and>
     fst (resolveGoogleUser sample_auth \<lparr>gp_email = ''z'', gp_name = ''z'', gp_id = ''g9''\<rparr> (app s')) = Inr (auth_user_of (sample_user 1))"
proof -
  have d: "app sample_server = world_of sample_db" "db (world_of sample_db) = sample_db"
    by (simp_all add: sample_server_def world_of_def)
  have u: "find_row 1 (users sample_db) = Some (sample_user 1)" "user_by_google ''g9'' sample_db = None"
    by (simp_all add: find_row_def user_by_google_def sample_db_def sample_user_def)
  have e: "accounts link_http = sample_auth\<lparr>jwt := sample_jwt\<lparr>verify_link := (\<lambda>t _. if t = ''S'' then Some 1 else None)\<rparr>\<rparr>"
    "frontendUrl sample_auth = ''http://f''" "user_fault sample_auth AtSetGoogle = None"
    by (simp_all add: link_http_def sample_auth_def)
  from link_follows_state [of sample_server "\<lparr>ga_emails = [''z''], ga_displayName = ''z'', ga_id = ''g9''\<rparr>"
      "\<lparr>gp_email = ''z'', gp_name = ''z'', gp_id = ''g9''\<rparr>" "''S''" link_http]
  show ?thesis using u by (fastforce simp: d e google_validate_def sample_db_ok)
qed

end
