(* ===== verification/Passwords.thy ===== *)
theory Passwords
  imports System
begin

text \<open>
  The password of an account in the whole system. Sign-up stores an argon2 hash, the account settings compare with bcrypt: a hash that
  \<open>bcrypt.compare\<close> accepts for no password stays where it is, whatever requests, jobs, socket events and outages follow.
\<close>

subsection \<open>Who writes the users\<close>

definition has_hash :: "int \<Rightarrow> string \<Rightarrow> db \<Rightarrow> bool" where
  "has_hash j h d \<longleftrightarrow> (\<exists>u. find_row j (users d) = Some u \<and> password u = Some h)"

lemma hash_same: "users d' = users d \<Longrightarrow> has_hash j h d \<Longrightarrow> has_hash j h d'"
  by (simp add: has_hash_def)

lemma hash_insert: "has_hash j h d \<Longrightarrow> insert_user mk d = Inr (u, d') \<Longrightarrow> has_hash j h d'"
  unfolding insert_user_def
  by (erule insert_stmtE) (auto simp: has_hash_def find_row_def rows_insert_row find_append)

lemma hash_update:
  assumes "has_hash j h d" and "update_user k f d = Inr (u, d')" and "\<And>u. rid (f u) = rid u" and "\<And>u. password (f u) = password u"
  shows "has_hash j h d'"
proof -
  have "d' = d\<lparr>users := update_row k f (users d)\<rparr>"
    using assms(2) unfolding update_user_def by (rule update_stmtE)
  with assms(1,4) show ?thesis by (auto simp: has_hash_def find_update_row [OF assms(3)])
qed

lemma same_users:
  "insert_movie m2 d = Inr (x2, d') \<Longrightarrow> users d' = users d" "update_movie i f2 d = Inr (x2, d') \<Longrightarrow> users d' = users d"
  "insert_hall m3 d = Inr (x3, d') \<Longrightarrow> users d' = users d" "insert_seat m4 d = Inr (x4, d') \<Longrightarrow> users d' = users d"
  "insert_screening m5 d = Inr (x5, d') \<Longrightarrow> users d' = users d" "update_screening i f5 d = Inr (x5, d') \<Longrightarrow> users d' = users d"
  "insert_payment m6 d = Inr (x6, d') \<Longrightarrow> users d' = users d" "update_payment i f6 d = Inr (x6, d') \<Longrightarrow> users d' = users d"
  "delete_payment i d = Inr (x6, d') \<Longrightarrow> users d' = users d" "insert_reservation m7 d = Inr (x7, d') \<Longrightarrow> users d' = users d"
  "update_reservation i f7 d = Inr (x7, d') \<Longrightarrow> users d' = users d" "delete_movie i d = Inr (x2, d') \<Longrightarrow> users d' = users d"
  "delete_hall i d = Inr (x3, d') \<Longrightarrow> users d' = users d" "delete_screening i d = Inr (x5, d') \<Longrightarrow> users d' = users d"
  by (auto simp: insert_movie_def update_movie_def insert_hall_def insert_seat_def insert_screening_def update_screening_def
      insert_payment_def update_payment_def delete_payment_def insert_reservation_def update_reservation_def
      delete_movie_def delete_hall_def delete_screening_def table_simps dest!: on_table_InrD)

lemma same_users_seats: "insert_seats ps d = Inr (ss, d') \<Longrightarrow> users d' = users d"
  by (induction ps arbitrary: d ss) (auto dest!: same_users split: sum.splits prod.splits)

lemma same_users_blocks:
  "createHallWithSeats dto d = Inr (x, d') \<Longrightarrow> users d' = users d"
  "both_updates q f k g d = Inr (y, d') \<Longrightarrow> users d' = users d"
  "holdSeat_body now p d = Inr (r, d') \<Longrightarrow> users d' = users d"
  by (auto simp: createHallWithSeats_def both_updates_def holdSeat_body_def dest!: same_users same_users_seats
      split: if_splits sum.splits prod.splits option.splits)

lemmas users_kept = same_users same_users_blocks

lemma keeps_hash_other [keeps_rules]:
  "keeps_db (has_hash j h) (payments_create f now i amt cur)" "keeps_db (has_hash j h) (payments_delete f i)"
  "keeps_db (has_hash j h) (payments_updateById f pid g2)" "keeps_db (has_hash j h) (confirmWithReservation f q i x)"
  "keeps_db (has_hash j h) (declineWithReservation f q i)" "keeps_db (has_hash j h) (reservations_extendHold f i t)"
  "keeps_db (has_hash j h) (reservations_confirm f i)" "keeps_db (has_hash j h) (reservations_setStatus f i st)"
  "keeps_db (has_hash j h) (movies_create now mdto)" "keeps_db (has_hash j h) (movies_updateById i mp)"
  "keeps_db (has_hash j h) (movies_setStatus i mst)" "keeps_db (has_hash j h) (movies_delete i)"
  "keeps_db (has_hash j h) (screenings_create mi hi st2 pr)" "keeps_db (has_hash j h) (screenings_updateById si sp st3)"
  "keeps_db (has_hash j h) (screenings_setStatus si sst)" "keeps_db (has_hash j h) (screenings_delete si)"
  "keeps_db (has_hash j h) (halls_delete i)" "keeps_db (has_hash j h) (run_stmt fault (createHallWithSeats hdto))"
  unfolding payments_repo_defs reservations_extendHold_def reservations_confirm_def reservations_setStatus_def
    movies_repo_defs screenings_repo_defs halls_repo_defs
  by (intro keeps_rules keeps_db_stmt; rule hash_same, erule users_kept, assumption)+

lemma keeps_hash_hold [keeps_rules]: "keeps_db (has_hash j h) (breaker_holdSeat f fault now p)"
proof -
  have "keeps_db (has_hash j h) (holdSeat_tx fault now p)"
    by (rule keepsI) (auto simp: holdSeat_tx_def db_inv_def dest!: users_kept(17) intro: hash_same
        split: option.split hold_fault.split sum.split prod.split)
  then show ?thesis unfolding breaker_holdSeat_def by (intro keeps_rules)
qed

lemma keeps_hash_sweep: "keeps_db (has_hash j h) (releaseExpiredHolds f t)"
  unfolding releaseExpiredHolds_def by (rule keeps_db_stmt) (auto simp: release_expired_def has_hash_def)

text \<open>The writes of the accounts leave every password but that of \<open>updatePassword\<close>.\<close>

lemma keeps_hash_users [keeps_rules]:
  "keeps_db (has_hash j h) (auth_createUser f nm a x)" "keeps_db (has_hash j h) (auth_createGoogleUser f p)"
  "keeps_db (has_hash j h) (auth_setGoogleId f i g)" "keeps_db (has_hash j h) (auth_markEmailVerified f i)"
  "keeps_db (has_hash j h) (users_updateName f i nm)" "keeps_db (has_hash j h) (users_updateEmail f i a)"
  "i \<noteq> j \<Longrightarrow> keeps_db (has_hash j h) (users_updatePassword f i x)"
proof -
  show "keeps_db (has_hash j h) (auth_createUser f nm a x)" "keeps_db (has_hash j h) (auth_createGoogleUser f p)"
    unfolding auth_repo_defs by (rule keeps_db_stmt, erule (1) hash_insert)+
  show "keeps_db (has_hash j h) (auth_setGoogleId f i g)" "keeps_db (has_hash j h) (auth_markEmailVerified f i)"
    "keeps_db (has_hash j h) (users_updateName f i nm)" "keeps_db (has_hash j h) (users_updateEmail f i a)"
    unfolding auth_repo_defs users_updateName_def users_updateEmail_def
    by (rule keeps_db_stmt, erule (1) hash_update, simp_all)+
  assume "i \<noteq> j"
  then show "keeps_db (has_hash j h) (users_updatePassword f i x)"
    unfolding users_updatePassword_def update_user_def
    by (intro keeps_db_stmt) (erule update_stmtE, auto simp: has_hash_def find_update_row)
qed

subsection \<open>The requests\<close>

text \<open>A change of the password of this account is refused, one of another account leaves it.\<close>

lemma keeps_hash_change:
  assumes "\<And>p. \<not> bcrypt_compare env p h"
  shows "keeps_db (has_hash j h) (changePassword env i p q)"
proof (cases "i = j")
  case True
  show ?thesis
  proof (rule keepsI, unfold db_inv_def)
    fix w :: world assume w: "has_hash j h (db w)"
    then obtain u where "find_row i (users (db w)) = Some u" "password u = Some h" by (auto simp: has_hash_def True)
    from foreign_hash_refused(1) [OF this assms] w show "has_hash j h (db (snd (changePassword env i p q w)))" by simp
  qed
next
  case False
  then show ?thesis unfolding changePassword_def check_password_def issue_for_def by (intro keeps_rules)
qed

lemma requests_keep_hash:
  assumes "\<And>p. \<not> bcrypt_compare (accounts env) p h"
  shows "requests_keep_in env (has_hash j h)"
  unfolding requests_keep_in_def reserve_def createCheckoutSession_def extendHold_def
    updateName_def requestEmailChange_def check_password_def confirmEmailChange_def get_pending_def
    issue_for_def register_def sendOtpEmail_def resendOtp_def auth_verifyOtp_def
    verifyOtp_def auth_googleCallback_def resolveGoogleUser_def auth_linkGoogleCallback_def linkGoogle_def Let_def
    screenings_findById_def
  by (intro conjI allI keeps_rules keeps_hash_change assms)

lemma keeps_hash_payments:
  "keeps_db (has_hash j h) (handleWebhookEvent env b g)" "keeps_db (has_hash j h) (cancel env u i)"
  unfolding handleWebhookEvent_def dispatch_event_def handleCheckoutCompleted_def handleAsyncPaymentFailed_def handleCheckoutExpired_def
    handleDisputeCreated_def confirmPayment_def cancel_def refundReservation_def stripe_refund_def finalizeCancel_def
    screenings_findById_def Let_def
  by (intro keeps_rules)+

lemma keeps_hash_admin:
  assumes "needs_admin r"
  shows "keeps (app_inv (has_hash j h)) (dispatch (intercept env t l n) env c r)"
proof (cases r)
  case (MoviesAdmin x)
  then show ?thesis
    by (cases x) (auto simp: MoviesAdminController_def listAllForAdmin_def movies_listAll_def createMovie_def updateMovie_def publish_def
        unpublish_def deleteMovie_def intro!: keeps_rules)
next
  case (ScreeningsAdmin x)
  then show ?thesis
    by (cases x) (auto simp: ScreeningsAdminController_def createScreening_def createScreening_insert_def updateScreening_def
        cancelScreening_def deleteScreening_def Let_def intro!: keeps_rules)
next
  case (Halls x)
  then show ?thesis by (cases x) (auto simp: createHall_def deleteHall_def intro!: keeps_rules)
qed (use assms in simp_all)

subsection \<open>The whole system\<close>

text \<open>The operation is not a request whose \<open>bcrypt.compare\<close> accepts the hash for some password.\<close>

fun compares_no :: "string \<Rightarrow> sys_op \<Rightarrow> bool" where
  "compares_no h (Http env c r) \<longleftrightarrow> (\<forall>p. \<not> bcrypt_compare (accounts env) p h)"
| "compares_no h _ \<longleftrightarrow> True"

interpretation pw: invariant_steps system_step "{l. compares_no h l}" "\<lambda>s. has_hash j h (db (app (fst s)))" for h j
proof
  fix s l s' assume s: "has_hash j h (db (app (fst s)))" and l: "l \<in> {l. compares_no h l}" and step: "system_step l s s'"
  show "has_hash j h (db (app (fst s')))"
    using step
  proof cases
    case (http env c r s0 hub)
    have "keeps (app_inv (has_hash j h)) (dispatch (intercept env ''http'' (http_line r) (success_status r)) env c r)"
    proof (cases "needs_admin r")
      case False
      show ?thesis
        by (rule keeps_routes_in [OF requests_keep_hash False]) (use http l keeps_hash_payments in simp_all)
    qed (rule keeps_hash_admin)
    from keepsD [OF keeps_handle [OF this], of s0] s http show ?thesis by (simp add: app_inv_def)
  next
    case (socket op s0 hub w hub')
    with s socket_reads [OF socket(4,5)] show ?thesis by simp
  qed (use s keeps_dbD [OF keeps_jobs_of(1) [OF keeps_hash_sweep keeps_hash_other(4,5)]]
      keeps_dbD [OF keeps_jobs_of(2) [OF keeps_hash_sweep keeps_hash_other(4,5)]] in simp_all)
qed

text \<open>C40. A password that was set at sign-up is final: when \<open>bcrypt.compare\<close> accepts the stored hash for no password (as it accepts no argon2
  hash), no run of the whole program changes the hash of the account, and in every state that is reached a change of the
  password or of the address is a 401 without effect, whatever password is given with it, the right one included.\<close>

theorem signup_password_is_final:
  assumes "reaches system_step {l. compares_no (argon2_hash env0 pw) l} (s0, hub0) (s, hub)"
    and "find_row j (users (db (app s0))) = Some u0" and "password u0 = Some (argon2_hash env0 pw)"
  shows "(\<exists>u. find_row j (users (db (app s))) = Some u \<and> password u = Some (argon2_hash env0 pw)) \<and>
    (\<forall>env cur new addr. (\<forall>p. \<not> bcrypt_compare env p (argon2_hash env0 pw)) \<longrightarrow>
      changePassword env j cur new (app s) = (Inl (UnauthorizedException ''Invalid credentials''), app s) \<and>
      requestEmailChange env j addr cur (app s) = (Inl (UnauthorizedException ''Invalid credentials''), app s))"
proof -
  have "has_hash j (argon2_hash env0 pw) (db (app s))"
    using pw.holds_everywhere [OF assms(1)] assms(2,3) by (simp add: has_hash_def)
  then show ?thesis
    using foreign_hash_refused unfolding has_hash_def invalid_credentials_def by blast
qed

definition argon2_server :: server where
  "argon2_server = sample_server\<lparr>app := with_password (Some ''$argon2id$Secret123'')\<rparr>"

theorem signup_password_is_final_witness:
  "\<exists>s. reaches system_step UNIV (argon2_server, empty_hub) (s, empty_hub) \<and>
    s = snd (handle (sample_http USER) caller_a (Users (NewPassword ''Secret123'' ''Secret456'')) argon2_server) \<and>
    fst (changePassword sample_auth 1 ''Secret123'' ''Secret456'' (app s)) = Inl (UnauthorizedException ''Invalid credentials'')"
proof -
  let ?op = "Http (sample_http USER) caller_a (Users (NewPassword ''Secret123'' ''Secret456''))"
  let ?s = "snd (handle (sample_http USER) caller_a (Users (NewPassword ''Secret123'' ''Secret456'')) argon2_server)"
  have h: "argon2_hash sample_auth ''Secret123'' = ''$argon2id$Secret123''" by (simp add: sample_auth_def)
  have no: "\<not> bcrypt_compare sample_auth p ''$argon2id$Secret123''" "\<not> bcrypt_compare (accounts (sample_http USER)) p ''$argon2id$Secret123''" for p
    by (simp_all add: sample_auth_def sample_http_def)
  have r: "reaches system_step {l. compares_no (argon2_hash sample_auth ''Secret123'') l} (argon2_server, empty_hub) (?s, empty_hub)"
    by (rule reaches.move [OF reaches.start, where l = ?op]) (simp_all add: h no system_step.http)
  have u: "find_row 1 (users (db (app argon2_server))) = Some ((sample_user 1)\<lparr>password := Some ''$argon2id$Secret123''\<rparr>)"
    by (simp add: argon2_server_def with_password_db find_row_def sample_user_def)
  from signup_password_is_final [OF r u] no h
  have "fst (changePassword sample_auth 1 ''Secret123'' ''Secret456'' (app ?s)) = Inl (UnauthorizedException ''Invalid credentials'')"
    by simp
  with reaches_mono [OF r] show ?thesis by blast
qed

end
