(* ===== verification/Spec2Isabelle.thy ===== *)
theory Spec2Isabelle
  imports Serial PaymentRaces Seed LoadDrive System Deadlines Timetable Paid SeatKept Isolation GoogleLink Passwords
begin

text \<open>
  Verification of the movie reservation backend (directory src/backend): a NestJS
  service over PostgreSQL (Prisma), Redis and Stripe, with a WebSocket gateway.

  The parts and their theories, in the order the code depends on them:

  \<^item> Prelude: the service monad (state passing with errors as values, as the async
    methods that return or throw), time arithmetic, shared lemmas.
  \<^item> RowStore: a table with an id sequence and the Prisma commands the repositories use
    (create, update, updateMany, delete, findUnique, findMany), with P2002, P2003 and
    P2025 as error values.
  \<^item> Schema: prisma/schema.prisma and its migrations. Records for the models, the
    foreign keys with their delete rules, the unique indexes, the partial index
    reservation_active_seat_screening_uniq; db_ok says that a database meets them all.
  \<^item> KeyStore: Redis keys with expiry (the commands GET, SET EX, DEL of the caches) and
    the contract of a cache-aside read.
  \<^item> World: the state every service runs on: the database, the caches and keys, whether
    Redis is reachable, the emitted events, the Prometheus counters, and the audit log
    (common/services/audit.service.ts).
  \<^item> Sample: one concrete database for the witnesses.
  \<^item> RateLimiter: redis/rate-limiter.service.ts with its Lua script,
    common/guards/rate-limit.guard.ts, common/middleware/ip-rate-limit.middleware.ts.
  \<^item> Movies: movies.service.ts, movies.repository.ts, movies.cache.ts, the DTOs.
  \<^item> Halls: halls.service.ts, halls.repository.ts with row labels and the seat grid.
  \<^item> Screenings: screenings.service.ts, screenings.repository.ts, screenings.cache.ts:
    the schedule of a hall, the seat map, the summary, cancel and delete.
  \<^item> PaymentAbuse: redis/payment-abuse.service.ts.
  \<^item> Reservations: reservations.service.ts and repository, reservation-breaker.service.ts,
    concurrency.guard.ts, the cache and metrics listeners, the expiry job.
  \<^item> Transition: reachability, invariants and termination of step relations.
  \<^item> SeatLock: the holdSeat transaction statement by statement, with row locks, any
    interleaving of any number of requests, faults and concurrent status changes.
  \<^item> Serial: every interleaved run of these transactions is matched, step by step, by a run
    that does each request as a whole (holdSeat_tx of Reservations).
  \<^item> Payments: payments.service.ts and repository: checkout, the Stripe webhook,
    refunds, reconciliation of stuck payments. PaymentFlows proves what checkout and the
    webhook do, Refunds what cancellation and reconciliation do.
  \<^item> Seed: prisma/seed.ts, the refund tiers and what a cancellation gets back with them.
  \<^item> LoadSeed: load-test/seed.ts, the fixture of the load tests: what it leaves, that its schedule
    is one the service refuses and that its users cannot sign in.
  \<^item> LoadDrive: load-test/processor.js, what a virtual user does around its requests: its login
    fails on that fixture, the hot screenings are shared evenly, it picks free seats.
  \<^item> Tokens: auth/token.service.ts and the JWT strategies: access versions, refresh
    sessions, their rotation and revocation.
  \<^item> Otp: auth/otp.service.ts and the validated settings of auth/auth-env.config.ts.
  \<^item> Auth: auth/auth.service.ts and repository, the local and Google strategies, the Google
    flows, the mail of a code (mailer/mailer.service.ts), the DTOs.
  \<^item> Users: users/users.service.ts and repository: name, address and password changes.
  \<^item> Gateway: gateway/screening.gateway.ts and reservation-broadcast.listener.ts: the
    sockets of users, rooms, the handshake's cookie, joins and broadcasts.
  \<^item> Api: every controller with its guards (roles.guard.ts, the JWT and rate-limit guards),
    validation, audit records and cookies, the metrics interceptor
    (common/interceptors/metrics.interceptor.ts) and the middleware of app.module.ts; a
    request is the function handle.
  \<^item> Access: what requests may do: who is refused, who changes the catalogue, what the
    audit log and the HTTP metrics say.
  \<^item> Ownership: the abstract machine of seat ownership and the proof that every operation
    on reservations refines it.
  \<^item> Settlement: what makes a reservation CONFIRMED over runs of these operations, and what a
    Stripe event does that comes again after another event of its payment.
  \<^item> PaymentRaces: cancellation, refund and checkout cut at the awaits between which other
    requests run: what many cancellations of one reservation ask of Stripe, a payment that
    arrives during a cancellation, a hold that ends during a checkout.
  \<^item> Isolation: a signed-in user's requests change no row of another user.
  \<^item> GoogleLink: what the link flow binds a Google account to.
  \<^item> System: requests, scheduled jobs, socket events and outages of Redis as one step
    relation, and the invariant of its reachable states.
  \<^item> RowLaws: invariants that look at the reservation table only, and what the administrators'
    routes do to it.
  \<^item> Passwords: what becomes of a password set at sign-up in any run of the whole system.
  \<^item> Awaits: the same program with the requests cut that read first and write after another await
    without a transaction (the deletes of movies, screenings and halls, the creation and the
    update of a screening, the cancellation of a reservation) and the reconciliation job cut
    between its payments; the halves of any number of them and all other operations in any
    order (cut_step), with the equation that the halves in turn are the request (handle_halves).
  \<^item> Deadlines: laws that every row of the reservation table obeys in all of these states, and
    the deadline of a hold as one of them.
  \<^item> Paid: what makes a reservation CONFIRMED in any run of the whole system.
  \<^item> SeatKept: how a seat is lost in any run of the cut program, the race of a booking with a
    deletion included.
  \<^item> Timetable: the schedule of the halls in the runs of the cut program in which the requests that
    schedule take turns, and the update of a movie that breaks it.

  What is one step. In system_step (System, Deadlines, Paid, Passwords, Access, Isolation,
  Ownership, Settlement) a request or a job runs as a whole before the next one starts,
  whereas Node runs other requests at every await. The claims over these runs are therefore
  about requests that do not overlap. Where the overlap matters it is modelled: the statements
  of the hold transaction (SeatLock, Serial), the parts of cancellation, refund and checkout
  (PaymentRaces), the two commands of a revocation (Tokens), a join of a room (Gateway), and the
  halves of Awaits for the loss of a seat and the schedule (SeatKept, Timetable). The races
  these show are stated as theorems: createScreening_race, revoke_race_leaves_session,
  cancel_loses_payment, checkout_outlives_hold, join_misses_reservation, and deletion_race.
  The order of the halves is free in cut_step; orderly_step of Timetable keeps scheduling requests
  from overlapping.

  How they interact. A request passes the IP middleware, the guards, the interceptor and
  the validation to one handler, which calls service methods. A method reads and writes the
  database through its repository, reads Redis caches best-effort (when Redis is down a
  read is a miss and a write is dropped), reads tokens, codes and lockouts strictly (when
  Redis is down it throws), and emits reservation events. The cache and metrics listeners
  of an event run in the same turn; the broadcast listener of the gateway sends it to the
  room of the screening. Payments call the reservations service to extend, confirm and
  cancel holds; users call authentication for codes, tokens and cookies.

  What the lemmas show. Each theory proves for every operation which part of the world it
  changes (the keeps lemmas) and that it preserves db_ok. The claims are the functional
  results on every branch, the safety and serialisability of seats under concurrency, the
  refinement of seat ownership, that no hold outlives its deadline, the schedule of the
  halls over whole runs, that a reservation is confirmed only on Stripe's word and lost only
  when given up, that users cannot touch each other's rows, the exactness of the hold
  expiry, the coherence of reads after cancellations, the sliding window of the rate limiter
  against a specification that counts requests, the money side of the payments, the life of
  sessions, codes and passwords, what guards refuse, and the delivery of notices to sockets.
  Behaviour of the code that surprises is stated as a theorem too.

  Interfaces. The locale of a cache-aside read, of a table with its laws, and of a step
  relation with an invariant (invariant_steps) are stated once and interpreted on the
  model: on the row locks, the tokens, the gateway (hub_ok, gauge_ok) and the whole system.
  The locale simulation lifts a matching of single steps to runs and is interpreted on the
  interleaved transactions; reservation_law is the contract of a predicate on reservations
  with the writes of the services, interpreted on the deadline of a hold.

  Parameters. Code outside the repository is an argument: the Stripe client (its answers
  to each call), JWT signing and verification, argon2 and bcrypt, the mailer, the email
  check of the validator, Google's consent page and answer, the circuit breaker's decision to run, reject
  or time out, the database fault a write may meet, random ids and codes, the clock. The
  commands of PostgreSQL and Redis and the rooms of Socket.IO are modelled by their
  documented effect.

  Fuel and bounds. No definition uses fuel: the row label loop ends by a measure, and the
  race of hold transactions is shown to end, with every request answered, within four statements per
  request. Integers are unbounded; where a column is INT4 and the input is not
  bounded before, the write fails for a value that does not fit (fits_int32: the duration of a
  movie, the capacity of a hall, the price and the ids of a screening, the amount of a payment). An
  id in a path is looked up as it is: for one beyond INT4 the client fails (a 500) where the
  model answers 404, in both cases without effect.

  Not modelled: dependency injection, bootstrap and Swagger (configuration of the
  framework), the connection set-up of Redis and Prisma, passport's exchange with Google (a
  callback request carries its outcome), the load-test scripts that run
  SQL files or draw results, the generated dist directory. The columns
  updatedAt, and createdAt of users, are omitted, since nothing reads them.
\<close>

end
